(* ===== verification/Js_Prelude.thy ===== *)
theory Js_Prelude
  imports Complex_Main "HOL-Library.AList" "HOL-Library.Product_Lexorder" "HOL-Library.Multiset"
    "HOL-Library.Word" "HOL-Library.While_Combinator"
begin

text \<open>
  Shared ground of the development: the fragment of TypeScript's runtime the
  modelled code relies on, and the generic contracts the components share.

  \<^item> Exceptions are values: a call that may throw returns \<open>exn + 'a\<close>.
  \<^item> A JavaScript \<open>Map\<close> or plain object iterates in insertion order, so it is an
    association list; \<open>set\<close> and \<open>delete\<close> are \<open>AList.update\<close> (in place, or appended)
    and \<open>AList.delete\<close>.
  \<^item> \<open>BigInt(text)\<close> and \<open>n.toString()\<close> are modelled on character lists, because the
    program keeps every base-unit amount as a decimal string. A character is one
    code unit below 256.
  \<^item> Three locales state the contracts components are built from: a conditional write
    on one row of a keyed store, a step relation with an invariant, and an
    enforcement of an edge relation on a status field.
\<close>

named_theorems js_simps \<open>unfolding rules of the runtime fragment\<close>

section \<open>Exceptions and results\<close>

text \<open>
  The exception classes the modelled code throws: the language's own
  \<open>SyntaxError\<close>/\<open>RangeError\<close>, plain \<open>Error\<close>, and Nest's HTTP exceptions, which are
  given by their status code and message. \<open>IllegalTransition\<close> carries the four
  constructor arguments of the intent state machine's own error class.
\<close>

datatype exn =
    SyntaxError
  | RangeError string
  | PlainError string
  | HttpError nat string
  | IllegalTransition string string string string

type_synonym 'a result = "exn + 'a"
type_synonym ('k, 'v) jsmap = "('k \<times> 'v) list"

abbreviation BadRequest :: "string \<Rightarrow> exn" where "BadRequest \<equiv> HttpError 400"
abbreviation Forbidden :: "string \<Rightarrow> exn" where "Forbidden \<equiv> HttpError 403"
abbreviation NotFound :: "string \<Rightarrow> exn" where "NotFound \<equiv> HttpError 404"
abbreviation Conflict :: "string \<Rightarrow> exn" where "Conflict \<equiv> HttpError 409"
abbreviation Gone :: "string \<Rightarrow> exn" where "Gone \<equiv> HttpError 410"
abbreviation Unprocessable :: "string \<Rightarrow> exn" where "Unprocessable \<equiv> HttpError 422"
abbreviation ServiceUnavailable :: "string \<Rightarrow> exn" where "ServiceUnavailable \<equiv> HttpError 503"

definition or_throw :: "exn \<Rightarrow> 'a option \<Rightarrow> 'a result" where
  "or_throw e x = (case x of None \<Rightarrow> Inl e | Some v \<Rightarrow> Inr v)"

lemma or_throw_simps [simp]:
  "or_throw e None = Inl e" "or_throw e (Some v) = Inr v"
  by (simp_all add: or_throw_def)

lemma or_throw_Inr [simp]: "or_throw e x = Inr v \<longleftrightarrow> x = Some v"
  by (cases x) auto

text \<open>\<open>x ?? d\<close>.\<close>

definition coalesce :: "'a option \<Rightarrow> 'a \<Rightarrow> 'a" where
  "coalesce x d = (case x of None \<Rightarrow> d | Some v \<Rightarrow> v)"

lemma coalesce_simps [simp]: "coalesce None d = d" "coalesce (Some v) d = v"
  by (simp_all add: coalesce_def)

section \<open>Strings\<close>

text \<open>White space that \<open>trim\<close> and \<open>BigInt\<close> skip, among the code units below 256.\<close>

definition is_js_space :: "char \<Rightarrow> bool" where
  "is_js_space c \<longleftrightarrow> (let n = (of_char c :: nat) in (9 \<le> n \<and> n \<le> 13) \<or> n = 32 \<or> n = 160)"

definition js_trim :: "string \<Rightarrow> string" where
  "js_trim s = rev (dropWhile is_js_space (rev (dropWhile is_js_space s)))"

definition char_lower :: "char \<Rightarrow> char" where
  "char_lower c = (let n = (of_char c :: nat)
     in if (65 \<le> n \<and> n \<le> 90) \<or> (192 \<le> n \<and> n \<le> 222 \<and> n \<noteq> 215) then char_of (n + 32) else c)"

definition toLowerCase :: "string \<Rightarrow> string" where
  "toLowerCase s = map char_lower s"

definition is_digit :: "char \<Rightarrow> bool" where
  "is_digit c \<longleftrightarrow> (let n = (of_char c :: nat) in 48 \<le> n \<and> n \<le> 57)"

text \<open>The regular expression \<open>/^\d+$/\<close>.\<close>

definition all_digits :: "string \<Rightarrow> bool" where
  "all_digits s \<longleftrightarrow> s \<noteq> [] \<and> list_all is_digit s"

text \<open>\<open>text.split(c)\<close> for a one-character separator: never empty.\<close>

fun js_split :: "char \<Rightarrow> string \<Rightarrow> string list" where
  "js_split c [] = [[]]"
| "js_split c (x # xs) =
     (if x = c then [] # js_split c xs
      else (case js_split c xs of [] \<Rightarrow> [[x]] | y # ys \<Rightarrow> (x # y) # ys))"

text \<open>\<open>parts.join(sep)\<close>.\<close>

fun js_join :: "string \<Rightarrow> string list \<Rightarrow> string" where
  "js_join sep [] = []"
| "js_join sep [x] = x"
| "js_join sep (x # y # ys) = x @ sep @ js_join sep (y # ys)"

text \<open>\<open>a < b\<close> on strings: code unit by code unit, a proper prefix first.\<close>

fun js_str_less :: "string \<Rightarrow> string \<Rightarrow> bool" where
  "js_str_less _ [] = False"
| "js_str_less [] (_ # _) = True"
| "js_str_less (x # xs) (y # ys) =
     ((of_char x :: nat) < of_char y \<or> (x = y \<and> js_str_less xs ys))"

lemma separated_unique:
  "c \<notin> set a \<Longrightarrow> c \<notin> set b \<Longrightarrow> a @ c # x = b @ c # y \<longleftrightarrow> a = b \<and> x = y"
proof (induction a arbitrary: b)
  case (Cons z a)
  then show ?case by (cases b) auto
qed (auto simp: Cons_eq_append_conv)

lemma js_split_nonempty [simp]: "js_split c s \<noteq> []"
  by (induction s) (auto split: list.splits)

lemma js_split_no_sep: "c \<notin> set s \<Longrightarrow> js_split c s = [s]"
  by (induction s) auto

lemma js_split_append: "c \<notin> set s \<Longrightarrow> js_split c (s @ c # t) = s # js_split c t"
  by (induction s) auto

lemma js_split_join:
  assumes "parts \<noteq> []" and "\<forall>p \<in> set parts. c \<notin> set p"
  shows "js_split c (js_join [c] parts) = parts"
  using assms
proof (induction "[c]" parts rule: js_join.induct)
  case (3 x y ys)
  then show ?case by (simp add: js_split_append)
qed (auto simp: js_split_no_sep)

section \<open>Slices\<close>

text \<open>\<open>list.slice(from, to)\<close>: a negative index counts from the end, both are clamped.\<close>

definition slice_index :: "nat \<Rightarrow> int \<Rightarrow> nat" where
  "slice_index n i = (if i < 0 then nat (max 0 (int n + i)) else min n (nat i))"

definition js_slice :: "int \<Rightarrow> int \<Rightarrow> 'a list \<Rightarrow> 'a list" where
  "js_slice a b xs = (let n = length xs; i = slice_index n a; j = slice_index n b
     in take (j - i) (drop i xs))"

lemma js_slice_nonneg:
  assumes "0 \<le> a" and "0 \<le> l"
  shows "js_slice a (a + l) xs = take (nat l) (drop (nat a) xs)"
  using assms by (auto simp: js_slice_def slice_index_def Let_def nat_add_distrib min_def not_le)

lemma set_js_slice: "set (js_slice a b xs) \<subseteq> set xs"
  by (auto simp: js_slice_def Let_def dest: in_set_takeD in_set_dropD)

lemma sorted_js_slice: "sorted (map f xs) \<Longrightarrow> sorted (map f (js_slice a b xs))"
  by (simp add: js_slice_def Let_def take_map[symmetric] drop_map[symmetric] sorted_wrt_take sorted_wrt_drop)

section \<open>Decimal text and BigInt\<close>

definition digit_char :: "nat \<Rightarrow> char" where
  "digit_char d = char_of (48 + d)"

text \<open>The value of a digit in the given base: \<open>0-9\<close>, then \<open>a-f\<close> in either case.\<close>

definition digit_value :: "nat \<Rightarrow> char \<Rightarrow> nat option" where
  "digit_value base c =
     (let n = (of_char c :: nat);
          v = (if 48 \<le> n \<and> n \<le> 57 then n - 48
               else if 97 \<le> n \<and> n \<le> 102 then n - 87
               else if 65 \<le> n \<and> n \<le> 70 then n - 55 else base)
      in if v < base then Some v else None)"

fun parse_digits :: "nat \<Rightarrow> nat \<Rightarrow> string \<Rightarrow> nat option" where
  "parse_digits base acc [] = Some acc"
| "parse_digits base acc (c # cs) =
     (case digit_value base c of None \<Rightarrow> None | Some d \<Rightarrow> parse_digits base (acc * base + d) cs)"

definition parse_nat_base :: "nat \<Rightarrow> string \<Rightarrow> nat option" where
  "parse_nat_base base s = (if s = [] then None else parse_digits base 0 s)"

fun nat_to_string :: "nat \<Rightarrow> string" where
  "nat_to_string n =
     (if n < 10 then [digit_char n] else nat_to_string (n div 10) @ [digit_char (n mod 10)])"

declare nat_to_string.simps [simp del]

text \<open>\<open>n.toString()\<close> on a bigint (and on an integral number).\<close>

definition toString :: "int \<Rightarrow> string" where
  "toString n = (if n < 0 then CHR ''-'' # nat_to_string (nat (- n)) else nat_to_string (nat n))"

text \<open>
  \<open>BigInt(text)\<close>: surrounding white space is skipped, the empty text is zero, a
  \<open>0x\<close>/\<open>0o\<close>/\<open>0b\<close> prefix selects the base and admits no sign, anything else must be
  an optionally signed decimal. \<open>None\<close> is the \<open>SyntaxError\<close>.
\<close>

definition BigInt :: "string \<Rightarrow> int option" where
  "BigInt s =
     (case js_trim s of
        [] \<Rightarrow> Some 0
      | c # cs \<Rightarrow>
          if c = CHR ''0'' \<and> cs \<noteq> [] \<and> hd cs \<in> set ''xX''
            then map_option int (parse_nat_base 16 (tl cs))
          else if c = CHR ''0'' \<and> cs \<noteq> [] \<and> hd cs \<in> set ''oO''
            then map_option int (parse_nat_base 8 (tl cs))
          else if c = CHR ''0'' \<and> cs \<noteq> [] \<and> hd cs \<in> set ''bB''
            then map_option int (parse_nat_base 2 (tl cs))
          else if c = CHR ''-'' then map_option (\<lambda>n. - int n) (parse_nat_base 10 cs)
          else if c = CHR ''+'' then map_option int (parse_nat_base 10 cs)
          else map_option int (parse_nat_base 10 (c # cs)))"


lemma digit_char_eval [simp]:
  "digit_char 0 = CHR ''0''" "digit_char (Suc 0) = CHR ''1''" "digit_char 1 = CHR ''1''" "digit_char 2 = CHR ''2''"
  "digit_char 3 = CHR ''3''" "digit_char 4 = CHR ''4''" "digit_char 5 = CHR ''5''" "digit_char 6 = CHR ''6''"
  "digit_char 7 = CHR ''7''" "digit_char 8 = CHR ''8''" "digit_char 9 = CHR ''9''"
  by code_simp+

lemma of_char_digit [simp]: "d < 10 \<Longrightarrow> (of_char (digit_char d) :: nat) = 48 + d"
  by (simp add: digit_char_def)

lemma digit_value_digit [simp]: "d < 10 \<Longrightarrow> digit_value 10 (digit_char d) = Some d"
  by (simp add: digit_value_def)

lemma is_digit_digit [simp]: "d < 10 \<Longrightarrow> is_digit (digit_char d)"
  by (simp add: is_digit_def)

lemma nat_to_string_nonempty [simp]: "nat_to_string n \<noteq> []"
  by (subst nat_to_string.simps) simp

lemma nat_to_string_digits: "list_all is_digit (nat_to_string n)"
proof (induction n rule: nat_to_string.induct)
  case (1 n)
  then show ?case by (subst nat_to_string.simps) (simp add: list_all_append)
qed

lemma all_digits_nat_to_string [simp]: "all_digits (nat_to_string n)"
  by (simp add: all_digits_def nat_to_string_digits)

lemma parse_digits_append:
  "parse_digits b acc (xs @ ys) =
     (case parse_digits b acc xs of None \<Rightarrow> None | Some a \<Rightarrow> parse_digits b a ys)"
  by (induction xs arbitrary: acc) (auto split: option.splits)

lemma parse_digits_nat_to_string: "parse_digits 10 0 (nat_to_string n) = Some n"
proof (induction n rule: nat_to_string.induct)
  case (1 n)
  then show ?case
    by (subst nat_to_string.simps) (simp add: parse_digits_append)
qed

lemma digit_no_space: "is_digit c \<Longrightarrow> \<not> is_js_space c"
  by (auto simp: is_digit_def is_js_space_def Let_def)

lemma js_trim_no_space: "list_all (\<lambda>c. \<not> is_js_space c) s \<Longrightarrow> js_trim s = s"
proof -
  assume a: "list_all (\<lambda>c. \<not> is_js_space c) s"
  have id: "dropWhile is_js_space t = t" if "list_all (\<lambda>c. \<not> is_js_space c) t" for t
    using that by (cases t) auto
  show ?thesis using a by (simp add: js_trim_def id list_all_rev)
qed

lemma js_trim_digits [simp]: "all_digits s \<Longrightarrow> js_trim s = s"
  by (rule js_trim_no_space) (auto simp: all_digits_def list_all_iff digit_no_space)

lemma digit_not_letter:
  assumes "is_digit c"
  shows "c \<notin> set ''xXoObB''" and "c \<noteq> CHR ''-''" and "c \<noteq> CHR ''+''"
  using assms by (auto simp: is_digit_def)

lemma BigInt_digits: "all_digits s \<Longrightarrow> BigInt s = map_option int (parse_digits 10 0 s)"
proof -
  assume a: "all_digits s"
  then obtain c cs where s: "s = c # cs" and c: "is_digit c" and cs: "list_all is_digit cs"
    by (cases s) (auto simp: all_digits_def)
  have h: "hd cs \<notin> set ''xX''" "hd cs \<notin> set ''oO''" "hd cs \<notin> set ''bB''" if "cs \<noteq> []"
    using cs that by (cases cs; auto dest: digit_not_letter(1))+
  have t: "js_trim (c # cs) = c # cs" using a s js_trim_digits by simp
  show ?thesis
    unfolding BigInt_def s t list.case parse_nat_base_def
    using h digit_not_letter(2,3)[OF c] by (cases "cs = []") (simp_all del: list.set)
qed

lemma BigInt_nat_to_string [simp]: "BigInt (nat_to_string n) = Some (int n)"
  by (simp add: BigInt_digits parse_digits_nat_to_string)

lemma js_trim_minus:
  "list_all is_digit s \<Longrightarrow> js_trim (CHR ''-'' # s) = CHR ''-'' # s"
  by (rule js_trim_no_space)
     (auto simp: list_all_iff digit_no_space, simp add: is_js_space_def)

text \<open>Every bigint survives being written out and read back.\<close>

lemma BigInt_toString [simp]: "BigInt (toString n) = Some n"
proof (cases "n < 0")
  case True
  then show ?thesis
    using js_trim_minus[OF nat_to_string_digits, of "nat (- n)"]
    by (simp add: toString_def BigInt_def parse_nat_base_def parse_digits_nat_to_string)
qed (simp add: toString_def)

lemma toString_inject [simp]: "toString a = toString b \<longleftrightarrow> a = b"
  by (metis BigInt_toString option.inject)

lemma parse_digits_digits: "list_all is_digit s \<Longrightarrow> \<exists>n. parse_digits 10 acc s = Some n"
proof (induction s arbitrary: acc)
  case (Cons c s)
  then have "digit_value 10 c = Some (of_char c - 48)"
    by (auto simp: is_digit_def digit_value_def Let_def)
  with Cons show ?case by simp
qed simp

lemma all_digits_BigInt: "all_digits s \<Longrightarrow> \<exists>n. BigInt s = Some n \<and> 0 \<le> n"
  using parse_digits_digits[of s 0] by (auto simp: BigInt_digits all_digits_def)

lemma all_digits_toString [simp]: "0 \<le> n \<Longrightarrow> all_digits (toString n)"
  by (simp add: toString_def)

lemma length_nat_to_string: "n < 10 ^ Suc k \<Longrightarrow> length (nat_to_string n) \<le> Suc k"
proof (induction k arbitrary: n)
  case 0
  then show ?case by (subst nat_to_string.simps) simp
next
  case (Suc k)
  have "n div 10 < 10 ^ Suc k" using Suc.prems by (simp add: div_less_iff_less_mult mult.commute)
  then show ?case using Suc.IH[of "n div 10"] by (subst nat_to_string.simps) simp
qed

lemma parse_digits_leading_zeros [simp]:
  "parse_digits 10 0 (replicate j CHR ''0'' @ s) = parse_digits 10 0 s"
  by (induction j) (simp_all add: digit_value_def)

lemma digits_chars: "list_all is_digit s \<Longrightarrow> \<not> is_digit c \<Longrightarrow> c \<notin> set s"
  by (auto simp: list_all_iff)

text \<open>\<open>a / b\<close> on bigints truncates toward zero.\<close>

definition bigint_div :: "int \<Rightarrow> int \<Rightarrow> int" where
  "bigint_div a b = (if (a < 0) = (b < 0) then \<bar>a\<bar> div \<bar>b\<bar> else - (\<bar>a\<bar> div \<bar>b\<bar>))"

lemma bigint_div_nonneg [simp]: "0 \<le> a \<Longrightarrow> 0 < b \<Longrightarrow> bigint_div a b = a div b"
  by (simp add: bigint_div_def)

section \<open>Maps in insertion order\<close>

text \<open>\<open>{ ...a, ...b }\<close>: the later spread wins, in place where the key exists.\<close>

definition spread :: "('k, 'v) jsmap \<Rightarrow> ('k, 'v) jsmap \<Rightarrow> ('k, 'v) jsmap" where
  "spread a b = fold (\<lambda>(k, v). AList.update k v) b a"

text \<open>\<open>[...map.values()]\<close>.\<close>

abbreviation js_values :: "('k, 'v) jsmap \<Rightarrow> 'v list" where
  "js_values m \<equiv> map snd m"

abbreviation wf_map :: "('k, 'v) jsmap \<Rightarrow> bool" where
  "wf_map m \<equiv> distinct (map fst m)"

declare map_of_eq_Some_iff [simp del] Some_eq_map_of_iff [simp del]

lemma map_of_js_update [simp]: "map_of (AList.update k v m) = (map_of m)(k \<mapsto> v)"
  by (rule AList.update_conv')

lemma map_of_js_delete [simp]: "map_of (AList.delete k m) = (map_of m)(k := None)"
  by (rule AList.delete_conv')

lemma wf_map_update [simp]: "wf_map m \<Longrightarrow> wf_map (AList.update k v m)"
  by (rule AList.distinct_update)

lemma wf_map_delete [simp]: "wf_map m \<Longrightarrow> wf_map (AList.delete k m)"
  by (rule AList.distinct_delete)

lemma wf_map_mem: "wf_map m \<Longrightarrow> (k, v) \<in> set m \<longleftrightarrow> map_of m k = Some v"
  by (simp add: map_of_eq_Some_iff)

lemma mem_js_values: "wf_map m \<Longrightarrow> v \<in> set (js_values m) \<longleftrightarrow> (\<exists>k. map_of m k = Some v)"
  by (force simp: wf_map_mem[symmetric])

lemma update_fresh: "map_of m k = None \<Longrightarrow> AList.update k v m = m @ [(k, v)]"
  by (induction m) (auto split: if_splits)

text \<open>
  Replacing the value at an existing key keeps every position: a filter or a fold over
  the values changes only there.
\<close>

lemma update_split:
  assumes "wf_map m" and "map_of m k = Some v"
  shows "\<exists>xs ys. m = xs @ (k, v) # ys \<and> k \<notin> fst ` set xs \<and> k \<notin> fst ` set ys
           \<and> (\<forall>w. AList.update k w m = xs @ (k, w) # ys)"
  using assms
proof (induction m)
  case (Cons p m)
  obtain k' v' where p: "p = (k', v')" by force
  show ?case
  proof (cases "k' = k")
    case True
    with Cons.prems p show ?thesis by (intro exI[of _ "[]"] exI[of _ m]) auto
  next
    case False
    with Cons p obtain xs ys where "m = xs @ (k, v) # ys" "k \<notin> fst ` set xs" "k \<notin> fst ` set ys"
      "\<forall>w. AList.update k w m = xs @ (k, w) # ys" by auto
    with False p show ?thesis by (intro exI[of _ "p # xs"] exI[of _ ys]) auto
  qed
qed simp

lemma sum_js_update:
  fixes w :: "'v \<Rightarrow> 'a::comm_monoid_add"
  assumes "wf_map m" and "map_of m k = Some v"
  shows "sum_list (map w (js_values (AList.update k v' m))) + w v
         = sum_list (map w (js_values m)) + w v'"
  using update_split[OF assms] by (auto simp: ac_simps)

lemma sum_js_fresh:
  assumes "map_of m k = None"
  shows "sum_list (map w (js_values (AList.update k v m))) = sum_list (map w (js_values m)) + w v"
  using assms by (simp add: update_fresh)

lemma map_of_rev: "wf_map m \<Longrightarrow> map_of (rev m) = map_of m"
  by (rule map_of_inject_set[THEN iffD2]) (simp_all add: rev_map[symmetric])

lemma map_of_spread: "map_of (spread a b) k = (case map_of (rev b) k of Some v \<Rightarrow> Some v | None \<Rightarrow> map_of a k)"
  by (induction b arbitrary: a) (auto simp: spread_def map_add_def split: option.splits)

lemma wf_map_spread [simp]: "wf_map a \<Longrightarrow> wf_map (spread a b)"
  by (induction b arbitrary: a) (auto simp: spread_def)

lemma map_of_spread_wf:
  "wf_map b \<Longrightarrow> map_of (spread a b) k = (case map_of b k of Some v \<Rightarrow> Some v | None \<Rightarrow> map_of a k)"
  by (simp add: map_of_spread map_of_rev)

lemma distinct_map_sort_key [simp]: "distinct (map f (sort_key k xs)) \<longleftrightarrow> distinct (map f xs)"
  by (metis mset_eq_imp_distinct_iff mset_map mset_sort)

section \<open>Interfaces\<close>

text \<open>
  The contract every repository write of the program follows: look the row up, test a
  guard on it, and replace it, or change nothing and report that. \<open>holds\<close> evaluates a
  guard and \<open>app\<close> a patch, so that a repository can keep its own vocabulary of both.
\<close>

locale conditional_write =
  fixes get :: "'s \<Rightarrow> 'k \<Rightarrow> 'r option"
    and holds :: "'g \<Rightarrow> 'r \<Rightarrow> bool"
    and app :: "'k \<Rightarrow> 'p \<Rightarrow> 'r \<Rightarrow> 'r"
    and cwrite :: "'s \<Rightarrow> 'k \<Rightarrow> 'g \<Rightarrow> 'p \<Rightarrow> 's \<times> 'r option"
  assumes hit: "get s k = Some r \<Longrightarrow> holds g r \<Longrightarrow> snd (cwrite s k g p) = Some (app k p r)"
    and stored: "get s k = Some r \<Longrightarrow> holds g r \<Longrightarrow> get (fst (cwrite s k g p)) k = Some (app k p r)"
    and absent: "get s k = None \<Longrightarrow> cwrite s k g p = (s, None)"
    and refused: "get s k = Some r \<Longrightarrow> \<not> holds g r \<Longrightarrow> cwrite s k g p = (s, None)"
    and other: "k' \<noteq> k \<Longrightarrow> get (fst (cwrite s k g p)) k' = get s k'"
begin

lemma won_iff:
  "snd (cwrite s k g p) = Some r' \<longleftrightarrow> (\<exists>r. get s k = Some r \<and> holds g r \<and> r' = app k p r)"
  by (cases "get s k"; cases "holds g (the (get s k))") (auto simp: hit absent refused)

lemma lost_unchanged: "snd (cwrite s k g p) = None \<Longrightarrow> fst (cwrite s k g p) = s"
  by (cases "get s k"; cases "holds g (the (get s k))") (auto simp: hit absent refused)

lemma get_after:
  "get (fst (cwrite s k g p)) k' =
     (if k' = k then (case get s k of None \<Rightarrow> None | Some r \<Rightarrow> Some (if holds g r then app k p r else r))
      else get s k')"
  by (cases "k' = k"; cases "get s k"; cases "holds g (the (get s k))")
     (auto simp: other stored absent refused)

text \<open>A winner whose patch falsifies the other writer's guard leaves that writer nothing.\<close>

lemma race_single_winner:
  assumes "snd (cwrite s k g p) \<noteq> None"
    and "\<And>r. holds g r \<Longrightarrow> \<not> holds g' (app k p r)"
  shows "cwrite (fst (cwrite s k g p)) k g' p' = (fst (cwrite s k g p), None)"
proof -
  obtain r where "get s k = Some r" "holds g r"
    using assms(1) won_iff[of s k g p] by (cases "snd (cwrite s k g p)") auto
  then show ?thesis using refused[OF stored] assms(2) by blast
qed

lemma row_invariant:
  assumes "\<And>k r. get s k = Some r \<Longrightarrow> P r" and "\<And>r. P r \<Longrightarrow> holds g r \<Longrightarrow> P (app k p r)"
    and "get (fst (cwrite s k g p)) k' = Some r'"
  shows "P r'"
  using assms by (auto simp: get_after split: if_splits option.splits)

end

text \<open>A transition system with an invariant that holds along every run.\<close>

locale inv_system =
  fixes step :: "'s \<Rightarrow> 's \<Rightarrow> bool" and inv :: "'s \<Rightarrow> bool"
  assumes step_inv: "step s s' \<Longrightarrow> inv s \<Longrightarrow> inv s'"
begin

lemma run_inv: "step\<^sup>*\<^sup>* s s' \<Longrightarrow> inv s \<Longrightarrow> inv s'"
  by (induction rule: rtranclp_induct) (auto intro: step_inv)

lemma run_relation:
  assumes "step\<^sup>*\<^sup>* s s'" and "inv s"
    and "\<And>a. R a a" and "\<And>a b c. R a b \<Longrightarrow> R b c \<Longrightarrow> R a c"
    and "\<And>a b. step a b \<Longrightarrow> inv a \<Longrightarrow> R a b"
  shows "R s s'"
  using assms(1,2)
proof (induction rule: rtranclp_induct)
  case (step b c)
  then show ?case using run_inv[OF step.hyps(1)] assms(4,5) by blast
qed (rule assms(3))

end

text \<open>
  A keyed store whose rows carry a status that only moves along the edges of a declared
  relation. Rows are never lost by a step.
\<close>

locale status_system = inv_system step inv
  for step :: "'s \<Rightarrow> 's \<Rightarrow> bool" and inv :: "'s \<Rightarrow> bool" +
  fixes status :: "'s \<Rightarrow> 'k \<Rightarrow> 'st option" and edge :: "'st \<Rightarrow> 'st \<Rightarrow> bool"
  assumes step_edge: "step s s' \<Longrightarrow> inv s \<Longrightarrow> status s k = Some a
      \<Longrightarrow> \<exists>b. status s' k = Some b \<and> edge\<^sup>*\<^sup>* a b"
begin

lemma run_path:
  assumes "step\<^sup>*\<^sup>* s s'" and "inv s" and "status s k = Some a"
  shows "\<exists>b. status s' k = Some b \<and> edge\<^sup>*\<^sup>* a b"
  using assms
proof (induction rule: rtranclp_induct)
  case (step y z)
  then obtain b where "status y k = Some b" "edge\<^sup>*\<^sup>* a b" by blast
  moreover obtain c where "status z k = Some c" "edge\<^sup>*\<^sup>* b c"
    using step_edge[OF step.hyps(2) run_inv[OF step.hyps(1)]] step.prems calculation by blast
  ultimately show ?case by (meson rtranclp_trans)
qed blast

lemma sink_forever:
  assumes "step\<^sup>*\<^sup>* s s'" and "inv s" and "status s k = Some a" and "\<And>b. \<not> edge a b"
  shows "status s' k = Some a"
proof -
  obtain b where b: "status s' k = Some b" "edge\<^sup>*\<^sup>* a b" using run_path[OF assms(1-3)] by blast
  from b(2) assms(4) have "b = a" by (metis converse_rtranclpE)
  with b(1) show ?thesis by simp
qed

end

end
