(* ===== verification/Intent_Types.thy ===== *)
theory Intent_Types
  imports Js_Prelude
begin

text \<open>
  The data of \<^verbatim>\<open>src/intents/intents.types.ts\<close> and the auction terms of
  \<^verbatim>\<open>src/auctions/dutch.ts\<close>. Field names carry a short prefix per record (\<open>i_\<close> for
  \<open>Intent\<close>, \<open>f_\<close> for \<open>IntentFill\<close>), optional fields are \<open>option\<close>, base-unit amounts
  stay decimal strings, times are integers (seconds where the source has seconds), and
  a floating-point USD figure is an exact rational.
\<close>

section \<open>States and enumerations\<close>

datatype intent_state =
    St_open | St_accepted | St_filled | St_cancelled | St_expired | St_slashed
  | St_pending_open | St_pending_accepted | St_pending_filled | St_pending_cancelled

definition INTENT_STATES :: "intent_state list" where
  "INTENT_STATES =
     [St_open, St_accepted, St_filled, St_cancelled, St_expired, St_slashed,
      St_pending_open, St_pending_accepted, St_pending_filled, St_pending_cancelled]"

fun state_name :: "intent_state \<Rightarrow> string" where
  "state_name St_open = ''open''"
| "state_name St_accepted = ''accepted''"
| "state_name St_filled = ''filled''"
| "state_name St_cancelled = ''cancelled''"
| "state_name St_expired = ''expired''"
| "state_name St_slashed = ''slashed''"
| "state_name St_pending_open = ''pending_open''"
| "state_name St_pending_accepted = ''pending_accepted''"
| "state_name St_pending_filled = ''pending_filled''"
| "state_name St_pending_cancelled = ''pending_cancelled''"

definition SUPPORTED_CHAINS :: "string list" where
  "SUPPORTED_CHAINS =
     [''stellar'', ''ethereum'', ''base'', ''polygon'', ''arbitrum'', ''optimism'', ''avalanche'']"

datatype pending_op = Op_create | Op_accept | Op_fill | Op_cancel

fun op_name :: "pending_op \<Rightarrow> string" where
  "op_name Op_create = ''create''"
| "op_name Op_accept = ''accept''"
| "op_name Op_fill = ''fill''"
| "op_name Op_cancel = ''cancel''"

datatype src_status =
  Src_pending | Src_verified | Src_not_found | Src_mismatch | Src_reorged | Src_skipped
| Src_grandfathered

datatype fill_status = FS_reserved | FS_filled | FS_slashed | FS_released

datatype fill_verification = FV_pending | FV_verified | FV_rejected

datatype progress_status = PS_none | PS_partially_filled | PS_filled

text \<open>Values of an audit entry's open-ended \<open>metadata\<close> record.\<close>

datatype meta_value = MStr string | MInt int | MBool bool | MUndef

section \<open>Records\<close>

record dutch_auction =
  startDstAmount :: string
  decayStart :: int
  decayEnd :: int
  exclusiveSolver :: "string option"
  exclusivityEnd :: "int option"

record token_info =
  t_address :: string
  t_symbol :: string
  t_name :: string
  t_decimals :: int
  t_chain :: string
  t_logoURI :: "string option"
  t_priceUSD :: "rat option"

record stellar_token =
  st_contract :: string
  st_symbol :: string
  st_decimals :: int
  st_priceUSD :: "rat option"

record price_lock =
  pl_fairValue :: "string option"
  pl_slippageBps :: "int option"
  pl_premiumBps :: "int option"
  pl_asOfMs :: int

record src_verification =
  sv_status :: src_status
  sv_checkedAt :: int
  sv_blockNumber :: "string option"
  sv_blockHash :: "string option"
  sv_receivedAmount :: "string option"
  sv_detail :: "string option"

record fill_progress =
  fp_status :: progress_status
  fp_srcAmount :: string
  fp_reservedAmount :: string
  fp_filledAmount :: string
  fp_remainingAmount :: string
  fp_dstFilledAmount :: string
  fp_fillCount :: nat
  fp_activeReservations :: nat
  fp_remainderCancelled :: "bool option"

record intent_fill =
  f_fillId :: string
  f_intentId :: string
  f_solver :: string
  f_reservedAmount :: string
  f_minDstAmount :: string
  f_status :: fill_status
  f_reservedAt :: int
  f_deadline :: int
  f_dstAmount :: "string option"
  f_feeAmount :: "string option"
  f_txHash :: "string option"
  f_filledAt :: "int option"
  f_slashedAt :: "int option"
  f_releasedAt :: "int option"

text \<open>An audit entry; the timestamp is the instant in milliseconds, not its ISO rendering.\<close>

record audit_entry =
  a_timestamp :: int
  a_toState :: intent_state
  a_actor :: string
  a_reason :: string
  a_metadata :: "(string, meta_value) jsmap"

record intent =
  i_intentId :: string
  i_user :: string
  i_srcChain :: string
  i_srcToken :: token_info
  i_srcAmount :: string
  i_dstToken :: stellar_token
  i_minDstAmount :: string
  i_auction :: "dutch_auction option"
  i_acceptedDstAmount :: "string option"
  i_quotedDstAmount :: "string option"
  i_solver :: "string option"
  i_state :: intent_state
  i_createdAt :: int
  i_deadline :: int
  i_filledAt :: "int option"
  i_fillAmount :: "string option"
  i_feeAmount :: "string option"
  i_txHash :: "string option"
  i_fillVerificationState :: "fill_verification option"
  i_fillVerificationReason :: "string option"
  i_fillVerifiedAt :: "int option"
  i_slashedAt :: "int option"
  i_slashReason :: "string option"
  i_paramsVersion :: "int option"
  i_usdValueAtCreate :: "rat option"
  i_priceLock :: "price_lock option"
  i_version :: "int option"
  i_srcVerified :: "bool option"
  i_srcTxHash :: "string option"
  i_srcVerification :: "src_verification option"
  i_pendingTxHash :: "string option"
  i_pendingOp :: "pending_op option"
  i_srcTokenId :: "string option"
  i_dstTokenId :: "string option"
  i_srcDecimals :: "int option"
  i_dstDecimals :: "int option"
  i_allowPartialFill :: "bool option"
  i_minFillAmount :: "string option"
  i_fillProgress :: "fill_progress option"

text \<open>A plain open intent with the given id, user, deadline and version, used in examples.\<close>

definition sample_intent :: "string \<Rightarrow> string \<Rightarrow> int \<Rightarrow> intent" where
  "sample_intent iid user deadline =
     \<lparr> i_intentId = iid, i_user = user, i_srcChain = ''base'',
       i_srcToken = \<lparr> t_address = ''0x1'', t_symbol = ''USDC'', t_name = ''USD Coin'', t_decimals = 6,
         t_chain = ''base'', t_logoURI = None, t_priceUSD = Some 1 \<rparr>,
       i_srcAmount = ''1000'',
       i_dstToken = \<lparr> st_contract = ''C1'', st_symbol = ''USDC'', st_decimals = 7, st_priceUSD = Some 1 \<rparr>,
       i_minDstAmount = ''990'', i_auction = None, i_acceptedDstAmount = None, i_quotedDstAmount = None,
       i_solver = None, i_state = St_open, i_createdAt = 10, i_deadline = deadline, i_filledAt = None,
       i_fillAmount = None, i_feeAmount = None, i_txHash = None, i_fillVerificationState = None,
       i_fillVerificationReason = None, i_fillVerifiedAt = None, i_slashedAt = None, i_slashReason = None,
       i_paramsVersion = None, i_usdValueAtCreate = None, i_priceLock = None, i_version = Some 0,
       i_srcVerified = Some True, i_srcTxHash = None, i_srcVerification = None, i_pendingTxHash = None,
       i_pendingOp = None, i_srcTokenId = None, i_dstTokenId = None, i_srcDecimals = None,
       i_dstDecimals = None, i_allowPartialFill = None, i_minFillAmount = None, i_fillProgress = None \<rparr>"

lemma sample_intent_simps [simp]:
  "i_intentId (sample_intent a b c) = a" "i_user (sample_intent a b c) = b"
  "i_deadline (sample_intent a b c) = c" "i_state (sample_intent a b c) = St_open"
  "i_version (sample_intent a b c) = Some 0" "i_createdAt (sample_intent a b c) = 10"
  "i_solver (sample_intent a b c) = None" "i_srcAmount (sample_intent a b c) = ''1000''"
  "i_minDstAmount (sample_intent a b c) = ''990''"
  by (simp_all add: sample_intent_def)

section \<open>Facts about the enumerations\<close>

lemma INTENT_STATES_complete [simp]: "s \<in> set INTENT_STATES"
  by (cases s) (simp_all add: INTENT_STATES_def)

lemma state_name_inject [simp]: "state_name a = state_name b \<longleftrightarrow> a = b"
  by (cases a; cases b) simp_all

lemma state_name_no_dash: "CHR ''-'' \<notin> set (state_name s)"
  by (cases s) simp_all

text \<open>
  The states in the order of \<^const>\<open>INTENT_STATES\<close>: the order the generated SQL seed is
  sorted by, and a finite enumeration, so that a statement about all states is decided
  by checking each.
\<close>

instantiation intent_state :: enum
begin

definition enum_intent_state :: "intent_state list" where
  "enum_intent_state = INTENT_STATES"

definition enum_all_intent_state :: "(intent_state \<Rightarrow> bool) \<Rightarrow> bool" where
  "enum_all_intent_state P \<longleftrightarrow> list_all P INTENT_STATES"

definition enum_ex_intent_state :: "(intent_state \<Rightarrow> bool) \<Rightarrow> bool" where
  "enum_ex_intent_state P \<longleftrightarrow> list_ex P INTENT_STATES"

instance
proof
  have u: "UNIV = set INTENT_STATES" using INTENT_STATES_complete by blast
  show "UNIV = set (enum_class.enum :: intent_state list)"
    by (simp add: enum_intent_state_def u)
  show "distinct (enum_class.enum :: intent_state list)"
    by (simp add: enum_intent_state_def INTENT_STATES_def)
  show "enum_class.enum_all P \<longleftrightarrow> Ball UNIV P" for P :: "intent_state \<Rightarrow> bool"
    by (simp add: enum_all_intent_state_def u list_all_iff)
  show "enum_class.enum_ex P \<longleftrightarrow> Bex UNIV P" for P :: "intent_state \<Rightarrow> bool"
    by (simp add: enum_ex_intent_state_def u list_ex_iff)
qed

end

text \<open>\<open>INTENT_STATES.indexOf(s)\<close>.\<close>

definition state_index :: "intent_state \<Rightarrow> nat" where
  "state_index s = length (takeWhile (\<lambda>t. t \<noteq> s) INTENT_STATES)"

lemma state_index_inject [simp]: "state_index a = state_index b \<longleftrightarrow> a = b"
  by (cases a; cases b) (simp_all add: state_index_def INTENT_STATES_def)

instantiation intent_state :: linorder
begin

definition less_eq_intent_state :: "intent_state \<Rightarrow> intent_state \<Rightarrow> bool" where
  "less_eq_intent_state a b \<longleftrightarrow> state_index a \<le> state_index b"

definition less_intent_state :: "intent_state \<Rightarrow> intent_state \<Rightarrow> bool" where
  "less_intent_state a b \<longleftrightarrow> state_index a < state_index b"

instance
  by standard (auto simp: less_eq_intent_state_def less_intent_state_def dest: antisym)

end

end
