(* ===== verification/State_Machine.thy ===== *)
theory State_Machine
  imports Intent_Types
begin

text \<open>
  The declarative intent state machine of \<^verbatim>\<open>src/intents/state-machine.ts\<close>: the table of
  legal edges with their guards and side effects, the indexed lookup, the lifecycle view,
  the pure planner \<open>transition\<close>, and the SQL seed generated from the table for the
  database trigger.
\<close>

section \<open>Rules and the table\<close>

datatype transition_kind = K_lifecycle | K_park | K_confirm | K_compensation

fun kind_name :: "transition_kind \<Rightarrow> string" where
  "kind_name K_lifecycle = ''lifecycle''"
| "kind_name K_park = ''park''"
| "kind_name K_confirm = ''confirm''"
| "kind_name K_compensation = ''compensation''"

datatype side_effect =
  E_metric | E_audit | E_schedule_fill_window | E_shadow | E_onchain_broadcast | E_rollback_penalty

record transition_rule =
  r_from :: intent_state
  r_to :: intent_state
  r_kind :: transition_kind
  r_guard :: string
  r_sideEffects :: "side_effect list"
  r_defaultReason :: string

definition ALWAYS :: "side_effect list" where
  "ALWAYS = [E_metric, E_audit]"

definition rule_of :: "intent_state \<Rightarrow> intent_state \<Rightarrow> transition_kind \<Rightarrow> string \<Rightarrow> string
    \<Rightarrow> side_effect list \<Rightarrow> transition_rule" where
  "rule_of from to kind guard defaultReason extra =
     \<lparr> r_from = from, r_to = to, r_kind = kind, r_guard = guard,
       r_sideEffects = ALWAYS @ extra, r_defaultReason = defaultReason \<rparr>"

definition TRANSITION_TABLE :: "transition_rule list" where
  "TRANSITION_TABLE = [
     rule_of St_open St_accepted K_lifecycle ''state = open AND deadline > now'' ''solver accepted''
       [E_schedule_fill_window, E_shadow, E_onchain_broadcast],
     rule_of St_open St_cancelled K_lifecycle ''state = open'' ''user cancelled''
       [E_shadow, E_onchain_broadcast],
     rule_of St_open St_expired K_lifecycle ''state = open'' ''deadline passed'' [E_shadow],
     rule_of St_accepted St_filled K_lifecycle
       ''state = accepted AND solver = caller AND deadline > now'' ''solver filled''
       [E_shadow, E_onchain_broadcast],
     rule_of St_accepted St_slashed K_lifecycle ''state = accepted''
       ''accepted intent not filled before deadline'' [E_shadow],
     rule_of St_open St_pending_open K_park ''state = open''
       ''create broadcast pending confirmation'' [],
     rule_of St_open St_pending_accepted K_park ''state = open''
       ''accept broadcast pending confirmation'' [],
     rule_of St_open St_pending_cancelled K_park ''state = open''
       ''cancel broadcast pending confirmation'' [],
     rule_of St_accepted St_pending_accepted K_park ''state = accepted''
       ''accept broadcast pending confirmation'' [],
     rule_of St_accepted St_pending_filled K_park ''state = accepted''
       ''fill broadcast pending confirmation'' [],
     rule_of St_accepted St_pending_cancelled K_park ''state = accepted''
       ''cancel broadcast pending confirmation'' [],
     rule_of St_filled St_pending_filled K_park ''state = filled''
       ''fill broadcast pending confirmation'' [],
     rule_of St_cancelled St_pending_cancelled K_park ''state = cancelled''
       ''cancel broadcast pending confirmation'' [],
     rule_of St_pending_open St_open K_confirm ''state = pending_open''
       ''create confirmed on-chain'' [],
     rule_of St_pending_accepted St_accepted K_confirm ''state = pending_accepted''
       ''accept confirmed on-chain'' [],
     rule_of St_pending_filled St_filled K_confirm ''state = pending_filled''
       ''fill confirmed on-chain'' [],
     rule_of St_pending_cancelled St_cancelled K_confirm ''state = pending_cancelled''
       ''cancel confirmed on-chain'' [],
     rule_of St_slashed St_filled K_compensation ''state = slashed AND override''
       ''slash cancelled: fill_landed'' [E_rollback_penalty],
     rule_of St_slashed St_expired K_compensation ''state = slashed AND override''
       ''slash cancelled'' [E_rollback_penalty]]"

definition rule_key :: "intent_state \<Rightarrow> intent_state \<Rightarrow> string" where
  "rule_key from to = state_name from @ ''->'' @ state_name to"

definition RULE_INDEX :: "(string, transition_rule) jsmap" where
  "RULE_INDEX = spread [] (map (\<lambda>r. (rule_key (r_from r) (r_to r), r)) TRANSITION_TABLE)"

definition findRule :: "intent_state \<Rightarrow> intent_state \<Rightarrow> transition_rule option" where
  "findRule from to = map_of RULE_INDEX (rule_key from to)"

definition requiresOverride :: "transition_rule \<Rightarrow> bool" where
  "requiresOverride r \<longleftrightarrow> r_kind r = K_compensation"

section \<open>The lifecycle view\<close>

definition TERMINAL_STATES :: "intent_state list" where
  "TERMINAL_STATES = [St_filled, St_cancelled, St_expired, St_slashed]"

definition isTerminalState :: "intent_state \<Rightarrow> bool" where
  "isTerminalState s \<longleftrightarrow> s \<in> set TERMINAL_STATES"

definition TRANSITIONS :: "(intent_state, intent_state list) jsmap" where
  "TRANSITIONS = map (\<lambda>from. (from, map r_to (filter (\<lambda>r. r_from r = from \<and> \<not> requiresOverride r
     \<and> \<not> isTerminalState (r_from r)) TRANSITION_TABLE))) INTENT_STATES"

definition canTransition :: "intent_state \<Rightarrow> intent_state \<Rightarrow> bool" where
  "canTransition from to = (case map_of TRANSITIONS from of None \<Rightarrow> False | Some ts \<Rightarrow> to \<in> set ts)"

text \<open>The message names both states; its arrow is written in ASCII here.\<close>

definition assertTransition :: "intent_state \<Rightarrow> intent_state \<Rightarrow> unit result" where
  "assertTransition from to =
     (if canTransition from to then Inr ()
      else Inl (PlainError (''Illegal intent transition: '' @ state_name from @ '' -> '' @ state_name to)))"

section \<open>The planner\<close>

record transition_context =
  c_actor :: string
  c_reason :: "string option"
  c_metadata :: "((string, meta_value) jsmap) option"
  c_override :: "bool option"
  c_at :: "int option"

record transition_plan =
  p_intentId :: string
  p_from :: intent_state
  p_to :: intent_state
  p_rule :: transition_rule
  p_audit :: audit_entry

definition transition :: "int \<Rightarrow> string \<Rightarrow> intent_state \<Rightarrow> intent_state \<Rightarrow> transition_context
    \<Rightarrow> transition_plan result" where
  "transition now intentId from to ctx =
     (case findRule from to of
        None \<Rightarrow> Inl (IllegalTransition intentId (state_name from) (state_name to) ''no such edge'')
      | Some found \<Rightarrow>
          if requiresOverride found \<and> c_override ctx \<noteq> Some True
          then Inl (IllegalTransition intentId (state_name from) (state_name to)
                     (kind_name (r_kind found) @ '' edge requires an override''))
          else Inr \<lparr> p_intentId = intentId, p_from = from, p_to = to, p_rule = found,
                     p_audit = \<lparr> a_timestamp = coalesce (c_at ctx) now, a_toState = to,
                       a_actor = c_actor ctx,
                       a_reason = coalesce (c_reason ctx) (r_defaultReason found),
                       a_metadata = spread (spread [] (coalesce (c_metadata ctx) []))
                         [(''fromState'', MStr (state_name from))] \<rparr> \<rparr>)"

section \<open>The database seed\<close>

definition DB_ALLOWED_TRANSITIONS :: "transition_rule list" where
  "DB_ALLOWED_TRANSITIONS = filter (\<lambda>r. \<not> requiresOverride r) TRANSITION_TABLE"

text \<open>The rows of the generated seed in the order they are printed.\<close>

definition seed_order :: "transition_rule list" where
  "seed_order = sort_key (\<lambda>r. (r_from r, r_to r)) DB_ALLOWED_TRANSITIONS"

definition seed_row :: "transition_rule \<Rightarrow> string" where
  "seed_row r = ''  ('' @ [CHR 0x27] @ state_name (r_from r) @ [CHR 0x27] @ '', '' @ [CHR 0x27]
     @ state_name (r_to r) @ [CHR 0x27] @ '', '' @ [CHR 0x27] @ kind_name (r_kind r) @ [CHR 0x27] @ '')''"

definition SQL_SEED_BEGIN :: string where
  "SQL_SEED_BEGIN = ''-- BEGIN GENERATED: intent_state_transitions (src/intents/state-machine.ts)''"

definition SQL_SEED_END :: string where
  "SQL_SEED_END = ''-- END GENERATED: intent_state_transitions''"

definition renderAllowedPairsSql :: string where
  "renderAllowedPairsSql = js_join [CHR 0x0A]
     [SQL_SEED_BEGIN,
      ''INSERT INTO '' @ [CHR 0x22] @ ''intent_state_transitions'' @ [CHR 0x22] @ '' ('' @ [CHR 0x22]
        @ ''from_state'' @ [CHR 0x22] @ '', '' @ [CHR 0x22] @ ''to_state'' @ [CHR 0x22] @ '', ''
        @ [CHR 0x22] @ ''kind'' @ [CHR 0x22] @ '') VALUES'',
      js_join ('','' @ [CHR 0x0A]) (map seed_row seed_order),
      ''ON CONFLICT DO NOTHING;'',
      SQL_SEED_END]"

section \<open>Facts about the table\<close>

lemmas table_simps = TRANSITION_TABLE_def rule_of_def

lemma rule_key_inject [simp]: "rule_key a b = rule_key c d \<longleftrightarrow> a = c \<and> b = d"
proof -
  have "takeWhile (\<lambda>x. x \<noteq> CHR ''-'') (rule_key a b) = state_name a" for a b
    by (cases a) (simp_all add: rule_key_def)
  moreover have "dropWhile (\<lambda>x. x \<noteq> CHR ''-'') (rule_key a b) = ''->'' @ state_name b" for a b
    by (cases a) (simp_all add: rule_key_def)
  ultimately show ?thesis by (metis append_same_eq same_append_eq state_name_inject)
qed

lemma table_pairs_distinct: "distinct (map (\<lambda>r. (r_from r, r_to r)) TRANSITION_TABLE)"
  by (simp add: table_simps)

lemma map_of_key_inj:
  "inj f \<Longrightarrow> map_of (map (\<lambda>r. (f (g r), r)) rs) (f x) = find (\<lambda>r. g r = x) rs"
  by (induction rs) (auto simp: inj_eq)

lemma findRule_find: "findRule from to = find (\<lambda>r. r_from r = from \<and> r_to r = to) TRANSITION_TABLE"
proof -
  have inj: "inj (\<lambda>(a, b). rule_key a b)" by (auto simp: inj_def)
  have d: "distinct (map fst (map (\<lambda>r. (rule_key (r_from r) (r_to r), r)) TRANSITION_TABLE))"
    using table_pairs_distinct by (simp add: distinct_map inj_on_def)
  have "map_of RULE_INDEX (rule_key from to)
        = map_of (rev (map (\<lambda>r. (rule_key (r_from r) (r_to r), r)) TRANSITION_TABLE)) (rule_key from to)"
    by (simp add: RULE_INDEX_def map_of_spread split: option.splits)
  also have "\<dots> = map_of (map (\<lambda>r. (rule_key (r_from r) (r_to r), r)) TRANSITION_TABLE) (rule_key from to)"
    using d by (simp add: map_of_rev)
  also have "\<dots> = find (\<lambda>r. (r_from r, r_to r) = (from, to)) TRANSITION_TABLE"
    using map_of_key_inj[OF inj, of "\<lambda>r. (r_from r, r_to r)" TRANSITION_TABLE "(from, to)"] by simp
  finally show ?thesis by (simp add: findRule_def)
qed

lemma findRule_Some:
  "findRule from to = Some r \<longleftrightarrow> r \<in> set TRANSITION_TABLE \<and> r_from r = from \<and> r_to r = to"
proof
  assume "findRule from to = Some r"
  then show "r \<in> set TRANSITION_TABLE \<and> r_from r = from \<and> r_to r = to"
    unfolding findRule_find by (metis (mono_tags, lifting) find_Some_iff nth_mem)
next
  assume a: "r \<in> set TRANSITION_TABLE \<and> r_from r = from \<and> r_to r = to"
  then obtain r' where r': "findRule from to = Some r'"
    by (cases "findRule from to") (auto simp: findRule_find find_None_iff)
  then have "r' \<in> set TRANSITION_TABLE \<and> r_from r' = from \<and> r_to r' = to"
    unfolding findRule_find by (metis (mono_tags, lifting) find_Some_iff nth_mem)
  with a r' table_pairs_distinct show "findRule from to = Some r"
    by (auto simp: distinct_map inj_on_def)
qed

lemma findRule_None:
  "findRule from to = None \<longleftrightarrow> (\<forall>r \<in> set TRANSITION_TABLE. \<not> (r_from r = from \<and> r_to r = to))"
  by (auto simp: findRule_find find_None_iff)

text \<open>The edges of the table as a relation on states, compensations included.\<close>

definition table_edge :: "intent_state \<Rightarrow> intent_state \<Rightarrow> bool" where
  "table_edge a b \<longleftrightarrow> findRule a b \<noteq> None"

lemma table_edge_iff: "table_edge a b \<longleftrightarrow> (a, b) \<in> set (map (\<lambda>r. (r_from r, r_to r)) TRANSITION_TABLE)"
  by (force simp: table_edge_def findRule_None)

lemma table_edge_simps [simp]:
  "table_edge St_open b \<longleftrightarrow> b \<in> {St_accepted, St_cancelled, St_expired, St_pending_open,
     St_pending_accepted, St_pending_cancelled}"
  "table_edge St_accepted b \<longleftrightarrow> b \<in> {St_filled, St_slashed, St_pending_accepted, St_pending_filled,
     St_pending_cancelled}"
  "table_edge St_filled b \<longleftrightarrow> b = St_pending_filled"
  "table_edge St_cancelled b \<longleftrightarrow> b = St_pending_cancelled"
  "table_edge St_expired b \<longleftrightarrow> False"
  "table_edge St_slashed b \<longleftrightarrow> b \<in> {St_filled, St_expired}"
  "table_edge St_pending_open b \<longleftrightarrow> b = St_open"
  "table_edge St_pending_accepted b \<longleftrightarrow> b = St_accepted"
  "table_edge St_pending_filled b \<longleftrightarrow> b = St_filled"
  "table_edge St_pending_cancelled b \<longleftrightarrow> b = St_cancelled"
  by (auto simp: table_edge_iff table_simps)

lemma closed_reach:
  assumes "R\<^sup>*\<^sup>* a b" and "a \<in> S" and "\<And>x y. x \<in> S \<Longrightarrow> R x y \<Longrightarrow> y \<in> S"
  shows "b \<in> S"
  using assms(1,2) by (induction rule: rtranclp_induct) (auto intro: assms(3))

lemma filled_reach: "table_edge\<^sup>*\<^sup>* St_filled s \<Longrightarrow> s \<in> {St_filled, St_pending_filled}"
  by (erule closed_reach) auto

lemma slashed_reach:
  "table_edge\<^sup>*\<^sup>* St_slashed s \<Longrightarrow> s \<in> {St_slashed, St_filled, St_pending_filled, St_expired}"
  by (erule closed_reach) auto

lemma cancelled_reach: "table_edge\<^sup>*\<^sup>* St_cancelled s \<Longrightarrow> s \<in> {St_cancelled, St_pending_cancelled}"
  by (erule closed_reach) auto

lemma expired_reach: "table_edge\<^sup>*\<^sup>* St_expired s \<Longrightarrow> s = St_expired"
  by (drule closed_reach[where S = "{St_expired}"]) auto

section \<open>Properties of the planner\<close>

lemma transition_Inr:
  "transition now i st st' ctx = Inr plan \<longleftrightarrow>
     (\<exists>r. findRule st st' = Some r \<and> (requiresOverride r \<longrightarrow> c_override ctx = Some True) \<and>
        plan = \<lparr> p_intentId = i, p_from = st, p_to = st', p_rule = r,
                 p_audit = \<lparr> a_timestamp = coalesce (c_at ctx) now, a_toState = st',
                   a_actor = c_actor ctx, a_reason = coalesce (c_reason ctx) (r_defaultReason r),
                   a_metadata = spread (spread [] (coalesce (c_metadata ctx) []))
                     [(''fromState'', MStr (state_name st))] \<rparr> \<rparr>)"
  by (auto simp: transition_def split: option.splits)

lemma transition_edge: "transition now i st st' ctx = Inr plan \<Longrightarrow> table_edge st st'"
  by (auto simp: transition_Inr table_edge_def)

lemma transition_plain_ok:
  assumes "findRule st st' = Some r" and "\<not> requiresOverride r"
  shows "\<exists>plan. transition now i st st' ctx = Inr plan \<and> p_rule plan = r"
  using assms by (auto simp: transition_Inr)

text \<open>C15. The planner accepts a move exactly when the table has a row for the pair and, for a
compensation row, the caller passes the override; the plan then names that very row, its
audit entry records the target state and, in its metadata, the state left behind. Every other
move is the \<open>IllegalTransitionError\<close> for that intent and pair.\<close>

theorem transition_ok_iff:
  "case transition now i st st' ctx of
     Inr plan \<Rightarrow>
       p_rule plan \<in> set TRANSITION_TABLE \<and> r_from (p_rule plan) = st \<and> r_to (p_rule plan) = st'
       \<and> (r_kind (p_rule plan) = K_compensation \<longrightarrow> c_override ctx = Some True)
       \<and> p_intentId plan = i \<and> p_from plan = st \<and> p_to plan = st'
       \<and> a_toState (p_audit plan) = st'
       \<and> map_of (a_metadata (p_audit plan)) ''fromState'' = Some (MStr (state_name st))
   | Inl e \<Rightarrow>
       (\<exists>d. e = IllegalTransition i (state_name st) (state_name st') d)
       \<and> (\<forall>r \<in> set TRANSITION_TABLE. r_from r = st \<and> r_to r = st'
             \<longrightarrow> r_kind r = K_compensation \<and> c_override ctx \<noteq> Some True)"
proof (cases "transition now i st st' ctx")
  case (Inr plan)
  then have "\<exists>r. findRule st st' = Some r \<and> (requiresOverride r \<longrightarrow> c_override ctx = Some True)"
    and plan: "p_rule plan = the (findRule st st')"
    by (auto simp: transition_Inr)
  with Inr[unfolded transition_Inr] show ?thesis
    unfolding Inr sum.case
    by (auto simp: transition_Inr findRule_Some requiresOverride_def map_of_spread)
next
  case (Inl e)
  then have "\<exists>d. e = IllegalTransition i (state_name st) (state_name st') d"
    by (auto simp: transition_def split: option.splits if_splits)
  moreover have "requiresOverride r \<and> c_override ctx \<noteq> Some True"
    if "r \<in> set TRANSITION_TABLE" "r_from r = st" "r_to r = st'" for r
    using Inl findRule_Some[of st st' r] that by (auto simp: transition_def split: if_splits)
  ultimately show ?thesis unfolding Inl sum.case by (auto simp: requiresOverride_def)
qed

text \<open>Both outcomes occur: an ordinary move, and a compensation refused and then granted.\<close>

theorem transition_ok_iff_witness:
  "(case transition 7 ''i1'' St_open St_accepted
      \<lparr> c_actor = ''G1'', c_reason = None, c_metadata = None, c_override = None, c_at = None \<rparr>
    of Inr plan \<Rightarrow> a_toState (p_audit plan) = St_accepted | Inl e \<Rightarrow> False)
   \<and> isl (transition 7 ''i1'' St_slashed St_filled
      \<lparr> c_actor = ''system'', c_reason = None, c_metadata = None, c_override = None, c_at = None \<rparr>)
   \<and> \<not> isl (transition 7 ''i1'' St_slashed St_filled
      \<lparr> c_actor = ''system'', c_reason = None, c_metadata = None, c_override = Some True, c_at = None \<rparr>)"
  using transition_ok_iff[where now = 7 and i = "''i1''" and st = St_open and st' = St_accepted and ctx =
      "\<lparr> c_actor = ''G1'', c_reason = None, c_metadata = None, c_override = None, c_at = None \<rparr>"]
  by (simp add: transition_def findRule_find table_simps requiresOverride_def)

text \<open>C30. Settlement is final, whatever sequence of table edges an intent takes, overrides
included: a filled intent only alternates between \<open>filled\<close> and \<open>pending_filled\<close>, a cancelled
one between \<open>cancelled\<close> and \<open>pending_cancelled\<close>, an expired one never moves again, and a
slashed one can end as slashed, filled or expired but never becomes open, accepted or
cancelled again. In particular no path leads from filled to slashed.\<close>

theorem settlement_final:
  "(table_edge\<^sup>*\<^sup>* St_filled s \<longleftrightarrow> s \<in> {St_filled, St_pending_filled})
   \<and> (table_edge\<^sup>*\<^sup>* St_cancelled s \<longleftrightarrow> s \<in> {St_cancelled, St_pending_cancelled})
   \<and> (table_edge\<^sup>*\<^sup>* St_expired s \<longleftrightarrow> s = St_expired)
   \<and> (table_edge\<^sup>*\<^sup>* St_slashed s \<longleftrightarrow> s \<in> {St_slashed, St_filled, St_pending_filled, St_expired})"
proof -
  have "table_edge\<^sup>*\<^sup>* St_slashed St_pending_filled"
    by (rule converse_rtranclp_into_rtranclp[of _ _ St_filled]) auto
  then show ?thesis
    using filled_reach[of s] cancelled_reach[of s] expired_reach[of s] slashed_reach[of s] by auto
qed

text \<open>The lifecycle view used as a fast-path guard agrees with the planner: \<open>canTransition\<close>
holds exactly for the non-terminal states' moves the planner accepts without an override, and
\<open>assertTransition\<close> throws on all others; terminal states are its sinks.\<close>

theorem lifecycle_view_agrees:
  "(canTransition st st' \<longleftrightarrow> \<not> isTerminalState st \<and>
      (\<exists>plan. transition now i st st'
        \<lparr> c_actor = a, c_reason = rs, c_metadata = md, c_override = None, c_at = t \<rparr> = Inr plan))
   \<and> (assertTransition st st' = Inr () \<longleftrightarrow> canTransition st st')
   \<and> (isTerminalState st \<longleftrightarrow> (\<forall>s. \<not> canTransition st s))"
proof -
  have look: "map_of TRANSITIONS s = Some (map r_to (filter (\<lambda>r. r_from r = s \<and> \<not> requiresOverride r
     \<and> \<not> isTerminalState (r_from r)) TRANSITION_TABLE))" for s
    using INTENT_STATES_complete[of s] by (simp add: TRANSITIONS_def map_of_map_restrict restrict_map_def)
  have can: "canTransition st s \<longleftrightarrow> \<not> isTerminalState st \<and>
      (\<exists>r. findRule st s = Some r \<and> \<not> requiresOverride r)" for s
    by (auto simp: canTransition_def look findRule_Some)
  have "\<exists>s. \<exists>r. findRule st s = Some r \<and> \<not> requiresOverride r" if "\<not> isTerminalState st"
  proof -
    have "\<exists>r \<in> set TRANSITION_TABLE. r_from r = st \<and> \<not> requiresOverride r"
      using that by (cases st) (auto simp: table_simps requiresOverride_def isTerminalState_def TERMINAL_STATES_def)
    then show ?thesis by (auto simp: findRule_Some)
  qed
  then have "isTerminalState st \<longleftrightarrow> (\<forall>s. \<not> canTransition st s)" using can by blast
  moreover have "assertTransition st st' = Inr () \<longleftrightarrow> canTransition st st'"
    by (simp add: assertTransition_def)
  ultimately show ?thesis using can[of st'] by (auto simp: transition_Inr)
qed

text \<open>The SQL seed of the database trigger is the planner's own verdict: its rows, in the
order they are printed, are strictly sorted by the declared state order (so no pair is
duplicated), and a pair is among them exactly when the planner accepts it without an override.\<close>

theorem seed_agrees_with_planner:
  "sorted_wrt (<) (map (\<lambda>r. (r_from r, r_to r)) seed_order)
   \<and> ((st, st') \<in> set (map (\<lambda>r. (r_from r, r_to r)) seed_order) \<longleftrightarrow>
      (\<exists>plan. transition now i st st'
        \<lparr> c_actor = a, c_reason = rs, c_metadata = md, c_override = None, c_at = t \<rparr> = Inr plan))"
proof
  let ?k = "\<lambda>r. (r_from r, r_to r)"
  have "distinct (map ?k DB_ALLOWED_TRANSITIONS)"
    unfolding DB_ALLOWED_TRANSITIONS_def by (rule distinct_map_filter[OF table_pairs_distinct])
  then have "distinct (map ?k seed_order)"
    by (simp add: seed_order_def distinct_map)
  moreover have "sorted (map ?k seed_order)" by (simp add: seed_order_def)
  ultimately show "sorted_wrt (<) (map ?k seed_order)" by (simp add: strict_sorted_iff)
  show "(st, st') \<in> set (map ?k seed_order) \<longleftrightarrow> (\<exists>plan. transition now i st st'
        \<lparr> c_actor = a, c_reason = rs, c_metadata = md, c_override = None, c_at = t \<rparr> = Inr plan)"
    by (auto simp: seed_order_def DB_ALLOWED_TRANSITIONS_def transition_Inr findRule_Some)
qed

end
