(* ===== verification/Intents_Repository.thy ===== *)
theory Intents_Repository
  imports State_Machine
begin

text \<open>
  The in-memory intents store of \<^verbatim>\<open>src/intents/intents.repository.ts\<close>, the reference
  behaviour of the repository interface: reads, advanced search, idempotent creation, and
  the conditional writes with optimistic concurrency, all of which go through \<open>mutate\<close>.

  Every method is synchronous, so one call is one atomic step. A patch object is the
  function it denotes on the record; \<open>nowSec\<close> stands for \<open>now ?? Math.floor(Date.now() / 1000)\<close>.
\<close>

section \<open>State and results\<close>

record intents_repo =
  store :: "(string, intent) jsmap"
  idempotencyKeys :: "(string, string) jsmap"

datatype mutation_result =
    MR_null
  | MR_conflict string int int
  | MR_intent intent

definition isVersionConflict :: "mutation_result \<Rightarrow> bool" where
  "isVersionConflict r = (case r of MR_conflict i e a \<Rightarrow> True | _ \<Rightarrow> False)"

definition row_version :: "intent \<Rightarrow> int" where
  "row_version i = coalesce (i_version i) 0"

definition emptyRepo :: intents_repo where
  "emptyRepo = \<lparr> store = [], idempotencyKeys = [] \<rparr>"

text \<open>The service's reading of a result: the intent that was written, if one was.\<close>

definition written :: "mutation_result \<Rightarrow> intent option" where
  "written r = (case r of MR_intent i \<Rightarrow> Some i | _ \<Rightarrow> None)"

section \<open>Creation\<close>

definition save :: "intents_repo \<Rightarrow> intent \<Rightarrow> intents_repo \<times> intent" where
  "save s i = (s\<lparr> store := AList.update (i_intentId i) i (store s) \<rparr>, i)"

definition findByIdempotencyKey :: "intents_repo \<Rightarrow> string \<Rightarrow> int \<Rightarrow> intents_repo \<times> intent option" where
  "findByIdempotencyKey s key minCreatedAt =
     (case map_of (idempotencyKeys s) key of
        None \<Rightarrow> (s, None)
      | Some iid \<Rightarrow>
          if iid = [] then (s, None)
          else (case map_of (store s) iid of
                  None \<Rightarrow> (s\<lparr> idempotencyKeys := AList.delete key (idempotencyKeys s) \<rparr>, None)
                | Some i \<Rightarrow>
                    if i_createdAt i < minCreatedAt
                    then (s\<lparr> idempotencyKeys := AList.delete key (idempotencyKeys s) \<rparr>, None)
                    else (s, Some i)))"

definition createIdempotent :: "intents_repo \<Rightarrow> intent \<Rightarrow> string \<Rightarrow> int
    \<Rightarrow> intents_repo \<times> intent \<times> bool" where
  "createIdempotent s i key minCreatedAt =
     (case findByIdempotencyKey s key minCreatedAt of
        (s1, Some existing) \<Rightarrow> (s1, existing, False)
      | (s1, None) \<Rightarrow>
          (s1\<lparr> store := AList.update (i_intentId i) i (store s1),
               idempotencyKeys := AList.update key (i_intentId i) (idempotencyKeys s1) \<rparr>, i, True))"

section \<open>Reads\<close>

definition findById :: "intents_repo \<Rightarrow> string \<Rightarrow> intent option" where
  "findById s iid = map_of (store s) iid"

text \<open>\<open>[...new Set(ids)]\<close> keeps the first occurrence of each id.\<close>

definition js_dedup :: "'a list \<Rightarrow> 'a list" where
  "js_dedup xs = rev (remdups (rev xs))"

definition findManyByIds :: "intents_repo \<Rightarrow> string list \<Rightarrow> intent list" where
  "findManyByIds s ids = List.map_filter (\<lambda>iid. map_of (store s) iid) (js_dedup ids)"

definition findAll :: "intents_repo \<Rightarrow> intent list" where
  "findAll s = sort_key (\<lambda>i. - i_createdAt i) (js_values (store s))"

definition findByState :: "intents_repo \<Rightarrow> intent_state \<Rightarrow> intent list" where
  "findByState s st = filter (\<lambda>i. i_state i = st) (findAll s)"

definition findByUser :: "intents_repo \<Rightarrow> string \<Rightarrow> intent list" where
  "findByUser s user = filter (\<lambda>i. toLowerCase (i_user i) = toLowerCase user) (findAll s)"

record intent_search_query =
  q_state :: "intent_state option"
  q_user :: "string option"
  q_chain :: "string option"
  q_minAmountUsd :: "rat option"
  q_maxAmountUsd :: "rat option"
  q_createdFrom :: "int option"
  q_createdTo :: "int option"
  q_srcToken :: "string option"
  q_dstToken :: "string option"
  q_solver :: "string option"
  q_sort :: "string option"
  q_limit :: "int option"
  q_offset :: "int option"

definition filter_if :: "'q option \<Rightarrow> ('q \<Rightarrow> 'a \<Rightarrow> bool) \<Rightarrow> 'a list \<Rightarrow> 'a list" where
  "filter_if q p xs = (case q of None \<Rightarrow> xs | Some v \<Rightarrow> filter (p v) xs)"

definition search_filter :: "intent_search_query \<Rightarrow> intent list \<Rightarrow> intent list" where
  "search_filter q results =
     (let results = filter_if (q_state q) (\<lambda>v i. i_state i = v) results;
          results = filter_if (q_user q) (\<lambda>v i. toLowerCase (i_user i) = toLowerCase v) results;
          results = filter_if (q_chain q) (\<lambda>v i. i_srcChain i = v) results;
          results = filter_if (q_solver q) (\<lambda>v i. case i_solver i of None \<Rightarrow> False
                      | Some sv \<Rightarrow> toLowerCase sv = toLowerCase v) results;
          results = filter_if (q_minAmountUsd q) (\<lambda>v i. case i_usdValueAtCreate i of None \<Rightarrow> False
                      | Some u \<Rightarrow> u \<ge> v) results;
          results = filter_if (q_maxAmountUsd q) (\<lambda>v i. case i_usdValueAtCreate i of None \<Rightarrow> False
                      | Some u \<Rightarrow> u \<le> v) results;
          results = filter_if (q_createdFrom q) (\<lambda>v i. i_createdAt i \<ge> v) results;
          results = filter_if (q_createdTo q) (\<lambda>v i. i_createdAt i \<le> v) results;
          results = filter_if (q_srcToken q) (\<lambda>v i. toLowerCase (t_symbol (i_srcToken i)) = toLowerCase v) results;
          results = filter_if (q_dstToken q) (\<lambda>v i. toLowerCase (st_symbol (i_dstToken i)) = toLowerCase v) results
      in results)"

definition search_sort_key :: "intent_search_query \<Rightarrow> intent \<Rightarrow> rat" where
  "search_sort_key q i =
     (let parts = js_split CHR '':'' (coalesce (q_sort q) ''created:desc'');
          dimension = hd parts;
          dir = (if 1 < length parts \<and> parts ! 1 = ''asc'' then 1 else - 1)
      in dir * (if dimension = ''deadline'' then of_int (i_deadline i)
                else if dimension = ''usd'' then coalesce (i_usdValueAtCreate i) 0
                else of_int (i_createdAt i)))"

definition search :: "intents_repo \<Rightarrow> intent_search_query \<Rightarrow> intent list \<times> nat" where
  "search s q =
     (let results = sort_key (search_sort_key q) (search_filter q (findAll s));
          offset = coalesce (q_offset q) 0;
          limit = coalesce (q_limit q) 20
      in (js_slice offset (offset + limit) results, length results))"

definition countAcceptedBySolver :: "intents_repo \<Rightarrow> string \<Rightarrow> nat" where
  "countAcceptedBySolver s solver =
     fold (\<lambda>i count. if i_state i = St_accepted \<and> i_solver i = Some solver then count + 1 else count)
       (js_values (store s)) 0"

definition countActiveByUser :: "intents_repo \<Rightarrow> string \<Rightarrow> nat" where
  "countActiveByUser s user =
     fold (\<lambda>i count. if (i_state i = St_open \<or> i_state i = St_accepted)
              \<and> toLowerCase (i_user i) = toLowerCase user then count + 1 else count)
       (js_values (store s)) 0"

section \<open>Conditional writes\<close>

definition mutate :: "intents_repo \<Rightarrow> string \<Rightarrow> int option \<Rightarrow> (intent \<Rightarrow> bool) \<Rightarrow> (intent \<Rightarrow> intent)
    \<Rightarrow> intents_repo \<times> mutation_result" where
  "mutate s iid expectedVersion guard apply_fn =
     (case map_of (store s) iid of
        None \<Rightarrow> (s, MR_null)
      | Some existing \<Rightarrow>
          (let existingVersion = coalesce (i_version existing) 0 in
           if expectedVersion \<noteq> None \<and> existingVersion \<noteq> the expectedVersion
           then (s, MR_conflict iid (the expectedVersion) existingVersion)
           else if \<not> guard existing then (s, MR_null)
           else (let updated = (apply_fn existing)\<lparr> i_intentId := iid, i_version := Some (existingVersion + 1) \<rparr>
                 in (s\<lparr> store := AList.update iid updated (store s) \<rparr>, MR_intent updated))))"

definition update :: "intents_repo \<Rightarrow> string \<Rightarrow> (intent \<Rightarrow> intent) \<Rightarrow> int option
    \<Rightarrow> intents_repo \<times> mutation_result" where
  "update s iid patch expectedVersion = mutate s iid expectedVersion (\<lambda>_. True) patch"

definition amendIfOpen :: "intents_repo \<Rightarrow> string \<Rightarrow> string \<Rightarrow> int \<Rightarrow> int \<Rightarrow> intents_repo \<times> intent option" where
  "amendIfOpen s iid minDst newDeadline nowSec =
     (case map_of (store s) iid of
        None \<Rightarrow> (s, None)
      | Some existing \<Rightarrow>
          if i_state existing \<noteq> St_open \<or> i_deadline existing \<le> nowSec \<or> newDeadline \<le> nowSec then (s, None)
          else (let updated = existing\<lparr> i_minDstAmount := minDst, i_deadline := newDeadline \<rparr>
                in (s\<lparr> store := AList.update iid updated (store s) \<rparr>, Some updated)))"

definition delete :: "intents_repo \<Rightarrow> string \<Rightarrow> intents_repo \<times> bool" where
  "delete s iid = (s\<lparr> store := AList.delete iid (store s) \<rparr>, map_of (store s) iid \<noteq> None)"

definition acceptIfOpen :: "intents_repo \<Rightarrow> string \<Rightarrow> string \<Rightarrow> int \<Rightarrow> int \<Rightarrow> int option
    \<Rightarrow> intents_repo \<times> mutation_result" where
  "acceptIfOpen s iid solver newDeadline nowSec expectedVersion =
     mutate s iid expectedVersion
       (\<lambda>i. i_state i = St_open \<and> i_deadline i > nowSec)
       (\<lambda>i. i\<lparr> i_state := St_accepted, i_solver := Some solver, i_deadline := newDeadline \<rparr>)"

text \<open>
  The fill patch: a key that is absent (\<open>None\<close>) leaves the stored value, a key that is present
  overwrites it, also when its value is \<open>undefined\<close> (\<open>Some None\<close>).
\<close>

record fill_patch =
  fpatch_filledAt :: "int option option"
  fpatch_fillAmount :: "string option option"
  fpatch_feeAmount :: "string option option"
  fpatch_txHash :: "string option option"

definition apply_fill_patch :: "fill_patch \<Rightarrow> intent \<Rightarrow> intent" where
  "apply_fill_patch p i =
     i\<lparr> i_filledAt := coalesce (fpatch_filledAt p) (i_filledAt i),
        i_fillAmount := coalesce (fpatch_fillAmount p) (i_fillAmount i),
        i_feeAmount := coalesce (fpatch_feeAmount p) (i_feeAmount i),
        i_txHash := coalesce (fpatch_txHash p) (i_txHash i) \<rparr>"

definition fillIfAccepted :: "intents_repo \<Rightarrow> string \<Rightarrow> string \<Rightarrow> fill_patch \<Rightarrow> int \<Rightarrow> int option
    \<Rightarrow> intents_repo \<times> mutation_result" where
  "fillIfAccepted s iid solver patch nowSec expectedVersion =
     mutate s iid expectedVersion
       (\<lambda>i. i_state i = St_accepted \<and> i_solver i = Some solver \<and> i_deadline i > nowSec)
       (\<lambda>i. (apply_fill_patch patch i)\<lparr> i_state := St_filled \<rparr>)"

definition extendDeadlineIfAccepted :: "intents_repo \<Rightarrow> string \<Rightarrow> int \<Rightarrow> int option
    \<Rightarrow> intents_repo \<times> mutation_result" where
  "extendDeadlineIfAccepted s iid newDeadline expectedVersion =
     mutate s iid expectedVersion
       (\<lambda>i. i_state i = St_accepted \<and> i_deadline i < newDeadline)
       (\<lambda>i. i\<lparr> i_deadline := newDeadline \<rparr>)"

definition cancelIfOpen :: "intents_repo \<Rightarrow> string \<Rightarrow> int option \<Rightarrow> intents_repo \<times> mutation_result" where
  "cancelIfOpen s iid expectedVersion =
     mutate s iid expectedVersion (\<lambda>i. i_state i = St_open) (\<lambda>i. i\<lparr> i_state := St_cancelled \<rparr>)"

definition expireIfOpen :: "intents_repo \<Rightarrow> string \<Rightarrow> int option \<Rightarrow> intents_repo \<times> mutation_result" where
  "expireIfOpen s iid expectedVersion =
     mutate s iid expectedVersion (\<lambda>i. i_state i = St_open) (\<lambda>i. i\<lparr> i_state := St_expired \<rparr>)"

definition slashIfAccepted :: "intents_repo \<Rightarrow> string \<Rightarrow> int \<Rightarrow> string \<Rightarrow> int option
    \<Rightarrow> intents_repo \<times> mutation_result" where
  "slashIfAccepted s iid slashedAt slashReason expectedVersion =
     mutate s iid expectedVersion (\<lambda>i. i_state i = St_accepted)
       (\<lambda>i. i\<lparr> i_slashedAt := Some slashedAt, i_slashReason := Some slashReason, i_state := St_slashed \<rparr>)"

text \<open>The patch of \<open>transitionIf\<close> always sets the state; \<open>patch\<close> is the rest of it.\<close>

definition transitionIf :: "intents_repo \<Rightarrow> string \<Rightarrow> intent_state \<Rightarrow> intent_state \<Rightarrow> (intent \<Rightarrow> intent)
    \<Rightarrow> intents_repo \<times> mutation_result" where
  "transitionIf s iid from to patch =
     mutate s iid None (\<lambda>i. i_state i = from) (\<lambda>i. (patch i)\<lparr> i_state := to \<rparr>)"

text \<open>
  The constructor's demo rows. \<open>rows\<close> is \<open>buildSeedIntents(now)\<close>, each with the uuid and the
  random age drawn for it.
\<close>

definition seed :: "int \<Rightarrow> (intent \<times> string \<times> int) list \<Rightarrow> intents_repo \<Rightarrow> intents_repo" where
  "seed now rows s =
     fold (\<lambda>(data, uuid, age) s. s\<lparr> store := AList.update uuid
         (data\<lparr> i_intentId := uuid, i_createdAt := now - age, i_version := Some 0, i_srcVerified := Some True,
                i_srcVerification := Some \<lparr> sv_status = Src_skipped, sv_checkedAt = now, sv_blockNumber = None,
                  sv_blockHash = None, sv_receivedAmount = None, sv_detail = Some ''demo seed data'' \<rparr> \<rparr>)
         (store s) \<rparr>) rows s"

section \<open>The contract of \<open>mutate\<close>\<close>

text \<open>The guard and the patch of a write as one call of \<open>mutate\<close> sees them.\<close>

definition version_guard :: "int option \<times> (intent \<Rightarrow> bool) \<Rightarrow> intent \<Rightarrow> bool" where
  "version_guard eg i \<longleftrightarrow> (fst eg = None \<or> fst eg = Some (row_version i)) \<and> snd eg i"

definition stamped :: "string \<Rightarrow> (intent \<Rightarrow> intent) \<Rightarrow> intent \<Rightarrow> intent" where
  "stamped iid p i = (p i)\<lparr> i_intentId := iid, i_version := Some (row_version i + 1) \<rparr>"

definition repo_cwrite :: "intents_repo \<Rightarrow> string \<Rightarrow> int option \<times> (intent \<Rightarrow> bool) \<Rightarrow> (intent \<Rightarrow> intent)
    \<Rightarrow> intents_repo \<times> intent option" where
  "repo_cwrite s iid eg p =
     (fst (mutate s iid (fst eg) (snd eg) p), written (snd (mutate s iid (fst eg) (snd eg) p)))"

lemma written_simps [simp]:
  "written MR_null = None" "written (MR_conflict i e a) = None" "written (MR_intent x) = Some x"
  by (simp_all add: written_def)

lemma written_Some [simp]: "written r = Some x \<longleftrightarrow> r = MR_intent x"
  by (cases r) auto

interpretation rows: conditional_write findById version_guard stamped repo_cwrite
  by unfold_locales
     (auto simp: repo_cwrite_def mutate_def version_guard_def stamped_def row_version_def findById_def Let_def
        split: option.splits)

lemma mutate_intent:
  "snd (mutate s iid ev g p) = MR_intent i' \<longleftrightarrow>
     (\<exists>i. findById s iid = Some i \<and> (ev = None \<or> ev = Some (row_version i)) \<and> g i \<and> i' = stamped iid p i)"
  using rows.won_iff[of s iid "(ev, g)" p i'] by (auto simp: repo_cwrite_def version_guard_def)

lemma findById_mutate:
  "findById (fst (mutate s iid ev g p)) k =
     (if k = iid then (case findById s iid of None \<Rightarrow> None
        | Some i \<Rightarrow> Some (if version_guard (ev, g) i then stamped iid p i else i))
      else findById s k)"
  using rows.get_after[of s iid "(ev, g)" p k] by (simp add: repo_cwrite_def)

lemma mutate_lost:
  "(\<forall>i. snd (mutate s iid ev g p) \<noteq> MR_intent i) \<Longrightarrow> fst (mutate s iid ev g p) = s"
  using rows.lost_unchanged[of s iid "(ev, g)" p]
  by (cases "snd (mutate s iid ev g p)") (auto simp: repo_cwrite_def)

lemma mutate_keys [simp]: "idempotencyKeys (fst (mutate s iid ev g p)) = idempotencyKeys s"
  by (simp add: mutate_def Let_def split: option.splits)

lemma mutate_wf: "wf_map (store s) \<Longrightarrow> wf_map (store (fst (mutate s iid ev g p)))"
  by (simp add: mutate_def Let_def split: option.splits)

lemma stamped_simps [simp]:
  "i_intentId (stamped iid p i) = iid" "row_version (stamped iid p i) = row_version i + 1"
  "i_state (stamped iid p i) = i_state (p i)" "i_version (stamped iid p i) = Some (row_version i + 1)"
  by (simp_all add: stamped_def row_version_def)

lemmas guarded_writes = update_def acceptIfOpen_def fillIfAccepted_def extendDeadlineIfAccepted_def
  cancelIfOpen_def expireIfOpen_def slashIfAccepted_def transitionIf_def

section \<open>Well-formed stores and runs of writes\<close>

definition repo_ok :: "intents_repo \<Rightarrow> bool" where
  "repo_ok s \<longleftrightarrow> wf_map (store s) \<and> wf_map (idempotencyKeys s) \<and>
     (\<forall>k i. findById s k = Some i \<longrightarrow> i_intentId i = k \<and> 0 \<le> row_version i)"

text \<open>
  One call of the repository as the service makes it: new intents come with a fresh id, a
  generic update leaves the state alone, and a conditional transition is for an edge of the
  table. Eviction of settled intents is the one other write; it removes rows and is treated
  with the service.
\<close>

inductive repo_step :: "intents_repo \<Rightarrow> intents_repo \<Rightarrow> bool" where
  rs_save: "findById s (i_intentId i) = None \<Longrightarrow> 0 \<le> row_version i \<Longrightarrow> repo_step s (fst (save s i))"
| rs_create: "findById s (i_intentId i) = None \<Longrightarrow> 0 \<le> row_version i
    \<Longrightarrow> repo_step s (fst (createIdempotent s i key m))"
| rs_lookup: "repo_step s (fst (findByIdempotencyKey s key m))"
| rs_update: "(\<And>i. i_state (p i) = i_state i) \<Longrightarrow> repo_step s (fst (update s iid p ev))"
| rs_amend: "repo_step s (fst (amendIfOpen s iid minDst dl now))"
| rs_accept: "repo_step s (fst (acceptIfOpen s iid solver dl now ev))"
| rs_fill: "repo_step s (fst (fillIfAccepted s iid solver patch now ev))"
| rs_extend: "repo_step s (fst (extendDeadlineIfAccepted s iid dl ev))"
| rs_cancel: "repo_step s (fst (cancelIfOpen s iid ev))"
| rs_expire: "repo_step s (fst (expireIfOpen s iid ev))"
| rs_slash: "repo_step s (fst (slashIfAccepted s iid t rsn ev))"
| rs_transition: "table_edge st st' \<Longrightarrow> repo_step s (fst (transitionIf s iid st st' p))"

text \<open>What a step may do to a row: move along table edges, and never lower its version.\<close>

definition row_evolves :: "intent \<Rightarrow> intent \<Rightarrow> bool" where
  "row_evolves i i' \<longleftrightarrow> table_edge\<^sup>*\<^sup>* (i_state i) (i_state i') \<and> row_version i \<le> row_version i'"

lemma row_evolves_refl [simp]: "row_evolves i i"
  by (simp add: row_evolves_def)

definition rows_evolve :: "intents_repo \<Rightarrow> intents_repo \<Rightarrow> bool" where
  "rows_evolve s s' \<longleftrightarrow> (\<forall>k i. findById s k = Some i \<longrightarrow> (\<exists>i'. findById s' k = Some i' \<and> row_evolves i i'))"

lemma rows_evolve_refl: "rows_evolve s s"
  by (simp add: rows_evolve_def)

lemma rows_evolve_trans: "rows_evolve a b \<Longrightarrow> rows_evolve b c \<Longrightarrow> rows_evolve a c"
  unfolding rows_evolve_def row_evolves_def by (meson order_trans rtranclp_trans)

lemma mutate_evolves:
  assumes "\<And>i. g i \<Longrightarrow> table_edge\<^sup>*\<^sup>* (i_state i) (i_state (p i))"
  shows "rows_evolve s (fst (mutate s iid ev g p))"
  using assms by (auto simp: rows_evolve_def row_evolves_def findById_mutate version_guard_def)

lemma mutate_ok: "repo_ok s \<Longrightarrow> repo_ok (fst (mutate s iid ev g p))"
  by (auto simp: repo_ok_def mutate_wf findById_mutate split: if_splits option.splits)

lemma save_ok: "repo_ok s \<Longrightarrow> 0 \<le> row_version i \<Longrightarrow> repo_ok (fst (save s i))"
  by (auto simp: repo_ok_def save_def findById_def)

lemma findByIdempotencyKey_store [simp]: "store (fst (findByIdempotencyKey s key m)) = store s"
  by (simp add: findByIdempotencyKey_def split: option.splits)

lemma findById_lookup [simp]: "findById (fst (findByIdempotencyKey s key m)) k = findById s k"
  by (simp add: findById_def)

lemma lookup_ok: "repo_ok s \<Longrightarrow> repo_ok (fst (findByIdempotencyKey s key m))"
  by (simp add: repo_ok_def) (simp add: findByIdempotencyKey_def split: option.splits)

lemma createIdempotent_store:
  "store (fst (createIdempotent s i key m)) =
     (if snd (snd (createIdempotent s i key m)) then AList.update (i_intentId i) i (store s) else store s)"
  using findByIdempotencyKey_store[of s key m]
  by (cases "findByIdempotencyKey s key m") (simp add: createIdempotent_def split: option.splits)

lemma create_ok: "repo_ok s \<Longrightarrow> 0 \<le> row_version i \<Longrightarrow> repo_ok (fst (createIdempotent s i key m))"
  using lookup_ok[of s key m]
  by (cases "findByIdempotencyKey s key m")
     (auto simp: createIdempotent_def repo_ok_def findById_def split: option.splits)

lemma amend_ok: "repo_ok s \<Longrightarrow> repo_ok (fst (amendIfOpen s iid minDst dl now))"
  by (auto simp: amendIfOpen_def repo_ok_def findById_def row_version_def Let_def split: option.splits)

lemma delete_ok: "repo_ok s \<Longrightarrow> repo_ok (fst (delete s iid))"
  by (auto simp: delete_def repo_ok_def findById_def split: if_splits)

lemma repo_step_ok: "repo_step s s' \<Longrightarrow> repo_ok s \<Longrightarrow> repo_ok s'"
  by (induction rule: repo_step.induct)
     (simp_all add: save_ok create_ok lookup_ok amend_ok guarded_writes mutate_ok)

lemma fresh_evolves:
  "findById s (i_intentId i) = None \<Longrightarrow> store s' = AList.update (i_intentId i) i (store s) \<Longrightarrow> rows_evolve s s'"
  by (auto simp: rows_evolve_def findById_def)

lemma same_store_evolves: "store s' = store s \<Longrightarrow> rows_evolve s s'"
  by (simp add: rows_evolve_def findById_def)

lemma repo_step_evolves: "repo_step s s' \<Longrightarrow> rows_evolve s s'"
proof (induction rule: repo_step.induct)
  case (rs_create s i key m)
  then show ?case using createIdempotent_store[of s i key m]
    by (cases "snd (snd (createIdempotent s i key m))") (auto intro: fresh_evolves same_store_evolves)
next
  case (rs_amend s iid minDst dl now)
  then show ?case
    by (auto simp: rows_evolve_def row_evolves_def amendIfOpen_def findById_def row_version_def Let_def
        split: option.splits)
qed (auto simp: save_def guarded_writes apply_fill_patch_def intro: fresh_evolves same_store_evolves intro!: mutate_evolves)

interpretation repo_runs: status_system repo_step repo_ok
  "\<lambda>s k. map_option i_state (findById s k)" table_edge
proof
  show "repo_ok s'" if "repo_step s s'" "repo_ok s" for s s' using repo_step_ok that .
  show "\<exists>b. map_option i_state (findById s' k) = Some b \<and> table_edge\<^sup>*\<^sup>* a b"
    if "repo_step s s'" "repo_ok s" "map_option i_state (findById s k) = Some a" for s s' k a
    using repo_step_evolves[OF that(1)] that(3) by (fastforce simp: rows_evolve_def row_evolves_def)
qed

lemma run_evolves: "repo_step\<^sup>*\<^sup>* s s' \<Longrightarrow> repo_ok s \<Longrightarrow> rows_evolve s s'"
  by (rule repo_runs.run_relation) (auto intro: rows_evolve_refl rows_evolve_trans repo_step_evolves)

section \<open>Properties of the store\<close>


definition sample_repo :: intents_repo where
  "sample_repo = \<lparr> store = [(''i1'', sample_intent ''i1'' ''GA'' 100)], idempotencyKeys = [] \<rparr>"

lemma sample_repo_ok: "repo_ok sample_repo"
  by (simp add: repo_ok_def sample_repo_def findById_def row_version_def)


text \<open>Optimistic concurrency: once a write made against version \<open>v\<close> has won, every later
write against \<open>v\<close> on that intent, of whatever kind and after whatever other writes, changes
nothing and reports a conflict carrying a newer version. At most one writer per version wins.\<close>

theorem stale_version_never_wins:
  assumes "repo_ok s" and "snd (mutate s iid (Some v) g p) = MR_intent i"
    and "repo_step\<^sup>*\<^sup>* (fst (mutate s iid (Some v) g p)) s'"
  shows "row_version i = v + 1 \<and> (\<exists>a > v. mutate s' iid (Some v) g' p' = (s', MR_conflict iid v a))"
proof -
  let ?s1 = "fst (mutate s iid (Some v) g p)"
  from assms(2) obtain r where r: "findById s iid = Some r" "row_version r = v" "g r" "i = stamped iid p r"
    by (auto simp: mutate_intent)
  then have "findById ?s1 iid = Some i" by (simp add: findById_mutate version_guard_def)
  then obtain i' where i': "findById s' iid = Some i'" "row_evolves i i'"
    using run_evolves[OF assms(3) mutate_ok[OF assms(1)]] by (auto simp: rows_evolve_def)
  with r have "v < row_version i'" by (simp add: row_evolves_def)
  with i'(1) r show ?thesis by (auto simp: mutate_def findById_def row_version_def)
qed

theorem stale_version_never_wins_witness:
  "\<exists>a > 0. cancelIfOpen (fst (acceptIfOpen sample_repo ''i1'' ''GS'' 700 50 (Some 0))) ''i1'' (Some 0)
     = (fst (acceptIfOpen sample_repo ''i1'' ''GS'' 700 50 (Some 0)), MR_conflict ''i1'' 0 a)"
proof -
  have "snd (acceptIfOpen sample_repo ''i1'' ''GS'' 700 50 (Some 0))
      = MR_intent ((sample_intent ''i1'' ''GA'' 100)\<lparr> i_state := St_accepted, i_solver := Some ''GS'',
          i_deadline := 700, i_intentId := ''i1'', i_version := Some 1 \<rparr>)"
    by (simp add: acceptIfOpen_def mutate_def sample_repo_def Let_def)
  from stale_version_never_wins[OF sample_repo_ok this[unfolded acceptIfOpen_def] rtranclp.rtrancl_refl]
  show ?thesis by (simp add: acceptIfOpen_def cancelIfOpen_def)
qed

text \<open>C14. A fill and a slash of the same intent exclude each other for good. After a fill has won,
no slash of that intent wins in any later state, and the intent is filled or awaiting the
fill's confirmation; after a slash has won, no fill of it wins in any later state.\<close>

theorem fill_and_slash_exclusive:
  assumes "repo_ok s"
  shows "(snd (fillIfAccepted s iid solver patch now ev) = MR_intent i
           \<and> repo_step\<^sup>*\<^sup>* (fst (fillIfAccepted s iid solver patch now ev)) s'
          \<longrightarrow> written (snd (slashIfAccepted s' iid t rsn ev')) = None
              \<and> (\<exists>i'. findById s' iid = Some i' \<and> i_state i' \<in> {St_filled, St_pending_filled}))
       \<and> (snd (slashIfAccepted s iid t rsn ev) = MR_intent i
           \<and> repo_step\<^sup>*\<^sup>* (fst (slashIfAccepted s iid t rsn ev)) s'
          \<longrightarrow> written (snd (fillIfAccepted s' iid solver patch now ev')) = None)"
proof -
  have later: "\<exists>i'. findById s' iid = Some i' \<and> table_edge\<^sup>*\<^sup>* (i_state i) (i_state i')"
    if "snd (mutate s iid ev g p) = MR_intent i" "repo_step\<^sup>*\<^sup>* (fst (mutate s iid ev g p)) s'" for g p
  proof -
    have "findById (fst (mutate s iid ev g p)) iid = Some i"
      using that(1) by (auto simp: mutate_intent findById_mutate version_guard_def)
    then show ?thesis
      using run_evolves[OF that(2) mutate_ok[OF assms]] by (fastforce simp: rows_evolve_def row_evolves_def)
  qed
  have lose: "written (snd (mutate s' iid ev' g p)) = None" if "\<forall>i'. findById s' iid = Some i' \<longrightarrow> \<not> g i'" for g p
    using that by (cases "written (snd (mutate s' iid ev' g p))") (auto simp: mutate_intent)
  show ?thesis
  proof (intro conjI impI, goal_cases)
    case 1
    then have "i_state i = St_filled" by (auto simp: fillIfAccepted_def mutate_intent)
    then obtain i' where "findById s' iid = Some i'" "i_state i' \<in> {St_filled, St_pending_filled}"
      using later 1 filled_reach by (fastforce simp: fillIfAccepted_def)
    then show ?case unfolding slashIfAccepted_def by (intro lose) auto
  next
    case 2
    then have "i_state i = St_filled" by (auto simp: fillIfAccepted_def mutate_intent)
    then show ?case using later 2 filled_reach by (fastforce simp: fillIfAccepted_def)
  next
    case 3
    then have "i_state i = St_slashed" by (auto simp: slashIfAccepted_def mutate_intent)
    then obtain i' where "findById s' iid = Some i'" "i_state i' \<noteq> St_accepted"
      using later 3 slashed_reach by (fastforce simp: slashIfAccepted_def)
    then show ?case unfolding fillIfAccepted_def by (intro lose) auto
  qed
qed

definition accepted_repo :: intents_repo where
  "accepted_repo = fst (acceptIfOpen sample_repo ''i1'' ''GS'' 700 50 None)"

lemma accepted_repo_ok: "repo_ok accepted_repo"
  by (simp add: accepted_repo_def acceptIfOpen_def mutate_ok sample_repo_ok)

definition sample_fill :: fill_patch where
  "sample_fill = \<lparr> fpatch_filledAt = Some (Some 60), fpatch_fillAmount = Some (Some ''995''), fpatch_feeAmount = None,
     fpatch_txHash = None \<rparr>"

theorem fill_and_slash_exclusive_witness:
  "written (snd (fillIfAccepted accepted_repo ''i1'' ''GS'' sample_fill 60 None)) \<noteq> None
   \<and> written (snd (slashIfAccepted (fst (fillIfAccepted accepted_repo ''i1'' ''GS'' sample_fill 60 None))
        ''i1'' 900 ''late'' None)) = None"
proof -
  have won: "written (snd (fillIfAccepted accepted_repo ''i1'' ''GS'' sample_fill 60 None)) \<noteq> None"
    by (simp add: accepted_repo_def acceptIfOpen_def fillIfAccepted_def mutate_def sample_repo_def Let_def)
  then obtain i where "snd (fillIfAccepted accepted_repo ''i1'' ''GS'' sample_fill 60 None) = MR_intent i" by auto
  with fill_and_slash_exclusive[OF accepted_repo_ok, where s' = "fst (fillIfAccepted accepted_repo ''i1'' ''GS'' sample_fill 60 None)"]
  show ?thesis using won by blast
qed

text \<open>Idempotent creation: whatever a call under a key returned, the row is stored under its id,
and in any later state that still maps the key and still has that row inside the window (its
contents may have moved on), every call under the key, whatever intent it brings, returns the
stored row, creates nothing and changes nothing.\<close>

theorem createIdempotent_replay:
  assumes "createIdempotent s i key m = (s1, r, created)" and "i_intentId i \<noteq> []" and "repo_ok s"
    and "map_of (idempotencyKeys s2) key = map_of (idempotencyKeys s1) key"
    and "findById s2 (i_intentId r) = Some r2" and "m' \<le> i_createdAt r2"
  shows "findById s1 (i_intentId r) = Some r \<and> createIdempotent s2 j key m' = (s2, r2, False)"
proof -
  have "findById s1 (i_intentId r) = Some r \<and> i_intentId r \<noteq> []
      \<and> map_of (idempotencyKeys s1) key = Some (i_intentId r)"
  proof (cases created)
    case True
    then show ?thesis
      using assms(1,2) by (auto simp: createIdempotent_def findById_def split: prod.splits option.splits)
  next
    case False
    then have "findByIdempotencyKey s key m = (s1, Some r)"
      using assms(1) by (auto simp: createIdempotent_def split: prod.splits option.splits)
    then obtain k where "s1 = s" "map_of (idempotencyKeys s) key = Some k" "k \<noteq> []" "findById s k = Some r"
      by (auto simp: findByIdempotencyKey_def findById_def split: option.splits if_splits)
    with assms(3) show ?thesis by (auto simp: repo_ok_def)
  qed
  with assms(4-6) show ?thesis
    by (simp add: createIdempotent_def findByIdempotencyKey_def findById_def)
qed

theorem createIdempotent_replay_witness:
  "let s1 = fst (createIdempotent sample_repo (sample_intent ''i2'' ''GA'' 200) ''k'' 0);
       s2 = fst (cancelIfOpen s1 ''i2'' None)
   in snd (snd (createIdempotent s2 (sample_intent ''i3'' ''GB'' 300) ''k'' 5)) = False
      \<and> findById s1 ''i2'' = Some (sample_intent ''i2'' ''GA'' 200)"
proof -
  let ?i = "sample_intent ''i2'' ''GA'' 200"
  let ?s1 = "\<lparr> store = [(''i1'', sample_intent ''i1'' ''GA'' 100), (''i2'', ?i)], idempotencyKeys = [(''k'', ''i2'')] \<rparr>"
  let ?c = "?i\<lparr> i_state := St_cancelled, i_intentId := ''i2'', i_version := Some 1 \<rparr>"
  let ?s2 = "\<lparr> store = [(''i1'', sample_intent ''i1'' ''GA'' 100), (''i2'', ?c)], idempotencyKeys = [(''k'', ''i2'')] \<rparr>"
  have 1: "createIdempotent sample_repo ?i ''k'' 0 = (?s1, ?i, True)"
    by (simp add: createIdempotent_def findByIdempotencyKey_def sample_repo_def)
  have 2: "fst (cancelIfOpen ?s1 ''i2'' None) = ?s2" by (simp add: cancelIfOpen_def mutate_def Let_def)
  have 3: "findById ?s1 (i_intentId ?i) = Some ?i
      \<and> createIdempotent ?s2 (sample_intent ''i3'' ''GB'' 300) ''k'' 5 = (?s2, ?c, False)"
    by (rule createIdempotent_replay[OF 1 _ sample_repo_ok]) (simp_all add: findById_def)
  show ?thesis unfolding Let_def 1 fst_conv 2 using 3 by simp
qed

section \<open>Search\<close>

text \<open>The reference reading of a query: every filter that is present holds.\<close>

definition search_matches :: "intent_search_query \<Rightarrow> intent \<Rightarrow> bool" where
  "search_matches q i \<longleftrightarrow>
     (\<forall>v. q_state q = Some v \<longrightarrow> i_state i = v)
     \<and> (\<forall>v. q_user q = Some v \<longrightarrow> toLowerCase (i_user i) = toLowerCase v)
     \<and> (\<forall>v. q_chain q = Some v \<longrightarrow> i_srcChain i = v)
     \<and> (\<forall>v. q_solver q = Some v \<longrightarrow> (\<exists>sv. i_solver i = Some sv \<and> toLowerCase sv = toLowerCase v))
     \<and> (\<forall>v. q_minAmountUsd q = Some v \<longrightarrow> (\<exists>u. i_usdValueAtCreate i = Some u \<and> v \<le> u))
     \<and> (\<forall>v. q_maxAmountUsd q = Some v \<longrightarrow> (\<exists>u. i_usdValueAtCreate i = Some u \<and> u \<le> v))
     \<and> (\<forall>v. q_createdFrom q = Some v \<longrightarrow> v \<le> i_createdAt i)
     \<and> (\<forall>v. q_createdTo q = Some v \<longrightarrow> i_createdAt i \<le> v)
     \<and> (\<forall>v. q_srcToken q = Some v \<longrightarrow> toLowerCase (t_symbol (i_srcToken i)) = toLowerCase v)
     \<and> (\<forall>v. q_dstToken q = Some v \<longrightarrow> toLowerCase (st_symbol (i_dstToken i)) = toLowerCase v)"

lemma filter_if_filter: "filter_if q p xs = filter (\<lambda>x. \<forall>v. q = Some v \<longrightarrow> p v x) xs"
  by (cases q) (simp_all add: filter_if_def)

lemma search_filter_matches: "search_filter q xs = filter (search_matches q) xs"
  unfolding search_filter_def filter_if_filter Let_def filter_filter search_matches_def
  by (rule filter_cong) (auto split: option.splits)

lemma mset_findAll: "mset (findAll s) = mset (js_values (store s))"
  by (simp add: findAll_def)

lemma concat_slices:
  "concat (map (\<lambda>p. take l (drop (p * l) xs)) [0..<n]) = take (n * l) xs"
proof (induction n)
  case (Suc n)
  then show ?case using take_add[of "n * l" l xs] by (simp add: add.commute)
qed simp

text \<open>Search is complete and in order: reading the pages of a query one after the other, with a
positive page size and enough pages for the reported total, yields every stored intent that
matches all the filters exactly once and nothing else, sorted by the requested dimension and
direction; no page exceeds the page size, and the reported total is the number of matches.\<close>

theorem search_pages:
  assumes "0 < l" and "snd (search s q) \<le> n * l"
  shows "let pages = map (\<lambda>p. fst (search s (q\<lparr> q_limit := Some (int l), q_offset := Some (int (p * l)) \<rparr>))) [0..<n]
    in mset (concat pages) = mset (filter (search_matches q) (js_values (store s)))
       \<and> sorted (map (search_sort_key q) (concat pages))
       \<and> (\<forall>pg \<in> set pages. length pg \<le> l)
       \<and> snd (search s q) = length (filter (search_matches q) (js_values (store s)))"
proof -
  let ?R = "sort_key (search_sort_key q) (filter (search_matches q) (findAll s))"
  have page: "fst (search s (q\<lparr> q_limit := Some (int l), q_offset := Some (int (p * l)) \<rparr>)) = take l (drop (p * l) ?R)" for p
  proof -
    have "search_matches (q\<lparr> q_limit := a, q_offset := b \<rparr>) = search_matches q" for a b
      by (rule ext) (simp add: search_matches_def)
    moreover have "search_sort_key (q\<lparr> q_limit := a, q_offset := b \<rparr>) = search_sort_key q" for a b
      by (rule ext) (simp add: search_sort_key_def)
    ultimately show ?thesis
      by (simp add: search_def Let_def search_filter_matches js_slice_nonneg nat_mult_distrib del: of_nat_mult)
  qed
  have tot: "snd (search s q) = length ?R" by (simp add: search_def Let_def search_filter_matches)
  have "length (filter (search_matches q) (findAll s)) = length (filter (search_matches q) (js_values (store s)))"
    by (metis mset_filter mset_findAll size_mset)
  moreover have "mset ?R = mset (filter (search_matches q) (js_values (store s)))"
    by (simp add: mset_findAll)
  ultimately show ?thesis
    using assms tot unfolding Let_def page concat_slices by auto
qed

theorem search_pages_witness:
  "let s = fst (save sample_repo (sample_intent ''i2'' ''GB'' 50));
       q = \<lparr> q_state = Some St_open, q_user = None, q_chain = None, q_minAmountUsd = None, q_maxAmountUsd = None,
             q_createdFrom = None, q_createdTo = None, q_srcToken = None, q_dstToken = None, q_solver = None,
             q_sort = Some ''deadline:asc'', q_limit = None, q_offset = None \<rparr>
   in mset (concat (map (\<lambda>p. fst (search s (q\<lparr> q_limit := Some (int 1), q_offset := Some (int (p * 1)) \<rparr>))) [0..<2]))
      = mset [sample_intent ''i1'' ''GA'' 100, sample_intent ''i2'' ''GB'' 50]"
proof -
  let ?s = "fst (save sample_repo (sample_intent ''i2'' ''GB'' 50))"
  let ?q = "\<lparr> q_state = Some St_open, q_user = None, q_chain = None, q_minAmountUsd = None, q_maxAmountUsd = None,
             q_createdFrom = None, q_createdTo = None, q_srcToken = None, q_dstToken = None, q_solver = None,
             q_sort = Some ''deadline:asc'', q_limit = None, q_offset = None \<rparr>"
  have v: "js_values (store ?s) = [sample_intent ''i1'' ''GA'' 100, sample_intent ''i2'' ''GB'' 50]"
    by (simp add: save_def sample_repo_def)
  have f: "filter (search_matches ?q) (js_values (store ?s)) = js_values (store ?s)"
    unfolding v by (simp add: search_matches_def)
  have "snd (search ?s ?q) = length (filter (search_matches ?q) (findAll ?s))"
    by (simp add: search_def Let_def search_filter_matches)
  also have "\<dots> \<le> 2 * 1"
    using v by (metis f length_filter_le length_map list.size(3,4) mset_filter mset_findAll size_mset
        add_0 one_add_one mult.right_neutral le_refl Suc_eq_plus1)
  finally have "snd (search ?s ?q) \<le> 2 * 1" .
  note P = search_pages[OF zero_less_one this, unfolded Let_def f]
  show ?thesis unfolding Let_def using conjunct1[OF P] v by (simp only:)
qed

end
