(* ===== verification/Solver_Fills.thy ===== *)
theory Solver_Fills
  imports Intents_Repository
begin

text \<open>
  The per-fill ledger of \<^verbatim>\<open>src/solvers/solver-fills.types.ts\<close> and
  \<^verbatim>\<open>src/solvers/solver-fills.repository.ts\<close>: one row per fill outcome, USD figures as
  8-decimal strings computed in integers, and the reference aggregation behind solver
  statistics. A price is an exact rational, where the code has a double.
\<close>

section \<open>Rows and windows\<close>

datatype fill_outcome = FO_filled | FO_failed | FO_reversed

fun outcome_name :: "fill_outcome \<Rightarrow> string" where
  "outcome_name FO_filled = ''filled''"
| "outcome_name FO_failed = ''failed''"
| "outcome_name FO_reversed = ''reversed''"

record solver_fill_record =
  sf_intentId :: string
  sf_solver :: string
  sf_chain :: string
  sf_srcAmount :: string
  sf_dstAmount :: "string option"
  sf_usdValue :: "string option"
  sf_fillSeconds :: "int option"
  sf_outcome :: fill_outcome
  sf_ledger :: "int option"
  sf_createdAt :: int

datatype fill_window = W_24h | W_7d | W_30d | W_all

fun windowStart :: "fill_window \<Rightarrow> int \<Rightarrow> int option" where
  "windowStart W_24h now = Some (now - 24 * 60 * 60)"
| "windowStart W_7d now = Some (now - 7 * 24 * 60 * 60)"
| "windowStart W_30d now = Some (now - 30 * 24 * 60 * 60)"
| "windowStart W_all now = None"

record solver_fill_aggregate =
  ag_solver :: string
  ag_fillsCompleted :: nat
  ag_fillsFailed :: int
  ag_totalVolume :: string
  ag_totalVolumeUsd :: "string option"
  ag_avgFillTime :: int
  ag_p50FillTime :: "int option"
  ag_p95FillTime :: "int option"

definition emptyAggregate :: "string \<Rightarrow> solver_fill_aggregate" where
  "emptyAggregate solver =
     \<lparr> ag_solver = solver, ag_fillsCompleted = 0, ag_fillsFailed = 0, ag_totalVolume = ''0'',
       ag_totalVolumeUsd = None, ag_avgFillTime = 0, ag_p50FillTime = None, ag_p95FillTime = None \<rparr>"

section \<open>Percentiles and USD figures\<close>

definition percentileNearestRank :: "int list \<Rightarrow> rat \<Rightarrow> int option" where
  "percentileNearestRank sortedAsc p =
     (if sortedAsc = [] then None
      else (let rank = max 1 (\<lceil>p * of_nat (length sortedAsc) - 1 / 10 ^ 9\<rceil>)
            in Some (sortedAsc ! nat (min rank (int (length sortedAsc)) - 1))))"

definition USD_SCALE :: nat where "USD_SCALE = 8"

text \<open>
  \<open>[whole, frac = ""]\<close> of the split; \<open>whole || "0"\<close>; the fraction padded and cut to eight
  digits. \<open>None\<close> is the \<open>SyntaxError\<close> of \<open>BigInt\<close>.
\<close>

definition usdToUnits :: "string \<Rightarrow> int option" where
  "usdToUnits value =
     (let negative = (value \<noteq> [] \<and> hd value = CHR ''-'');
          parts = js_split CHR ''.'' (if negative then tl value else value);
          whole = hd parts;
          frac = (if 1 < length parts then parts ! 1 else []);
          padded = take USD_SCALE (frac @ replicate USD_SCALE CHR ''0'')
      in case (BigInt (if whole = [] then ''0'' else whole), BigInt (if padded = [] then ''0'' else padded)) of
           (Some w, Some f) \<Rightarrow> (let units = w * 10 ^ USD_SCALE + f in Some (if negative then - units else units))
         | _ \<Rightarrow> None)"

definition padStart :: "nat \<Rightarrow> string \<Rightarrow> string" where
  "padStart n s = replicate (n - length s) CHR ''0'' @ s"

definition unitsToUsd :: "int \<Rightarrow> string" where
  "unitsToUsd units =
     (let negative = (units < 0);
          a = (if negative then - units else units);
          scale = 10 ^ USD_SCALE
      in (if negative then ''-'' else '''') @ toString (a div scale) @ ''.''
         @ padStart USD_SCALE (toString (a mod scale)))"

text \<open>\<open>Math.round\<close>: halves go up.\<close>

definition js_round :: "rat \<Rightarrow> int" where
  "js_round x = \<lfloor>x + 1 / 2\<rfloor>"

definition usdValueOf :: "string \<Rightarrow> int \<Rightarrow> rat option \<Rightarrow> string option" where
  "usdValueOf amount decimals priceUsd =
     (case priceUsd of
        None \<Rightarrow> None
      | Some price \<Rightarrow>
          if price \<le> 0 \<or> \<not> all_digits amount \<or> decimals < 0 then None
          else (case BigInt amount of
                  None \<Rightarrow> None
                | Some a \<Rightarrow> Some (unitsToUsd ((a * js_round (price * 10 ^ USD_SCALE)) div 10 ^ nat decimals))))"

section \<open>Aggregation\<close>

record fill_aggregate_query =
  aq_solver :: "string option"
  aq_since :: "int option"

definition row_selected :: "fill_aggregate_query \<Rightarrow> solver_fill_record \<Rightarrow> bool" where
  "row_selected query row \<longleftrightarrow>
     \<not> (aq_solver query \<noteq> None \<and> aq_solver query \<noteq> Some (sf_solver row))
     \<and> \<not> (case aq_since query of None \<Rightarrow> False | Some since \<Rightarrow> sf_createdAt row < since)"

definition group_by_solver :: "fill_aggregate_query \<Rightarrow> solver_fill_record list
    \<Rightarrow> (string, solver_fill_record list) jsmap" where
  "group_by_solver query rows =
     fold (\<lambda>row m. if row_selected query row
             then AList.update (sf_solver row) (coalesce (map_of m (sf_solver row)) [] @ [row]) m else m)
       rows []"

text \<open>The accumulator of the inner loop over one solver's rows.\<close>

record agg_acc =
  acc_completed :: nat
  acc_volume :: int
  acc_usd :: int
  acc_priced :: bool
  acc_times :: "int list"
  acc_failed :: int
  acc_reversed :: int

fun agg_row :: "solver_fill_record \<Rightarrow> agg_acc \<Rightarrow> agg_acc option" where
  "agg_row row acc =
     (case sf_outcome row of
        FO_failed \<Rightarrow> Some (acc\<lparr> acc_failed := acc_failed acc + 1 \<rparr>)
      | FO_reversed \<Rightarrow> Some (acc\<lparr> acc_reversed := acc_reversed acc + 1 \<rparr>)
      | FO_filled \<Rightarrow>
          (case (BigInt (coalesce (sf_dstAmount row) ''0''),
                 case sf_usdValue row of None \<Rightarrow> Some 0 | Some u \<Rightarrow> usdToUnits u) of
             (Some v, Some u) \<Rightarrow>
               Some (acc\<lparr> acc_completed := acc_completed acc + 1,
                          acc_volume := acc_volume acc + v,
                          acc_usd := acc_usd acc + u,
                          acc_priced := acc_priced acc \<or> sf_usdValue row \<noteq> None,
                          acc_times := acc_times acc @ (case sf_fillSeconds row of None \<Rightarrow> [] | Some t \<Rightarrow> [t]) \<rparr>)
           | _ \<Rightarrow> None))"

fun agg_rows :: "solver_fill_record list \<Rightarrow> agg_acc \<Rightarrow> agg_acc option" where
  "agg_rows [] acc = Some acc"
| "agg_rows (r # rs) acc = (case agg_row r acc of None \<Rightarrow> None | Some acc' \<Rightarrow> agg_rows rs acc')"

definition empty_acc :: agg_acc where
  "empty_acc = \<lparr> acc_completed = 0, acc_volume = 0, acc_usd = 0, acc_priced = False, acc_times = [],
     acc_failed = 0, acc_reversed = 0 \<rparr>"

definition agg_finish :: "string \<Rightarrow> agg_acc \<Rightarrow> solver_fill_aggregate" where
  "agg_finish solver acc =
     (let times = sort (acc_times acc) in
      (emptyAggregate solver)
        \<lparr> ag_fillsCompleted := acc_completed acc,
          ag_fillsFailed := max (acc_failed acc - acc_reversed acc) 0,
          ag_totalVolume := toString (acc_volume acc),
          ag_totalVolumeUsd := (if acc_priced acc then Some (unitsToUsd (acc_usd acc)) else None),
          ag_avgFillTime := (if times \<noteq> [] then js_round (of_int (sum_list times) / of_nat (length times)) else 0),
          ag_p50FillTime := percentileNearestRank times (1 / 2),
          ag_p95FillTime := percentileNearestRank times (95 / 100) \<rparr>)"

fun insert_by_solver :: "solver_fill_aggregate \<Rightarrow> solver_fill_aggregate list \<Rightarrow> solver_fill_aggregate list" where
  "insert_by_solver a [] = [a]"
| "insert_by_solver a (b # bs) =
     (if js_str_less (ag_solver b) (ag_solver a) then b # insert_by_solver a bs else a # b # bs)"

definition sort_by_solver :: "solver_fill_aggregate list \<Rightarrow> solver_fill_aggregate list" where
  "sort_by_solver as = foldr insert_by_solver as []"

fun agg_groups :: "(string, solver_fill_record list) jsmap \<Rightarrow> solver_fill_aggregate list option" where
  "agg_groups [] = Some []"
| "agg_groups ((solver, rs) # gs) =
     (case (agg_rows rs empty_acc, agg_groups gs) of
        (Some acc, Some as) \<Rightarrow> Some (agg_finish solver acc # as)
      | _ \<Rightarrow> None)"

definition aggregateFills :: "solver_fill_record list \<Rightarrow> fill_aggregate_query
    \<Rightarrow> solver_fill_aggregate list option" where
  "aggregateFills rows query = map_option sort_by_solver (agg_groups (group_by_solver query rows))"

section \<open>The in-memory ledger\<close>

record fills_ledger =
  fl_rows :: "solver_fill_record list"
  fl_keys :: "string list"

definition fill_key :: "solver_fill_record \<Rightarrow> string" where
  "fill_key f = sf_intentId f @ ''|'' @ outcome_name (sf_outcome f)"

definition record_fill :: "fills_ledger \<Rightarrow> solver_fill_record \<Rightarrow> fills_ledger" where
  "record_fill l f =
     (if fill_key f \<in> set (fl_keys l) then l
      else l\<lparr> fl_keys := fl_keys l @ [fill_key f], fl_rows := fl_rows l @ [f] \<rparr>)"

definition findBySolver :: "fills_ledger \<Rightarrow> string \<Rightarrow> solver_fill_record list" where
  "findBySolver l solver = sort_key sf_createdAt (filter (\<lambda>r. sf_solver r = solver) (fl_rows l))"

section \<open>Facts\<close>

lemma outcome_name_no_bar: "CHR ''|'' \<notin> set (outcome_name oc)"
  by (cases oc) simp_all

lemma outcome_name_inject [simp]: "outcome_name a = outcome_name b \<longleftrightarrow> a = b"
  by (cases a; cases b) simp_all

lemma fill_key_inject: "fill_key f = fill_key g \<longleftrightarrow> sf_intentId f = sf_intentId g \<and> sf_outcome f = sf_outcome g"
proof
  assume "fill_key f = fill_key g"
  then have "rev (outcome_name (sf_outcome f)) @ CHR ''|'' # rev (sf_intentId f)
           = rev (outcome_name (sf_outcome g)) @ CHR ''|'' # rev (sf_intentId g)"
    by (metis append.assoc append_Cons append_Nil fill_key_def rev_append rev_singleton_conv)
  then show "sf_intentId f = sf_intentId g \<and> sf_outcome f = sf_outcome g"
    using outcome_name_no_bar[of "sf_outcome f"] outcome_name_no_bar[of "sf_outcome g"]
    by (simp add: separated_unique)
qed (simp add: fill_key_def)

text \<open>A ledger in which the key set and the rows agree: at most one row per intent and outcome.\<close>

definition ledger_ok :: "fills_ledger \<Rightarrow> bool" where
  "ledger_ok l \<longleftrightarrow> fl_keys l = map fill_key (fl_rows l) \<and> distinct (fl_keys l)"

lemma record_fill_ok: "ledger_ok l \<Longrightarrow> ledger_ok (record_fill l f)"
  by (auto simp: ledger_ok_def record_fill_def)

lemma record_fill_mem: "ledger_ok l \<Longrightarrow> \<exists>g \<in> set (fl_rows (record_fill l f)). fill_key g = fill_key f"
  by (auto simp: ledger_ok_def record_fill_def)

lemma record_fill_idem: "ledger_ok l \<Longrightarrow> record_fill (record_fill l f) f = record_fill l f"
  by (auto simp: record_fill_def)

section \<open>Properties\<close>

lemma toString_nonneg: "0 \<le> n \<Longrightarrow> toString n = nat_to_string (nat n)"
  by (simp add: toString_def)

lemma digit_strings:
  "CHR ''.'' \<notin> set (nat_to_string n)" "CHR ''-'' \<notin> set (nat_to_string n)"
  by (rule digits_chars[OF nat_to_string_digits], simp add: is_digit_def)+

lemma usd_parts:
  fixes a :: int
  assumes "0 \<le> a"
  shows "BigInt (padStart USD_SCALE (toString (a mod 10 ^ USD_SCALE))) = Some (a mod 10 ^ USD_SCALE)"
    and "length (padStart USD_SCALE (toString (a mod 10 ^ USD_SCALE))) = USD_SCALE"
    and "CHR ''.'' \<notin> set (padStart USD_SCALE (toString (a mod 10 ^ USD_SCALE)))"
proof -
  let ?m = "a mod 10 ^ USD_SCALE"
  have m: "0 \<le> ?m" "?m < 10 ^ 8" by (simp_all add: USD_SCALE_def)
  then have s: "toString ?m = nat_to_string (nat ?m)" by (simp add: toString_nonneg)
  have "nat ?m < 10 ^ Suc 7" using m by simp
  from length_nat_to_string[OF this]
  show len: "length (padStart USD_SCALE (toString ?m)) = USD_SCALE"
    unfolding s by (simp add: padStart_def USD_SCALE_def)
  have "all_digits (padStart USD_SCALE (toString ?m))"
    unfolding s using nat_to_string_digits[of "nat ?m"]
    by (auto simp: padStart_def all_digits_def list_all_iff, simp add: is_digit_def)
  then show "BigInt (padStart USD_SCALE (toString ?m)) = Some ?m"
    using m(1) unfolding s by (simp add: BigInt_digits padStart_def parse_digits_nat_to_string)
  show "CHR ''.'' \<notin> set (padStart USD_SCALE (toString ?m))"
    unfolding s by (simp add: padStart_def digit_strings)
qed

text \<open>The 8-decimal USD strings lose nothing: an amount in 1e-8 units written by \<open>unitsToUsd\<close> is
read back unchanged by \<open>usdToUnits\<close>, for every integer, negative ones included.\<close>

theorem usd_round_trip: "usdToUnits (unitsToUsd units) = Some units"
proof -
  define a where "a = (if units < 0 then - units else units)"
  have a: "0 \<le> a" by (simp add: a_def)
  let ?w = "toString (a div 10 ^ USD_SCALE)" and ?f = "padStart USD_SCALE (toString (a mod 10 ^ USD_SCALE))"
  have w: "?w = nat_to_string (nat (a div 10 ^ USD_SCALE))"
    using a by (simp add: toString_nonneg USD_SCALE_def pos_imp_zdiv_nonneg_iff)
  have sp: "js_split CHR ''.'' (?w @ CHR ''.'' # ?f) = [?w, ?f]"
    using usd_parts(3)[OF a] by (simp add: js_split_append js_split_no_sep w digit_strings)
  have hd: "hd (?w @ x) \<noteq> CHR ''-''" for x
    using digit_strings(2) unfolding w by (metis hd_append2 hd_in_set nat_to_string_nonempty)
  have u: "unitsToUsd units = (if units < 0 then ''-'' else []) @ ?w @ CHR ''.'' # ?f"
    by (simp add: unitsToUsd_def a_def Let_def)
  have ne: "?w \<noteq> []" "?f \<noteq> []"
    using usd_parts(2)[OF a] w by (auto simp: USD_SCALE_def)
  have "a div 10 ^ USD_SCALE * 10 ^ USD_SCALE + a mod 10 ^ USD_SCALE = a" by (rule div_mult_mod_eq)
  then show ?thesis
    using usd_parts(1,2)[OF a] ne hd[of "CHR ''.'' # ?f"] sp a_def
    by (cases "units < 0") (simp_all add: usdToUnits_def u Let_def)
qed

lemma ceiling_epsilon:
  fixes m b :: nat
  assumes "0 < b" and "b < 10 ^ 9"
  shows "\<lceil>(of_nat m / of_nat b :: rat) - 1 / 10 ^ 9\<rceil> = \<lceil>(of_nat m / of_nat b :: rat)\<rceil>"
proof (rule ceiling_unique)
  let ?x = "of_nat m / of_nat b :: rat"
  define k where "k = \<lceil>?x\<rceil>"
  have "of_int (k - 1) < ?x" unfolding k_def by linarith
  then have "of_int ((k - 1) * int b) < (of_int (int m) :: rat)"
    using assms(1) by (simp add: field_simps)
  then have "(k - 1) * int b + 1 \<le> int m" by linarith
  then have "(of_int ((k - 1) * int b + 1) :: rat) \<le> of_int (int m)" by (simp only: of_int_le_iff)
  then have "(of_int (k - 1) * of_nat b + 1) / of_nat b \<le> ?x"
    by (intro divide_right_mono) simp_all
  then have "of_int (k - 1) + 1 / of_nat b \<le> ?x"
    using assms(1) by (simp add: add_divide_distrib)
  moreover have "(1 / 10 ^ 9 :: rat) < 1 / of_nat b"
    using assms by (simp add: field_simps)
  ultimately show "of_int \<lceil>?x\<rceil> - 1 < ?x - 1 / 10 ^ 9" unfolding k_def by simp
  show "?x - 1 / 10 ^ 9 \<le> of_int \<lceil>?x\<rceil>"
    by (metis (no_types, lifting) diff_ge_0_iff_ge le_of_int_ceiling order_trans diff_le_eq
        le_add_same_cancel1 divide_nonneg_nonneg zero_le_one zero_le_power zero_le_numeral)
qed

lemma sorted_rank:
  assumes "sorted ts" and "k < length ts"
  shows "Suc k \<le> length (filter (\<lambda>t. t \<le> ts ! k) ts)" and "length (filter (\<lambda>t. t < ts ! k) ts) \<le> k"
proof -
  have "length (filter (\<lambda>t. t \<le> ts ! k) (take (Suc k) ts)) = Suc k"
    using assms by (subst filter_True) (auto simp: in_set_conv_nth sorted_nth_mono)
  then show "Suc k \<le> length (filter (\<lambda>t. t \<le> ts ! k) ts)"
    by (metis append_take_drop_id filter_append le_add1 length_append)
  have "filter (\<lambda>t. t < ts ! k) (drop k ts) = []"
    using assms by (auto simp: filter_empty_conv in_set_conv_nth not_less sorted_nth_mono)
  then have "filter (\<lambda>t. t < ts ! k) ts = filter (\<lambda>t. t < ts ! k) (take k ts)"
    by (metis append_Nil2 append_take_drop_id filter_append)
  then show "length (filter (\<lambda>t. t < ts ! k) ts) \<le> k"
    by (metis length_filter_le length_take min.bounded_iff order_trans)
qed

text \<open>The percentile is the exact nearest-rank one. For a fraction \<open>a/b\<close> with a denominator far
below the epsilon's and an ascending, non-empty list, the result is an element of the list; at
least the fraction \<open>a/b\<close> of the entries are at or below it; and it is the smallest such entry:
fewer than that fraction lie strictly below it.\<close>

theorem percentile_exact:
  assumes "sorted ts" and "ts \<noteq> []" and "0 < b" and "b < 10 ^ 9" and "0 < a" and "a \<le> b"
  shows "\<exists>v. percentileNearestRank ts (of_nat a / of_nat b) = Some v \<and> v \<in> set ts
           \<and> of_nat a / of_nat b * of_nat (length ts) \<le> (of_nat (length (filter (\<lambda>t. t \<le> v) ts)) :: rat)
           \<and> (of_nat (length (filter (\<lambda>t. t < v) ts)) :: rat) < of_nat a / of_nat b * of_nat (length ts)"
proof -
  let ?n = "length ts" and ?x = "of_nat a / of_nat b * of_nat (length ts) :: rat"
  define c where "c = \<lceil>?x\<rceil>"
  have x: "0 < ?x" "?x \<le> of_nat ?n"
    using assms by (auto simp: field_simps mult_right_mono)
  have c: "1 \<le> c" "c \<le> int ?n" "?x \<le> of_int c" "of_int (c - 1) < ?x"
    using x unfolding c_def by (auto simp: ceiling_le_iff one_le_ceiling intro: le_of_int_ceiling) linarith+
  define k where "k = nat (c - 1)"
  have k: "k < ?n" "?x \<le> of_nat (Suc k)" "of_nat k < ?x"
    using c by (auto simp: k_def of_nat_nat)
  have "\<lceil>?x - 1 / 10 ^ 9\<rceil> = c"
    using ceiling_epsilon[OF assms(3,4), of "a * ?n"] by (simp add: c_def)
  then have v: "percentileNearestRank ts (of_nat a / of_nat b) = Some (ts ! k)"
    using assms(2) c(1,2) by (simp add: percentileNearestRank_def k_def)
  have "?x \<le> of_nat (length (filter (\<lambda>t. t \<le> ts ! k) ts))"
    using k(2) sorted_rank(1)[OF assms(1) k(1)] by (meson of_nat_le_iff order_trans)
  moreover have "of_nat (length (filter (\<lambda>t. t < ts ! k) ts)) < ?x"
    using k(3) sorted_rank(2)[OF assms(1) k(1)] by (meson of_nat_le_iff le_less_trans)
  ultimately show ?thesis using v k(1) by auto
qed

theorem percentile_exact_witness:
  "\<exists>v. percentileNearestRank [3, 5, 8, 13] (of_nat 95 / of_nat 100) = Some v \<and> v \<in> set [3, 5, 8, 13 :: int]"
  using percentile_exact[of "[3, 5, 8, 13 :: int]" 100 95] by auto

end
