(* ===== verification/Outbox.thy ===== *)
theory Outbox
  imports Intent_Types
begin

text \<open>
  The transactional outbox: the in-memory repository of \<^verbatim>\<open>src/soroban/outbox.repository.ts\<close>,
  the payload builders of \<^verbatim>\<open>src/soroban/outbox-operations.ts\<close> and the relay worker of
  \<^verbatim>\<open>src/soroban/outbox-relay.service.ts\<close>. Instants are integers in milliseconds. The chain is
  a parameter of the relay: what a hash lookup answers, what encoding a payload with the
  Stellar SDK answers, and how far an invocation got.
\<close>

section \<open>Rows\<close>

datatype outbox_operation = OP_create_intent | OP_accept_intent | OP_fill_intent | OP_cancel_intent

datatype outbox_status = OB_pending | OB_processing | OB_submitted | OB_confirmed | OB_simulated | OB_dead

definition OUTBOX_DONE_STATUSES :: "outbox_status list" where
  "OUTBOX_DONE_STATUSES = [OB_confirmed, OB_simulated]"

record new_outbox_entry =
  ne_intentId :: string
  ne_operation :: outbox_operation
  ne_payload :: "(string, meta_value) jsmap"

record outbox_entry =
  ob_id :: string
  ob_intentId :: string
  ob_operation :: outbox_operation
  ob_payload :: "(string, meta_value) jsmap"
  ob_status :: outbox_status
  ob_attempts :: int
  ob_nextAttemptAt :: int
  ob_lockedUntil :: "int option"
  ob_envelopeHash :: "string option"
  ob_txHash :: "string option"
  ob_lastError :: "string option"
  ob_createdAt :: int
  ob_updatedAt :: int

record outbox =
  ob_rows :: "(string, outbox_entry) jsmap"
  ob_sequence :: int

definition emptyOutbox :: outbox where
  "emptyOutbox = \<lparr> ob_rows = [], ob_sequence = 0 \<rparr>"

section \<open>Payloads\<close>

definition meta_opt :: "string option \<Rightarrow> meta_value" where
  "meta_opt x = (case x of None \<Rightarrow> MUndef | Some v \<Rightarrow> MStr v)"

definition createIntentEntry :: "intent \<Rightarrow> new_outbox_entry" where
  "createIntentEntry i =
     \<lparr> ne_intentId = i_intentId i, ne_operation = OP_create_intent,
       ne_payload = [(''intentId'', MStr (i_intentId i)), (''user'', MStr (i_user i)),
         (''srcChain'', MStr (i_srcChain i)), (''srcTokenAddress'', MStr (t_address (i_srcToken i))),
         (''srcAmount'', MStr (i_srcAmount i)), (''dstTokenContract'', MStr (st_contract (i_dstToken i))),
         (''minDstAmount'', MStr (i_minDstAmount i)), (''deadline'', MInt (i_deadline i))] \<rparr>"

definition acceptIntentEntry :: "intent \<Rightarrow> new_outbox_entry" where
  "acceptIntentEntry i =
     \<lparr> ne_intentId = i_intentId i, ne_operation = OP_accept_intent,
       ne_payload = [(''intentId'', MStr (i_intentId i)), (''solver'', meta_opt (i_solver i)),
         (''fillDeadline'', MInt (i_deadline i))] \<rparr>"

definition fillIntentEntry :: "intent \<Rightarrow> new_outbox_entry" where
  "fillIntentEntry i =
     \<lparr> ne_intentId = i_intentId i, ne_operation = OP_fill_intent,
       ne_payload = [(''intentId'', MStr (i_intentId i)), (''solver'', meta_opt (i_solver i)),
         (''fillAmount'', meta_opt (i_fillAmount i)), (''fillTxHash'', MStr (coalesce (i_txHash i) []))] \<rparr>"

definition cancelIntentEntry :: "intent \<Rightarrow> new_outbox_entry" where
  "cancelIntentEntry i =
     \<lparr> ne_intentId = i_intentId i, ne_operation = OP_cancel_intent,
       ne_payload = [(''intentId'', MStr (i_intentId i)), (''user'', MStr (i_user i))] \<rparr>"

section \<open>The repository\<close>

definition enqueue :: "outbox \<Rightarrow> int \<Rightarrow> new_outbox_entry \<Rightarrow> outbox \<times> outbox_entry" where
  "enqueue q now e =
     (let n = ob_sequence q + 1;
          row = \<lparr> ob_id = toString n, ob_intentId = ne_intentId e, ob_operation = ne_operation e,
                  ob_payload = ne_payload e, ob_status = OB_pending, ob_attempts = 0, ob_nextAttemptAt = now,
                  ob_lockedUntil = None, ob_envelopeHash = None, ob_txHash = None, ob_lastError = None,
                  ob_createdAt = now, ob_updatedAt = now \<rparr>
      in (q\<lparr> ob_sequence := n, ob_rows := AList.update (ob_id row) row (ob_rows q) \<rparr>, row))"

definition id_num :: "outbox_entry \<Rightarrow> int" where
  "id_num r = coalesce (BigInt (ob_id r)) 0"

definition ordered :: "outbox \<Rightarrow> outbox_entry list" where
  "ordered q = sort_key id_num (js_values (ob_rows q))"

definition due :: "int \<Rightarrow> outbox_entry \<Rightarrow> bool" where
  "due now row \<longleftrightarrow> (ob_status row = OB_pending \<and> ob_nextAttemptAt row \<le> now)
     \<or> (ob_status row = OB_processing \<and> (case ob_lockedUntil row of None \<Rightarrow> False | Some l \<Rightarrow> l < now))"

definition claim_row :: "int \<Rightarrow> int \<Rightarrow> outbox_entry \<Rightarrow> outbox_entry" where
  "claim_row now leaseUntil row =
     row\<lparr> ob_status := OB_processing, ob_attempts := ob_attempts row + 1, ob_lockedUntil := Some leaseUntil,
          ob_updatedAt := now \<rparr>"

text \<open>
  The loop of \<open>claimDue\<close> over the ordered rows; \<open>headSeen\<close> holds the intents whose first
  unfinished row has been met.
\<close>

fun claim_loop :: "int \<Rightarrow> int \<Rightarrow> int \<Rightarrow> outbox_entry list \<Rightarrow> string list \<Rightarrow> outbox \<Rightarrow> outbox_entry list
    \<Rightarrow> outbox \<times> outbox_entry list" where
  "claim_loop now limit leaseUntil [] headSeen q claimed = (q, claimed)"
| "claim_loop now limit leaseUntil (row # rs) headSeen q claimed =
     (if int (length claimed) \<ge> limit then (q, claimed)
      else if ob_status row \<in> set OUTBOX_DONE_STATUSES then claim_loop now limit leaseUntil rs headSeen q claimed
      else if ob_intentId row \<in> set headSeen then claim_loop now limit leaseUntil rs headSeen q claimed
      else if \<not> due now row then claim_loop now limit leaseUntil rs (ob_intentId row # headSeen) q claimed
      else claim_loop now limit leaseUntil rs (ob_intentId row # headSeen)
             (q\<lparr> ob_rows := AList.update (ob_id row) (claim_row now leaseUntil row) (ob_rows q) \<rparr>)
             (claimed @ [claim_row now leaseUntil row]))"

definition claimDue :: "outbox \<Rightarrow> int \<Rightarrow> int \<Rightarrow> int \<Rightarrow> outbox \<times> outbox_entry list" where
  "claimDue q now limit leaseUntil = claim_loop now limit leaseUntil (ordered q) [] q []"

definition findSubmitted :: "outbox \<Rightarrow> int \<Rightarrow> outbox_entry list" where
  "findSubmitted q limit = js_slice 0 limit (filter (\<lambda>r. ob_status r = OB_submitted) (ordered q))"

definition findByIntent :: "outbox \<Rightarrow> string \<Rightarrow> outbox_entry list" where
  "findByIntent q iid = filter (\<lambda>r. ob_intentId r = iid) (ordered q)"

definition countByStatus :: "outbox \<Rightarrow> outbox_status \<Rightarrow> nat" where
  "countByStatus q st = length (filter (\<lambda>r. ob_status r = st) (js_values (ob_rows q)))"

text \<open>
  A fenced write names the row by id and carries the number of claims the writer saw; the
  patch is the function it denotes.
\<close>

definition fenced :: "outbox \<Rightarrow> int \<Rightarrow> outbox_entry \<Rightarrow> outbox_status list \<Rightarrow> (outbox_entry \<Rightarrow> outbox_entry)
    \<Rightarrow> outbox \<times> bool" where
  "fenced q now entry from patch =
     (case map_of (ob_rows q) (ob_id entry) of
        None \<Rightarrow> (q, False)
      | Some row \<Rightarrow>
          if ob_attempts row \<noteq> ob_attempts entry \<or> ob_status row \<notin> set from then (q, False)
          else (q\<lparr> ob_rows := AList.update (ob_id entry) ((patch row)\<lparr> ob_updatedAt := now \<rparr>) (ob_rows q) \<rparr>, True))"

definition recordEnvelope :: "outbox \<Rightarrow> int \<Rightarrow> outbox_entry \<Rightarrow> string \<Rightarrow> outbox \<times> bool" where
  "recordEnvelope q now e h = fenced q now e [OB_processing] (\<lambda>r. r\<lparr> ob_envelopeHash := Some h \<rparr>)"

definition markSubmitted :: "outbox \<Rightarrow> int \<Rightarrow> outbox_entry \<Rightarrow> string \<Rightarrow> outbox \<times> bool" where
  "markSubmitted q now e h = fenced q now e [OB_processing]
     (\<lambda>r. r\<lparr> ob_status := OB_submitted, ob_txHash := Some h, ob_lockedUntil := None \<rparr>)"

definition markConfirmed :: "outbox \<Rightarrow> int \<Rightarrow> outbox_entry \<Rightarrow> string \<Rightarrow> outbox \<times> bool" where
  "markConfirmed q now e h = fenced q now e [OB_processing, OB_submitted]
     (\<lambda>r. r\<lparr> ob_status := OB_confirmed, ob_txHash := Some h, ob_lockedUntil := None \<rparr>)"

definition markSimulated :: "outbox \<Rightarrow> int \<Rightarrow> outbox_entry \<Rightarrow> outbox \<times> bool" where
  "markSimulated q now e = fenced q now e [OB_processing]
     (\<lambda>r. r\<lparr> ob_status := OB_simulated, ob_lockedUntil := None \<rparr>)"

definition scheduleRetry :: "outbox \<Rightarrow> int \<Rightarrow> outbox_entry \<Rightarrow> string \<Rightarrow> int \<Rightarrow> outbox \<times> bool" where
  "scheduleRetry q now e err nextAttemptAt = fenced q now e [OB_processing, OB_submitted]
     (\<lambda>r. r\<lparr> ob_status := OB_pending, ob_nextAttemptAt := nextAttemptAt, ob_lastError := Some err,
            ob_lockedUntil := None, ob_envelopeHash := None, ob_txHash := None \<rparr>)"

definition markDead :: "outbox \<Rightarrow> int \<Rightarrow> outbox_entry \<Rightarrow> string \<Rightarrow> outbox \<times> bool" where
  "markDead q now e err = fenced q now e [OB_processing, OB_submitted]
     (\<lambda>r. r\<lparr> ob_status := OB_dead, ob_lastError := Some err, ob_lockedUntil := None \<rparr>)"

definition release :: "outbox \<Rightarrow> int \<Rightarrow> outbox_entry \<Rightarrow> string \<Rightarrow> int \<Rightarrow> outbox \<times> bool" where
  "release q now e note nextAttemptAt = fenced q now e [OB_processing]
     (\<lambda>r. r\<lparr> ob_status := OB_pending, ob_attempts := max 0 (ob_attempts e - 1), ob_nextAttemptAt := nextAttemptAt,
            ob_lastError := Some note, ob_lockedUntil := None, ob_envelopeHash := None \<rparr>)"

definition requeueDead :: "outbox \<Rightarrow> int \<Rightarrow> string \<Rightarrow> outbox \<times> bool" where
  "requeueDead q now rid =
     (case map_of (ob_rows q) rid of
        None \<Rightarrow> (q, False)
      | Some row \<Rightarrow>
          if ob_status row \<noteq> OB_dead then (q, False)
          else (q\<lparr> ob_rows := AList.update rid
                  (row\<lparr> ob_status := OB_pending, ob_attempts := 0, ob_nextAttemptAt := now,
                        ob_envelopeHash := None, ob_txHash := None, ob_updatedAt := now \<rparr>) (ob_rows q) \<rparr>, True))"

section \<open>The relay\<close>

datatype check_status = CS_success | CS_failed | CS_not_found

text \<open>
  How far an invocation got: refused by the kill switch, failed before the envelope was
  handed to \<open>beforeSubmit\<close>, answered by the dry-run branch, or broadcast with this envelope
  hash and then failed or returned a hash and a status.
\<close>

datatype sent_result = SR_error string | SR_done string string
datatype invoke_outcome = IO_paused string | IO_error string | IO_dryRun | IO_sent string sent_result

record relay_env =
  re_check :: "string \<Rightarrow> string + check_status"
  re_encode :: "outbox_entry \<Rightarrow> string option"
  re_invoke :: "outbox_entry \<Rightarrow> invoke_outcome"
  re_contractId :: string
  re_batchSize :: int
  re_leaseSeconds :: int
  re_maxAttempts :: int

record relay_tick =
  rt_claimed :: nat
  rt_paused :: nat
  rt_submitted :: nat
  rt_simulated :: nat
  rt_confirmed :: nat
  rt_retried :: nat
  rt_dead :: nat

definition emptyTick :: relay_tick where
  "emptyTick = \<lparr> rt_claimed = 0, rt_paused = 0, rt_submitted = 0, rt_simulated = 0, rt_confirmed = 0,
     rt_retried = 0, rt_dead = 0 \<rparr>"

definition MAX_BACKOFF_MS :: int where "MAX_BACKOFF_MS = 5 * 60000"
definition BASE_BACKOFF_MS :: int where "BASE_BACKOFF_MS = 1000"
definition PAUSED_RECHECK_MS :: int where "PAUSED_RECHECK_MS = 30000"

definition retry_delay :: "int \<Rightarrow> int" where
  "retry_delay attempts = min (BASE_BACKOFF_MS * 2 ^ nat (max 0 (attempts - 1))) MAX_BACKOFF_MS"

definition fail :: "relay_env \<Rightarrow> outbox_entry \<Rightarrow> string \<Rightarrow> int \<Rightarrow> outbox \<times> relay_tick \<Rightarrow> outbox \<times> relay_tick" where
  "fail env e err now qr =
     (let (q, r) = qr in
      if ob_attempts e \<ge> re_maxAttempts env
      then (let (q', ok) = markDead q now e err in (q', if ok then r\<lparr> rt_dead := rt_dead r + 1 \<rparr> else r))
      else (let (q', ok) = scheduleRetry q now e err (now + retry_delay (ob_attempts e))
            in (q', if ok then r\<lparr> rt_retried := rt_retried r + 1 \<rparr> else r)))"

definition confirm_one :: "relay_env \<Rightarrow> int \<Rightarrow> outbox_entry \<Rightarrow> outbox \<times> relay_tick \<Rightarrow> outbox \<times> relay_tick" where
  "confirm_one env now e qr =
     (case ob_txHash e of
        None \<Rightarrow> qr
      | Some h \<Rightarrow>
          if h = [] then qr
          else (case re_check env h of
             Inl err \<Rightarrow> qr
           | Inr CS_success \<Rightarrow>
               (let (q, r) = qr; (q', ok) = markConfirmed q now e h
                in (q', if ok then r\<lparr> rt_confirmed := rt_confirmed r + 1 \<rparr> else r))
           | Inr CS_failed \<Rightarrow> fail env e (''transaction '' @ h @ '' failed on-chain'') now qr
           | Inr CS_not_found \<Rightarrow>
               if now - ob_updatedAt e > re_leaseSeconds env * 1000
               then fail env e (''transaction '' @ h @ '' not found after lease; rebuilding'') now qr else qr))"

definition confirmSubmitted :: "relay_env \<Rightarrow> int \<Rightarrow> outbox \<times> relay_tick \<Rightarrow> outbox \<times> relay_tick" where
  "confirmSubmitted env now qr = fold (confirm_one env now) (findSubmitted (fst qr) (re_batchSize env)) qr"

text \<open>The part of \<open>process\<close> after the previous envelope has been ruled out.\<close>

definition submit_entry :: "relay_env \<Rightarrow> outbox_entry \<Rightarrow> int \<Rightarrow> outbox \<times> relay_tick \<Rightarrow> outbox \<times> relay_tick" where
  "submit_entry env e now qr =
     (let (q, r) = qr in
      if re_contractId env = [] then fail env e ''SETTLEMENT_CONTRACT_ID is not configured'' now qr
      else (case re_encode env e of
         Some err \<Rightarrow> fail env e err now qr
       | None \<Rightarrow>
         (case re_invoke env e of
            IO_paused msg \<Rightarrow>
              (let (q', ok) = release q now e (''paused by kill-switch: '' @ msg) (now + PAUSED_RECHECK_MS)
               in (q', if ok then r\<lparr> rt_paused := rt_paused r + 1 \<rparr> else r))
          | IO_error msg \<Rightarrow> fail env e msg now qr
          | IO_dryRun \<Rightarrow>
              (let (q', ok) = markSimulated q now e
               in (q', if ok then r\<lparr> rt_simulated := rt_simulated r + 1 \<rparr> else r))
          | IO_sent envelope sent \<Rightarrow>
              (let (q1, ok) = recordEnvelope q now e envelope in
               if \<not> ok then fail env e (''lost lease on row '' @ ob_id e @ '' before submit'') now (q1, r)
               else (case sent of
                  SR_error msg \<Rightarrow> fail env e msg now (q1, r)
                | SR_done h status \<Rightarrow>
                    if status = ''SUCCESS''
                    then (let (q2, ok2) = markConfirmed q1 now e h
                          in (q2, if ok2 then r\<lparr> rt_submitted := rt_submitted r + 1, rt_confirmed := rt_confirmed r + 1 \<rparr> else r))
                    else (let (q2, ok2) = markSubmitted q1 now e h
                          in (q2, if ok2 then r\<lparr> rt_submitted := rt_submitted r + 1 \<rparr> else r)))))))"

definition process :: "relay_env \<Rightarrow> outbox_entry \<Rightarrow> int \<Rightarrow> outbox \<times> relay_tick \<Rightarrow> outbox \<times> relay_tick" where
  "process env e now qr =
     (case ob_envelopeHash e of
        None \<Rightarrow> submit_entry env e now qr
      | Some h \<Rightarrow>
          if h = [] then submit_entry env e now qr
          else (case re_check env h of
             Inl err \<Rightarrow> fail env e err now qr
           | Inr CS_success \<Rightarrow>
               (let (q, r) = qr; (q', ok) = markConfirmed q now e h
                in (q', if ok then r\<lparr> rt_confirmed := rt_confirmed r + 1 \<rparr> else r))
           | Inr CS_failed \<Rightarrow> fail env e (''previous envelope '' @ h @ '' failed on-chain'') now qr
           | Inr CS_not_found \<Rightarrow> submit_entry env e now qr))"

definition relayDue :: "relay_env \<Rightarrow> int \<Rightarrow> outbox \<times> relay_tick \<Rightarrow> outbox \<times> relay_tick" where
  "relayDue env now qr =
     (let (q, r) = qr;
          (q1, claimed) = claimDue q now (re_batchSize env) (now + re_leaseSeconds env * 1000);
          r1 = r\<lparr> rt_claimed := rt_claimed r + length claimed \<rparr>
      in fold (\<lambda>e. process env e now) claimed (q1, r1))"

definition tick :: "relay_env \<Rightarrow> int \<Rightarrow> outbox \<Rightarrow> outbox \<times> relay_tick" where
  "tick env now q = relayDue env now (confirmSubmitted env now (q, emptyTick))"

section \<open>Fenced writes as one operation\<close>

text \<open>The seven writes a worker makes on a row it has claimed.\<close>

datatype worker_write =
    WW_envelope string | WW_submitted string | WW_confirmed string | WW_simulated
  | WW_retry string int | WW_dead string | WW_release string int

fun do_write :: "worker_write \<Rightarrow> outbox \<Rightarrow> int \<Rightarrow> outbox_entry \<Rightarrow> outbox \<times> bool" where
  "do_write (WW_envelope h) q now e = recordEnvelope q now e h"
| "do_write (WW_submitted h) q now e = markSubmitted q now e h"
| "do_write (WW_confirmed h) q now e = markConfirmed q now e h"
| "do_write WW_simulated q now e = markSimulated q now e"
| "do_write (WW_retry err t) q now e = scheduleRetry q now e err t"
| "do_write (WW_dead err) q now e = markDead q now e err"
| "do_write (WW_release note t) q now e = release q now e note t"

lemmas worker_defs = recordEnvelope_def markSubmitted_def markConfirmed_def markSimulated_def
  scheduleRetry_def markDead_def release_def

definition ob_get :: "outbox \<Rightarrow> string \<Rightarrow> outbox_entry option" where
  "ob_get q k = map_of (ob_rows q) k"

definition fence_holds :: "int \<times> outbox_status list \<Rightarrow> outbox_entry \<Rightarrow> bool" where
  "fence_holds g r \<longleftrightarrow> ob_attempts r = fst g \<and> ob_status r \<in> set (snd g)"

definition fence_app :: "string \<Rightarrow> int \<times> (outbox_entry \<Rightarrow> outbox_entry) \<Rightarrow> outbox_entry \<Rightarrow> outbox_entry" where
  "fence_app k p r = (snd p r)\<lparr> ob_updatedAt := fst p \<rparr>"

text \<open>A fenced write named by row id and token, reporting the row it stored.\<close>

definition fence_write :: "outbox \<Rightarrow> string \<Rightarrow> int \<times> outbox_status list \<Rightarrow> int \<times> (outbox_entry \<Rightarrow> outbox_entry)
    \<Rightarrow> outbox \<times> outbox_entry option" where
  "fence_write q k g p =
     (case ob_get q k of
        None \<Rightarrow> (q, None)
      | Some r \<Rightarrow> (let (q', ok) = fenced q (fst p) (r\<lparr> ob_id := k, ob_attempts := fst g \<rparr>) (snd g) (snd p)
                   in (q', if ok then ob_get q' k else None)))"

interpretation rows: conditional_write ob_get fence_holds fence_app fence_write
  by unfold_locales
     (auto simp: fence_write_def fenced_def ob_get_def fence_holds_def fence_app_def split: option.splits)

lemma fenced_eq_write:
  "ob_get q (ob_id e) = Some r \<Longrightarrow>
     fst (fenced q now e st p) = fst (fence_write q (ob_id e) (ob_attempts e, st) (now, p))"
  by (simp add: fence_write_def fenced_def ob_get_def split: option.splits)

lemma fenced_get:
  "ob_get (fst (fenced q now e st p)) k =
     (if k = ob_id e then (case ob_get q k of None \<Rightarrow> None
        | Some r \<Rightarrow> Some (if fence_holds (ob_attempts e, st) r then (p r)\<lparr> ob_updatedAt := now \<rparr> else r))
      else ob_get q k)"
proof (cases "ob_get q (ob_id e)")
  case None
  then show ?thesis by (simp add: fenced_def ob_get_def)
next
  case (Some r)
  then show ?thesis by (simp add: fenced_eq_write rows.get_after fence_app_def)
qed

lemma fenced_ok_iff:
  "snd (fenced q now e st p) \<longleftrightarrow> (\<exists>r. ob_get q (ob_id e) = Some r \<and> fence_holds (ob_attempts e, st) r)"
  by (simp add: fenced_def ob_get_def fence_holds_def split: option.splits)

lemma fenced_refused: "\<not> snd (fenced q now e st p) \<Longrightarrow> fenced q now e st p = (q, False)"
  by (auto simp: fenced_def split: option.splits if_splits)

lemma fenced_frame [simp]:
  "ob_sequence (fst (fenced q now e st p)) = ob_sequence q"
  "wf_map (ob_rows q) \<Longrightarrow> wf_map (ob_rows (fst (fenced q now e st p)))"
  by (simp_all add: fenced_def split: option.splits)

section \<open>Invariant of the outbox\<close>

abbreviation ob_done :: "outbox_entry \<Rightarrow> bool" where
  "ob_done r \<equiv> ob_status r \<in> set OUTBOX_DONE_STATUSES"

text \<open>
  Ids are the written-out sequence numbers; and while a row of an intent is unfinished, every
  later row of that intent is untouched (\<open>pending\<close>).
\<close>

definition in_order :: "outbox \<Rightarrow> bool" where
  "in_order q \<longleftrightarrow> (\<forall>k k' r r'. ob_get q k = Some r \<and> ob_get q k' = Some r' \<and> ob_intentId r = ob_intentId r'
     \<and> id_num r < id_num r' \<and> \<not> ob_done r \<longrightarrow> ob_status r' = OB_pending)"

definition outbox_ok :: "outbox \<Rightarrow> bool" where
  "outbox_ok q \<longleftrightarrow> wf_map (ob_rows q) \<and> in_order q \<and>
     (\<forall>k r. ob_get q k = Some r \<longrightarrow> ob_id r = k \<and> k = toString (id_num r) \<and> id_num r \<le> ob_sequence q
        \<and> 0 \<le> ob_attempts r)"

inductive ob_step :: "outbox \<Rightarrow> outbox \<Rightarrow> bool" where
  os_enqueue: "ob_step q (fst (enqueue q now e))"
| os_claim: "ob_step q (fst (claimDue q now limit lease))"
| os_write: "ob_step q (fst (do_write w q now e))"

text \<open>The operator's requeue is the one write without a token.\<close>

inductive ob_admin_step :: "outbox \<Rightarrow> outbox \<Rightarrow> bool" where
  oa_step: "ob_step q q' \<Longrightarrow> ob_admin_step q q'"
| oa_requeue: "ob_admin_step q (fst (requeueDead q now rid))"

lemma done_iff: "ob_done r \<longleftrightarrow> ob_status r = OB_confirmed \<or> ob_status r = OB_simulated"
  by (auto simp: OUTBOX_DONE_STATUSES_def)

lemma due_not_done: "due now r \<Longrightarrow> \<not> ob_done r"
  by (auto simp: due_def done_iff)

lemma claim_row_simps [simp]:
  "ob_id (claim_row now l r) = ob_id r" "ob_intentId (claim_row now l r) = ob_intentId r"
  "ob_status (claim_row now l r) = OB_processing" "ob_attempts (claim_row now l r) = ob_attempts r + 1"
  "id_num (claim_row now l r) = id_num r"
  by (simp_all add: claim_row_def id_num_def)

subsection \<open>Claims\<close>

lemma claim_loop_frame:
  "ob_sequence (fst (claim_loop now n l rs hs q cl)) = ob_sequence q"
  "wf_map (ob_rows q) \<Longrightarrow> wf_map (ob_rows (fst (claim_loop now n l rs hs q cl)))"
  by (induction now n l rs hs q cl rule: claim_loop.induct) (simp_all)

text \<open>
  The rows the loop claims are heads: with \<open>pre\<close> the rows already passed, each claimed row is
  due and every earlier row of its intent is done.
\<close>

definition head_in :: "outbox_entry list \<Rightarrow> outbox_entry \<Rightarrow> bool" where
  "head_in L r \<longleftrightarrow> (\<exists>xs ys. L = xs @ r # ys \<and> (\<forall>r2 \<in> set xs. ob_intentId r2 = ob_intentId r \<longrightarrow> ob_done r2))"

lemma claim_loop_heads:
  assumes "\<forall>r \<in> set pre. \<not> ob_done r \<longrightarrow> ob_intentId r \<in> set hs"
    and "\<forall>c \<in> set cl. \<exists>r. c = claim_row now l r \<and> due now r \<and> head_in L r"
    and "L = pre @ rs" and "distinct (map ob_id L)"
    and "\<forall>k. ob_get q k = ob_get q0 k \<or> (\<exists>r. ob_id r = k \<and> due now r \<and> head_in L r \<and> r \<in> set pre
           \<and> ob_get q k = Some (claim_row now l r))"
  shows "(\<forall>c \<in> set (snd (claim_loop now n l rs hs q cl)). \<exists>r. c = claim_row now l r \<and> due now r \<and> head_in L r)
    \<and> (\<forall>k. ob_get (fst (claim_loop now n l rs hs q cl)) k = ob_get q0 k
          \<or> (\<exists>r. ob_id r = k \<and> due now r \<and> head_in L r
               \<and> ob_get (fst (claim_loop now n l rs hs q cl)) k = Some (claim_row now l r)))"
  using assms
proof (induction now n l rs hs q cl arbitrary: pre rule: claim_loop.induct)
  case (1 now limit leaseUntil headSeen q claimed)
  then show ?case by (simp; blast)
next
  case (2 now n l row rs hs q cl)
  have step: "L = (pre @ [row]) @ rs" using "2.prems"(3) by simp
  have kept: "\<forall>k. ob_get q k = ob_get q0 k \<or> (\<exists>r. ob_id r = k \<and> due now r \<and> head_in L r \<and> r \<in> set (pre @ [row])
      \<and> ob_get q k = Some (claim_row now l r))"
    using "2.prems"(5) by (simp; blast)
  consider (full) "int (length cl) \<ge> n"
    | (fin) "\<not> int (length cl) \<ge> n" "ob_done row"
    | (seen) "\<not> int (length cl) \<ge> n" "\<not> ob_done row" "ob_intentId row \<in> set hs"
    | (wait) "\<not> int (length cl) \<ge> n" "\<not> ob_done row" "ob_intentId row \<notin> set hs" "\<not> due now row"
    | (take) "\<not> int (length cl) \<ge> n" "\<not> ob_done row" "ob_intentId row \<notin> set hs" "due now row"
    by blast
  then show ?case
  proof cases
    case full
    with "2.prems" show ?thesis by (simp; blast)
  next
    case fin
    then show ?thesis using "2.IH"(1)[of "pre @ [row]"] "2.prems"(1,2,4) step kept by simp
  next
    case seen
    then show ?thesis using "2.IH"(2)[of "pre @ [row]"] "2.prems"(1,2,4) step kept by simp
  next
    case wait
    then show ?thesis using "2.IH"(3)[of "pre @ [row]"] "2.prems"(1,2,4) step kept by simp
  next
    case take
    have h: "head_in L row"
      unfolding head_in_def using "2.prems"(1,3) take(3) by (intro exI[of _ pre] exI[of _ rs]) auto
    let ?q = "q\<lparr> ob_rows := AList.update (ob_id row) (claim_row now l row) (ob_rows q) \<rparr>"
    have "\<forall>k. ob_get ?q k = ob_get q0 k \<or> (\<exists>r. ob_id r = k \<and> due now r \<and> head_in L r \<and> r \<in> set (pre @ [row])
           \<and> ob_get ?q k = Some (claim_row now l r))"
      using "2.prems"(5) take(4) h by (auto simp: ob_get_def)
    moreover have "\<forall>r \<in> set (pre @ [row]). \<not> ob_done r \<longrightarrow> ob_intentId r \<in> set (ob_intentId row # hs)"
      using "2.prems"(1) by auto
    moreover have "\<forall>c \<in> set (cl @ [claim_row now l row]). \<exists>r. c = claim_row now l r \<and> due now r \<and> head_in L r"
      using "2.prems"(2) take(4) h by auto
    ultimately show ?thesis
      using "2.IH"(4)[of "pre @ [row]"] take "2.prems"(4) step by (simp)
  qed
qed

definition head_of :: "outbox \<Rightarrow> outbox_entry \<Rightarrow> bool" where
  "head_of q r \<longleftrightarrow> (\<forall>k r2. ob_get q k = Some r2 \<and> ob_intentId r2 = ob_intentId r \<and> id_num r2 < id_num r \<longrightarrow> ob_done r2)"

lemma mem_ordered: "wf_map (ob_rows q) \<Longrightarrow> r \<in> set (ordered q) \<longleftrightarrow> (\<exists>k. ob_get q k = Some r)"
  by (simp add: ordered_def mem_js_values[symmetric] ob_get_def)

lemma head_in_ordered:
  assumes "head_in (ordered q) r" and "wf_map (ob_rows q)"
  shows "head_of q r"
  unfolding head_of_def
proof (intro allI impI, elim conjE)
  fix k r2 assume r2: "ob_get q k = Some r2" "ob_intentId r2 = ob_intentId r" "id_num r2 < id_num r"
  obtain xs ys where L: "ordered q = xs @ r # ys" "\<forall>r2 \<in> set xs. ob_intentId r2 = ob_intentId r \<longrightarrow> ob_done r2"
    using assms(1) by (auto simp: head_in_def)
  have "sorted (map id_num (xs @ r # ys))" using L(1) unfolding ordered_def by (metis sorted_sort_key)
  then have "r2 \<notin> set (r # ys)" using r2(3) by (auto simp: sorted_append)
  moreover have "r2 \<in> set (xs @ r # ys)" using r2(1) assms(2) mem_ordered L(1) by metis
  ultimately show "ob_done r2" using L(2) r2(2) by auto
qed

lemma claimDue_rows:
  assumes "outbox_ok q"
  shows "ob_get (fst (claimDue q now n l)) k = ob_get q k
      \<or> (\<exists>r. ob_get q k = Some r \<and> due now r \<and> head_of q r \<and> ob_get (fst (claimDue q now n l)) k = Some (claim_row now l r))"
    and "c \<in> set (snd (claimDue q now n l)) \<Longrightarrow> \<exists>r. ob_get q (ob_id c) = Some r \<and> c = claim_row now l r \<and> due now r \<and> head_of q r"
proof -
  have wf: "wf_map (ob_rows q)" and ids: "\<And>k r. ob_get q k = Some r \<Longrightarrow> ob_id r = k"
    using assms by (auto simp: outbox_ok_def)
  have d: "distinct (map ob_id (ordered q))"
  proof -
    have e: "map ob_id (js_values (ob_rows q)) = map fst (ob_rows q)"
      using ids wf_map_mem[OF wf] by (auto simp: ob_get_def)
    have "distinct (map ob_id (js_values (ob_rows q)))" unfolding e by (rule wf)
    then show ?thesis
      unfolding ordered_def by (simp only: distinct_map_sort_key)
  qed
  note H = claim_loop_heads[of "[]" "[]" "[]" now l "ordered q" "ordered q" q q n, simplified, OF d]
  have in_q: "ob_get q (ob_id r) = Some r" if "head_in (ordered q) r" for r
    using that mem_ordered[OF wf, of r] ids by (auto simp: head_in_def)
  show "ob_get (fst (claimDue q now n l)) k = ob_get q k
      \<or> (\<exists>r. ob_get q k = Some r \<and> due now r \<and> head_of q r \<and> ob_get (fst (claimDue q now n l)) k = Some (claim_row now l r))"
    using conjunct2[OF H] in_q head_in_ordered[OF _ wf] unfolding claimDue_def by metis
  show "\<exists>r. ob_get q (ob_id c) = Some r \<and> c = claim_row now l r \<and> due now r \<and> head_of q r"
    if "c \<in> set (snd (claimDue q now n l))"
    using conjunct1[OF H] in_q head_in_ordered[OF _ wf] that unfolding claimDue_def by (metis claim_row_simps(1))
qed

lemma claimDue_ok:
  assumes "outbox_ok q"
  shows "outbox_ok (fst (claimDue q now n l))"
proof -
  let ?q = "fst (claimDue q now n l)"
  have row: "\<exists>r0. ob_get q k = Some r0 \<and> (r = r0 \<or> due now r0 \<and> head_of q r0 \<and> r = claim_row now l r0)"
    if "ob_get ?q k = Some r" for k r
    using claimDue_rows(1)[OF assms, of now n l k] that by (metis option.inject)
  have "in_order ?q"
    unfolding in_order_def
  proof (intro allI impI, elim conjE)
    fix k k' r r'
    assume a: "ob_get ?q k = Some r" "ob_get ?q k' = Some r'" "ob_intentId r = ob_intentId r'"
      "id_num r < id_num r'" "\<not> ob_done r"
    obtain r0 where r0: "ob_get q k = Some r0" "r = r0 \<or> due now r0 \<and> r = claim_row now l r0"
      using row[OF a(1)] by blast
    obtain r0' where r0': "ob_get q k' = Some r0'" "r' = r0' \<or> head_of q r0' \<and> r' = claim_row now l r0'"
      using row[OF a(2)] by blast
    have nd: "\<not> ob_done r0" "ob_intentId r0 = ob_intentId r0'" "id_num r0 < id_num r0'"
      using r0(2) r0'(2) a(3-5) by (auto dest: due_not_done)
    then have "\<not> head_of q r0'" using r0(1) by (auto simp: head_of_def)
    then show "ob_status r' = OB_pending"
      using r0' r0(1) nd assms by (auto simp: outbox_ok_def in_order_def)
  qed
  moreover have "wf_map (ob_rows ?q)" "ob_sequence ?q = ob_sequence q"
    using assms by (simp_all add: claimDue_def claim_loop_frame outbox_ok_def)
  ultimately show ?thesis
    using assms row by (fastforce simp: outbox_ok_def)
qed

subsection \<open>The other writes\<close>

lemma enqueue_get:
  "ob_get (fst (enqueue q now e)) k =
     (if k = toString (ob_sequence q + 1) then Some (snd (enqueue q now e)) else ob_get q k)"
  by (simp add: enqueue_def ob_get_def Let_def)

lemma enqueue_ok:
  assumes "outbox_ok q"
  shows "outbox_ok (fst (enqueue q now e))"
proof -
  let ?q = "fst (enqueue q now e)" and ?r = "snd (enqueue q now e)"
  have r: "ob_id ?r = toString (ob_sequence q + 1)" "id_num ?r = ob_sequence q + 1" "ob_status ?r = OB_pending"
    "ob_attempts ?r = 0"
    by (simp_all add: enqueue_def Let_def id_num_def)
  have le: "id_num x \<le> ob_sequence q" if "ob_get q k = Some x" for k x using assms that by (auto simp: outbox_ok_def)
  have "in_order ?q"
    unfolding in_order_def enqueue_get
  proof (intro allI impI, elim conjE)
    fix k k' x y
    assume a: "(if k = toString (ob_sequence q + 1) then Some ?r else ob_get q k) = Some x"
      "(if k' = toString (ob_sequence q + 1) then Some ?r else ob_get q k') = Some y"
      "ob_intentId x = ob_intentId y" "id_num x < id_num y" "\<not> ob_done x"
    have ord: "in_order q" using assms by (simp add: outbox_ok_def)
    show "ob_status y = OB_pending"
    proof (cases "k' = toString (ob_sequence q + 1)")
      case True
      then show ?thesis using a(2) r(3) by auto
    next
      case False
      then have y: "ob_get q k' = Some y" using a(2) by simp
      then have "x \<noteq> ?r" using a(4) r(2) le[OF y] by auto
      then have "ob_get q k = Some x" using a(1) by (simp split: if_splits)
      then show ?thesis using ord y a(3-5) unfolding in_order_def by blast
    qed
  qed
  moreover have "wf_map (ob_rows ?q)" "ob_sequence ?q = ob_sequence q + 1"
    using assms by (simp_all add: enqueue_def outbox_ok_def Let_def)
  moreover have "ob_id x = k \<and> k = toString (id_num x) \<and> id_num x \<le> ob_sequence q + 1 \<and> 0 \<le> ob_attempts x"
    if "ob_get ?q k = Some x" for k x
  proof (cases "k = toString (ob_sequence q + 1)")
    case False
    then have "ob_get q k = Some x" using that by (simp add: enqueue_get)
    then have "ob_id x = k \<and> k = toString (id_num x) \<and> id_num x \<le> ob_sequence q \<and> 0 \<le> ob_attempts x"
      using assms by (simp add: outbox_ok_def)
    then show ?thesis by auto
  qed (use that r in \<open>auto simp: enqueue_get\<close>)
  ultimately show ?thesis unfolding outbox_ok_def by simp
qed

text \<open>Replacing one row that is not done by one with the same id and intent.\<close>

lemma replace_row_ok:
  assumes "outbox_ok q" and "ob_get q k = Some r" and "\<not> ob_done r"
    and "ob_status r = OB_pending \<Longrightarrow> ob_status r' = OB_pending"
    and "ob_id r' = k" and "ob_intentId r' = ob_intentId r" and "0 \<le> ob_attempts r'"
  shows "outbox_ok (q\<lparr> ob_rows := AList.update k r' (ob_rows q) \<rparr>)"
proof -
  let ?q = "q\<lparr> ob_rows := AList.update k r' (ob_rows q) \<rparr>"
  have g: "ob_get ?q x = (if x = k then Some r' else ob_get q x)" for x by (simp add: ob_get_def)
  have kid: "ob_id r = k" using assms(1,2) by (simp add: outbox_ok_def)
  then have num: "id_num r' = id_num r" using assms(5) by (simp add: id_num_def)
  have "in_order ?q"
    unfolding in_order_def g
  proof (intro allI impI, elim conjE)
    fix a b x y
    assume *: "(if a = k then Some r' else ob_get q a) = Some x" "(if b = k then Some r' else ob_get q b) = Some y"
      "ob_intentId x = ob_intentId y" "id_num x < id_num y" "\<not> ob_done x"
    let ?x = "if a = k then r else x" and ?y = "if b = k then r else y"
    have "ob_get q a = Some ?x" "ob_get q b = Some ?y" "ob_intentId ?x = ob_intentId ?y" "id_num ?x < id_num ?y" "\<not> ob_done ?x"
      using * assms(2,3,6) num by (auto split: if_splits)
    then have "ob_status ?y = OB_pending" using assms(1) unfolding outbox_ok_def in_order_def by blast
    then show "ob_status y = OB_pending" using *(2) assms(4) by (auto split: if_splits)
  qed
  moreover have "k = toString (id_num r') \<and> id_num r' \<le> ob_sequence q"
    using assms(1,2) num by (auto simp: outbox_ok_def)
  moreover have "ob_id x = a \<and> a = toString (id_num x) \<and> id_num x \<le> ob_sequence q \<and> 0 \<le> ob_attempts x"
    if "ob_get ?q a = Some x" for a x
    using that assms(1,5,7) calculation(2) unfolding g outbox_ok_def by (auto split: if_splits)
  ultimately show ?thesis using assms(1) unfolding outbox_ok_def by simp
qed

lemma fenced_ok:
  assumes "outbox_ok q" and "set st \<subseteq> {OB_processing, OB_submitted}"
    and "\<And>r. ob_attempts r = ob_attempts e \<Longrightarrow> 0 \<le> ob_attempts r \<Longrightarrow>
           ob_id (p r) = ob_id r \<and> ob_intentId (p r) = ob_intentId r \<and> 0 \<le> ob_attempts (p r)"
  shows "outbox_ok (fst (fenced q now e st p))"
proof (cases "snd (fenced q now e st p)")
  case True
  then obtain r where r: "ob_get q (ob_id e) = Some r" "ob_attempts r = ob_attempts e" "ob_status r \<in> set st"
    by (auto simp: fenced_ok_iff fence_holds_def)
  then have "fst (fenced q now e st p) = q\<lparr> ob_rows := AList.update (ob_id e) ((p r)\<lparr> ob_updatedAt := now \<rparr>) (ob_rows q) \<rparr>"
    by (simp add: fenced_def ob_get_def)
  moreover have "ob_id r = ob_id e" "0 \<le> ob_attempts r" using assms(1) r(1) by (auto simp: outbox_ok_def)
  ultimately show ?thesis
    using replace_row_ok[OF assms(1) r(1), of "(p r)\<lparr> ob_updatedAt := now \<rparr>"] assms(2) assms(3)[of r] r(2,3)
    by (auto simp: done_iff)
qed (simp add: fenced_refused assms(1))

lemma do_write_ok: "outbox_ok q \<Longrightarrow> outbox_ok (fst (do_write w q now e))"
  by (cases w) (auto simp: worker_defs intro!: fenced_ok)

lemma requeueDead_ok:
  assumes "outbox_ok q"
  shows "outbox_ok (fst (requeueDead q now rid))"
proof (cases "\<exists>r. ob_get q rid = Some r \<and> ob_status r = OB_dead")
  case True
  then obtain r where r: "ob_get q rid = Some r" "ob_status r = OB_dead" by blast
  then have "ob_id r = rid" using assms by (simp add: outbox_ok_def)
  with r show ?thesis using replace_row_ok[OF assms r(1)]
    by (simp add: requeueDead_def ob_get_def OUTBOX_DONE_STATUSES_def)
qed (use assms in \<open>auto simp: requeueDead_def ob_get_def split: option.splits\<close>)

lemma ob_step_ok: "ob_step q q' \<Longrightarrow> outbox_ok q \<Longrightarrow> outbox_ok q'"
  by (induction rule: ob_step.induct) (simp_all add: enqueue_ok claimDue_ok do_write_ok)

lemma ob_admin_step_ok: "ob_admin_step q q' \<Longrightarrow> outbox_ok q \<Longrightarrow> outbox_ok q'"
  by (induction rule: ob_admin_step.induct) (simp_all add: ob_step_ok requeueDead_ok)

subsection \<open>Statuses\<close>

text \<open>The moves a row's status can make, as the diagram in the source draws them.\<close>

fun ob_edge :: "outbox_status \<Rightarrow> outbox_status \<Rightarrow> bool" where
  "ob_edge OB_pending t \<longleftrightarrow> t = OB_processing"
| "ob_edge OB_processing t \<longleftrightarrow> t \<in> {OB_pending, OB_submitted, OB_confirmed, OB_simulated, OB_dead}"
| "ob_edge OB_submitted t \<longleftrightarrow> t \<in> {OB_confirmed, OB_pending, OB_dead}"
| "ob_edge OB_dead t \<longleftrightarrow> t = OB_pending"
| "ob_edge OB_confirmed t \<longleftrightarrow> False"
| "ob_edge OB_simulated t \<longleftrightarrow> False"

lemma do_write_row:
  assumes "ob_get q k = Some r"
  shows "\<exists>r'. ob_get (fst (do_write w q now e)) k = Some r' \<and> (r' = r \<or> k = ob_id e \<and> ob_attempts r = ob_attempts e
           \<and> ob_status r \<in> {OB_processing, OB_submitted} \<and> (ob_status r' = ob_status r \<or> ob_edge (ob_status r) (ob_status r'))
           \<and> (ob_attempts r' = ob_attempts r \<or> ob_attempts r' = max 0 (ob_attempts r - 1) \<and> ob_status r' = OB_pending))"
  using assms by (cases w) (auto simp: worker_defs fenced_get fence_holds_def)

lemma ob_admin_step_edge:
  assumes "ob_admin_step q q'" and "outbox_ok q" and "ob_get q k = Some r"
  shows "\<exists>r'. ob_get q' k = Some r' \<and> ob_edge\<^sup>*\<^sup>* (ob_status r) (ob_status r')"
  using assms
proof (induction rule: ob_admin_step.induct)
  case (oa_step q q')
  from oa_step.hyps oa_step.prems show ?case
  proof (induction rule: ob_step.induct)
    case (os_enqueue q now e)
    then have "k \<noteq> toString (ob_sequence q + 1)"
      by (fastforce simp: outbox_ok_def)
    with os_enqueue show ?case by (auto simp: enqueue_get)
  next
    case (os_claim q now n l)
    then show ?case using claimDue_rows(1)[OF os_claim(1), of now n l k] by (fastforce simp: due_def)
  next
    case (os_write q w now e)
    then show ?case using do_write_row[of q k r w now e] by (auto intro: r_into_rtranclp)
  qed
next
  case (oa_requeue q now rid)
  then show ?case by (fastforce simp: requeueDead_def ob_get_def split: option.splits)
qed

interpretation outbox_runs: status_system ob_admin_step outbox_ok "\<lambda>q k. map_option ob_status (ob_get q k)" ob_edge
proof
  show "outbox_ok q'" if "ob_admin_step q q'" "outbox_ok q" for q q' using that by (rule ob_admin_step_ok)
  show "\<exists>b. map_option ob_status (ob_get q' k) = Some b \<and> ob_edge\<^sup>*\<^sup>* a b"
    if "ob_admin_step q q'" "outbox_ok q" "map_option ob_status (ob_get q k) = Some a" for q q' k a
    using ob_admin_step_edge[OF that(1,2)] that(3) by fastforce
qed

section \<open>A tick of the relay is a run of repository steps\<close>

lemma write_run: "do_write w q now e = (q', ok) \<Longrightarrow> ob_step\<^sup>*\<^sup>* q0 q \<Longrightarrow> ob_step\<^sup>*\<^sup>* q0 q'"
  by (metis fst_conv os_write rtranclp.rtrancl_into_rtrancl)

lemma op_runs:
  "markConfirmed q now e h = (q', ok) \<Longrightarrow> ob_step\<^sup>*\<^sup>* q0 q \<Longrightarrow> ob_step\<^sup>*\<^sup>* q0 q'"
  "markSubmitted q now e h = (q', ok) \<Longrightarrow> ob_step\<^sup>*\<^sup>* q0 q \<Longrightarrow> ob_step\<^sup>*\<^sup>* q0 q'"
  "markSimulated q now e = (q', ok) \<Longrightarrow> ob_step\<^sup>*\<^sup>* q0 q \<Longrightarrow> ob_step\<^sup>*\<^sup>* q0 q'"
  "recordEnvelope q now e h = (q', ok) \<Longrightarrow> ob_step\<^sup>*\<^sup>* q0 q \<Longrightarrow> ob_step\<^sup>*\<^sup>* q0 q'"
  "markDead q now e h = (q', ok) \<Longrightarrow> ob_step\<^sup>*\<^sup>* q0 q \<Longrightarrow> ob_step\<^sup>*\<^sup>* q0 q'"
  "scheduleRetry q now e h t = (q', ok) \<Longrightarrow> ob_step\<^sup>*\<^sup>* q0 q \<Longrightarrow> ob_step\<^sup>*\<^sup>* q0 q'"
  "release q now e h t = (q', ok) \<Longrightarrow> ob_step\<^sup>*\<^sup>* q0 q \<Longrightarrow> ob_step\<^sup>*\<^sup>* q0 q'"
  using write_run[of "WW_confirmed h"] write_run[of "WW_submitted h"] write_run[of WW_simulated]
    write_run[of "WW_envelope h"] write_run[of "WW_dead h"] write_run[of "WW_retry h t"]
    write_run[of "WW_release h t"] by simp_all

lemma fail_run: "ob_step\<^sup>*\<^sup>* q0 (fst qr) \<Longrightarrow> ob_step\<^sup>*\<^sup>* q0 (fst (fail env e err now qr))"
  by (auto simp: fail_def Let_def split: prod.splits intro: op_runs)

lemma confirm_one_run: "ob_step\<^sup>*\<^sup>* q0 (fst qr) \<Longrightarrow> ob_step\<^sup>*\<^sup>* q0 (fst (confirm_one env now e qr))"
  by (auto simp: confirm_one_def Let_def fail_run split: option.splits sum.splits check_status.splits prod.splits
      intro: op_runs)

lemma submit_entry_run: "ob_step\<^sup>*\<^sup>* q0 (fst qr) \<Longrightarrow> ob_step\<^sup>*\<^sup>* q0 (fst (submit_entry env e now qr))"
  by (auto simp: submit_entry_def Let_def fail_run
      split: option.splits invoke_outcome.splits sent_result.splits prod.splits
      intro: op_runs intro!: fail_run) (meson op_runs)+

lemma process_run: "ob_step\<^sup>*\<^sup>* q0 (fst qr) \<Longrightarrow> ob_step\<^sup>*\<^sup>* q0 (fst (process env e now qr))"
  by (auto simp: process_def Let_def fail_run submit_entry_run
      split: option.splits sum.splits check_status.splits prod.splits intro: op_runs)

lemma fold_run:
  assumes "\<And>x qr. ob_step\<^sup>*\<^sup>* q0 (fst qr) \<Longrightarrow> ob_step\<^sup>*\<^sup>* q0 (fst (f x qr))" and "ob_step\<^sup>*\<^sup>* q0 (fst qr)"
  shows "ob_step\<^sup>*\<^sup>* q0 (fst (fold f xs qr))"
  using assms(2)
proof (induction xs arbitrary: qr)
  case (Cons x xs)
  then show ?case using Cons.IH[OF assms(1)[OF Cons.prems]] by simp
qed simp

lemma tick_run: "ob_step\<^sup>*\<^sup>* q (fst (tick env now q))"
proof -
  have c: "ob_step\<^sup>*\<^sup>* q (fst (confirmSubmitted env now (q, emptyTick)))"
    unfolding confirmSubmitted_def by (rule fold_run[OF confirm_one_run]) simp_all
  obtain q1 r1 where q1: "confirmSubmitted env now (q, emptyTick) = (q1, r1)" by fastforce
  have "ob_step\<^sup>*\<^sup>* q (fst (claimDue q1 now (re_batchSize env) (now + re_leaseSeconds env * 1000)))"
    using c q1 os_claim by (metis fst_conv rtranclp.rtrancl_into_rtrancl)
  then show ?thesis
    unfolding tick_def relayDue_def q1
    by (auto simp: Let_def split: prod.splits intro!: fold_run[OF process_run])
qed

section \<open>Properties\<close>

text \<open>C4. Per-intent order on chain: in any state reached from an empty outbox by enqueues, claims,
worker writes, operator requeues and relay ticks, if a row has been taken up at all (its status
is anything but \<open>pending\<close>), then every earlier row of the same intent is confirmed or simulated.
A dead or unfinished row therefore blocks everything behind it.\<close>

theorem outbox_per_intent_order:
  assumes "ob_admin_step\<^sup>*\<^sup>* emptyOutbox q"
    and "ob_get q k = Some r" and "ob_get q k' = Some r'" and "ob_intentId r = ob_intentId r'"
    and "id_num r < id_num r'" and "ob_status r' \<noteq> OB_pending"
  shows "ob_status r = OB_confirmed \<or> ob_status r = OB_simulated"
proof -
  have "outbox_ok emptyOutbox" by (simp add: outbox_ok_def in_order_def ob_get_def emptyOutbox_def)
  then have "outbox_ok q" by (rule outbox_runs.run_inv[OF assms(1)])
  then have "in_order q" by (simp add: outbox_ok_def)
  then show ?thesis using assms(2-) unfolding in_order_def done_iff by blast
qed

definition sample_entry :: new_outbox_entry where
  "sample_entry = createIntentEntry (sample_intent ''i1'' ''GA'' 100)"

definition two_rows :: outbox where
  "two_rows = fst (enqueue (fst (enqueue emptyOutbox 0 sample_entry)) 0 sample_entry)"

definition confirmed_head :: outbox where
  "confirmed_head =
     (let (q1, c) = claimDue two_rows 5 10 100; (q2, ok) = markConfirmed q1 6 (hd c) ''h1''
      in fst (claimDue q2 7 10 100))"

lemma confirmed_head_eval:
  "map_option (\<lambda>r. (ob_status r, ob_intentId r, id_num r)) (ob_get confirmed_head ''1'') = Some (OB_confirmed, ''i1'', 1)"
  "map_option (\<lambda>r. (ob_status r, ob_intentId r, id_num r)) (ob_get confirmed_head ''2'') = Some (OB_processing, ''i1'', 2)"
  by code_simp+

lemma admin_snoc: "ob_admin_step\<^sup>*\<^sup>* a b \<Longrightarrow> ob_admin_step b c \<Longrightarrow> ob_admin_step\<^sup>*\<^sup>* a c"
  by (rule rtranclp.rtrancl_into_rtrancl)

lemma confirmed_head_run: "ob_admin_step\<^sup>*\<^sup>* emptyOutbox confirmed_head"
proof -
  let ?q1 = "fst (claimDue two_rows 5 10 100)" and ?c = "hd (snd (claimDue two_rows 5 10 100))"
  let ?q2 = "fst (do_write (WW_confirmed ''h1'') ?q1 6 ?c)"
  have 1: "ob_admin_step\<^sup>*\<^sup>* emptyOutbox two_rows"
    unfolding two_rows_def by (meson oa_step os_enqueue r_into_rtranclp rtranclp.rtrancl_into_rtrancl)
  have 2: "ob_admin_step two_rows ?q1" by (intro oa_step os_claim)
  have 3: "ob_admin_step ?q1 ?q2" by (intro oa_step os_write)
  have 4: "ob_admin_step ?q2 (fst (claimDue ?q2 7 10 100))" by (intro oa_step os_claim)
  have "confirmed_head = fst (claimDue ?q2 7 10 100)"
    by (simp add: confirmed_head_def Let_def split: prod.splits)
  then show ?thesis
    using admin_snoc[OF admin_snoc[OF admin_snoc[OF 1 2] 3] 4] by (simp only:)
qed

theorem outbox_per_intent_order_witness:
  "\<exists>r r'. ob_get confirmed_head ''1'' = Some r \<and> ob_get confirmed_head ''2'' = Some r'
     \<and> ob_status r' = OB_processing \<and> (ob_status r = OB_confirmed \<or> ob_status r = OB_simulated)"
proof -
  obtain r r' where "ob_get confirmed_head ''1'' = Some r" "ob_get confirmed_head ''2'' = Some r'"
    "ob_intentId r = ob_intentId r'" "id_num r < id_num r'" "ob_status r' = OB_processing"
    using confirmed_head_eval by auto
  then show ?thesis using outbox_per_intent_order[OF confirmed_head_run, of "''1''" r "''2''" r'] by simp
qed

text \<open>A token is stale for a row once the row has been claimed again.\<close>

definition stale :: "int \<Rightarrow> outbox_entry \<Rightarrow> bool" where
  "stale n r \<longleftrightarrow> n \<le> ob_attempts r \<and> (ob_status r \<in> {OB_processing, OB_submitted} \<longrightarrow> n < ob_attempts r)"

lemma ob_step_stale:
  assumes "ob_step q q'" and "outbox_ok q" and "ob_get q k = Some r" and "stale n r" and "0 \<le> n"
  shows "\<exists>r'. ob_get q' k = Some r' \<and> stale n r'"
  using assms
proof (induction rule: ob_step.induct)
  case (os_enqueue q now e)
  then have "k \<noteq> toString (ob_sequence q + 1)" by (fastforce simp: outbox_ok_def)
  with os_enqueue show ?case by (auto simp: enqueue_get)
next
  case (os_claim q now m l)
  then show ?case using claimDue_rows(1)[OF os_claim(1), of now m l k] by (fastforce simp: stale_def)
next
  case (os_write q w now e)
  then show ?case using do_write_row[of q k r w now e] by (fastforce simp: stale_def)
qed

interpretation worker_runs: inv_system ob_step outbox_ok
  by unfold_locales (rule ob_step_ok)

lemma run_stale:
  assumes "ob_step\<^sup>*\<^sup>* q q'" and "outbox_ok q" and "ob_get q k = Some r" and "stale n r" and "0 \<le> n"
  shows "\<exists>r'. ob_get q' k = Some r' \<and> stale n r'"
  using assms
proof (induction rule: rtranclp_induct)
  case (step y z)
  then show ?case using ob_step_stale[OF step.hyps(2) worker_runs.run_inv[OF step.hyps(1) step.prems(1)]] by blast
qed blast


definition first_claim :: outbox where
  "first_claim = fst (claimDue two_rows 5 10 100)"

definition first_worker :: outbox_entry where
  "first_worker = hd (snd (claimDue two_rows 5 10 100))"


text \<open>
  Without the restriction to claimed rows the statement fails: an operator's requeue resets the
  claim count, so a token from before the row died can match again. Here the first worker's
  snapshot confirms a row that was dead-lettered, requeued and claimed by somebody else.
\<close>

definition requeued_claim :: outbox where
  "requeued_claim =
     (let (q1, _) = claimDue first_claim 200 10 300;
          q2 = fst (markDead q1 210 (the (ob_get q1 ''1'')) ''gone'');
          q3 = fst (requeueDead q2 220 ''1'')
      in fst (claimDue q3 230 10 400))"

theorem requeue_revives_token:
  "snd (markConfirmed (fst (claimDue first_claim 200 10 300)) 210 first_worker ''h'') = False
   \<and> snd (markConfirmed requeued_claim 240 first_worker ''h'') = True"
  by code_simp

text \<open>
  A failure reported after the envelope was broadcast clears the recorded envelope hash and
  schedules the next attempt one second later, inside the envelope's own validity.
\<close>

definition broken_rpc :: relay_env where
  "broken_rpc = \<lparr> re_check = (\<lambda>_. Inr CS_not_found), re_encode = (\<lambda>_. None),
     re_invoke = (\<lambda>_. IO_sent ''env1'' (SR_error ''socket hang up'')), re_contractId = ''C1'', re_batchSize = 10,
     re_leaseSeconds = 120, re_maxAttempts = 5 \<rparr>"

theorem broadcast_failure_forgets_envelope:
  "map_option (\<lambda>r. (ob_status r, ob_envelopeHash r, ob_nextAttemptAt r)) (ob_get (fst (tick broken_rpc 5 two_rows)) ''1'')
     = Some (OB_pending, None, 1005)"
  by code_simp

end
