(* ===== verification/Intents_Service.thy ===== *)
theory Intents_Service
  imports Solver_Fills Outbox
begin

text \<open>
  The intent service of \<^verbatim>\<open>src/intents/intents.service.ts\<close> over the repository, the fill
  ledger and the outbox: creation with idempotency keys, the batch endpoint with the per-user
  cap, every guarded state change with its metric, audit entry, deadline job, shadow
  observation and on-chain parking, the compensations of a cancelled slash, eviction and the
  audit reads.

  A call is one step on the service record. What the process environment decides is the
  record \<open>svc_env\<close>: the configuration, whether a chain write is due for an intent, the token
  prices, and the outcome of a contract call (\<open>None\<close> when it throws). Encoding arguments for
  the chain, logging and the fire-and-forget copy of an audit entry to the database are not
  part of the state.
\<close>

section \<open>Configuration\<close>

definition CHAIN_DEADLINE_DEFAULTS :: "(string, int) jsmap" where
  "CHAIN_DEADLINE_DEFAULTS =
     [(''stellar'', 900), (''base'', 1800), (''optimism'', 1800), (''arbitrum'', 1800), (''ethereum'', 3600),
      (''polygon'', 2700), (''avalanche'', 1800)]"

definition DEFAULT_DEADLINE_SECONDS :: int where "DEFAULT_DEADLINE_SECONDS = 1800"

definition CHAIN_FILL_WINDOW_DEFAULTS :: "(string, int) jsmap" where
  "CHAIN_FILL_WINDOW_DEFAULTS =
     [(''stellar'', 120), (''base'', 600), (''optimism'', 600), (''arbitrum'', 600), (''ethereum'', 1800),
      (''polygon'', 900), (''avalanche'', 600)]"

definition DEFAULT_FILL_WINDOW_SECONDS :: int where "DEFAULT_FILL_WINDOW_SECONDS = 600"

text \<open>The live governance parameters the snapshot reads: a version and per-chain overrides.\<close>

record protocol_params =
  pp_version :: int
  pp_deadlineSeconds :: "(string, int) jsmap"
  pp_fillWindowSeconds :: "(string, int) jsmap"

record params_snapshot =
  ps_version :: int
  ps_deadlineSeconds :: int
  ps_fillWindowSeconds :: int

definition snapshotForChain :: "protocol_params \<Rightarrow> string \<Rightarrow> params_snapshot" where
  "snapshotForChain p srcChain =
     \<lparr> ps_version = pp_version p,
       ps_deadlineSeconds = coalesce (map_of (pp_deadlineSeconds p) srcChain)
         (coalesce (map_of CHAIN_DEADLINE_DEFAULTS srcChain) DEFAULT_DEADLINE_SECONDS),
       ps_fillWindowSeconds = coalesce (map_of (pp_fillWindowSeconds p) srcChain)
         (coalesce (map_of CHAIN_FILL_WINDOW_DEFAULTS srcChain) DEFAULT_FILL_WINDOW_SECONDS) \<rparr>"

record svc_env =
  e_params :: protocol_params
  e_flags :: "(intent \<Rightarrow> bool) option"
  e_onchainIntentsEnabled :: bool
  e_settlementContractId :: string
  e_invoke :: "string \<Rightarrow> intent \<Rightarrow> string option"
  e_encodable :: "intent \<Rightarrow> bool"
  e_unitOfWork :: bool
  e_fillLedger :: bool
  e_shouldObserve :: bool
  e_depositVerificationEnabled :: bool
  e_dstPrice :: "string \<Rightarrow> rat option"
  e_srcPrice :: "string \<Rightarrow> string \<Rightarrow> rat option"
  e_persistence :: string
  e_retentionDays :: "int option"

section \<open>State\<close>

datatype deadline_job = Job_expire string int | Job_fillWindow string int

record shadow_observation =
  so_transition :: string
  so_intentId :: string
  so_committed :: bool
  so_method :: string

record svc =
  s_repo :: intents_repo
  s_audit :: "(string, audit_entry list) jsmap"
  s_metrics :: "(string \<times> string) list"
  s_fills :: fills_ledger
  s_outbox :: outbox
  s_jobs :: "deadline_job list"
  s_shadow :: "shadow_observation list"
  s_invalidations :: nat
  s_idem :: "(string, string \<times> int) jsmap"

fun PENDING_STATE_BY_OP :: "pending_op \<Rightarrow> intent_state" where
  "PENDING_STATE_BY_OP Op_create = St_pending_open"
| "PENDING_STATE_BY_OP Op_accept = St_pending_accepted"
| "PENDING_STATE_BY_OP Op_fill = St_pending_filled"
| "PENDING_STATE_BY_OP Op_cancel = St_pending_cancelled"

fun CONFIRMED_STATE_BY_PENDING :: "intent_state \<Rightarrow> intent_state option" where
  "CONFIRMED_STATE_BY_PENDING St_pending_open = Some St_open"
| "CONFIRMED_STATE_BY_PENDING St_pending_accepted = Some St_accepted"
| "CONFIRMED_STATE_BY_PENDING St_pending_filled = Some St_filled"
| "CONFIRMED_STATE_BY_PENDING St_pending_cancelled = Some St_cancelled"
| "CONFIRMED_STATE_BY_PENDING _ = None"

fun ONCHAIN_METHOD_BY_OP :: "pending_op \<Rightarrow> string" where
  "ONCHAIN_METHOD_BY_OP Op_create = ''create_intent''"
| "ONCHAIN_METHOD_BY_OP Op_accept = ''accept_intent''"
| "ONCHAIN_METHOD_BY_OP Op_fill = ''fill_intent''"
| "ONCHAIN_METHOD_BY_OP Op_cancel = ''cancel_intent''"

definition IDEMPOTENCY_TTL_SECONDS :: int where "IDEMPOTENCY_TTL_SECONDS = 86400"
definition MAX_OPEN_INTENTS_PER_USER :: nat where "MAX_OPEN_INTENTS_PER_USER = 50"
definition MAX_VERSION_RETRIES :: nat where "MAX_VERSION_RETRIES = 3"

section \<open>Side effects\<close>

definition changed :: "svc \<Rightarrow> svc" where
  "changed s = s\<lparr> s_invalidations := s_invalidations s + 1 \<rparr>"

definition countTransition :: "string \<Rightarrow> string \<Rightarrow> svc \<Rightarrow> svc" where
  "countTransition from to s = s\<lparr> s_metrics := s_metrics s @ [(from, to)] \<rparr>"

definition writeAudit :: "string \<Rightarrow> audit_entry \<Rightarrow> svc \<Rightarrow> svc" where
  "writeAudit iid entry s =
     s\<lparr> s_audit := AList.update iid (coalesce (map_of (s_audit s) iid) [] @ [entry]) (s_audit s) \<rparr>"

definition appendAuditEntry :: "int \<Rightarrow> string \<Rightarrow> intent_state \<Rightarrow> string \<Rightarrow> string \<Rightarrow> (string, meta_value) jsmap option
    \<Rightarrow> svc \<Rightarrow> svc" where
  "appendAuditEntry nowMs iid toState actor reason metadata s =
     writeAudit iid \<lparr> a_timestamp = nowMs, a_toState = toState, a_actor = actor, a_reason = reason,
       a_metadata = coalesce metadata [] \<rparr> s"

definition recordTransition :: "transition_plan \<Rightarrow> (string, meta_value) jsmap \<Rightarrow> svc \<Rightarrow> svc" where
  "recordTransition plan extra s =
     (let s1 = countTransition (state_name (p_from plan)) (state_name (p_to plan)) s;
          defined = filter (\<lambda>(k, v). v \<noteq> MUndef) extra
      in writeAudit (p_intentId plan)
           ((p_audit plan)\<lparr> a_metadata := spread (spread [] defined) (a_metadata (p_audit plan)) \<rparr>) s1)"

definition reportShadow :: "string \<Rightarrow> string \<Rightarrow> bool \<Rightarrow> string \<Rightarrow> svc \<Rightarrow> svc" where
  "reportShadow kind iid committed method s =
     s\<lparr> s_shadow := s_shadow s @ [\<lparr> so_transition = kind, so_intentId = iid, so_committed = committed,
          so_method = method \<rparr>] \<rparr>"

definition scheduleExpire :: "intent \<Rightarrow> svc \<Rightarrow> svc" where
  "scheduleExpire i s = s\<lparr> s_jobs := s_jobs s @ [Job_expire (i_intentId i) (i_deadline i)] \<rparr>"

definition scheduleFillWindow :: "intent \<Rightarrow> svc \<Rightarrow> svc" where
  "scheduleFillWindow i s = s\<lparr> s_jobs := s_jobs s @ [Job_fillWindow (i_intentId i) (i_deadline i)] \<rparr>"

text \<open>\<open>Partial<TransitionContext>\<close> spread over the caller's default actor and reason.\<close>

record partial_ctx =
  pc_actor :: "string option"
  pc_reason :: "string option"
  pc_metadata :: "((string, meta_value) jsmap) option"
  pc_override :: "bool option"
  pc_at :: "int option"

definition no_ctx :: partial_ctx where
  "no_ctx = \<lparr> pc_actor = None, pc_reason = None, pc_metadata = None, pc_override = None, pc_at = None \<rparr>"

definition or_keep :: "'a option \<Rightarrow> 'a option \<Rightarrow> 'a option" where
  "or_keep new old = (case new of None \<Rightarrow> old | Some v \<Rightarrow> Some v)"

definition with_ctx :: "string \<Rightarrow> string option \<Rightarrow> partial_ctx \<Rightarrow> transition_context" where
  "with_ctx actor reason p =
     \<lparr> c_actor = coalesce (pc_actor p) actor, c_reason = or_keep (pc_reason p) reason,
       c_metadata = pc_metadata p, c_override = pc_override p, c_at = pc_at p \<rparr>"

section \<open>The fill ledger\<close>

definition oraclePrice :: "rat option \<Rightarrow> rat option" where
  "oraclePrice token = (case token of None \<Rightarrow> None | Some p \<Rightarrow> if p > 0 then Some p else None)"

definition buildFillRecord :: "svc_env \<Rightarrow> intent \<Rightarrow> fill_outcome \<Rightarrow> int \<Rightarrow> solver_fill_record" where
  "buildFillRecord env i outcome now =
     (let srcAmount = (if all_digits (i_srcAmount i) then i_srcAmount i else ''0'');
          solver = coalesce (i_solver i) []
      in if outcome = FO_filled
         then (let dstAmount = (case i_fillAmount i of None \<Rightarrow> ''0''
                     | Some a \<Rightarrow> if a \<noteq> [] \<and> all_digits a then a else ''0'');
                   filledAt = coalesce (i_filledAt i) now;
                   price = oraclePrice (e_dstPrice env (st_contract (i_dstToken i)))
               in \<lparr> sf_intentId = i_intentId i, sf_solver = solver, sf_chain = i_srcChain i, sf_srcAmount = srcAmount,
                    sf_dstAmount = Some dstAmount, sf_usdValue = usdValueOf dstAmount (st_decimals (i_dstToken i)) price,
                    sf_fillSeconds = Some (filledAt - i_createdAt i), sf_outcome = outcome, sf_ledger = None,
                    sf_createdAt = filledAt \<rparr>)
         else (let price = oraclePrice (e_srcPrice env (i_srcChain i) (t_address (i_srcToken i)))
               in \<lparr> sf_intentId = i_intentId i, sf_solver = solver, sf_chain = i_srcChain i, sf_srcAmount = srcAmount,
                    sf_dstAmount = None, sf_usdValue = usdValueOf srcAmount (t_decimals (i_srcToken i)) price,
                    sf_fillSeconds = None, sf_outcome = outcome, sf_ledger = None,
                    sf_createdAt = coalesce (i_slashedAt i) now \<rparr>))"

definition truthy :: "string option \<Rightarrow> bool" where
  "truthy x = (case x of None \<Rightarrow> False | Some v \<Rightarrow> v \<noteq> [])"

definition recordFill :: "solver_fill_record \<Rightarrow> svc \<Rightarrow> svc" where
  "recordFill f s = s\<lparr> s_fills := record_fill (s_fills s) f \<rparr>"

definition withFillRecord :: "svc_env \<Rightarrow> fill_outcome \<Rightarrow> int \<Rightarrow> (intents_repo \<Rightarrow> intents_repo \<times> mutation_result)
    \<Rightarrow> svc \<Rightarrow> svc \<times> mutation_result" where
  "withFillRecord env outcome now mutate_fn s =
     (let (repo, result) = mutate_fn (s_repo s);
          s1 = s\<lparr> s_repo := repo \<rparr>
      in if \<not> e_fillLedger env then (s1, result)
         else (case result of
                 MR_intent i \<Rightarrow> (if truthy (i_solver i) then recordFill (buildFillRecord env i outcome now) s1 else s1, result)
               | _ \<Rightarrow> (s1, result)))"

text \<open>The compensating rows of a cancelled slash, appended when the ledger is on.\<close>

definition reverse_rows :: "svc_env \<Rightarrow> intent \<Rightarrow> intent \<Rightarrow> intent_state \<Rightarrow> int \<Rightarrow> svc \<Rightarrow> svc" where
  "reverse_rows env current updated toState now s =
     (if e_fillLedger env \<and> truthy (i_solver current)
      then (let s1 = recordFill ((buildFillRecord env current FO_failed now)\<lparr> sf_outcome := FO_reversed \<rparr>) s
            in if toState = St_filled then recordFill (buildFillRecord env updated FO_filled now) s1 else s1)
      else s)"

definition settleCancelledSlash :: "svc_env \<Rightarrow> string \<Rightarrow> intent_state \<Rightarrow> string option \<Rightarrow> int \<Rightarrow> svc \<Rightarrow> svc \<times> intent option" where
  "settleCancelledSlash env iid toState fillTxHash now s =
     (case findById (s_repo s) iid of
        None \<Rightarrow> (s, None)
      | Some current \<Rightarrow>
          if i_state current \<noteq> St_slashed then (s, None)
          else (let patch = (if toState = St_filled then (\<lambda>i. i\<lparr> i_state := St_filled, i_txHash := fillTxHash \<rparr>)
                             else (\<lambda>i. i\<lparr> i_state := St_expired \<rparr>));
                    (repo, result) = update (s_repo s) iid patch None;
                    s1 = s\<lparr> s_repo := repo \<rparr>
                in case written result of
                     None \<Rightarrow> (s1, None)
                   | Some updated \<Rightarrow> (changed (reverse_rows env current updated toState now s1), Some updated)))"

section \<open>Eviction\<close>

definition retention_seconds :: "int option \<Rightarrow> int" where
  "retention_seconds days = max 0 (coalesce days 30 * 86400)"

definition evict_one :: "intent \<Rightarrow> intents_repo \<times> nat \<Rightarrow> intents_repo \<times> nat" where
  "evict_one i acc =
     (let (repo, evicted) = acc; (repo', removed) = delete repo (i_intentId i)
      in (repo', if removed then evicted + 1 else evicted))"

definition evictTerminalIntents :: "svc_env \<Rightarrow> int \<Rightarrow> svc \<Rightarrow> svc \<times> nat" where
  "evictTerminalIntents env nowSec s =
     (if e_persistence env \<noteq> ''memory'' \<or> e_onchainIntentsEnabled env then (s, 0)
      else (let cutoff = nowSec - retention_seconds (e_retentionDays env);
                stale = filter (\<lambda>i. i_state i \<in> set TERMINAL_STATES \<and> coalesce (i_filledAt i) (i_createdAt i) \<le> cutoff)
                          (findAll (s_repo s));
                (repo, evicted) = fold evict_one stale (s_repo s, 0)
            in (s\<lparr> s_repo := repo \<rparr>, evicted)))"

section \<open>Creation\<close>

definition computeUsdValue :: "string \<Rightarrow> int \<Rightarrow> rat option \<Rightarrow> rat option" where
  "computeUsdValue srcAmount decimals priceUsd =
     (case priceUsd of
        None \<Rightarrow> None
      | Some price \<Rightarrow>
          (case BigInt srcAmount of
             None \<Rightarrow> None
           | Some amount \<Rightarrow>
               if decimals < 0 then None
               else Some (of_int (bigint_div (amount * js_round (price * 10 ^ 8)) (10 ^ nat decimals * 100000000)))))"

definition initialSrcVerification :: "svc_env \<Rightarrow> string \<Rightarrow> int \<Rightarrow> bool \<times> src_verification" where
  "initialSrcVerification env srcChain now =
     (let sv = (\<lambda>st d. \<lparr> sv_status = st, sv_checkedAt = now, sv_blockNumber = None, sv_blockHash = None,
                  sv_receivedAmount = None, sv_detail = d \<rparr>)
      in if \<not> e_depositVerificationEnabled env then (True, sv Src_skipped (Some ''deposit verification disabled''))
         else if srcChain = ''stellar'' then (True, sv Src_skipped (Some ''non-EVM source chain''))
         else (False, sv Src_pending None))"

definition isOnchainWrite :: "svc_env \<Rightarrow> intent \<Rightarrow> bool" where
  "isOnchainWrite env i = (case e_flags env of Some f \<Rightarrow> f i | None \<Rightarrow> e_onchainIntentsEnabled env)"

definition enqueueOnchain :: "svc_env \<Rightarrow> int \<Rightarrow> intent \<Rightarrow> outbox \<Rightarrow> outbox result" where
  "enqueueOnchain env nowMs i q =
     (if e_settlementContractId env = []
      then Inl (ServiceUnavailable ''On-chain intent registration is enabled but SETTLEMENT_CONTRACT_ID is not configured'')
      else if \<not> e_encodable env i then Inl (PlainError ''malformed outbox payload'')
      else Inr (fst (enqueue q nowMs (createIntentEntry i))))"

definition registerOnChain :: "svc_env \<Rightarrow> intent \<Rightarrow> string result" where
  "registerOnChain env i =
     (if e_settlementContractId env = []
      then Inl (ServiceUnavailable ''On-chain intent registration is enabled but SETTLEMENT_CONTRACT_ID is not configured'')
      else or_throw (ServiceUnavailable ''Failed to register intent with the settlement contract'')
             (e_invoke env ''create_intent'' i))"

text \<open>
  The new record: \<open>data\<close> carries everything but the id, creation time and state; its deadline
  is separate because the caller may leave it out.
\<close>

definition new_intent :: "svc_env \<Rightarrow> int \<Rightarrow> string \<Rightarrow> intent \<Rightarrow> int option \<Rightarrow> intent" where
  "new_intent env now uuid data dl =
     (let snap = snapshotForChain (e_params env) (i_srcChain data);
          (v, sv) = initialSrcVerification env (i_srcChain data) now
      in data\<lparr> i_intentId := uuid, i_state := St_open, i_createdAt := now,
               i_deadline := coalesce dl (now + ps_deadlineSeconds snap),
               i_paramsVersion := Some (ps_version snap),
               i_usdValueAtCreate := computeUsdValue (i_srcAmount data) (t_decimals (i_srcToken data)) (t_priceUSD (i_srcToken data)),
               i_srcVerified := Some (coalesce (i_srcVerified data) v),
               i_srcVerification := Some (coalesce (i_srcVerification data) sv),
               i_pendingTxHash := None, i_pendingOp := None \<rparr>)"

definition persistNewIntent :: "svc_env \<Rightarrow> int \<Rightarrow> string \<Rightarrow> intent \<Rightarrow> int option \<Rightarrow> svc \<Rightarrow> svc \<times> intent result" where
  "persistNewIntent env now uuid data dl s =
     (let i = new_intent env now uuid data dl;
          stored = (if isOnchainWrite env i \<and> e_unitOfWork env
            then (let i' = i\<lparr> i_state := St_pending_open, i_pendingOp := Some Op_create \<rparr>
                  in case enqueueOnchain env (now * 1000) i' (s_outbox s) of
                       Inl e \<Rightarrow> Inl e
                     | Inr q \<Rightarrow> Inr (s\<lparr> s_outbox := q, s_repo := fst (save (s_repo s) i') \<rparr>, i'))
            else if isOnchainWrite env i
            then (case registerOnChain env i of
                    Inl e \<Rightarrow> Inl e
                  | Inr txHash \<Rightarrow>
                      (let i' = i\<lparr> i_state := St_pending_open, i_pendingOp := Some Op_create, i_pendingTxHash := Some txHash \<rparr>
                       in Inr (s\<lparr> s_repo := fst (save (s_repo s) i') \<rparr>, i')))
            else Inr (s\<lparr> s_repo := fst (save (s_repo s) i) \<rparr>, i))
      in case stored of
           Inl e \<Rightarrow> (s, Inl e)
         | Inr (s1, i') \<Rightarrow> (changed (countTransition ''none'' (state_name (i_state i')) (scheduleExpire i' s1)), Inr i'))"

definition create :: "svc_env \<Rightarrow> int \<Rightarrow> string \<Rightarrow> intent \<Rightarrow> int option \<Rightarrow> string option \<Rightarrow> svc \<Rightarrow> svc \<times> intent result" where
  "create env now uuid data dl key s =
     (if \<not> truthy key then persistNewIntent env now uuid data dl s
      else (let k = the key;
                persist = (\<lambda>s. case persistNewIntent env now uuid data dl s of
                   (s1, Inl e) \<Rightarrow> (s1, Inl e)
                 | (s1, Inr i) \<Rightarrow> (s1\<lparr> s_idem := AList.update k (i_intentId i, now + IDEMPOTENCY_TTL_SECONDS) (s_idem s1) \<rparr>, Inr i))
            in case map_of (s_idem s) k of
                 None \<Rightarrow> persist s
               | Some (cachedId, expiresAt) \<Rightarrow>
                   if expiresAt > now
                   then (case findById (s_repo s) cachedId of
                           Some i \<Rightarrow> (s, Inr i)
                         | None \<Rightarrow> persist (s\<lparr> s_idem := AList.delete k (s_idem s) \<rparr>))
                   else persist s))"

definition countOpenByUser :: "intents_repo \<Rightarrow> string \<Rightarrow> nat" where
  "countOpenByUser r user =
     length (filter (\<lambda>i. i_state i = St_open \<or> i_state i = St_accepted \<or> i_state i = St_pending_open
        \<or> i_state i = St_pending_accepted) (findByUser r user))"

record batch_error =
  be_index :: nat
  be_field :: string
  be_message :: string

definition CAP_MESSAGE :: string where
  "CAP_MESSAGE = ''Open-intent cap reached - max 50 open/accepted intents per user''"

text \<open>The validation loop of \<open>createBatch\<close>: the running counts per lower-cased user, and the errors.\<close>

fun batch_check :: "intents_repo \<Rightarrow> nat \<Rightarrow> intent list \<Rightarrow> (string, nat) jsmap \<Rightarrow> batch_error list" where
  "batch_check r i [] counts = []"
| "batch_check r i (item # items) counts =
     (let user = toLowerCase (i_user item) in
      if user = [] then \<lparr> be_index = i, be_field = ''user'', be_message = ''User address is required'' \<rparr> # batch_check r (i + 1) items counts
      else (let counts = (case map_of counts user of None \<Rightarrow> AList.update user (countOpenByUser r (i_user item)) counts
                          | Some _ \<Rightarrow> counts);
                currentCount = the (map_of counts user)
            in if currentCount + 1 > MAX_OPEN_INTENTS_PER_USER
               then \<lparr> be_index = i, be_field = ''user'', be_message = CAP_MESSAGE \<rparr> # batch_check r (i + 1) items counts
               else batch_check r (i + 1) items (AList.update user (currentCount + 1) counts)))"

fun batch_persist :: "svc_env \<Rightarrow> int \<Rightarrow> (intent \<times> int option \<times> string) list \<Rightarrow> intent list \<Rightarrow> svc
    \<Rightarrow> svc \<times> intent list result" where
  "batch_persist env now [] created s = (s, Inr created)"
| "batch_persist env now ((data, dl, uuid) # items) created s =
     (case persistNewIntent env now uuid data dl s of
        (s1, Inl e) \<Rightarrow> (s1, Inl e)
      | (s1, Inr i) \<Rightarrow> batch_persist env now items (created @ [i]) s1)"

text \<open>Each item comes with the deadline it may carry and the uuid drawn for it.\<close>

definition createBatch :: "svc_env \<Rightarrow> int \<Rightarrow> (intent \<times> int option \<times> string) list \<Rightarrow> svc
    \<Rightarrow> svc \<times> (intent list \<times> batch_error list) result" where
  "createBatch env now items s =
     (let errors = batch_check (s_repo s) 0 (map fst items) [] in
      if errors \<noteq> [] then (s, Inr ([], errors))
      else (case batch_persist env now items [] s of
              (s1, Inl e) \<Rightarrow> (s1, Inl e)
            | (s1, Inr created) \<Rightarrow> (s1, Inr (created, []))))"

section \<open>Reads and plain writes\<close>

definition getMany :: "svc \<Rightarrow> string list \<Rightarrow> intent list" where
  "getMany s ids = List.map_filter (findById (s_repo s)) (js_dedup ids)"

definition getAcceptedCountBySolver :: "svc \<Rightarrow> string \<Rightarrow> nat" where
  "getAcceptedCountBySolver s solver =
     length (filter (\<lambda>i. i_state i = St_accepted \<and> i_solver i = Some solver) (findAll (s_repo s)))"

definition svc_update :: "string \<Rightarrow> (intent \<Rightarrow> intent) \<Rightarrow> int option \<Rightarrow> svc \<Rightarrow> svc \<times> intent option" where
  "svc_update iid patch expectedVersion s =
     (let (repo, result) = update (s_repo s) iid patch expectedVersion;
          s1 = s\<lparr> s_repo := repo \<rparr>
      in case written result of None \<Rightarrow> (s1, None) | Some i \<Rightarrow> (changed s1, Some i))"

text \<open>
  The optimistic retry loop. The callback decides on a fresh read; between the read and its
  write other requests may have changed the store, which \<open>others\<close> gives per attempt.
\<close>

fun retry_loop :: "string \<Rightarrow> (intent \<Rightarrow> (intents_repo \<Rightarrow> intents_repo \<times> mutation_result) option)
    \<Rightarrow> (nat \<Rightarrow> intents_repo \<Rightarrow> intents_repo) \<Rightarrow> nat \<Rightarrow> nat \<Rightarrow> mutation_result \<Rightarrow> svc \<Rightarrow> svc \<times> mutation_result" where
  "retry_loop iid cb others attempt 0 last_res s = (s, last_res)"
| "retry_loop iid cb others attempt (Suc n) last_res s =
     (case findById (s_repo s) iid of
        None \<Rightarrow> (s, MR_null)
      | Some current \<Rightarrow>
          (case cb current of
             None \<Rightarrow> (s, MR_null)
           | Some mutation \<Rightarrow>
               (let (repo, result) = mutation (others attempt (s_repo s));
                    s1 = s\<lparr> s_repo := repo \<rparr>
                in if \<not> isVersionConflict result
                   then (if result \<noteq> MR_null then changed s1 else s1, result)
                   else retry_loop iid cb others (attempt + 1) n result s1)))"

definition mutateWithRetry :: "string \<Rightarrow> (intent \<Rightarrow> (intents_repo \<Rightarrow> intents_repo \<times> mutation_result) option)
    \<Rightarrow> (nat \<Rightarrow> intents_repo \<Rightarrow> intents_repo) \<Rightarrow> nat \<Rightarrow> svc \<Rightarrow> svc \<times> mutation_result" where
  "mutateWithRetry iid cb others maxAttempts s = retry_loop iid cb others 0 maxAttempts MR_null s"

definition svc_amendIfOpen :: "string \<Rightarrow> string \<Rightarrow> int \<Rightarrow> int \<Rightarrow> svc \<Rightarrow> svc \<times> intent option" where
  "svc_amendIfOpen iid minDst dl now s =
     (let (repo, amended) = amendIfOpen (s_repo s) iid minDst dl now;
          s1 = s\<lparr> s_repo := repo \<rparr>
      in (if amended \<noteq> None then changed s1 else s1, amended))"

section \<open>State changes\<close>

definition fill_window :: "intent \<Rightarrow> int" where
  "fill_window i = coalesce (map_of CHAIN_FILL_WINDOW_DEFAULTS (i_srcChain i)) DEFAULT_FILL_WINDOW_SECONDS"

text \<open>
  The common tail of every state change: on a win, the metric and audit entry of the plan and a
  cache invalidation.
\<close>

definition commit_plan :: "transition_plan \<Rightarrow> (string, meta_value) jsmap \<Rightarrow> intents_repo \<Rightarrow> intent option \<Rightarrow> svc \<Rightarrow> svc" where
  "commit_plan plan extra repo updated s =
     (let s1 = s\<lparr> s_repo := repo \<rparr>
      in case updated of None \<Rightarrow> s1 | Some i \<Rightarrow> changed (recordTransition plan extra s1))"

definition transitionToOnChainPending :: "int \<Rightarrow> string \<Rightarrow> pending_op \<Rightarrow> string option \<Rightarrow> partial_ctx \<Rightarrow> svc
    \<Rightarrow> svc \<times> intent option result" where
  "transitionToOnChainPending nowMs iid op txHash ctx s =
     (case findById (s_repo s) iid of
        None \<Rightarrow> (s, Inr None)
      | Some i \<Rightarrow>
          (case transition nowMs (i_intentId i) (i_state i) (PENDING_STATE_BY_OP op) (with_ctx ''system'' None ctx) of
             Inl e \<Rightarrow> (s, Inl e)
           | Inr plan \<Rightarrow>
               (let (repo, result) = transitionIf (s_repo s) iid (p_from plan) (p_to plan)
                      (\<lambda>i. i\<lparr> i_pendingOp := Some op, i_pendingTxHash := txHash \<rparr>)
                in (commit_plan plan ((''op'', MStr (op_name op)) # (if truthy txHash then [(''txHash'', MStr (the txHash))] else []))
                      repo (written result) s, Inr (written result)))))"

definition parkWithBroadcast :: "svc_env \<Rightarrow> int \<Rightarrow> intent \<Rightarrow> pending_op \<Rightarrow> svc \<Rightarrow> svc \<times> intent option result" where
  "parkWithBroadcast env nowMs i op s =
     (let txHash = (if e_settlementContractId env = [] then None else e_invoke env (ONCHAIN_METHOD_BY_OP op) i)
      in case transitionToOnChainPending nowMs (i_intentId i) op txHash no_ctx s of
           (s1, Inl e) \<Rightarrow> (s1, Inl e)
         | (s1, Inr parked) \<Rightarrow> (s1, Inr (Some (coalesce parked i))))"

definition svc_acceptIfOpen :: "svc_env \<Rightarrow> string \<Rightarrow> string \<Rightarrow> int \<Rightarrow> partial_ctx \<Rightarrow> svc \<Rightarrow> svc \<times> intent option result" where
  "svc_acceptIfOpen env iid solver nowSec ctx s =
     (case findById (s_repo s) iid of
        None \<Rightarrow> (s, Inr None)
      | Some i \<Rightarrow>
          (case transition (nowSec * 1000) iid St_open St_accepted (with_ctx solver None ctx) of
             Inl e \<Rightarrow> (s, Inl e)
           | Inr plan \<Rightarrow>
               (let (repo, result) = acceptIfOpen (s_repo s) iid solver (nowSec + fill_window i) nowSec None;
                    updated = written result;
                    s1 = commit_plan plan (case updated of None \<Rightarrow> [] | Some u \<Rightarrow> [(''deadline'', MInt (i_deadline u))]) repo updated s;
                    s2 = (case updated of None \<Rightarrow> s1 | Some u \<Rightarrow> scheduleFillWindow u s1);
                    s3 = (if e_shouldObserve env
                          then reportShadow ''accept'' (i_intentId (coalesce updated i)) (updated \<noteq> None) ''accept_intent'' s2 else s2)
                in case updated of
                     None \<Rightarrow> (s3, Inr None)
                   | Some u \<Rightarrow> if isOnchainWrite env u then parkWithBroadcast env (nowSec * 1000) u Op_accept s3
                               else (s3, Inr (Some u)))))"

definition svc_fillIfAccepted :: "svc_env \<Rightarrow> string \<Rightarrow> string \<Rightarrow> fill_patch \<Rightarrow> int \<Rightarrow> partial_ctx \<Rightarrow> svc
    \<Rightarrow> svc \<times> intent option result" where
  "svc_fillIfAccepted env iid solver patch nowSec ctx s =
     (case transition (nowSec * 1000) iid St_accepted St_filled (with_ctx solver None ctx) of
        Inl e \<Rightarrow> (s, Inl e)
      | Inr plan \<Rightarrow>
          (let (s0, result) = withFillRecord env FO_filled nowSec (\<lambda>r. fillIfAccepted r iid solver patch nowSec None) s;
               updated = written result;
               s1 = commit_plan plan [(''fillAmount'', meta_opt (coalesce (fpatch_fillAmount patch) None)), (''txHash'', meta_opt (coalesce (fpatch_txHash patch) None))]
                      (s_repo s0) updated s0;
               s2 = (if e_shouldObserve env then reportShadow ''fill'' iid (updated \<noteq> None) ''fill_intent'' s1 else s1)
           in case updated of
                None \<Rightarrow> (s2, Inr None)
              | Some u \<Rightarrow> if isOnchainWrite env u then parkWithBroadcast env (nowSec * 1000) u Op_fill s2
                          else (s2, Inr (Some u))))"

definition settlePartialFill :: "string \<Rightarrow> string \<Rightarrow> fill_patch \<Rightarrow> int \<Rightarrow> svc \<Rightarrow> svc \<times> intent option" where
  "settlePartialFill iid solver patch now s =
     (case findById (s_repo s) iid of
        None \<Rightarrow> (s, None)
      | Some i \<Rightarrow>
          (let (repo, result) = acceptIfOpen (s_repo s) iid solver (now + fill_window i) now None;
               s1 = s\<lparr> s_repo := repo \<rparr>
           in case written result of
                None \<Rightarrow> (s1, None)
              | Some _ \<Rightarrow>
                  (let s2 = countTransition ''open'' ''accepted'' s1;
                       (repo2, result2) = fillIfAccepted (s_repo s2) iid solver patch now None;
                       s3 = s2\<lparr> s_repo := repo2 \<rparr>
                   in case written result2 of
                        None \<Rightarrow> (s3, None)
                      | Some filled \<Rightarrow> (countTransition ''accepted'' ''filled'' s3, Some filled))))"

text \<open>The observation of a cancel, expiry or slash falls back to the stored row when the write lost.\<close>

definition observe_subject :: "svc_env \<Rightarrow> string \<Rightarrow> string \<Rightarrow> string \<Rightarrow> (intent \<Rightarrow> bool) \<Rightarrow> intent option \<Rightarrow> svc \<Rightarrow> svc" where
  "observe_subject env kind method iid wanted updated s =
     (if e_shouldObserve env
      then (case (case updated of Some u \<Rightarrow> Some u | None \<Rightarrow> findById (s_repo s) iid) of
              None \<Rightarrow> s
            | Some subject \<Rightarrow> if wanted subject
                then reportShadow kind (i_intentId subject) (updated \<noteq> None) method s else s)
      else s)"

definition svc_cancelIfOpen :: "svc_env \<Rightarrow> int \<Rightarrow> string \<Rightarrow> partial_ctx \<Rightarrow> svc \<Rightarrow> svc \<times> intent option result" where
  "svc_cancelIfOpen env nowMs iid ctx s =
     (case transition nowMs iid St_open St_cancelled (with_ctx ''system'' None ctx) of
        Inl e \<Rightarrow> (s, Inl e)
      | Inr plan \<Rightarrow>
          (let (repo, result) = cancelIfOpen (s_repo s) iid None;
               updated = written result;
               s1 = commit_plan plan [] repo updated s;
               s2 = observe_subject env ''cancel'' ''cancel_intent'' iid (\<lambda>_. True) updated s1
           in case updated of
                None \<Rightarrow> (s2, Inr None)
              | Some u \<Rightarrow> if isOnchainWrite env u then parkWithBroadcast env nowMs u Op_cancel s2
                          else (s2, Inr (Some u))))"

definition confirmIntent :: "int \<Rightarrow> string \<Rightarrow> partial_ctx \<Rightarrow> svc \<Rightarrow> svc \<times> intent option result" where
  "confirmIntent nowMs iid ctx s =
     (case findById (s_repo s) iid of
        None \<Rightarrow> (s, Inr None)
      | Some i \<Rightarrow>
          (case CONFIRMED_STATE_BY_PENDING (i_state i) of
             None \<Rightarrow> (s, Inr None)
           | Some confirmed \<Rightarrow>
               (case transition nowMs (i_intentId i) (i_state i) confirmed (with_ctx ''system'' None ctx) of
                  Inl e \<Rightarrow> (s, Inl e)
                | Inr plan \<Rightarrow>
                    (let (repo, result) = transitionIf (s_repo s) iid (p_from plan) confirmed
                           (\<lambda>i. i\<lparr> i_pendingTxHash := None, i_pendingOp := None \<rparr>)
                     in (commit_plan plan (if truthy (i_pendingTxHash i) then [(''txHash'', MStr (the (i_pendingTxHash i)))] else [])
                           repo (written result) s, Inr (written result))))))"

definition compensateSlash :: "svc_env \<Rightarrow> int \<Rightarrow> string \<Rightarrow> intent_state \<Rightarrow> transition_context \<Rightarrow> string option option \<Rightarrow> int \<Rightarrow> svc
    \<Rightarrow> svc \<times> intent option result" where
  "compensateSlash env nowMs iid to ctx txHash now s =
     (case findById (s_repo s) iid of
        None \<Rightarrow> (s, Inr None)
      | Some i \<Rightarrow>
          if i_state i \<noteq> St_slashed then (s, Inr None)
          else (case transition nowMs (i_intentId i) (i_state i) to (ctx\<lparr> c_override := Some True \<rparr>) of
                  Inl e \<Rightarrow> (s, Inl e)
                | Inr plan \<Rightarrow>
                    (let (repo, result) = transitionIf (s_repo s) iid St_slashed to
                           (\<lambda>i. i\<lparr> i_txHash := coalesce txHash (i_txHash i) \<rparr>);
                         updated = written result;
                         s1 = (case updated of None \<Rightarrow> s | Some u \<Rightarrow> reverse_rows env i u to now s)
                     in (commit_plan plan [] repo updated s1, Inr updated))))"

definition svc_expireIfOpen :: "svc_env \<Rightarrow> int \<Rightarrow> string \<Rightarrow> partial_ctx \<Rightarrow> svc \<Rightarrow> svc \<times> intent option result" where
  "svc_expireIfOpen env nowMs iid ctx s =
     (case transition nowMs iid St_open St_expired (with_ctx ''system'' None ctx) of
        Inl e \<Rightarrow> (s, Inl e)
      | Inr plan \<Rightarrow>
          (let (repo, result) = expireIfOpen (s_repo s) iid None;
               updated = written result;
               s1 = commit_plan plan (case updated of None \<Rightarrow> [] | Some u \<Rightarrow> [(''deadline'', MInt (i_deadline u))]) repo updated s
           in (observe_subject env ''expire'' ''expire_intent'' iid (\<lambda>_. True) updated s1, Inr updated)))"

definition svc_slashIfAccepted :: "svc_env \<Rightarrow> int \<Rightarrow> string \<Rightarrow> int \<Rightarrow> string \<Rightarrow> partial_ctx \<Rightarrow> svc \<Rightarrow> svc \<times> intent option result" where
  "svc_slashIfAccepted env nowMs iid slashedAt slashReason ctx s =
     (case transition nowMs iid St_accepted St_slashed (with_ctx ''system'' (Some slashReason) ctx) of
        Inl e \<Rightarrow> (s, Inl e)
      | Inr plan \<Rightarrow>
          (let (s0, result) = withFillRecord env FO_failed slashedAt (\<lambda>r. slashIfAccepted r iid slashedAt slashReason None) s;
               updated = written result;
               s1 = commit_plan plan [(''solver'', case updated of None \<Rightarrow> MUndef | Some u \<Rightarrow> meta_opt (i_solver u)),
                      (''slashedAt'', MInt slashedAt)] (s_repo s0) updated s0
           in (observe_subject env ''slash'' ''slash_intent'' iid (\<lambda>i. truthy (i_solver i)) updated s1, Inr updated)))"

definition svc_extendDeadlineIfAccepted :: "string \<Rightarrow> int \<Rightarrow> svc \<Rightarrow> svc \<times> intent option" where
  "svc_extendDeadlineIfAccepted iid newDeadline s =
     (let (repo, result) = extendDeadlineIfAccepted (s_repo s) iid newDeadline None;
          s1 = s\<lparr> s_repo := repo \<rparr>
      in case written result of None \<Rightarrow> (s1, None) | Some u \<Rightarrow> (scheduleFillWindow u s1, Some u))"

section \<open>Audit reads\<close>

definition getAuditLog :: "svc \<Rightarrow> string \<Rightarrow> int option \<Rightarrow> int option \<Rightarrow> audit_entry list" where
  "getAuditLog s iid limit offset =
     (let entries = coalesce (map_of (s_audit s) iid) [] in
      if limit = None \<and> offset = None then entries
      else (let safeLimit = min (coalesce limit 20) 100; safeOffset = max 0 (coalesce offset 0)
            in js_slice safeOffset (safeOffset + safeLimit) entries))"

text \<open>
  The persisted copy answers only when nothing is in memory; \<open>persisted\<close> is what the database
  read for that intent and page returns, with the count when the client supports it.
\<close>

definition getAuditTrail :: "svc \<Rightarrow> string \<Rightarrow> int \<Rightarrow> int \<Rightarrow> (audit_entry list \<times> nat option) option
    \<Rightarrow> audit_entry list \<times> nat" where
  "getAuditTrail s iid limit offset persisted =
     (let inMemory = coalesce (map_of (s_audit s) iid) [] in
      if inMemory \<noteq> [] then (getAuditLog s iid (Some limit) (Some offset), length inMemory)
      else (case persisted of
              None \<Rightarrow> ([], 0)
            | Some (entries, cnt) \<Rightarrow> (entries, coalesce cnt (length entries))))"

end
