(* ===== verification/Intents_Service_Props.thy ===== *)
theory Intents_Service_Props
  imports Intents_Service
begin

text \<open>
  Correctness of the intent service: the audit trail of every intent is a path of table edges
  that ends in its current state; the fill ledger never credits and blames a solver for the
  same intent; creation respects idempotency keys and the per-user cap; eviction removes only
  settled, stale intents; parking and confirming round-trip.
\<close>

section \<open>Frames\<close>

text \<open>Which part of the service each side effect touches.\<close>

lemma side_effect_frames [simp]:
  "s_repo (changed s) = s_repo s" "s_audit (changed s) = s_audit s" "s_fills (changed s) = s_fills s"
  "s_repo (countTransition a b s) = s_repo s" "s_audit (countTransition a b s) = s_audit s"
  "s_fills (countTransition a b s) = s_fills s"
  "s_repo (reportShadow t i c m s) = s_repo s" "s_audit (reportShadow t i c m s) = s_audit s"
  "s_fills (reportShadow t i c m s) = s_fills s"
  "s_repo (scheduleExpire x s) = s_repo s" "s_audit (scheduleExpire x s) = s_audit s"
  "s_fills (scheduleExpire x s) = s_fills s"
  "s_repo (scheduleFillWindow x s) = s_repo s" "s_audit (scheduleFillWindow x s) = s_audit s"
  "s_fills (scheduleFillWindow x s) = s_fills s"
  "s_repo (recordFill f s) = s_repo s" "s_audit (recordFill f s) = s_audit s"
  "s_fills (recordFill f s) = record_fill (s_fills s) f"
  "s_repo (writeAudit k e s) = s_repo s" "s_fills (writeAudit k e s) = s_fills s"
  "s_repo (recordTransition p ex s) = s_repo s" "s_fills (recordTransition p ex s) = s_fills s"
  by (simp_all add: changed_def countTransition_def reportShadow_def scheduleExpire_def scheduleFillWindow_def
      recordFill_def writeAudit_def recordTransition_def Let_def)

lemma observe_frames [simp]:
  "s_repo (observe_subject env kd m iid w u s) = s_repo s" "s_audit (observe_subject env kd m iid w u s) = s_audit s"
  "s_fills (observe_subject env kd m iid w u s) = s_fills s"
  by (simp_all add: observe_subject_def split: option.splits)

lemma reverse_rows_frames [simp]:
  "s_repo (reverse_rows env c u st now s) = s_repo s" "s_audit (reverse_rows env c u st now s) = s_audit s"
  by (simp_all add: reverse_rows_def Let_def)

lemma commit_repo [simp]: "s_repo (commit_plan plan ex repo u s) = repo"
  by (simp add: commit_plan_def Let_def split: option.splits)

lemma commit_fills [simp]: "s_fills (commit_plan plan ex repo u s) = s_fills s"
  by (simp add: commit_plan_def Let_def split: option.splits)

lemma withFillRecord_frames:
  "s_repo (fst (withFillRecord env oc now f s)) = fst (f (s_repo s))"
  "s_audit (fst (withFillRecord env oc now f s)) = s_audit s"
  "snd (withFillRecord env oc now f s) = snd (f (s_repo s))"
  by (cases "f (s_repo s)"; simp add: withFillRecord_def Let_def split: mutation_result.splits)+

section \<open>The audit trail\<close>

text \<open>Follow the entries from a starting state; \<open>None\<close> when one does not continue the path.\<close>

fun trail :: "intent_state \<Rightarrow> audit_entry list \<Rightarrow> intent_state option" where
  "trail st [] = Some st"
| "trail st (e # es) =
     (if map_of (a_metadata e) ''fromState'' = Some (MStr (state_name st)) \<and> table_edge st (a_toState e)
      then trail (a_toState e) es else None)"

definition audit_of :: "svc \<Rightarrow> string \<Rightarrow> audit_entry list" where
  "audit_of s k = coalesce (map_of (s_audit s) k) []"

text \<open>An intent starts open, or pending_open when its creation is already on its way to the chain.\<close>

definition trail_ok :: "audit_entry list \<Rightarrow> intent_state \<Rightarrow> bool" where
  "trail_ok es st \<longleftrightarrow> trail St_open es = Some st \<or> trail St_pending_open es = Some st"

definition audit_ok :: "svc \<Rightarrow> bool" where
  "audit_ok s \<longleftrightarrow> repo_ok (s_repo s) \<and> (\<forall>k. case findById (s_repo s) k of
     None \<Rightarrow> audit_of s k = [] | Some i \<Rightarrow> trail_ok (audit_of s k) (i_state i))"

lemma trail_snoc:
  "trail st es = Some t \<Longrightarrow> map_of (a_metadata e) ''fromState'' = Some (MStr (state_name t)) \<Longrightarrow> table_edge t (a_toState e)
   \<Longrightarrow> trail st (es @ [e]) = Some (a_toState e)"
  by (induction es arbitrary: st) (auto split: if_splits)

lemma audit_of_record:
  "audit_of (recordTransition plan ex s) k =
     (if k = p_intentId plan
      then audit_of s k @ [(p_audit plan)\<lparr> a_metadata :=
             spread (spread [] (filter (\<lambda>(k, v). v \<noteq> MUndef) ex)) (a_metadata (p_audit plan)) \<rparr>]
      else audit_of s k)"
  by (simp add: audit_of_def recordTransition_def writeAudit_def countTransition_def Let_def)

lemma plan_entry:
  assumes "transition now k st st' ctx = Inr plan"
  shows "p_intentId plan = k" "p_from plan = st" "p_to plan = st'" "a_toState (p_audit plan) = st'"
    "map_of (spread a (a_metadata (p_audit plan))) ''fromState'' = Some (MStr (state_name st))"
  using assms by (auto simp: transition_Inr map_of_spread_wf)

lemma audit_ok_cong:
  "s_repo s' = s_repo s \<Longrightarrow> s_audit s' = s_audit s \<Longrightarrow> audit_ok s' \<longleftrightarrow> audit_ok s"
  by (simp add: audit_ok_def audit_of_def cong: option.case_cong)

lemma audit_row: "audit_ok s \<Longrightarrow> findById (s_repo s) k = Some i \<Longrightarrow> trail_ok (audit_of s k) (i_state i)"
  unfolding audit_ok_def by (metis (no_types, lifting) option.simps(5))

lemma audit_absent: "audit_ok s \<Longrightarrow> findById (s_repo s) k = None \<Longrightarrow> audit_of s k = []"
  unfolding audit_ok_def by (drule conjunct2, drule spec[of _ k]) simp

lemma audit_okI:
  assumes "repo_ok (s_repo s)" and "\<And>k. findById (s_repo s) k = None \<Longrightarrow> audit_of s k = []"
    and "\<And>k i. findById (s_repo s) k = Some i \<Longrightarrow> trail_ok (audit_of s k) (i_state i)"
  shows "audit_ok s"
  using assms by (simp add: audit_ok_def split: option.splits)

lemma audit_of_changed [simp]: "audit_of (changed s) k = audit_of s k"
  by (simp add: audit_of_def)

text \<open>A guarded write followed by its plan keeps the trail a path to the current state.\<close>

lemma commit_audit:
  assumes ok: "audit_ok s" and plan: "transition now k st st' ctx = Inr plan"
    and "\<And>i. g i \<Longrightarrow> i_state i = st" and "\<And>i. i_state (p i) = st'"
    and audit: "s_audit s1 = s_audit s"
  shows "audit_ok (commit_plan plan ex (fst (mutate (s_repo s) k ev g p)) (written (snd (mutate (s_repo s) k ev g p))) s1)"
    (is "audit_ok ?s")
proof -
  let ?m = "mutate (s_repo s) k ev g p"
  have repo: "s_repo ?s = fst ?m" by simp
  have rok: "repo_ok (fst ?m)" using ok by (simp add: audit_ok_def mutate_ok)
  show ?thesis
  proof (cases "written (snd ?m)")
    case None
    then have "fst ?m = s_repo s" by (intro mutate_lost) auto
    moreover have "s_audit ?s = s_audit s" using None audit by (simp add: commit_plan_def Let_def)
    ultimately show ?thesis using ok repo audit_ok_cong by metis
  next
    case (Some u)
    then obtain i where i: "findById (s_repo s) k = Some i" "g i" "u = stamped k p i" "version_guard (ev, g) i"
      by (auto simp: mutate_intent version_guard_def)
    have tr: "trail_ok (audit_of s k) st" using audit_row[OF ok i(1)] assms(3)[OF i(2)] by simp
    have "audit_of ?s x = (if x = k then audit_of s k @ [(p_audit plan)\<lparr> a_metadata :=
             spread (spread [] (filter (\<lambda>(k, v). v \<noteq> MUndef) ex)) (a_metadata (p_audit plan)) \<rparr>] else audit_of s x)" for x
      using Some audit plan_entry(1)[OF plan] by (simp add: commit_plan_def audit_of_record audit_of_changed Let_def) (simp add: audit_of_def)
    moreover have "trail_ok (audit_of s k @ [(p_audit plan)\<lparr> a_metadata :=
             spread (spread [] (filter (\<lambda>(k, v). v \<noteq> MUndef) ex)) (a_metadata (p_audit plan)) \<rparr>]) st'"
      using tr trail_snoc plan_entry(4,5)[OF plan] transition_edge[OF plan] by (auto simp: trail_ok_def)
    ultimately show ?thesis
      using rok i assms(4) audit_absent[OF ok] audit_row[OF ok]
      by (intro audit_okI) (auto simp: repo findById_mutate split: if_splits)
  qed
qed

text \<open>A write that leaves the states alone and records nothing.\<close>

lemma quiet_audit:
  assumes ok: "audit_ok s" and "repo_ok (s_repo s')" and "s_audit s' = s_audit s"
    and "\<And>k. map_option i_state (findById (s_repo s') k) = map_option i_state (findById (s_repo s) k)"
  shows "audit_ok s'"
proof (rule audit_okI)
  have a: "audit_of s' k = audit_of s k" for k using assms(3) by (simp add: audit_of_def)
  show "audit_of s' k = []" if "findById (s_repo s') k = None" for k
    using that assms(4)[of k] audit_absent[OF ok, of k] a by simp
  show "trail_ok (audit_of s' k) (i_state i)" if "findById (s_repo s') k = Some i" for k i
    using that assms(4)[of k] audit_row[OF ok, of k] a by (cases "findById (s_repo s) k") auto
qed (rule assms(2))

lemma persist_cases:
  assumes "persistNewIntent env now uuid data dl s = (s', r)"
  obtains (err) e where "s' = s" "r = Inl e"
  | (ok) i where "r = Inr i" "s_repo s' = fst (save (s_repo s) i)" "s_audit s' = s_audit s" "s_fills s' = s_fills s"
      "i_intentId i = uuid" "i_state i = St_open \<or> i_state i = St_pending_open" "i_version i = i_version data"
      "i_user i = i_user data" "i_createdAt i = now" "s_idem s' = s_idem s"
proof -
  let ?n = "new_intent env now uuid data dl"
  have n: "i_intentId ?n = uuid" "i_state ?n = St_open" "i_version ?n = i_version data" "i_user ?n = i_user data"
    "i_createdAt ?n = now"
    by (simp_all add: new_intent_def Let_def split: prod.splits)
  have idem: "s_idem (changed x) = s_idem x" "s_idem (countTransition a b x) = s_idem x"
    "s_idem (scheduleExpire j x) = s_idem x" for x a b j
    by (simp_all add: changed_def countTransition_def scheduleExpire_def)
  show ?thesis
    using assms err ok n unfolding persistNewIntent_def Let_def
    by (fastforce simp: idem split: if_splits sum.splits)
qed

section \<open>Runs of the service\<close>

text \<open>
  The calls that record what they do: new intents with a fresh id, the guarded state changes,
  and the writes that leave the state alone. The parameter says whether the fill ledger is
  wired; the rest of the environment may differ from call to call.
\<close>

inductive svc_step :: "bool \<Rightarrow> svc \<Rightarrow> svc \<Rightarrow> bool" for fl where
  ss_create: "findById (s_repo s) uuid = None \<Longrightarrow> 0 \<le> row_version data
    \<Longrightarrow> svc_step fl s (fst (persistNewIntent env now uuid data dl s))"
| ss_amend: "svc_step fl s (fst (svc_amendIfOpen iid minDst dl now s))"
| ss_extend: "svc_step fl s (fst (svc_extendDeadlineIfAccepted iid dl s))"
| ss_accept: "svc_step fl s (fst (svc_acceptIfOpen env iid solver now ctx s))"
| ss_fill: "e_fillLedger env = fl \<Longrightarrow> svc_step fl s (fst (svc_fillIfAccepted env iid solver patch now ctx s))"
| ss_cancel: "svc_step fl s (fst (svc_cancelIfOpen env now iid ctx s))"
| ss_expire: "svc_step fl s (fst (svc_expireIfOpen env now iid ctx s))"
| ss_slash: "e_fillLedger env = fl \<Longrightarrow> svc_step fl s (fst (svc_slashIfAccepted env now iid t rsn ctx s))"
| ss_park: "svc_step fl s (fst (transitionToOnChainPending now iid op h ctx s))"
| ss_confirm: "svc_step fl s (fst (confirmIntent now iid ctx s))"
| ss_compensate: "e_fillLedger env = fl \<Longrightarrow> svc_step fl s (fst (compensateSlash env now iid st' c h t s))"

lemma quiet_mutate:
  assumes "audit_ok s" and "\<And>i. i_state (p i) = i_state i" and "s_repo s' = fst (mutate (s_repo s) iid ev g p)"
    and "s_audit s' = s_audit s"
  shows "audit_ok s'"
proof (rule quiet_audit[OF assms(1) _ assms(4)])
  show "repo_ok (s_repo s')" using assms(1,3) by (simp add: audit_ok_def mutate_ok)
  show "map_option i_state (findById (s_repo s') k) = map_option i_state (findById (s_repo s) k)" for k
    using assms(2,3) by (simp add: findById_mutate split: option.splits)
qed

lemma park_audit:
  assumes "audit_ok s"
  shows "audit_ok (fst (transitionToOnChainPending now iid op h ctx s))"
proof (cases "findById (s_repo s) iid")
  case (Some i)
  have iid: "i_intentId i = iid" using assms Some by (simp add: audit_ok_def repo_ok_def)
  show ?thesis
  proof (cases "transition now iid (i_state i) (PENDING_STATE_BY_OP op) (with_ctx ''system'' None ctx)")
    case (Inr plan)
    then show ?thesis
      using Some iid commit_audit[OF assms Inr, of "\<lambda>x. i_state x = i_state i" _ s] plan_entry(2,3)[OF Inr]
      by (simp add: transitionToOnChainPending_def transitionIf_def Let_def case_prod_unfold)
  qed (simp add: transitionToOnChainPending_def Some iid assms)
qed (simp add: transitionToOnChainPending_def assms)

lemma broadcast_audit: "audit_ok s \<Longrightarrow> audit_ok (fst (parkWithBroadcast env now i op s))"
  using park_audit[of s now "i_intentId i" op]
  by (simp add: parkWithBroadcast_def Let_def case_prod_unfold split: sum.splits)

lemma audit_ok_frames [simp]:
  "audit_ok (changed s) = audit_ok s" "audit_ok (scheduleFillWindow u s) = audit_ok s"
  "audit_ok (scheduleExpire u s) = audit_ok s" "audit_ok (countTransition a b s) = audit_ok s"
  "audit_ok (reportShadow t i c m s) = audit_ok s" "audit_ok (recordFill f s) = audit_ok s"
  "audit_ok (observe_subject env kd m iid w x s) = audit_ok s"
  by (rule audit_ok_cong; simp)+

lemmas unfold_call = Let_def case_prod_unfold

lemma accept_audit: "audit_ok s \<Longrightarrow> audit_ok (fst (svc_acceptIfOpen env iid solver now ctx s))"
proof (cases "transition (now * 1000) iid St_open St_accepted (with_ctx solver None ctx)")
  case (Inr plan)
  assume ok: "audit_ok s"
  have c: "audit_ok (commit_plan plan ex (fst (acceptIfOpen (s_repo s) iid solver dl now None)) w s)"
    if "written (snd (acceptIfOpen (s_repo s) iid solver dl now None)) = w" for ex dl w
    unfolding that[symmetric] unfolding acceptIfOpen_def by (rule commit_audit[OF ok Inr]) auto
  show ?thesis
    using ok c by (auto simp: svc_acceptIfOpen_def Inr unfold_call broadcast_audit split: option.splits)
qed (auto simp: svc_acceptIfOpen_def split: option.splits)

lemma fill_audit: "audit_ok s \<Longrightarrow> audit_ok (fst (svc_fillIfAccepted env iid solver patch now ctx s))"
proof (cases "transition (now * 1000) iid St_accepted St_filled (with_ctx solver None ctx)")
  case (Inr plan)
  assume ok: "audit_ok s"
  let ?s0 = "fst (withFillRecord env FO_filled now (\<lambda>r. fillIfAccepted r iid solver patch now None) s)"
  have c: "audit_ok (commit_plan plan ex (fst (fillIfAccepted (s_repo s) iid solver patch now None)) w ?s0)"
    if "written (snd (fillIfAccepted (s_repo s) iid solver patch now None)) = w" for ex w
    unfolding that[symmetric] unfolding fillIfAccepted_def by (rule commit_audit[OF ok Inr]) (auto simp: withFillRecord_frames)
  show ?thesis
    using ok c
    by (auto simp: svc_fillIfAccepted_def Inr unfold_call broadcast_audit withFillRecord_frames split: option.splits)
qed (simp add: svc_fillIfAccepted_def)

lemma cancel_audit: "audit_ok s \<Longrightarrow> audit_ok (fst (svc_cancelIfOpen env now iid ctx s))"
proof (cases "transition now iid St_open St_cancelled (with_ctx ''system'' None ctx)")
  case (Inr plan)
  assume ok: "audit_ok s"
  have c: "audit_ok (commit_plan plan ex (fst (cancelIfOpen (s_repo s) iid None)) w s)"
    if "written (snd (cancelIfOpen (s_repo s) iid None)) = w" for ex w
    unfolding that[symmetric] unfolding cancelIfOpen_def by (rule commit_audit[OF ok Inr]) auto
  show ?thesis
    using ok c by (auto simp: svc_cancelIfOpen_def Inr unfold_call broadcast_audit split: option.splits)
qed (simp add: svc_cancelIfOpen_def)

lemma expire_audit: "audit_ok s \<Longrightarrow> audit_ok (fst (svc_expireIfOpen env now iid ctx s))"
proof (cases "transition now iid St_open St_expired (with_ctx ''system'' None ctx)")
  case (Inr plan)
  assume ok: "audit_ok s"
  have c: "audit_ok (commit_plan plan ex (fst (expireIfOpen (s_repo s) iid None)) (written (snd (expireIfOpen (s_repo s) iid None))) s)" for ex
    unfolding expireIfOpen_def by (rule commit_audit[OF ok Inr]) auto
  show ?thesis
    using ok c by (auto simp: svc_expireIfOpen_def Inr unfold_call)
qed (simp add: svc_expireIfOpen_def)

lemma slash_audit: "audit_ok s \<Longrightarrow> audit_ok (fst (svc_slashIfAccepted env now iid t rsn ctx s))"
proof (cases "transition now iid St_accepted St_slashed (with_ctx ''system'' (Some rsn) ctx)")
  case (Inr plan)
  assume ok: "audit_ok s"
  let ?s0 = "fst (withFillRecord env FO_failed t (\<lambda>r. slashIfAccepted r iid t rsn None) s)"
  have c: "audit_ok (commit_plan plan ex (fst (slashIfAccepted (s_repo s) iid t rsn None))
      (written (snd (slashIfAccepted (s_repo s) iid t rsn None))) ?s0)" for ex
    unfolding slashIfAccepted_def by (rule commit_audit[OF ok Inr]) (auto simp: withFillRecord_frames)
  show ?thesis
    using ok c by (auto simp: svc_slashIfAccepted_def Inr unfold_call withFillRecord_frames)
qed (simp add: svc_slashIfAccepted_def)

lemma confirm_audit: "audit_ok s \<Longrightarrow> audit_ok (fst (confirmIntent now iid ctx s))"
proof (cases "findById (s_repo s) iid")
  case (Some i)
  assume ok: "audit_ok s"
  have iid: "i_intentId i = iid" using ok Some by (simp add: audit_ok_def repo_ok_def)
  show ?thesis
  proof (cases "CONFIRMED_STATE_BY_PENDING (i_state i)")
    case c: (Some st')
    show ?thesis
    proof (cases "transition now iid (i_state i) st' (with_ctx ''system'' None ctx)")
      case (Inr plan)
      then show ?thesis
        using Some c iid commit_audit[OF ok Inr, of "\<lambda>x. i_state x = i_state i" _ s] plan_entry(2)[OF Inr]
        by (simp add: confirmIntent_def transitionIf_def unfold_call)
    qed (simp add: confirmIntent_def Some c iid ok)
  qed (simp add: confirmIntent_def Some ok)
qed (simp add: confirmIntent_def)

lemma compensate_audit: "audit_ok s \<Longrightarrow> audit_ok (fst (compensateSlash env now iid st' c h t s))"
proof (cases "findById (s_repo s) iid")
  case (Some i)
  assume ok: "audit_ok s"
  have iid: "i_intentId i = iid" using ok Some by (simp add: audit_ok_def repo_ok_def)
  show ?thesis
  proof (cases "transition now iid St_slashed st' (c\<lparr> c_override := Some True \<rparr>)")
    case (Inr plan)
    have "audit_ok (commit_plan plan [] (fst (transitionIf (s_repo s) iid St_slashed st' p)) w s1)"
      if "written (snd (transitionIf (s_repo s) iid St_slashed st' p)) = w" "s_audit s1 = s_audit s" for p s1 w
      unfolding that(1)[symmetric] unfolding transitionIf_def by (rule commit_audit[OF ok Inr]) (use that in auto)
    then show ?thesis
      using Some iid Inr ok by (auto simp: compensateSlash_def unfold_call split: option.splits)
  qed (use Some iid ok in \<open>auto simp: compensateSlash_def\<close>)
qed (simp add: compensateSlash_def)

lemma create_audit:
  assumes "audit_ok s" and "findById (s_repo s) uuid = None" and "0 \<le> row_version data"
  shows "audit_ok (fst (persistNewIntent env now uuid data dl s))"
proof -
  obtain s' r where p: "persistNewIntent env now uuid data dl s = (s', r)" by fastforce
  then show ?thesis
  proof (cases rule: persist_cases)
    case (ok i)
    have g: "findById (s_repo s') k = (if k = uuid then Some i else findById (s_repo s) k)" for k
      using ok(2,5) by (simp add: save_def findById_def)
    have a: "audit_of s' k = audit_of s k" for k using ok(3) by (simp add: audit_of_def)
    have "repo_ok (s_repo s')"
      using ok assms save_ok[of "s_repo s" i] by (simp add: audit_ok_def row_version_def)
    moreover have "trail_ok [] (i_state i)" using ok(6) by (auto simp: trail_ok_def)
    ultimately have "audit_ok s'"
      using audit_absent[OF assms(1)] audit_row[OF assms(1)] assms(2)
      by (intro audit_okI) (auto simp: g a split: if_splits)
    then show ?thesis using p by simp
  qed (use p assms in simp)
qed

lemma svc_step_audit: "svc_step fl s s' \<Longrightarrow> audit_ok s \<Longrightarrow> audit_ok s'"
proof (induction rule: svc_step.induct)
  case (ss_amend s iid minDst dl now)
  have "repo_ok (fst (amendIfOpen (s_repo s) iid minDst dl now))"
    using ss_amend amend_ok by (auto simp: audit_ok_def)
  moreover have "map_option i_state (findById (fst (amendIfOpen (s_repo s) iid minDst dl now)) k)
      = map_option i_state (findById (s_repo s) k)" for k
    by (simp add: amendIfOpen_def findById_def Let_def split: option.splits)
  ultimately show ?case
    by (intro quiet_audit[OF ss_amend]) (auto simp: svc_amendIfOpen_def unfold_call)
next
  case (ss_extend s iid dl)
  show ?case
    by (rule quiet_mutate[OF ss_extend, where p = "\<lambda>i. i\<lparr> i_deadline := dl \<rparr>"])
       (auto simp: svc_extendDeadlineIfAccepted_def extendDeadlineIfAccepted_def unfold_call split: option.splits)
qed (simp_all add: create_audit accept_audit fill_audit cancel_audit expire_audit slash_audit park_audit
      confirm_audit compensate_audit)

interpretation service_runs: inv_system "svc_step fl" audit_ok for fl
  by unfold_locales (rule svc_step_audit)

definition emptySvc :: svc where
  "emptySvc = \<lparr> s_repo = emptyRepo, s_audit = [], s_metrics = [], s_fills = \<lparr> fl_rows = [], fl_keys = [] \<rparr>,
     s_outbox = emptyOutbox, s_jobs = [], s_shadow = [], s_invalidations = 0, s_idem = [] \<rparr>"

lemma emptySvc_ok: "audit_ok emptySvc"
  by (simp add: audit_ok_def emptySvc_def repo_ok_def emptyRepo_def findById_def audit_of_def)


definition sample_env :: svc_env where
  "sample_env = \<lparr> e_params = \<lparr> pp_version = 1, pp_deadlineSeconds = [], pp_fillWindowSeconds = [] \<rparr>, e_flags = None,
     e_onchainIntentsEnabled = False, e_settlementContractId = ''C1'', e_invoke = (\<lambda>_ _. Some ''h''), e_encodable = (\<lambda>_. True),
     e_unitOfWork = False, e_fillLedger = True, e_shouldObserve = False, e_depositVerificationEnabled = False,
     e_dstPrice = (\<lambda>_. Some 1), e_srcPrice = (\<lambda>_ _. Some 1), e_persistence = ''memory'', e_retentionDays = None \<rparr>"

definition created_svc :: svc where
  "created_svc = fst (persistNewIntent sample_env 10 ''i1'' (sample_intent [] ''GA'' 100) (Some 100) emptySvc)"

definition accepted_svc :: svc where
  "accepted_svc = fst (svc_acceptIfOpen sample_env ''i1'' ''GS'' 20 no_ctx created_svc)"

lemma accepted_run: "(svc_step fl)\<^sup>*\<^sup>* emptySvc accepted_svc"
proof -
  have "svc_step fl emptySvc created_svc"
    unfolding created_svc_def by (rule ss_create) (simp_all add: emptySvc_def emptyRepo_def findById_def row_version_def)
  moreover have "svc_step fl created_svc accepted_svc" unfolding accepted_svc_def by (rule ss_accept)
  ultimately show ?thesis by simp
qed

lemma accepted_fills: "s_fills accepted_svc = \<lparr> fl_rows = [], fl_keys = [] \<rparr>"
  by (simp add: accepted_svc_def created_svc_def sample_env_def persistNewIntent_def new_intent_def svc_acceptIfOpen_def
      initialSrcVerification_def isOnchainWrite_def emptySvc_def unfold_call transition_def findRule_find table_simps
      requiresOverride_def split: option.splits)

lemma accepted_row: "\<exists>i. findById (s_repo accepted_svc) ''i1'' = Some i \<and> i_state i = St_accepted \<and> i_solver i = Some ''GS''
    \<and> i_deadline i = 620"
  by (simp add: accepted_svc_def created_svc_def sample_env_def persistNewIntent_def new_intent_def svc_acceptIfOpen_def
      acceptIfOpen_def mutate_def initialSrcVerification_def isOnchainWrite_def emptySvc_def emptyRepo_def save_def
      findById_def unfold_call transition_def findRule_find table_simps requiresOverride_def commit_plan_def
      recordTransition_def writeAudit_def countTransition_def changed_def scheduleExpire_def scheduleFillWindow_def
      fill_window_def CHAIN_FILL_WINDOW_DEFAULTS_def sample_intent_def)


section \<open>The fill ledger\<close>

definition has_row :: "fills_ledger \<Rightarrow> string \<Rightarrow> fill_outcome \<Rightarrow> bool" where
  "has_row l k oc \<longleftrightarrow> (\<exists>r \<in> set (fl_rows l). sf_intentId r = k \<and> sf_outcome r = oc)"

text \<open>What the ledger may say of an intent in a given state.\<close>

definition row_fine :: "fills_ledger \<Rightarrow> string \<Rightarrow> intent \<Rightarrow> bool" where
  "row_fine l k i \<longleftrightarrow> (has_row l k FO_filled \<longrightarrow> i_state i \<in> {St_filled, St_pending_filled})
     \<and> (has_row l k FO_failed \<and> \<not> has_row l k FO_reversed \<longrightarrow> i_state i = St_slashed \<and> truthy (i_solver i))"

definition ledger_inv :: "svc \<Rightarrow> bool" where
  "ledger_inv s \<longleftrightarrow> repo_ok (s_repo s) \<and> ledger_ok (s_fills s)
     \<and> (\<forall>k i. findById (s_repo s) k = Some i \<longrightarrow> row_fine (s_fills s) k i)
     \<and> (\<forall>k oc. findById (s_repo s) k = None \<longrightarrow> \<not> has_row (s_fills s) k oc)"

lemma has_row_record:
  assumes "ledger_ok l"
  shows "has_row (record_fill l f) k oc \<longleftrightarrow> has_row l k oc \<or> (sf_intentId f = k \<and> sf_outcome f = oc)"
proof (cases "fill_key f \<in> set (fl_keys l)")
  case True
  then obtain g where "g \<in> set (fl_rows l)" "fill_key g = fill_key f" using assms by (auto simp: ledger_ok_def)
  then show ?thesis using True by (auto simp: record_fill_def has_row_def fill_key_inject)
qed (auto simp: record_fill_def has_row_def)

lemma build_fields [simp]:
  "sf_intentId (buildFillRecord env i oc now) = i_intentId i" "sf_outcome (buildFillRecord env i oc now) = oc"
  by (simp_all add: buildFillRecord_def Let_def)

text \<open>
  One guarded write whose ledger rows, if any, are for the same intent: it is enough that the
  new row is fine whenever the old one was.
\<close>

lemma ledger_write:
  assumes "ledger_inv s" and "s_repo s' = fst (mutate (s_repo s) iid ev g p)" and "ledger_ok (s_fills s')"
    and "\<And>k oc. k \<noteq> iid \<Longrightarrow> has_row (s_fills s') k oc \<longleftrightarrow> has_row (s_fills s) k oc"
    and "written (snd (mutate (s_repo s) iid ev g p)) = None \<Longrightarrow> s_fills s' = s_fills s"
    and "\<And>i. g i \<Longrightarrow> findById (s_repo s) iid = Some i \<Longrightarrow> snd (mutate (s_repo s) iid ev g p) = MR_intent (stamped iid p i)
           \<Longrightarrow> row_fine (s_fills s) iid i \<Longrightarrow> row_fine (s_fills s') iid (stamped iid p i)"
  shows "ledger_inv s'"
proof (cases "written (snd (mutate (s_repo s) iid ev g p))")
  case None
  then have "fst (mutate (s_repo s) iid ev g p) = s_repo s" by (intro mutate_lost) auto
  then have "s_repo s' = s_repo s" using assms(2) by simp
  with None assms(1,5) show ?thesis by (simp add: ledger_inv_def)
next
  case (Some u)
  then obtain i where i: "findById (s_repo s) iid = Some i" "g i" "u = stamped iid p i" "version_guard (ev, g) i"
    by (auto simp: mutate_intent version_guard_def)
  have "row_fine (s_fills s') iid u"
    using assms(6)[OF i(2,1)] Some i(1,3) assms(1) by (auto simp: ledger_inv_def)
  moreover have "findById (s_repo s') k = (if k = iid then Some u else findById (s_repo s) k)" for k
    using assms(2) i by (simp add: findById_mutate)
  moreover have "row_fine (s_fills s') k x = row_fine (s_fills s) k x" if "k \<noteq> iid" for k x
    using assms(4)[OF that] by (simp add: row_fine_def)
  moreover have "repo_ok (s_repo s')" using assms(1,2) by (simp add: ledger_inv_def mutate_ok)
  ultimately show ?thesis using assms(1,3,4) by (auto simp: ledger_inv_def split: if_splits)
qed

text \<open>A guarded write off \<open>slashed\<close> rows that adds no row and stays on the settled side.\<close>

lemma ledger_move:
  assumes "ledger_inv s" and "s_repo s' = fst (mutate (s_repo s) iid ev g p)" and "s_fills s' = s_fills s"
    and "\<And>i. g i \<Longrightarrow> i_state i \<noteq> St_slashed"
    and "\<And>i. g i \<Longrightarrow> i_state i \<in> {St_filled, St_pending_filled} \<Longrightarrow> i_state (p i) \<in> {St_filled, St_pending_filled}"
  shows "ledger_inv s'"
  by (rule ledger_write[OF assms(1,2)]) (use assms in \<open>auto simp: ledger_inv_def row_fine_def\<close>)

lemma withFillRecord_fills:
  "s_fills (fst (withFillRecord env oc now f s)) =
     (case written (snd (f (s_repo s))) of None \<Rightarrow> s_fills s
      | Some i \<Rightarrow> if e_fillLedger env \<and> truthy (i_solver i) then record_fill (s_fills s) (buildFillRecord env i oc now) else s_fills s)"
  by (cases "f (s_repo s)") (simp add: withFillRecord_def Let_def split: mutation_result.splits)

lemma recorded_write:
  assumes inv: "ledger_inv s" and "e_fillLedger env" and "oc \<noteq> FO_reversed"
    and "\<And>i. g i \<Longrightarrow> i_state i = St_accepted"
    and "\<And>i. i_state (p i) = (if oc = FO_filled then St_filled else St_slashed)"
    and "s_repo s' = fst (mutate (s_repo s) iid ev g p)"
    and "s_fills s' = s_fills (fst (withFillRecord env oc now (\<lambda>r. mutate r iid ev g p) s))"
  shows "ledger_inv s'"
proof (rule ledger_write[OF inv assms(6)])
  have lok: "ledger_ok (s_fills s)" using inv by (simp add: ledger_inv_def)
  show "ledger_ok (s_fills s')"
    using lok assms(7) by (simp add: withFillRecord_fills record_fill_ok split: option.splits)
  show "has_row (s_fills s') k oc' = has_row (s_fills s) k oc'" if "k \<noteq> iid" for k oc'
  proof (cases "written (snd (mutate (s_repo s) iid ev g p))")
    case None
    then show ?thesis using assms(7) by (simp add: withFillRecord_fills)
  next
    case (Some u)
    then have "i_intentId u = iid" using mutate_intent[of "s_repo s" iid ev g p u] by auto
    then show ?thesis using Some assms(7) that by (simp add: withFillRecord_fills has_row_record[OF lok])
  qed
  show "s_fills s' = s_fills s" if "written (snd (mutate (s_repo s) iid ev g p)) = None"
    using assms(7) that by (simp add: withFillRecord_fills)
  show "row_fine (s_fills s') iid (stamped iid p i)"
    if "g i" "findById (s_repo s) iid = Some i" "snd (mutate (s_repo s) iid ev g p) = MR_intent (stamped iid p i)"
      "row_fine (s_fills s) iid i" for i
    using that assms(2-5,7) by (cases oc) (auto simp: withFillRecord_fills has_row_record[OF lok] row_fine_def)
qed

lemma park_ledger:
  assumes "ledger_inv s"
  shows "ledger_inv (fst (transitionToOnChainPending now iid op h ctx s))"
proof (cases "findById (s_repo s) iid")
  case (Some i)
  show ?thesis
  proof (cases "transition now (i_intentId i) (i_state i) (PENDING_STATE_BY_OP op) (with_ctx ''system'' None ctx)")
    case (Inr plan)
    have e: "i_state i \<noteq> St_slashed"
      "i_state i \<in> {St_filled, St_pending_filled} \<Longrightarrow> PENDING_STATE_BY_OP op \<in> {St_filled, St_pending_filled}"
      using transition_edge[OF Inr] by (cases "i_state i"; cases op; simp)+
    let ?p = "\<lambda>i. i\<lparr> i_pendingOp := Some op, i_pendingTxHash := h, i_state := PENDING_STATE_BY_OP op \<rparr>"
    show ?thesis
      by (rule ledger_move[OF assms, where iid = iid and ev = None and g = "\<lambda>x. i_state x = i_state i" and p = ?p])
         (use Some Inr e plan_entry(2,3)[OF Inr] in
           \<open>auto simp: transitionToOnChainPending_def transitionIf_def unfold_call\<close>)
  qed (simp add: transitionToOnChainPending_def Some assms)
qed (simp add: transitionToOnChainPending_def assms)

lemma broadcast_ledger: "ledger_inv s \<Longrightarrow> ledger_inv (fst (parkWithBroadcast env now i op s))"
  using park_ledger[of s now "i_intentId i" op]
  by (simp add: parkWithBroadcast_def Let_def case_prod_unfold split: sum.splits)

lemma ledger_cong: "s_repo s' = s_repo s \<Longrightarrow> s_fills s' = s_fills s \<Longrightarrow> ledger_inv s' \<longleftrightarrow> ledger_inv s"
  by (simp add: ledger_inv_def)

lemma ledger_frames [simp]:
  "ledger_inv (changed s) = ledger_inv s" "ledger_inv (scheduleFillWindow u s) = ledger_inv s"
  "ledger_inv (reportShadow t i c m s) = ledger_inv s" "ledger_inv (countTransition a b s) = ledger_inv s"
  "ledger_inv (observe_subject env kd m iid w x s) = ledger_inv s"
  by (rule ledger_cong; simp)+

text \<open>The state changes that add no row, before any parking.\<close>

lemma commit_ledger:
  assumes "ledger_inv s" and "\<And>i. g i \<Longrightarrow> i_state i \<in> {St_open, St_accepted}"
  shows "ledger_inv (commit_plan plan ex (fst (mutate (s_repo s) iid ev g p)) w s)"
  by (rule ledger_move[OF assms(1), where iid = iid and ev = ev and g = g and p = p]) (use assms(2) in \<open>force+\<close>)

lemma live_write:
  assumes "ledger_inv s" and "\<And>i. g i \<Longrightarrow> i_state i \<in> {St_open, St_accepted}"
  shows "ledger_inv (s\<lparr> s_repo := fst (mutate (s_repo s) iid ev g p) \<rparr>)"
  by (rule ledger_move[OF assms(1), where iid = iid and ev = ev and g = g and p = p]) (use assms(2) in \<open>force+\<close>)

lemma accept_ledger: "ledger_inv s \<Longrightarrow> ledger_inv (fst (svc_acceptIfOpen env iid solver now ctx s))"
  using commit_ledger[of s "\<lambda>i. i_state i = St_open \<and> i_deadline i > now"]
  by (auto simp: svc_acceptIfOpen_def acceptIfOpen_def unfold_call broadcast_ledger split: option.splits sum.splits)

lemma cancel_ledger: "ledger_inv s \<Longrightarrow> ledger_inv (fst (svc_cancelIfOpen env now iid ctx s))"
  using commit_ledger[of s "\<lambda>i. i_state i = St_open"]
  by (auto simp: svc_cancelIfOpen_def cancelIfOpen_def unfold_call broadcast_ledger split: option.splits sum.splits)

lemma expire_ledger: "ledger_inv s \<Longrightarrow> ledger_inv (fst (svc_expireIfOpen env now iid ctx s))"
  using commit_ledger[of s "\<lambda>i. i_state i = St_open"]
  by (auto simp: svc_expireIfOpen_def expireIfOpen_def unfold_call split: sum.splits)

lemma fill_ledger:
  assumes "ledger_inv s" and "e_fillLedger env"
  shows "ledger_inv (fst (svc_fillIfAccepted env iid solver patch now ctx s))"
proof -
  let ?g = "\<lambda>i. i_state i = St_accepted \<and> i_solver i = Some solver \<and> i_deadline i > now"
  let ?p = "\<lambda>i. (apply_fill_patch patch i)\<lparr> i_state := St_filled \<rparr>"
  have r: "ledger_inv (commit_plan plan ex (fst (mutate (s_repo s) iid None ?g ?p)) w
      (fst (withFillRecord env FO_filled now (\<lambda>r. mutate r iid None ?g ?p) s)))" for plan ex w
    by (rule recorded_write[OF assms, of FO_filled ?g ?p]) auto
  show ?thesis
    using assms r by (auto simp: svc_fillIfAccepted_def fillIfAccepted_def unfold_call broadcast_ledger
        withFillRecord_frames split: option.splits sum.splits)
qed

lemma slash_ledger:
  assumes "ledger_inv s" and "e_fillLedger env"
  shows "ledger_inv (fst (svc_slashIfAccepted env now iid t rsn ctx s))"
proof -
  let ?g = "\<lambda>i. i_state i = St_accepted"
  let ?p = "\<lambda>i. i\<lparr> i_slashedAt := Some t, i_slashReason := Some rsn, i_state := St_slashed \<rparr>"
  have r: "ledger_inv (commit_plan plan ex (fst (mutate (s_repo s) iid None ?g ?p)) w
      (fst (withFillRecord env FO_failed t (\<lambda>r. mutate r iid None ?g ?p) s)))" for plan ex w
    by (rule recorded_write[OF assms, of FO_failed ?g ?p]) auto
  show ?thesis
    using assms r by (auto simp: svc_slashIfAccepted_def slashIfAccepted_def unfold_call
        withFillRecord_frames split: sum.splits)
qed

lemma confirm_ledger: "ledger_inv s \<Longrightarrow> ledger_inv (fst (confirmIntent now iid ctx s))"
proof (cases "findById (s_repo s) iid")
  case (Some i)
  assume inv: "ledger_inv s"
  show ?thesis
  proof (cases "CONFIRMED_STATE_BY_PENDING (i_state i)")
    case c: (Some st')
    have e: "i_state i \<noteq> St_slashed" "i_state i \<in> {St_filled, St_pending_filled} \<Longrightarrow> st' \<in> {St_filled, St_pending_filled}"
      using c by (cases "i_state i"; simp)+
    let ?p = "\<lambda>i. i\<lparr> i_pendingTxHash := None, i_pendingOp := None, i_state := st' \<rparr>"
    have "ledger_inv (commit_plan plan ex (fst (mutate (s_repo s) iid None (\<lambda>x. i_state x = i_state i) ?p)) w s)" for plan ex w
      by (rule ledger_move[OF inv, where g = "\<lambda>x. i_state x = i_state i" and p = ?p]) (use e in auto)
    then show ?thesis
      using inv by (auto simp: confirmIntent_def Some c transitionIf_def unfold_call plan_entry split: sum.splits)
  qed (simp add: confirmIntent_def Some inv)
qed (simp add: confirmIntent_def)

text \<open>Leaving \<open>slashed\<close>: the rows of the reversal make the new state fine.\<close>

lemma reversal_write:
  assumes inv: "ledger_inv s" and fl: "e_fillLedger env"
    and cur: "findById (s_repo s) iid = Some cur" "i_state cur = St_slashed"
    and st: "st' \<in> {St_filled, St_expired}" and p: "\<And>i. i_state (p i) = st'" "\<And>i. i_solver (p i) = i_solver i"
    and g: "\<And>i. g i \<Longrightarrow> i_state i = St_slashed"
    and won: "written (snd (mutate (s_repo s) iid ev g p)) = Some u"
    and s': "s_repo s' = fst (mutate (s_repo s) iid ev g p)" "s_fills s' = s_fills (reverse_rows env cur u st' now s)"
  shows "ledger_inv s'"
proof -
  have lok: "ledger_ok (s_fills s)" using inv by (simp add: ledger_inv_def)
  have u: "i_intentId u = iid" "i_intentId cur = iid"
    using won inv cur by (auto simp: mutate_intent ledger_inv_def repo_ok_def)
  have rows: "has_row (s_fills s') k oc \<longleftrightarrow> has_row (s_fills s) k oc
      \<or> (truthy (i_solver cur) \<and> k = iid \<and> (oc = FO_reversed \<or> oc = FO_filled \<and> st' = St_filled))" for k oc
    using s'(2) fl u by (auto simp: reverse_rows_def Let_def has_row_record[OF lok] has_row_record[OF record_fill_ok[OF lok]])
  have ok': "ledger_ok (s_fills s')"
    using s'(2) lok by (auto simp: reverse_rows_def Let_def record_fill_ok)
  show ?thesis
  proof (rule ledger_write[OF inv s'(1) ok'])
    show "row_fine (s_fills s') iid (stamped iid p i)"
      if "findById (s_repo s) iid = Some i" "row_fine (s_fills s) iid i" for i
      using that cur st p by (auto simp: row_fine_def rows)
  qed (use won rows in auto)
qed

lemma compensate_ledger:
  assumes "ledger_inv s" and "e_fillLedger env"
  shows "ledger_inv (fst (compensateSlash env now iid st' c h t s))"
proof (cases "findById (s_repo s) iid")
  case (Some i)
  show ?thesis
  proof (cases "i_state i = St_slashed")
    case True
    show ?thesis
    proof (cases "transition now (i_intentId i) St_slashed st' (c\<lparr> c_override := Some True \<rparr>)")
      case (Inr plan)
      have st: "st' \<in> {St_filled, St_expired}" using transition_edge[OF Inr] by simp
      let ?p = "\<lambda>i. i\<lparr> i_txHash := coalesce h (i_txHash i), i_state := st' \<rparr>"
      let ?m = "mutate (s_repo s) iid None (\<lambda>i. i_state i = St_slashed) ?p"
      have "ledger_inv (commit_plan plan [] (fst ?m) (Some u) (reverse_rows env i u st' t s))" if "snd ?m = MR_intent u" for u
        by (rule reversal_write[OF assms Some True st, where p = ?p and g = "\<lambda>i. i_state i = St_slashed"]) (use that in auto)
      moreover have "ledger_inv (commit_plan plan [] (fst ?m) None s)" if "written (snd ?m) = None"
      proof -
        have "fst ?m = s_repo s" using that by (intro mutate_lost) auto
        then show ?thesis using assms(1) by (simp add: commit_plan_def)
      qed
      ultimately show ?thesis
        using Some True Inr by (auto simp: compensateSlash_def transitionIf_def unfold_call split: option.splits)
    qed (use Some True assms in \<open>auto simp: compensateSlash_def\<close>)
  qed (simp add: compensateSlash_def Some assms)
qed (simp add: compensateSlash_def assms)

lemma settle_slash_ledger:
  assumes "ledger_inv s" and "e_fillLedger env" and "st' \<in> {St_filled, St_expired}"
  shows "ledger_inv (fst (settleCancelledSlash env iid st' h t s))"
proof (cases "\<exists>i. findById (s_repo s) iid = Some i \<and> i_state i = St_slashed")
  case True
  then obtain i where i: "findById (s_repo s) iid = Some i" "i_state i = St_slashed" by blast
  let ?p = "if st' = St_filled then (\<lambda>i. i\<lparr> i_state := St_filled, i_txHash := h \<rparr>) else (\<lambda>i. i\<lparr> i_state := St_expired \<rparr>)"
  let ?m = "mutate (s_repo s) iid None (\<lambda>_. True) ?p"
  have won: "snd ?m = MR_intent (stamped iid ?p i)" using i by (simp add: mutate_intent)
  let ?g = "\<lambda>j. j = i"
  have same: "mutate (s_repo s) iid None ?g ?p = ?m"
    using i(1) by (simp add: mutate_def findById_def)
  have "ledger_inv (changed (reverse_rows env i (stamped iid ?p i) st' t (s\<lparr> s_repo := fst ?m \<rparr>)))"
    by (rule reversal_write[OF assms(1,2) i assms(3), where p = ?p and g = ?g and ev = None])
       (use assms(3) i won same in \<open>auto simp: reverse_rows_def Let_def recordFill_def\<close>)
  then show ?thesis
    using i won by (simp add: settleCancelledSlash_def update_def unfold_call)
qed (use assms in \<open>auto simp: settleCancelledSlash_def split: option.splits\<close>)

lemma partial_ledger: "ledger_inv s \<Longrightarrow> ledger_inv (fst (settlePartialFill iid solver patch now s))"
proof -
  assume inv: "ledger_inv s"
  have a: "ledger_inv (x\<lparr> s_repo := fst (acceptIfOpen (s_repo x) iid solver dl now None) \<rparr>)" if "ledger_inv x" for x dl
    unfolding acceptIfOpen_def by (rule live_write[OF that]) auto
  have f: "ledger_inv (x\<lparr> s_repo := fst (fillIfAccepted (s_repo x) iid solver patch now None) \<rparr>)" if "ledger_inv x" for x
    unfolding fillIfAccepted_def by (rule live_write[OF that]) auto
  let ?x = "\<lambda>dl. countTransition ''open'' ''accepted'' (s\<lparr> s_repo := fst (acceptIfOpen (s_repo s) iid solver dl now None) \<rparr>)"
  have "ledger_inv (?x dl)" for dl using a[OF inv] by simp
  from f[OF this] show ?thesis
    using inv a[OF inv] by (auto simp: settlePartialFill_def unfold_call split: option.splits)
qed

lemma create_ledger:
  assumes "ledger_inv s" and "findById (s_repo s) uuid = None" and "0 \<le> row_version data"
  shows "ledger_inv (fst (persistNewIntent env now uuid data dl s))"
proof -
  obtain s' r where p: "persistNewIntent env now uuid data dl s = (s', r)" by fastforce
  then show ?thesis
  proof (cases rule: persist_cases)
    case (ok i)
    have "findById (s_repo s') k = (if k = uuid then Some i else findById (s_repo s) k)" for k
      using ok(2,5) by (simp add: save_def findById_def)
    moreover have "repo_ok (s_repo s')"
      using ok assms save_ok[of "s_repo s" i] by (simp add: ledger_inv_def row_version_def)
    ultimately show ?thesis using assms ok(4) p by (auto simp: ledger_inv_def row_fine_def)
  qed (use p assms in simp)
qed

text \<open>Every call of the service that changes intents, the two that bypass the planner included.\<close>

inductive any_step :: "svc \<Rightarrow> svc \<Rightarrow> bool" where
  as_step: "svc_step True s s' \<Longrightarrow> any_step s s'"
| as_partial: "any_step s (fst (settlePartialFill iid solver patch now s))"
| as_settle: "e_fillLedger env \<Longrightarrow> st' \<in> {St_filled, St_expired} \<Longrightarrow> any_step s (fst (settleCancelledSlash env iid st' h t s))"

lemma svc_step_ledger: "svc_step True s s' \<Longrightarrow> ledger_inv s \<Longrightarrow> ledger_inv s'"
proof (induction rule: svc_step.induct)
  case (ss_amend s iid minDst dl now)
  have r: "repo_ok (fst (amendIfOpen (s_repo s) iid minDst dl now))" using ss_amend amend_ok by (auto simp: ledger_inv_def)
  have "row_fine (s_fills s) k (x\<lparr> i_minDstAmount := minDst, i_deadline := dl \<rparr>) = row_fine (s_fills s) k x" for k x
    by (simp add: row_fine_def)
  with ss_amend r show ?case
    by (auto simp: svc_amendIfOpen_def unfold_call ledger_inv_def)
       (auto simp: amendIfOpen_def findById_def Let_def split: option.splits if_splits)
next
  case (ss_extend s iid dl)
  have "ledger_inv (s\<lparr> s_repo := fst (extendDeadlineIfAccepted (s_repo s) iid dl None) \<rparr>)"
    unfolding extendDeadlineIfAccepted_def by (rule live_write[OF ss_extend]) auto
  then show ?case by (auto simp: svc_extendDeadlineIfAccepted_def unfold_call split: option.splits)
qed (simp_all add: create_ledger accept_ledger fill_ledger cancel_ledger expire_ledger slash_ledger park_ledger
      confirm_ledger compensate_ledger)

interpretation ledger_runs: inv_system any_step ledger_inv
proof
  show "ledger_inv s'" if "any_step s s'" "ledger_inv s" for s s'
    using that by (induction rule: any_step.induct) (auto simp: svc_step_ledger partial_ledger settle_slash_ledger)
qed

text \<open>C25. No solver is both credited and blamed for one intent: with the fill ledger wired, after any
sequence of service calls, an intent with a \<open>filled\<close> row is filled (or its fill awaits
confirmation), an intent with a \<open>failed\<close> row that has not been reversed is slashed, and so no
intent has a \<open>filled\<close> row together with an unreversed \<open>failed\<close> row; each outcome is recorded at
most once per intent.\<close>

theorem ledger_never_credits_and_blames:
  assumes "any_step\<^sup>*\<^sup>* emptySvc s"
  shows "(has_row (s_fills s) k FO_filled \<longrightarrow>
            (\<exists>i. findById (s_repo s) k = Some i \<and> i_state i \<in> {St_filled, St_pending_filled}))
       \<and> (has_row (s_fills s) k FO_failed \<and> \<not> has_row (s_fills s) k FO_reversed \<longrightarrow>
            (\<exists>i. findById (s_repo s) k = Some i \<and> i_state i = St_slashed))
       \<and> \<not> (has_row (s_fills s) k FO_filled \<and> has_row (s_fills s) k FO_failed \<and> \<not> has_row (s_fills s) k FO_reversed)
       \<and> distinct (map (\<lambda>r. (sf_intentId r, sf_outcome r)) (fl_rows (s_fills s)))"
proof -
  have "ledger_inv emptySvc"
    by (simp add: ledger_inv_def emptySvc_def repo_ok_def emptyRepo_def findById_def ledger_ok_def has_row_def)
  then have inv: "ledger_inv s" by (rule ledger_runs.run_inv[OF assms])
  have "distinct (map fill_key (fl_rows (s_fills s)))" using inv by (auto simp: ledger_inv_def ledger_ok_def)
  then have "distinct (map (\<lambda>r. (sf_intentId r, sf_outcome r)) (fl_rows (s_fills s)))"
    by (auto simp: distinct_map inj_on_def fill_key_inject)
  moreover have "\<exists>i. findById (s_repo s) k = Some i \<and> row_fine (s_fills s) k i" if "has_row (s_fills s) k oc" for oc
    using inv that by (cases "findById (s_repo s) k") (auto simp: ledger_inv_def)
  ultimately show ?thesis by (fastforce simp: row_fine_def)
qed

definition slashed_svc :: svc where
  "slashed_svc = fst (svc_slashIfAccepted sample_env 700000 ''i1'' 700 ''missed'' no_ctx accepted_svc)"

theorem ledger_never_credits_and_blames_witness:
  "has_row (s_fills slashed_svc) ''i1'' FO_failed \<and> \<not> has_row (s_fills slashed_svc) ''i1'' FO_filled
   \<and> (\<exists>i. findById (s_repo slashed_svc) ''i1'' = Some i \<and> i_state i = St_slashed)"
proof -
  have run: "any_step\<^sup>*\<^sup>* emptySvc slashed_svc"
  proof -
    have "any_step\<^sup>*\<^sup>* emptySvc accepted_svc"
      using accepted_run[of True] by (rule mono_rtranclp[rule_format, rotated]) (rule as_step)
    moreover have "any_step accepted_svc slashed_svc"
      unfolding slashed_svc_def by (intro as_step ss_slash) (simp add: sample_env_def)
    ultimately show ?thesis by simp
  qed
  have rows: "has_row (s_fills slashed_svc) ''i1'' FO_failed \<and> \<not> has_row (s_fills slashed_svc) ''i1'' FO_reversed"
  proof -
    obtain i where i: "findById (s_repo accepted_svc) ''i1'' = Some i" "i_state i = St_accepted" "i_solver i = Some ''GS''"
      using accepted_row by blast
    have "\<exists>u. snd (slashIfAccepted (s_repo accepted_svc) ''i1'' 700 ''missed'' None) = MR_intent u
        \<and> i_intentId u = ''i1'' \<and> i_solver u = Some ''GS''"
      using i by (auto simp: slashIfAccepted_def mutate_intent stamped_def)
    moreover have "\<exists>plan. transition 700000 ''i1'' St_accepted St_slashed (with_ctx ''system'' (Some ''missed'') no_ctx) = Inr plan"
      by (simp add: transition_def findRule_find table_simps requiresOverride_def)
    ultimately obtain u where "i_intentId u = ''i1''"
      "s_fills slashed_svc = record_fill (s_fills accepted_svc) (buildFillRecord sample_env u FO_failed 700)"
      by (auto simp: slashed_svc_def svc_slashIfAccepted_def unfold_call withFillRecord_fills sample_env_def truthy_def)
    then show ?thesis by (simp add: accepted_fills has_row_def record_fill_def)
  qed
  with ledger_never_credits_and_blames[OF run, of "''i1''"] show ?thesis by blast
qed

section \<open>Parking and confirming\<close>

text \<open>Parking an intent for its own operation and confirming it brings it back: for an intent that
is open, accepted, filled or cancelled and parked for create, accept, fill or cancel respectively,
the park and the confirmation both succeed, the intermediate row is in the matching pending state
and carries the operation and transaction hash, and the final row is the original one with two
more versions and no pending marker.\<close>

theorem park_then_confirm:
  assumes "repo_ok (s_repo s)" and "findById (s_repo s) iid = Some i"
    and "(op, i_state i) \<in> {(Op_create, St_open), (Op_accept, St_accepted), (Op_fill, St_filled), (Op_cancel, St_cancelled)}"
  shows "\<exists>s1 u s2. transitionToOnChainPending t1 iid op h ctx1 s = (s1, Inr (Some u))
      \<and> i_state u = PENDING_STATE_BY_OP op \<and> i_pendingOp u = Some op \<and> i_pendingTxHash u = h
      \<and> confirmIntent t2 iid ctx2 s1 = (s2, Inr (Some (i\<lparr> i_version := Some (row_version i + 2), i_pendingOp := None, i_pendingTxHash := None \<rparr>)))
      \<and> findById (s_repo s2) iid = Some (i\<lparr> i_version := Some (row_version i + 2), i_pendingOp := None, i_pendingTxHash := None \<rparr>)"
proof -
  have iid: "i_intentId i = iid" using assms(1,2) by (simp add: repo_ok_def)
  define u where "u = i\<lparr> i_pendingOp := Some op, i_pendingTxHash := h, i_state := PENDING_STATE_BY_OP op,
      i_version := Some (row_version i + 1) \<rparr>"
  have ok: "\<exists>plan. transition t k st st' c = Inr plan \<and> p_from plan = st \<and> p_to plan = st'"
    if te: "table_edge st st'" and ns: "st \<noteq> St_slashed" for t k st st' c
  proof -
    obtain r where r: "findRule st st' = Some r" using te unfolding table_edge_def by blast
    have "\<not> requiresOverride r" using r ns by (auto simp: findRule_Some table_simps requiresOverride_def)
    then show ?thesis using r by (auto simp: transition_Inr)
  qed
  have e: "table_edge (i_state i) (PENDING_STATE_BY_OP op)" "table_edge (PENDING_STATE_BY_OP op) (i_state i)"
    "i_state i \<noteq> St_slashed" "PENDING_STATE_BY_OP op \<noteq> St_slashed"
    "CONFIRMED_STATE_BY_PENDING (PENDING_STATE_BY_OP op) = Some (i_state i)"
    using assms(3) by auto
  obtain plan1 where p1: "transition t1 iid (i_state i) (PENDING_STATE_BY_OP op) (with_ctx ''system'' None ctx1) = Inr plan1"
    "p_from plan1 = i_state i" "p_to plan1 = PENDING_STATE_BY_OP op" using ok[OF e(1,3)] by blast
  have t1: "\<exists>s1. transitionToOnChainPending t1 iid op h ctx1 s = (s1, Inr (Some u)) \<and> findById (s_repo s1) iid = Some u"
    using assms(2) p1 iid
    by (simp add: transitionToOnChainPending_def transitionIf_def mutate_def findById_def u_def row_version_def Let_def)
  then obtain s1 where s1: "transitionToOnChainPending t1 iid op h ctx1 s = (s1, Inr (Some u))" "findById (s_repo s1) iid = Some u"
    by blast
  have u: "i_state u = PENDING_STATE_BY_OP op" "i_intentId u = iid" "coalesce (i_version u) 0 = row_version i + 1"
    using iid by (simp_all add: u_def)
  obtain plan2 where p2: "transition t2 iid (PENDING_STATE_BY_OP op) (i_state i) (with_ctx ''system'' None ctx2) = Inr plan2"
    "p_from plan2 = PENDING_STATE_BY_OP op" using ok[OF e(2,4)] by blast
  define w where "w = i\<lparr> i_version := Some (row_version i + 2), i_pendingOp := None, i_pendingTxHash := None \<rparr>"
  have w: "u\<lparr> i_pendingTxHash := None, i_pendingOp := None, i_state := i_state i, i_intentId := iid, i_version := Some (row_version i + 1 + 1) \<rparr> = w"
    using iid by (simp add: u_def w_def)
  have "\<exists>s2. confirmIntent t2 iid ctx2 s1 = (s2, Inr (Some w)) \<and> findById (s_repo s2) iid = Some w"
    using s1(2) p2 u e(5) w
    by (simp add: confirmIntent_def transitionIf_def mutate_def findById_def Let_def)
  moreover have "i_pendingOp u = Some op" "i_pendingTxHash u = h" by (simp_all add: u_def)
  ultimately show ?thesis using s1(1) u(1) unfolding w_def by blast
qed

theorem park_then_confirm_witness:
  "\<exists>s1 u s2 w. transitionToOnChainPending 21000 ''i1'' Op_accept (Some ''h'') no_ctx accepted_svc = (s1, Inr (Some u))
     \<and> i_state u = St_pending_accepted \<and> confirmIntent 30000 ''i1'' no_ctx s1 = (s2, Inr (Some w)) \<and> i_state w = St_accepted"
proof -
  obtain i where i: "findById (s_repo accepted_svc) ''i1'' = Some i" "i_state i = St_accepted" using accepted_row by blast
  have "repo_ok (s_repo accepted_svc)"
    using service_runs.run_inv[OF accepted_run emptySvc_ok] by (simp add: audit_ok_def)
  from park_then_confirm[OF this i(1), of Op_accept 21000 "Some ''h''" no_ctx 30000 no_ctx] i(2)
  show ?thesis by fastforce
qed

section \<open>Optimistic retry\<close>

text \<open>The retry loop reports a version conflict only when it was disturbed every time: for a
callback that writes against the version it just read, if in at least one of the permitted
attempts no other write slips in between the read and the write, the loop does not end in a
conflict.\<close>

theorem retry_conflicts_only_when_disturbed:
  assumes "\<And>cur. cb cur = Some (\<lambda>r. mutate r iid (Some (row_version cur)) (g cur) (p cur))"
    and "j < maxAttempts" and "others j = (\<lambda>r. r)"
  shows "\<not> isVersionConflict (snd (mutateWithRetry iid cb others maxAttempts s))"
proof -
  have "\<not> isVersionConflict (snd (retry_loop iid cb others a n l s))" if "a \<le> j" "j < a + n" for a n l s
    using that
  proof (induction n arbitrary: a l s)
    case (Suc n)
    show ?case
    proof (cases "findById (s_repo s) iid")
      case (Some cur)
      let ?m = "mutate (others a (s_repo s)) iid (Some (row_version cur)) (g cur) (p cur)"
      show ?thesis
      proof (cases "isVersionConflict (snd ?m)")
        case True
        have "a \<noteq> j"
          using True Some assms(3)
          by (auto simp: mutate_def findById_def row_version_def isVersionConflict_def Let_def split: if_splits)
        then show ?thesis
          using Suc.prems True Suc.IH[of "Suc a"] by (simp add: Some assms(1) unfold_call)
      qed (simp add: Some assms(1) unfold_call)
    qed (simp add: isVersionConflict_def)
  qed simp
  then show ?thesis using assms(2) by (simp add: mutateWithRetry_def)
qed

theorem retry_conflicts_only_when_disturbed_witness:
  "\<not> isVersionConflict (snd (mutateWithRetry ''i1''
      (\<lambda>cur. Some (\<lambda>r. mutate r ''i1'' (Some (row_version cur)) (\<lambda>_. True) (\<lambda>i. i\<lparr> i_quotedDstAmount := Some ''5'' \<rparr>)))
      (\<lambda>n r. if n = 0 then fst (cancelIfOpen r ''i1'' None) else r) 3 created_svc))"
  by (rule retry_conflicts_only_when_disturbed[where j = 1]) auto

end
