(* ===== verification/Intents_Creation.thy ===== *)
theory Intents_Creation
  imports Intents_Service_Props
begin

text \<open>
  Properties of the creation and retention paths of the intent service: replay of an
  idempotency key, the all-or-nothing batch with the per-user cap, and eviction of settled
  intents from the in-memory store.
\<close>

section \<open>Idempotency keys\<close>

text \<open>A completed creation under an idempotency key is replayed: after a first creation under the
key, for the rest of the 24-hour window and as long as the intent is still stored, every further
creation under that key returns the stored intent as it then is and changes nothing at all, so no
second row, job, metric or chain registration results.\<close>

theorem create_replays_key:
  assumes "create env now uuid data dl (Some k) s = (s1, Inr i)" and "k \<noteq> []" and "map_of (s_idem s) k = None"
    and "s_idem s2 = s_idem s1" and "findById (s_repo s2) (i_intentId i) = Some i2"
    and "now' < now + IDEMPOTENCY_TTL_SECONDS"
  shows "i_intentId i = uuid \<and> create env' now' uuid' data' dl' (Some k) s2 = (s2, Inr i2)"
proof -
  obtain s0 r where p: "persistNewIntent env now uuid data dl s = (s0, r)" by fastforce
  with assms(1-3) have r: "r = Inr i" and s1: "s1 = s0\<lparr> s_idem := AList.update k (i_intentId i, now + IDEMPOTENCY_TTL_SECONDS) (s_idem s0) \<rparr>"
    by (auto simp: create_def truthy_def split: sum.splits)
  have "i_intentId i = uuid" using p r by (cases rule: persist_cases) auto
  moreover have "map_of (s_idem s2) k = Some (i_intentId i, now + IDEMPOTENCY_TTL_SECONDS)"
    using assms(4) s1 by simp
  ultimately show ?thesis using assms(2,5,6) by (simp add: create_def truthy_def)
qed

theorem create_replays_key_witness:
  "\<exists>s1 i. create sample_env 10 ''i1'' (sample_intent [] ''GA'' 100) (Some 100) (Some ''key'') emptySvc = (s1, Inr i)
     \<and> create sample_env 500 ''i2'' (sample_intent [] ''GB'' 900) None (Some ''key'') s1 = (s1, Inr i)"
proof -
  obtain s1 i where c: "create sample_env 10 ''i1'' (sample_intent [] ''GA'' 100) (Some 100) (Some ''key'') emptySvc = (s1, Inr i)"
      "findById (s_repo s1) (i_intentId i) = Some i"
    by (simp add: create_def truthy_def emptySvc_def persistNewIntent_def sample_env_def isOnchainWrite_def unfold_call
        new_intent_def initialSrcVerification_def save_def emptyRepo_def findById_def scheduleExpire_def changed_def
        countTransition_def)
  have "s_idem emptySvc = []" by (simp add: emptySvc_def)
  then show ?thesis
    using create_replays_key[OF c(1) _ _ refl c(2), of 500 sample_env "''i2''" "sample_intent [] ''GB'' 900" None] c(1)
    by (auto simp: IDEMPOTENCY_TTL_SECONDS_def)
qed

section \<open>The batch endpoint\<close>

definition live_states :: "intent_state set" where
  "live_states = {St_open, St_accepted, St_pending_open, St_pending_accepted}"

definition live_count :: "intents_repo \<Rightarrow> string \<Rightarrow> nat" where
  "live_count r u = length (filter (\<lambda>i. toLowerCase (i_user i) = u \<and> i_state i \<in> live_states) (js_values (store r)))"

lemma length_filter_findAll: "length (filter P (findAll r)) = length (filter P (js_values (store r)))"
  by (metis mset_filter mset_findAll size_mset)

lemma countOpen_live: "countOpenByUser r user = live_count r (toLowerCase user)"
proof -
  have "countOpenByUser r user
      = length (filter (\<lambda>i. toLowerCase (i_user i) = toLowerCase user \<and> i_state i \<in> live_states) (findAll r))"
    unfolding countOpenByUser_def findByUser_def filter_filter live_states_def
    by (rule arg_cong[where f = length], rule filter_cong) auto
  then show ?thesis by (simp only: length_filter_findAll live_count_def)
qed

definition occurrences :: "string \<Rightarrow> intent list \<Rightarrow> nat" where
  "occurrences u items = length (filter (\<lambda>x. toLowerCase (i_user x) = u) items)"

text \<open>The running count of a user as the validation loop sees it.\<close>

definition seen_count :: "intents_repo \<Rightarrow> (string, nat) jsmap \<Rightarrow> string \<Rightarrow> nat" where
  "seen_count r counts u = coalesce (map_of counts u) (live_count r u)"

lemma batch_check_cap:
  "batch_check r n items counts = [] \<Longrightarrow> 0 < occurrences u items \<Longrightarrow>
     u \<noteq> [] \<and> seen_count r counts u + occurrences u items \<le> MAX_OPEN_INTENTS_PER_USER"
proof (induction items arbitrary: n counts)
  case (Cons item items)
  let ?w = "toLowerCase (i_user item)"
  let ?c = "case map_of counts ?w of None \<Rightarrow> AList.update ?w (countOpenByUser r (i_user item)) counts | Some _ \<Rightarrow> counts"
  have cur: "the (map_of ?c ?w) = seen_count r counts ?w"
    by (simp add: seen_count_def countOpen_live split: option.splits)
  have w: "?w \<noteq> []" "seen_count r counts ?w + 1 \<le> MAX_OPEN_INTENTS_PER_USER"
    and rest: "batch_check r (n + 1) items (AList.update ?w (seen_count r counts ?w + 1) ?c) = []"
    using Cons.prems(1) cur by (auto simp: Let_def split: if_splits)
  have seen: "seen_count r (AList.update ?w (seen_count r counts ?w + 1) ?c) u
      = (if u = ?w then seen_count r counts ?w + 1 else seen_count r counts u)"
    by (auto simp: seen_count_def split: option.splits)
  show ?case
  proof (cases "0 < occurrences u items")
    case True
    from Cons.IH[OF rest True] seen show ?thesis by (auto simp: occurrences_def split: if_splits)
  next
    case False
    then show ?thesis using Cons.prems(2) w by (auto simp: occurrences_def split: if_splits)
  qed
qed (simp add: occurrences_def)

lemma live_count_save:
  assumes "findById r (i_intentId i) = None"
  shows "live_count (fst (save r i)) u = live_count r u + (if toLowerCase (i_user i) = u \<and> i_state i \<in> live_states then 1 else 0)"
  using assms by (simp add: live_count_def save_def findById_def update_fresh)

lemma batch_persist_counts:
  assumes "batch_persist env now items created s = (s', Inr out)"
    and "distinct (map (snd \<circ> snd) items)" and "\<forall>x \<in> set items. findById (s_repo s) (snd (snd x)) = None"
  shows "length out = length created + length items \<and> (\<forall>u. live_count (s_repo s') u = live_count (s_repo s) u + occurrences u (map fst items))"
  using assms
proof (induction env now items created s rule: batch_persist.induct)
  case (2 env now data dl uuid items created s)
  obtain s1 r where p: "persistNewIntent env now uuid data dl s = (s1, r)" by fastforce
  then show ?case
  proof (cases rule: persist_cases)
    case (ok i)
    have g: "findById (s_repo s1) k = (if k = uuid then Some i else findById (s_repo s) k)" for k
      using ok(2,5) by (simp add: save_def findById_def)
    have live: "live_count (s_repo s1) u = live_count (s_repo s) u + (if toLowerCase (i_user data) = u then 1 else 0)" for u
      using live_count_save[of "s_repo s" i u] ok "2.prems"(3) by (auto simp: live_states_def)
    have d: "distinct (map (snd \<circ> snd) items)" "\<forall>x \<in> set items. findById (s_repo s1) (snd (snd x)) = None"
      using "2.prems"(2,3) g by (auto simp: image_iff comp_def)
    have "batch_persist env now items (created @ [i]) s1 = (s', Inr out)" using "2.prems"(1) p ok(1) by simp
    from "2.IH"[OF p[symmetric] ok(1) this d]
    have "length out = length (created @ [i]) + length items
        \<and> (\<forall>u. live_count (s_repo s') u = live_count (s_repo s1) u + occurrences u (map fst items))" .
    then show ?thesis using live by (auto simp: occurrences_def)
  qed (use "2.prems" p in simp)
qed (simp add: occurrences_def)

text \<open>A batch is all or nothing against validation and never breaks the cap. If any item is refused
(no user, or it would take its user past 50 live intents, counting earlier items of the same
batch), nothing is created and nothing changes; otherwise every item is created, and afterwards
every user of the batch has at most 50 open, accepted or pending intents, whatever the casing of
the address.\<close>

theorem batch_respects_cap:
  assumes "createBatch env now items s = (s', Inr (created, errors))"
    and "distinct (map (snd \<circ> snd) items)" and "\<forall>x \<in> set items. findById (s_repo s) (snd (snd x)) = None"
  shows "(errors \<noteq> [] \<longrightarrow> s' = s \<and> created = [])
    \<and> (errors = [] \<longrightarrow> length created = length items
        \<and> (\<forall>x \<in> set items. i_user (fst x) \<noteq> [] \<and> countOpenByUser (s_repo s') (i_user (fst x)) \<le> 50))"
proof (cases "batch_check (s_repo s) 0 (map fst items) []")
  case Nil
  obtain out where b: "batch_persist env now items [] s = (s', Inr out)" "created = out" "errors = []"
    using assms(1) Nil by (auto simp: createBatch_def split: prod.splits sum.splits)
  from batch_persist_counts[OF b(1) assms(2,3)] have
    counts: "length out = length items" "\<And>u. live_count (s_repo s') u = live_count (s_repo s) u + occurrences u (map fst items)"
    by auto
  have "i_user (fst x) \<noteq> [] \<and> countOpenByUser (s_repo s') (i_user (fst x)) \<le> 50" if "x \<in> set items" for x
  proof -
    have "0 < occurrences (toLowerCase (i_user (fst x))) (map fst items)"
      using that by (auto simp: occurrences_def filter_empty_conv)
    from batch_check_cap[OF Nil this] show ?thesis
      by (auto simp: countOpen_live counts(2) seen_count_def MAX_OPEN_INTENTS_PER_USER_def toLowerCase_def)
  qed
  then show ?thesis using b counts(1) by simp
next
  case (Cons e es)
  then show ?thesis using assms(1) by (auto simp: createBatch_def)
qed

theorem batch_respects_cap_witness:
  "\<exists>s' created. createBatch sample_env 10 [(sample_intent [] ''GA'' 100, None, ''i1''), (sample_intent [] ''ga'' 100, None, ''i2'')] emptySvc
      = (s', Inr (created, [])) \<and> length created = 2 \<and> countOpenByUser (s_repo s') ''GA'' \<le> 50"
proof -
  let ?items = "[(sample_intent [] ''GA'' 100, None, ''i1''), (sample_intent [] ''ga'' 100, None, ''i2'')]"
  have chk: "batch_check (s_repo emptySvc) 0 (map fst ?items) [] = []"
    by (simp add: Let_def emptySvc_def emptyRepo_def countOpen_live live_count_def MAX_OPEN_INTENTS_PER_USER_def
        toLowerCase_def char_lower_def)
  have "\<exists>s' out. batch_persist sample_env 10 ?items [] emptySvc = (s', Inr out)"
    by (simp add: persistNewIntent_def sample_env_def isOnchainWrite_def unfold_call)
  then obtain s' created where c: "createBatch sample_env 10 ?items emptySvc = (s', Inr (created, []))"
    unfolding createBatch_def Let_def chk by auto
  from batch_respects_cap[OF c] show ?thesis
    using c by (auto simp: emptySvc_def emptyRepo_def findById_def)
qed

section \<open>Eviction\<close>

definition evictable :: "svc_env \<Rightarrow> int \<Rightarrow> intent \<Rightarrow> bool" where
  "evictable env now i \<longleftrightarrow> isTerminalState (i_state i)
     \<and> coalesce (i_filledAt i) (i_createdAt i) \<le> now - retention_seconds (e_retentionDays env)"

lemma delete_fold:
  "findById (fst (fold evict_one xs acc)) k = (if k \<in> i_intentId ` set xs then None else findById (fst acc) k)"
  by (induction xs arbitrary: acc) (auto simp: evict_one_def delete_def findById_def Let_def split: prod.splits)

text \<open>Eviction is exact: when intents live in memory only and nothing is on chain, one eviction pass
removes precisely the stored intents that are in a terminal state and whose fill (or creation)
is older than the retention period, and leaves every other intent as it was; in every other
configuration it changes nothing.\<close>

theorem eviction_exact:
  assumes "repo_ok (s_repo s)"
  shows "findById (s_repo (fst (evictTerminalIntents env now s))) k =
     (case findById (s_repo s) k of
        None \<Rightarrow> None
      | Some i \<Rightarrow> if e_persistence env = ''memory'' \<and> \<not> e_onchainIntentsEnabled env \<and> evictable env now i then None else Some i)"
proof (cases "e_persistence env = ''memory'' \<and> \<not> e_onchainIntentsEnabled env")
  case True
  have mem: "i \<in> set (findAll (s_repo s)) \<longleftrightarrow> (\<exists>k. findById (s_repo s) k = Some i)" for i
    using assms mem_js_values[of "store (s_repo s)" i] by (simp add: findAll_def findById_def repo_ok_def)
  let ?stale = "filter (\<lambda>i. i_state i \<in> set TERMINAL_STATES \<and> coalesce (i_filledAt i) (i_createdAt i)
      \<le> now - retention_seconds (e_retentionDays env)) (findAll (s_repo s))"
  have ids: "i_intentId i = k" if "findById (s_repo s) k = Some i" for k i using assms that by (simp add: repo_ok_def)
  have "k \<in> i_intentId ` set ?stale \<longleftrightarrow> (\<exists>i. findById (s_repo s) k = Some i \<and> evictable env now i)"
    using ids by (auto simp: mem evictable_def isTerminalState_def image_iff)
  then show ?thesis
    using True by (cases "findById (s_repo s) k") (auto simp: evictTerminalIntents_def delete_fold unfold_call)
qed (auto simp: evictTerminalIntents_def split: option.splits)

theorem eviction_exact_witness:
  "findById (s_repo (fst (evictTerminalIntents sample_env 10000000 accepted_svc))) ''i1'' \<noteq> None"
proof -
  have "repo_ok (s_repo accepted_svc)"
    using service_runs.run_inv[OF accepted_run emptySvc_ok] by (simp add: audit_ok_def)
  from eviction_exact[OF this, of sample_env 10000000 "''i1''"] accepted_row
  show ?thesis by (auto simp: evictable_def isTerminalState_def TERMINAL_STATES_def)
qed

end
