(* ===== verification/Solver_Griefing.thy ===== *)
theory Solver_Griefing
  imports Js_Prelude
begin

text \<open>
  The anti-griefing service of \<^verbatim>\<open>src/solvers/solver-griefing.service.ts\<close> and its types in
  \<^verbatim>\<open>src/solvers/solver-griefing.types.ts\<close>. The service holds one record per solver and a capped audit
  log; every public method is synchronous, hence one step. Each operation takes the instant
  \<open>now\<close> it resolves from its optional argument or the clock. A record is mutated in place in the
  source; here the updated record is written back under its key. The prose of an audit reason is
  kept as the ratio and the threshold it prints, ratios are exact rationals, and the metrics
  calls, which only report, are left out.
\<close>

section \<open>Types\<close>

datatype griefing_state = GS_ok | GS_cooldown | GS_reduced_concurrency | GS_suspended

record griefing_window =
  gw_startedAt :: int
  gw_accepts :: int
  gw_unfilled :: int

record griefing_record =
  g_solverAddress :: string
  g_state :: griefing_state
  g_cooldownUntil :: "int option"
  g_concurrencyLimit :: "int option"
  g_windows :: "griefing_window list"
  g_escalationCount :: nat
  g_lastEscalatedAt :: "int option"
  g_excludedIntentIds :: "string set"

datatype griefing_event = GE_window_started | GE_accept_recorded | GE_unfilled_recorded | GE_state_changed
  | GE_incident_excluded | GE_reset

datatype griefing_reason = GR_cooldown_expired | GR_ratio_reached rat rat

record griefing_audit =
  ga_timestamp :: int
  ga_solverAddress :: string
  ga_event :: griefing_event
  ga_fromState :: "griefing_state option"
  ga_toState :: "griefing_state option"
  ga_intentId :: "string option"
  ga_ratio :: "rat option"
  ga_reason :: "griefing_reason option"
  ga_operator :: "string option"

record griefing_config =
  gc_windowSeconds :: int
  gc_minAcceptsForRatio :: int
  gc_cooldownThreshold :: rat
  gc_reducedConcurrencyThreshold :: rat
  gc_suspensionThreshold :: rat
  gc_cooldownDurationSeconds :: int
  gc_reducedConcurrencyLimit :: int

definition DEFAULT_GRIEFING_CONFIG :: griefing_config where
  "DEFAULT_GRIEFING_CONFIG = \<lparr> gc_windowSeconds = 3600, gc_minAcceptsForRatio = 5, gc_cooldownThreshold = 3 / 10,
     gc_reducedConcurrencyThreshold = 5 / 10, gc_suspensionThreshold = 7 / 10, gc_cooldownDurationSeconds = 300,
     gc_reducedConcurrencyLimit = 1 \<rparr>"

fun GRIEFING_REPUTATION_MULTIPLIERS :: "griefing_state \<Rightarrow> rat" where
  "GRIEFING_REPUTATION_MULTIPLIERS GS_ok = 1"
| "GRIEFING_REPUTATION_MULTIPLIERS GS_cooldown = 8 / 10"
| "GRIEFING_REPUTATION_MULTIPLIERS GS_reduced_concurrency = 5 / 10"
| "GRIEFING_REPUTATION_MULTIPLIERS GS_suspended = 0"

text \<open>\<open>toFixed\<close> rounds the magnitude half up to the given number of decimals.\<close>

definition to_fixed :: "nat \<Rightarrow> rat \<Rightarrow> rat" where
  "to_fixed d x = sgn x * (of_int \<lfloor>\<bar>x\<bar> * 10 ^ d + 1 / 2\<rfloor> / 10 ^ d)"

definition applyGriefingPenalty :: "rat \<Rightarrow> griefing_state \<Rightarrow> rat" where
  "applyGriefingPenalty rawScore st = to_fixed 4 (rawScore * GRIEFING_REPUTATION_MULTIPLIERS st)"

instantiation griefing_state :: linorder
begin

fun severity :: "griefing_state \<Rightarrow> nat" where
  "severity GS_ok = 0"
| "severity GS_cooldown = 1"
| "severity GS_reduced_concurrency = 2"
| "severity GS_suspended = 3"

definition less_eq_griefing_state :: "griefing_state \<Rightarrow> griefing_state \<Rightarrow> bool" where
  "less_eq_griefing_state a b \<longleftrightarrow> severity a \<le> severity b"

definition less_griefing_state :: "griefing_state \<Rightarrow> griefing_state \<Rightarrow> bool" where
  "less_griefing_state a b \<longleftrightarrow> severity a < severity b"

instance
proof
  fix x y :: griefing_state
  show "x \<le> y \<Longrightarrow> y \<le> x \<Longrightarrow> x = y" by (cases x; cases y) (simp_all add: less_eq_griefing_state_def)
qed (auto simp: less_eq_griefing_state_def less_griefing_state_def)

end

section \<open>The service\<close>

record griefing =
  gv_records :: "(string, griefing_record) jsmap"
  gv_auditLog :: "griefing_audit list"

definition audit_event :: "int \<Rightarrow> string \<Rightarrow> griefing_event \<Rightarrow> griefing_audit" where
  "audit_event now addr ev = \<lparr> ga_timestamp = now, ga_solverAddress = addr, ga_event = ev, ga_fromState = None,
     ga_toState = None, ga_intentId = None, ga_ratio = None, ga_reason = None, ga_operator = None \<rparr>"

definition appendAudit :: "griefing_audit \<Rightarrow> griefing_audit list \<Rightarrow> griefing_audit list" where
  "appendAudit e lg =
     (let lg' = lg @ [e] in if length lg' > 10000 then drop (length lg' - 10000) lg' else lg')"

lemma appendAudit_code [code]:
  "appendAudit e lg =
     (let lg' = lg @ [e]; n = int (length lg') in if n > 10000 then drop (nat (n - 10000)) lg' else lg')"
  by (simp add: appendAudit_def Let_def nat_diff_distrib')

definition new_griefing_record :: "string \<Rightarrow> griefing_record" where
  "new_griefing_record addr = \<lparr> g_solverAddress = addr, g_state = GS_ok, g_cooldownUntil = None, g_concurrencyLimit = None,
     g_windows = [], g_escalationCount = 0, g_lastEscalatedAt = None, g_excludedIntentIds = {} \<rparr>"

definition getOrCreate :: "string \<Rightarrow> griefing \<Rightarrow> griefing_record" where
  "getOrCreate addr s = coalesce (map_of (gv_records s) addr) (new_griefing_record addr)"

definition put_record :: "string \<Rightarrow> griefing_record \<times> griefing_audit list \<Rightarrow> griefing \<Rightarrow> griefing" where
  "put_record addr rl s = s\<lparr> gv_records := AList.update addr (fst rl) (gv_records s), gv_auditLog := snd rl \<rparr>"

definition ensureActiveWindow :: "griefing_config \<Rightarrow> int \<Rightarrow> griefing_record \<times> griefing_audit list
    \<Rightarrow> griefing_record \<times> griefing_audit list" where
  "ensureActiveWindow cfg now = (\<lambda>(r, lg).
     let windowExpiry = now - gc_windowSeconds cfg;
         ws = filter (\<lambda>w. gw_startedAt w \<ge> windowExpiry) (g_windows r)
     in if ws = [] \<or> gw_startedAt (hd ws) < windowExpiry
        then (r\<lparr> g_windows := \<lparr> gw_startedAt = now, gw_accepts = 0, gw_unfilled = 0 \<rparr> # ws \<rparr>,
              appendAudit (audit_event now (g_solverAddress r) GE_window_started) lg)
        else (r\<lparr> g_windows := ws \<rparr>, lg))"

definition window_accepts :: "griefing_record \<Rightarrow> int" where
  "window_accepts r = foldl (\<lambda>t w. t + gw_accepts w) 0 (g_windows r)"

definition window_unfilled :: "griefing_record \<Rightarrow> int" where
  "window_unfilled r = foldl (\<lambda>t w. t + gw_unfilled w) 0 (g_windows r)"

definition currentRatio :: "griefing_record \<Rightarrow> rat" where
  "currentRatio r = (if window_accepts r = 0 then 0 else of_int (window_unfilled r) / of_int (window_accepts r))"

fun enforcement_fields :: "griefing_config \<Rightarrow> int \<Rightarrow> griefing_state \<Rightarrow> griefing_record \<Rightarrow> griefing_record" where
  "enforcement_fields cfg now GS_cooldown r = r\<lparr> g_cooldownUntil := Some (now + gc_cooldownDurationSeconds cfg),
     g_concurrencyLimit := None, g_escalationCount := g_escalationCount r + 1, g_lastEscalatedAt := Some now \<rparr>"
| "enforcement_fields cfg now GS_reduced_concurrency r = r\<lparr> g_cooldownUntil := None,
     g_concurrencyLimit := Some (gc_reducedConcurrencyLimit cfg), g_escalationCount := g_escalationCount r + 1,
     g_lastEscalatedAt := Some now \<rparr>"
| "enforcement_fields cfg now GS_suspended r = r\<lparr> g_cooldownUntil := None, g_concurrencyLimit := None,
     g_escalationCount := g_escalationCount r + 1, g_lastEscalatedAt := Some now \<rparr>"
| "enforcement_fields cfg now GS_ok r = r\<lparr> g_cooldownUntil := None, g_concurrencyLimit := None \<rparr>"

definition transitionState :: "griefing_config \<Rightarrow> griefing_state \<Rightarrow> int \<Rightarrow> griefing_reason
    \<Rightarrow> griefing_record \<times> griefing_audit list \<Rightarrow> griefing_record \<times> griefing_audit list" where
  "transitionState cfg toState now reason = (\<lambda>(r, lg).
     let r' = enforcement_fields cfg now toState (r\<lparr> g_state := toState \<rparr>)
     in (r', appendAudit ((audit_event now (g_solverAddress r') GE_state_changed)\<lparr> ga_fromState := Some (g_state r),
               ga_toState := Some toState, ga_ratio := Some (currentRatio r'), ga_reason := Some reason \<rparr>) lg))"

definition evaluateAndEscalate :: "griefing_config \<Rightarrow> rat \<Rightarrow> int \<Rightarrow> griefing_record \<times> griefing_audit list
    \<Rightarrow> griefing_record \<times> griefing_audit list" where
  "evaluateAndEscalate cfg ratio now = (\<lambda>(r, lg).
     if window_accepts r < gc_minAcceptsForRatio cfg then (r, lg)
     else if ratio \<ge> gc_suspensionThreshold cfg \<and> g_state r \<noteq> GS_suspended
       then transitionState cfg GS_suspended now (GR_ratio_reached ratio (gc_suspensionThreshold cfg)) (r, lg)
     else if ratio \<ge> gc_reducedConcurrencyThreshold cfg \<and> g_state r \<noteq> GS_suspended \<and> g_state r \<noteq> GS_reduced_concurrency
       then transitionState cfg GS_reduced_concurrency now (GR_ratio_reached ratio (gc_reducedConcurrencyThreshold cfg)) (r, lg)
     else if ratio \<ge> gc_cooldownThreshold cfg \<and> g_state r = GS_ok
       then transitionState cfg GS_cooldown now (GR_ratio_reached ratio (gc_cooldownThreshold cfg)) (r, lg)
     else (r, lg))"

datatype accept_decision = Allowed | Denied_suspended | Denied_cooldown int | Denied_concurrency int

definition checkAcceptAllowed :: "griefing_config \<Rightarrow> string \<Rightarrow> int \<Rightarrow> int \<Rightarrow> griefing \<Rightarrow> griefing \<times> accept_decision" where
  "checkAcceptAllowed cfg addr currentOpenAccepts now s =
     (let r = getOrCreate addr s; s0 = put_record addr (r, gv_auditLog s) s
      in case g_state r of
           GS_suspended \<Rightarrow> (s0, Denied_suspended)
         | GS_cooldown \<Rightarrow>
             (case g_cooldownUntil r of
                Some until \<Rightarrow> if now < until then (s0, Denied_cooldown (until - now))
                              else (put_record addr (transitionState cfg GS_ok now GR_cooldown_expired (r, gv_auditLog s)) s, Allowed)
              | None \<Rightarrow> (put_record addr (transitionState cfg GS_ok now GR_cooldown_expired (r, gv_auditLog s)) s, Allowed))
         | GS_reduced_concurrency \<Rightarrow>
             (let lmt = coalesce (g_concurrencyLimit r) (gc_reducedConcurrencyLimit cfg)
              in if currentOpenAccepts \<ge> lmt then (s0, Denied_concurrency lmt) else (s0, Allowed))
         | GS_ok \<Rightarrow> (s0, Allowed))"

fun bump_accepts :: "griefing_window list \<Rightarrow> griefing_window list" where
  "bump_accepts [] = []"
| "bump_accepts (w # ws) = w\<lparr> gw_accepts := gw_accepts w + 1 \<rparr> # ws"

fun bump_unfilled :: "griefing_window list \<Rightarrow> griefing_window list" where
  "bump_unfilled [] = []"
| "bump_unfilled (w # ws) = w\<lparr> gw_unfilled := gw_unfilled w + 1 \<rparr> # ws"

definition recordAccept :: "griefing_config \<Rightarrow> string \<Rightarrow> string \<Rightarrow> int \<Rightarrow> griefing \<Rightarrow> griefing" where
  "recordAccept cfg addr iid now s =
     (let (r, lg) = ensureActiveWindow cfg now (getOrCreate addr s, gv_auditLog s);
          r1 = r\<lparr> g_windows := bump_accepts (g_windows r) \<rparr>
      in put_record addr (r1, appendAudit ((audit_event now addr GE_accept_recorded)\<lparr> ga_intentId := Some iid,
           ga_ratio := Some (currentRatio r1) \<rparr>) lg) s)"

definition recordUnfilled :: "griefing_config \<Rightarrow> string \<Rightarrow> string \<Rightarrow> int \<Rightarrow> griefing \<Rightarrow> griefing" where
  "recordUnfilled cfg addr iid now s =
     (let r0 = getOrCreate addr s in
      if iid \<in> g_excludedIntentIds r0 then put_record addr (r0, gv_auditLog s) s
      else
        (let (r, lg) = ensureActiveWindow cfg now (r0, gv_auditLog s);
             r1 = r\<lparr> g_windows := bump_unfilled (g_windows r) \<rparr>;
             ratio = currentRatio r1;
             lg1 = appendAudit ((audit_event now addr GE_unfilled_recorded)\<lparr> ga_intentId := Some iid, ga_ratio := Some ratio \<rparr>) lg
         in put_record addr (evaluateAndEscalate cfg ratio now (r1, lg1)) s))"

fun undo_one_unfilled :: "griefing_window list \<Rightarrow> griefing_window list" where
  "undo_one_unfilled [] = []"
| "undo_one_unfilled (w # ws) =
     (if gw_unfilled w > 0 then w\<lparr> gw_unfilled := gw_unfilled w - 1 \<rparr> # ws else w # undo_one_unfilled ws)"

definition excludeIncident :: "griefing_config \<Rightarrow> string \<Rightarrow> string \<Rightarrow> string option \<Rightarrow> int \<Rightarrow> griefing \<Rightarrow> griefing" where
  "excludeIncident cfg addr iid operator now s =
     (let r0 = getOrCreate addr s;
          r1 = r0\<lparr> g_excludedIntentIds := insert iid (g_excludedIntentIds r0), g_windows := undo_one_unfilled (g_windows r0) \<rparr>;
          lg1 = appendAudit ((audit_event now addr GE_incident_excluded)\<lparr> ga_intentId := Some iid, ga_operator := operator \<rparr>)
                  (gv_auditLog s)
      in put_record addr (evaluateAndEscalate cfg (currentRatio r1) now (r1, lg1)) s)"

definition resetSolver :: "string \<Rightarrow> string option \<Rightarrow> int \<Rightarrow> griefing \<Rightarrow> griefing" where
  "resetSolver addr operator now s =
     (let r0 = getOrCreate addr s;
          r1 = r0\<lparr> g_state := GS_ok, g_cooldownUntil := None, g_concurrencyLimit := None, g_windows := [],
                 g_escalationCount := 0, g_lastEscalatedAt := None \<rparr>
      in put_record addr (r1, appendAudit ((audit_event now addr GE_reset)\<lparr> ga_fromState := Some (g_state r0),
           ga_toState := Some GS_ok, ga_operator := operator \<rparr>) (gv_auditLog s)) s)"

definition getRecord :: "string \<Rightarrow> griefing \<Rightarrow> griefing_record option" where
  "getRecord addr s = map_of (gv_records s) addr"

definition griefing_getAuditLog :: "string option \<Rightarrow> griefing \<Rightarrow> griefing_audit list" where
  "griefing_getAuditLog addr s =
     (case addr of
        None \<Rightarrow> gv_auditLog s
      | Some a \<Rightarrow> if a = '''' then gv_auditLog s else filter (\<lambda>e. ga_solverAddress e = a) (gv_auditLog s))"

definition getCurrentRatio :: "string \<Rightarrow> griefing \<Rightarrow> rat" where
  "getCurrentRatio addr s = (case getRecord addr s of None \<Rightarrow> 0 | Some r \<Rightarrow> currentRatio r)"

definition getEnforcedSolvers :: "griefing \<Rightarrow> (string \<times> griefing_state \<times> rat \<times> nat) list" where
  "getEnforcedSolvers s =
     map (\<lambda>r. (g_solverAddress r, g_state r, currentRatio r, g_escalationCount r))
       (filter (\<lambda>r. g_state r \<noteq> GS_ok) (js_values (gv_records s)))"

section \<open>Escalation\<close>

text \<open>The enforcement level a ratio calls for, as documented with the configuration.\<close>

definition level_of :: "griefing_config \<Rightarrow> rat \<Rightarrow> griefing_state" where
  "level_of cfg x =
     (if x \<ge> gc_suspensionThreshold cfg then GS_suspended
      else if x \<ge> gc_reducedConcurrencyThreshold cfg then GS_reduced_concurrency
      else if x \<ge> gc_cooldownThreshold cfg then GS_cooldown else GS_ok)"

lemmas severity_order = less_eq_griefing_state_def less_griefing_state_def max_def

lemma fields_unchanged [simp]:
  "g_state (enforcement_fields cfg now st r) = g_state r" "g_windows (enforcement_fields cfg now st r) = g_windows r"
  "g_solverAddress (enforcement_fields cfg now st r) = g_solverAddress r"
  "g_excludedIntentIds (enforcement_fields cfg now st r) = g_excludedIntentIds r"
  by (cases st; simp)+

lemma transition_fields [simp]:
  "g_state (fst (transitionState cfg st now why (r, lg))) = st" "g_windows (fst (transitionState cfg st now why (r, lg))) = g_windows r"
  "g_solverAddress (fst (transitionState cfg st now why (r, lg))) = g_solverAddress r"
  "g_excludedIntentIds (fst (transitionState cfg st now why (r, lg))) = g_excludedIntentIds r"
  by (simp_all add: transitionState_def Let_def)

lemma escalate_state:
  "g_state (fst (evaluateAndEscalate cfg x now (r, lg))) =
     (if window_accepts r < gc_minAcceptsForRatio cfg then g_state r else max (g_state r) (level_of cfg x))"
  by (cases "g_state r") (simp_all add: evaluateAndEscalate_def level_of_def severity_order)

lemma escalate_fields [simp]:
  "g_windows (fst (evaluateAndEscalate cfg x now (r, lg))) = g_windows r"
  "g_solverAddress (fst (evaluateAndEscalate cfg x now (r, lg))) = g_solverAddress r"
  "g_excludedIntentIds (fst (evaluateAndEscalate cfg x now (r, lg))) = g_excludedIntentIds r"
  by (simp_all add: evaluateAndEscalate_def)

lemma same_windows:
  "g_windows r = g_windows r' \<Longrightarrow> window_accepts r = window_accepts r'"
  "g_windows r = g_windows r' \<Longrightarrow> currentRatio r = currentRatio r'"
  by (simp_all add: window_accepts_def window_unfilled_def currentRatio_def)

lemma active_fields [simp]:
  "g_state (fst (ensureActiveWindow cfg now (r, lg))) = g_state r"
  "g_solverAddress (fst (ensureActiveWindow cfg now (r, lg))) = g_solverAddress r"
  "g_cooldownUntil (fst (ensureActiveWindow cfg now (r, lg))) = g_cooldownUntil r"
  "g_concurrencyLimit (fst (ensureActiveWindow cfg now (r, lg))) = g_concurrencyLimit r"
  "g_escalationCount (fst (ensureActiveWindow cfg now (r, lg))) = g_escalationCount r"
  "g_lastEscalatedAt (fst (ensureActiveWindow cfg now (r, lg))) = g_lastEscalatedAt r"
  by (simp_all add: ensureActiveWindow_def Let_def)

lemma getRecord_put [simp]: "getRecord a (put_record addr rl s) = (if a = addr then Some (fst rl) else getRecord a s)"
  by (simp add: getRecord_def put_record_def)

lemma getOrCreate_get: "getOrCreate addr s = coalesce (getRecord addr s) (new_griefing_record addr)"
  by (simp add: getOrCreate_def getRecord_def)

section \<open>Invariant\<close>

definition record_ok :: "griefing_config \<Rightarrow> griefing_record \<Rightarrow> bool" where
  "record_ok cfg r \<longleftrightarrow> length (g_windows r) \<le> 1
     \<and> (g_cooldownUntil r \<noteq> None \<longleftrightarrow> g_state r = GS_cooldown)
     \<and> g_concurrencyLimit r = (if g_state r = GS_reduced_concurrency then Some (gc_reducedConcurrencyLimit cfg) else None)
     \<and> (g_state r \<noteq> GS_ok \<longrightarrow> 0 < g_escalationCount r \<and> g_lastEscalatedAt r \<noteq> None)"

definition griefing_inv :: "griefing_config \<Rightarrow> griefing \<Rightarrow> bool" where
  "griefing_inv cfg s \<longleftrightarrow> length (gv_auditLog s) \<le> 10000
     \<and> (\<forall>a r. getRecord a s = Some r \<longrightarrow> g_solverAddress r = a \<and> record_ok cfg r)"

text \<open>The steps; operator resets are steps only when \<open>resets\<close> is set.\<close>

inductive griefing_step :: "griefing_config \<Rightarrow> bool \<Rightarrow> griefing \<Rightarrow> griefing \<Rightarrow> bool" for cfg resets where
  gst_check: "griefing_step cfg resets s (fst (checkAcceptAllowed cfg addr n now s))"
| gst_accept: "griefing_step cfg resets s (recordAccept cfg addr iid now s)"
| gst_unfilled: "griefing_step cfg resets s (recordUnfilled cfg addr iid now s)"
| gst_exclude: "griefing_step cfg resets s (excludeIncident cfg addr iid operator now s)"
| gst_reset: "resets \<Longrightarrow> griefing_step cfg resets s (resetSolver addr operator now s)"

lemma appendAudit_cap: "length lg \<le> 10000 \<Longrightarrow> length (appendAudit e lg) \<le> 10000"
  by (simp add: appendAudit_def Let_def)

definition pair_ok :: "griefing_config \<Rightarrow> string \<Rightarrow> griefing_record \<times> griefing_audit list \<Rightarrow> bool" where
  "pair_ok cfg addr rl \<longleftrightarrow> g_solverAddress (fst rl) = addr \<and> record_ok cfg (fst rl) \<and> length (snd rl) \<le> 10000"

lemma getOrCreate_ok: "griefing_inv cfg s \<Longrightarrow> pair_ok cfg addr (getOrCreate addr s, gv_auditLog s)"
  by (cases "getRecord addr s")
    (auto simp: pair_ok_def griefing_inv_def getOrCreate_get new_griefing_record_def record_ok_def)

lemma put_ok: "griefing_inv cfg s \<Longrightarrow> pair_ok cfg addr rl \<Longrightarrow> griefing_inv cfg (put_record addr rl s)"
  unfolding griefing_inv_def pair_ok_def getRecord_put by (auto simp: put_record_def)

lemma pair_log: "pair_ok cfg addr (r, lg) \<Longrightarrow> pair_ok cfg addr (r, appendAudit e lg)"
  by (simp add: pair_ok_def appendAudit_cap)

lemma transition_pair: "pair_ok cfg addr (r, lg) \<Longrightarrow> pair_ok cfg addr (transitionState cfg st now why (r, lg))"
  by (cases st) (simp_all add: pair_ok_def transitionState_def Let_def appendAudit_cap record_ok_def)

lemma escalate_pair: "pair_ok cfg addr (r, lg) \<Longrightarrow> pair_ok cfg addr (evaluateAndEscalate cfg x now (r, lg))"
  by (simp add: evaluateAndEscalate_def transition_pair)

lemma active_pair: "pair_ok cfg addr (r, lg) \<Longrightarrow> pair_ok cfg addr (ensureActiveWindow cfg now (r, lg))"
  by (cases "g_windows r")
    (auto simp: ensureActiveWindow_def Let_def pair_ok_def appendAudit_cap record_ok_def)

lemma bump_length [simp]: "length (bump_accepts ws) = length ws" "length (bump_unfilled ws) = length ws"
  by (cases ws; simp)+

lemma undo_length [simp]: "length (undo_one_unfilled ws) = length ws"
  by (induction ws) auto

lemma windows_pair:
  "pair_ok cfg addr (r, lg) \<Longrightarrow> length ws = length (g_windows r) \<Longrightarrow> pair_ok cfg addr (r\<lparr> g_windows := ws, g_excludedIntentIds := x \<rparr>, lg)"
  "pair_ok cfg addr (r, lg) \<Longrightarrow> length ws = length (g_windows r) \<Longrightarrow> pair_ok cfg addr (r\<lparr> g_windows := ws \<rparr>, lg)"
  by (simp_all add: pair_ok_def record_ok_def)

lemma run_snoc: "(griefing_step cfg b)\<^sup>*\<^sup>* s s' \<Longrightarrow> griefing_step cfg b s' s'' \<Longrightarrow> (griefing_step cfg b)\<^sup>*\<^sup>* s s''"
  by (rule rtranclp.rtrancl_into_rtrancl)

lemma griefing_step_inv: "griefing_step cfg b s s' \<Longrightarrow> griefing_inv cfg s \<Longrightarrow> griefing_inv cfg s'"
proof (induction rule: griefing_step.induct)
  case (gst_check s addr n now)
  note ok = getOrCreate_ok[OF gst_check, of addr]
  show ?case
    by (simp add: checkAcceptAllowed_def Let_def put_ok[OF gst_check] ok transition_pair split: griefing_state.split option.split)
next
  case (gst_accept s addr iid now)
  obtain r lg where e: "ensureActiveWindow cfg now (getOrCreate addr s, gv_auditLog s) = (r, lg)" by fastforce
  then have "pair_ok cfg addr (r, lg)" using active_pair[OF getOrCreate_ok[OF gst_accept, of addr], of now] by simp
  then show ?case
    unfolding recordAccept_def e by (simp add: Let_def put_ok[OF gst_accept] pair_log windows_pair(2))
next
  case (gst_unfilled s addr iid now)
  obtain r lg where e: "ensureActiveWindow cfg now (getOrCreate addr s, gv_auditLog s) = (r, lg)" by fastforce
  then have "pair_ok cfg addr (r, lg)" using active_pair[OF getOrCreate_ok[OF gst_unfilled, of addr], of now] by simp
  then show ?case
    unfolding recordUnfilled_def
    by (simp add: e Let_def put_ok[OF gst_unfilled] getOrCreate_ok[OF gst_unfilled] pair_log windows_pair(2) escalate_pair)
next
  case (gst_exclude s addr iid operator now)
  have "pair_ok cfg addr ((getOrCreate addr s)\<lparr> g_excludedIntentIds := insert iid (g_excludedIntentIds (getOrCreate addr s)),
      g_windows := undo_one_unfilled (g_windows (getOrCreate addr s)) \<rparr>, gv_auditLog s)"
    using windows_pair(1)[OF getOrCreate_ok[OF gst_exclude, of addr] undo_length] by (simp add: pair_ok_def record_ok_def)
  then show ?case
    unfolding excludeIncident_def by (simp add: Let_def put_ok[OF gst_exclude] pair_log escalate_pair)
next
  case (gst_reset s addr operator now)
  note ok = getOrCreate_ok[OF gst_reset(2), of addr]
  show ?case
    unfolding resetSolver_def Let_def
    by (rule put_ok[OF gst_reset(2)], rule pair_log) (use ok in \<open>simp add: pair_ok_def record_ok_def\<close>)
qed

text \<open>The lifecycle without operator resets: enforcement only gets stricter, except that an expired
cooldown returns to \<open>ok\<close>.\<close>

definition griefing_edge :: "griefing_state \<Rightarrow> griefing_state \<Rightarrow> bool" where
  "griefing_edge a b \<longleftrightarrow> a < b \<or> a = GS_cooldown \<and> b = GS_ok"

lemma edge_refl: "a \<le> b \<or> a = GS_cooldown \<and> b = GS_ok \<Longrightarrow> griefing_edge\<^sup>*\<^sup>* a b"
  by (cases "a = b") (auto simp: griefing_edge_def intro!: r_into_rtranclp)

lemma griefing_step_edge:
  assumes "griefing_step cfg False s s'" and "getRecord a s = Some r"
  shows "\<exists>r'. getRecord a s' = Some r' \<and> (g_state r \<le> g_state r' \<or> g_state r = GS_cooldown \<and> g_state r' = GS_ok)"
  using assms
proof (induction rule: griefing_step.induct)
  case (gst_check s addr n now)
  then show ?case
    by (cases "a = addr")
      (auto simp: checkAcceptAllowed_def Let_def getOrCreate_get split: griefing_state.split option.split)
next
  case (gst_accept s addr iid now)
  then show ?case by (auto simp: recordAccept_def Let_def case_prod_unfold getOrCreate_get)
next
  case (gst_unfilled s addr iid now)
  then show ?case by (auto simp: recordUnfilled_def Let_def case_prod_unfold getOrCreate_get escalate_state)
next
  case (gst_exclude s addr iid operator now)
  then show ?case by (auto simp: excludeIncident_def Let_def getOrCreate_get escalate_state)
qed simp

interpretation griefing_runs: inv_system "griefing_step cfg b" "griefing_inv cfg"
  for cfg b
  by unfold_locales (rule griefing_step_inv)

interpretation enforcement_runs: status_system "griefing_step cfg False" "griefing_inv cfg"
    "\<lambda>s a. map_option g_state (getRecord a s)" griefing_edge
  for cfg
proof
  show "\<exists>y. map_option g_state (getRecord a s') = Some y \<and> griefing_edge\<^sup>*\<^sup>* x y"
    if "griefing_step cfg False s s'" "griefing_inv cfg s" "map_option g_state (getRecord a s) = Some x" for s s' a x
    using griefing_step_edge[OF that(1)] that(3) edge_refl by fastforce
qed

definition emptyGriefing :: griefing where
  "emptyGriefing = \<lparr> gv_records = [], gv_auditLog = [] \<rparr>"

lemma emptyGriefing_inv: "griefing_inv cfg emptyGriefing"
  by (simp add: griefing_inv_def emptyGriefing_def getRecord_def)

lemma edge_suspended: "\<not> griefing_edge GS_suspended b"
  by (cases b) (simp_all add: griefing_edge_def severity_order)

lemma edge_from_reduced: "griefing_edge GS_reduced_concurrency b \<Longrightarrow> b = GS_suspended"
  by (cases b) (simp_all add: griefing_edge_def severity_order)

lemma edge_reduced: "griefing_edge\<^sup>*\<^sup>* GS_reduced_concurrency b \<Longrightarrow> b = GS_reduced_concurrency \<or> b = GS_suspended"
  by (induction rule: rtranclp_induct) (auto simp: edge_suspended dest: edge_from_reduced)

section \<open>Properties\<close>

text \<open>Escalation is exact: recording an unfilled accept that is not excluded leaves the solver at
the stricter of its current level and the level its new ratio calls for, provided the window
holds the minimum number of accepts, and at its current level otherwise; and no other solver's
record is touched.\<close>

theorem escalation_exact:
  assumes "iid \<notin> g_excludedIntentIds (getOrCreate addr s)"
  shows "\<exists>r'. getRecord addr (recordUnfilled cfg addr iid now s) = Some r'
     \<and> g_state r' = (if window_accepts r' < gc_minAcceptsForRatio cfg then g_state (getOrCreate addr s)
                     else max (g_state (getOrCreate addr s)) (level_of cfg (currentRatio r')))
     \<and> (\<forall>other. other \<noteq> addr \<longrightarrow> getRecord other (recordUnfilled cfg addr iid now s) = getRecord other s)"
proof -
  define rl where "rl = ensureActiveWindow cfg now (getOrCreate addr s, gv_auditLog s)"
  define r1 where "r1 = (fst rl)\<lparr> g_windows := bump_unfilled (g_windows (fst rl)) \<rparr>"
  obtain lg where eq: "recordUnfilled cfg addr iid now s = put_record addr (evaluateAndEscalate cfg (currentRatio r1) now (r1, lg)) s"
    using assms unfolding recordUnfilled_def Let_def case_prod_unfold r1_def rl_def by simp
  have "g_state r1 = g_state (getOrCreate addr s)" by (simp add: r1_def rl_def)
  moreover have "window_accepts (fst (evaluateAndEscalate cfg (currentRatio r1) now (r1, lg))) = window_accepts r1"
    "currentRatio (fst (evaluateAndEscalate cfg (currentRatio r1) now (r1, lg))) = currentRatio r1"
    using same_windows[of "fst (evaluateAndEscalate cfg (currentRatio r1) now (r1, lg))" r1] by simp_all
  ultimately show ?thesis unfolding eq by (simp add: escalate_state)
qed

definition griefed :: griefing where
  "griefed = recordAccept DEFAULT_GRIEFING_CONFIG ''GS'' ''i5'' 5 (recordAccept DEFAULT_GRIEFING_CONFIG ''GS'' ''i4'' 4
     (recordAccept DEFAULT_GRIEFING_CONFIG ''GS'' ''i3'' 3 (recordAccept DEFAULT_GRIEFING_CONFIG ''GS'' ''i2'' 2
     (recordAccept DEFAULT_GRIEFING_CONFIG ''GS'' ''i1'' 1 emptyGriefing))))"

definition griefed2 :: griefing where
  "griefed2 = recordUnfilled DEFAULT_GRIEFING_CONFIG ''GS'' ''i2'' 7 (recordUnfilled DEFAULT_GRIEFING_CONFIG ''GS'' ''i1'' 6 griefed)"

theorem escalation_exact_witness:
  "\<exists>r'. getRecord ''GS'' (recordUnfilled DEFAULT_GRIEFING_CONFIG ''GS'' ''i3'' 8 griefed2) = Some r' \<and> g_state r' = GS_reduced_concurrency"
proof -
  have "''i3'' \<notin> g_excludedIntentIds (getOrCreate ''GS'' griefed2)" by code_simp
  from escalation_exact[OF this, of DEFAULT_GRIEFING_CONFIG 8] obtain r' where
    r': "getRecord ''GS'' (recordUnfilled DEFAULT_GRIEFING_CONFIG ''GS'' ''i3'' 8 griefed2) = Some r'"
    "g_state r' = (if window_accepts r' < gc_minAcceptsForRatio DEFAULT_GRIEFING_CONFIG then g_state (getOrCreate ''GS'' griefed2)
       else max (g_state (getOrCreate ''GS'' griefed2)) (level_of DEFAULT_GRIEFING_CONFIG (currentRatio r')))" by blast
  have "map_option (\<lambda>r. (window_accepts r, currentRatio r)) (getRecord ''GS'' (recordUnfilled DEFAULT_GRIEFING_CONFIG ''GS'' ''i3'' 8 griefed2))
      = Some (5, 6 / 10)" by code_simp
  moreover have "g_state (getOrCreate ''GS'' griefed2) = GS_cooldown" by code_simp
  ultimately show ?thesis using r' by (simp add: DEFAULT_GRIEFING_CONFIG_def level_of_def severity_order)
qed

text \<open>Enforcement holds until an operator lifts it: without a reset, a suspended solver stays
suspended and every later accept check denies it, and a solver on reduced concurrency never gets
back to \<open>ok\<close> or to a mere cooldown, whatever accepts, misses, checks and exclusions follow.\<close>

theorem enforcement_sticks:
  assumes "griefing_inv cfg s" and "(griefing_step cfg False)\<^sup>*\<^sup>* s s'" and "getRecord a s = Some r"
  shows "(g_state r = GS_suspended \<longrightarrow>
            snd (checkAcceptAllowed cfg a n now s') = Denied_suspended)
       \<and> (g_state r = GS_reduced_concurrency \<longrightarrow>
            (\<exists>r'. getRecord a s' = Some r' \<and> g_state r' \<in> {GS_reduced_concurrency, GS_suspended}))"
proof (intro conjI impI)
  assume "g_state r = GS_suspended"
  then have "map_option g_state (getRecord a s') = Some GS_suspended"
    using enforcement_runs.sink_forever[OF assms(2,1), of a GS_suspended] assms(3)
    by (auto simp: edge_suspended)
  then show "snd (checkAcceptAllowed cfg a n now s') = Denied_suspended"
    by (auto simp: checkAcceptAllowed_def Let_def getOrCreate_get)
next
  assume "g_state r = GS_reduced_concurrency"
  then show "\<exists>r'. getRecord a s' = Some r' \<and> g_state r' \<in> {GS_reduced_concurrency, GS_suspended}"
    using enforcement_runs.run_path[OF assms(2,1), of a GS_reduced_concurrency] assms(3) edge_reduced by fastforce
qed

lemma griefed_inv: "griefing_inv DEFAULT_GRIEFING_CONFIG griefed2"
  unfolding griefed2_def griefed_def
  by (intro griefing_step_inv[OF gst_unfilled] griefing_step_inv[OF gst_accept] emptyGriefing_inv)

definition suspended_griefing :: griefing where
  "suspended_griefing = recordUnfilled DEFAULT_GRIEFING_CONFIG ''GS'' ''i4'' 9 (recordUnfilled DEFAULT_GRIEFING_CONFIG ''GS'' ''i3'' 8 griefed2)"

theorem enforcement_sticks_witness:
  "snd (checkAcceptAllowed DEFAULT_GRIEFING_CONFIG ''GS'' 0 5000
     (excludeIncident DEFAULT_GRIEFING_CONFIG ''GS'' ''i1'' None 20 suspended_griefing)) = Denied_suspended"
proof -
  have inv: "griefing_inv DEFAULT_GRIEFING_CONFIG suspended_griefing"
    unfolding suspended_griefing_def by (intro griefing_step_inv[OF gst_unfilled] griefed_inv)
  have "map_option g_state (getRecord ''GS'' suspended_griefing) = Some GS_suspended" by code_simp
  then obtain r where "getRecord ''GS'' suspended_griefing = Some r" "g_state r = GS_suspended" by auto
  with enforcement_sticks[OF inv r_into_rtranclp, OF gst_exclude] show ?thesis by blast
qed

text \<open>The service stays consistent, so the accept gate is exact: after any sequence of operations,
resets included, the audit log holds at most ten thousand entries and every solver has at most
one window; and an accept is allowed exactly when the solver is in good standing, its cooldown is
over, or it is on reduced concurrency with fewer open accepts than the configured limit.\<close>

theorem accept_gate_exact:
  assumes "(griefing_step cfg True)\<^sup>*\<^sup>* emptyGriefing s" and "getRecord a s = Some r"
  shows "length (gv_auditLog s) \<le> 10000 \<and> length (g_windows r) \<le> 1
     \<and> (snd (checkAcceptAllowed cfg a n now s) = Allowed \<longleftrightarrow>
          g_state r = GS_ok
          \<or> g_state r = GS_cooldown \<and> the (g_cooldownUntil r) \<le> now
          \<or> g_state r = GS_reduced_concurrency \<and> n < gc_reducedConcurrencyLimit cfg)"
proof -
  have inv: "griefing_inv cfg s" by (rule griefing_runs.run_inv[OF assms(1) emptyGriefing_inv])
  then have ok: "record_ok cfg r" "length (gv_auditLog s) \<le> 10000" using assms(2) by (auto simp: griefing_inv_def)
  then show ?thesis
    using assms(2)
    by (cases "g_state r") (auto simp: checkAcceptAllowed_def Let_def getOrCreate_get record_ok_def split: option.split)
qed

theorem accept_gate_exact_witness:
  "length (gv_auditLog griefed) \<le> 10000 \<and> snd (checkAcceptAllowed DEFAULT_GRIEFING_CONFIG ''GS'' 7 9 griefed) = Allowed"
proof -
  have run: "(griefing_step DEFAULT_GRIEFING_CONFIG True)\<^sup>*\<^sup>* emptyGriefing griefed"
    unfolding griefed_def by (intro run_snoc[OF _ gst_accept] rtranclp.rtrancl_refl)
  have "map_option g_state (getRecord ''GS'' griefed) = Some GS_ok" by code_simp
  then obtain r where "getRecord ''GS'' griefed = Some r" "g_state r = GS_ok" by auto
  with accept_gate_exact[OF run, of "''GS''" r 7 9] show ?thesis by simp
qed

text \<open>Excluding an incident re-evaluates the ratio but never lifts an enforcement level, although the
comment at the call says it may unblock the solver; and repeating the exclusion of one incident
discounts a second, different miss.\<close>

theorem exclusion_never_unblocks:
  "\<exists>r'. getRecord addr (excludeIncident cfg addr iid operator now s) = Some r' \<and> g_state (getOrCreate addr s) \<le> g_state r'"
  by (simp add: excludeIncident_def Let_def escalate_state)

theorem exclusion_not_idempotent:
  "map_option window_unfilled (getRecord ''GS''
     (excludeIncident DEFAULT_GRIEFING_CONFIG ''GS'' ''i1'' None 9 (excludeIncident DEFAULT_GRIEFING_CONFIG ''GS'' ''i1'' None 8 griefed2))) = Some 0
   \<and> map_option window_unfilled (getRecord ''GS'' (excludeIncident DEFAULT_GRIEFING_CONFIG ''GS'' ''i1'' None 8 griefed2)) = Some 1"
  by code_simp

end
