(* ===== verification/Solvers.thy ===== *)
theory Solvers
  imports Js_Prelude
begin

text \<open>
  Solver records, penalties and the slash history: \<^verbatim>\<open>src/solvers/solvers.service.ts\<close> over the
  in-memory store of \<^verbatim>\<open>src/solvers/in-memory-solvers.repository.ts\<close>, with the types of
  \<^verbatim>\<open>src/solvers/solvers.types.ts\<close>. The guardian's suspension verdict and the clock (in seconds) are
  arguments; the read cache holds no state of its own and is represented by the count of
  invalidations. Slash records are mutated in place in the source and rewritten in their list here.
\<close>

section \<open>Types\<close>

record solver_inventory_entry =
  inv_token :: string
  inv_chain :: string
  inv_availableAmount :: string

datatype solver_source = Src_api | Src_chain

record solver_record =
  sr_address :: string
  sr_name :: string
  sr_bondAmount :: string
  sr_fillsCompleted :: int
  sr_fillsFailed :: int
  sr_totalVolume :: string
  sr_avgFillTime :: rat
  sr_isActive :: bool
  sr_registeredAt :: int
  sr_lastActiveAt :: int
  sr_supportedChains :: "string list"
  sr_supportedTokens :: "string list"
  sr_inventory :: "solver_inventory_entry list option"
  sr_delegatedSigners :: "string list option"
  sr_referredBy :: "string option"
  sr_source :: "solver_source option"
  sr_chainUpdatedLedger :: "int option"

datatype penalty_state = PN_pending | PN_confirmed | PN_failed

record pending_penalty =
  pn_intentId :: string
  pn_solverAddress :: string
  pn_detectedAt :: int
  pn_state :: penalty_state
  pn_confirmedSlashAmount :: "string option"

datatype dispute_status = DS_none | DS_disputed | DS_upheld | DS_reversed

record slash_dispute =
  sd_submittedAt :: int
  sd_reason :: string
  sd_evidenceReference :: "string option"

record slash_record =
  sl_slashId :: string
  sl_solver :: string
  sl_intentId :: string
  sl_reason :: string
  sl_timestamp :: int
  sl_disputeStatus :: dispute_status
  sl_dispute :: "slash_dispute option"

record mutable_solver_profile =
  mp_name :: "string option"
  mp_avgFillTime :: "rat option"
  mp_supportedChains :: "string list option"
  mp_supportedTokens :: "string list option"

record solvers =
  v_store :: "(string, solver_record) jsmap"
  v_slashHistory :: "(string, slash_record list) jsmap"
  v_pendingPenalties :: "(string, pending_penalty) jsmap"
  v_slashSequence :: nat
  v_invalidations :: nat

definition char_upper :: "char \<Rightarrow> char" where
  "char_upper c = (let n = (of_char c :: nat)
     in if (97 \<le> n \<and> n \<le> 122) \<or> (224 \<le> n \<and> n \<le> 254 \<and> n \<noteq> 247) then char_of (n - 32) else c)"

definition toUpperCase :: "string \<Rightarrow> string" where
  "toUpperCase s = map char_upper s"

definition solverSupports :: "string list \<Rightarrow> string list \<Rightarrow> string \<Rightarrow> string \<Rightarrow> bool" where
  "solverSupports supported tokens chain token =
     (if chain \<notin> set supported \<and> chain \<noteq> ''*'' then False
      else \<exists>t \<in> set tokens. toUpperCase t = toUpperCase token)"

section \<open>Records\<close>

definition findByAddress :: "solvers \<Rightarrow> string \<Rightarrow> solver_record option" where
  "findByAddress v addr = map_of (v_store v) addr"

definition solvers_findAll :: "solvers \<Rightarrow> solver_record list" where
  "solvers_findAll v = js_values (v_store v)"

definition persist :: "solver_record \<Rightarrow> solvers \<Rightarrow> solvers" where
  "persist r v = v\<lparr> v_store := AList.update (sr_address r) r (v_store v), v_invalidations := v_invalidations v + 1 \<rparr>"

definition getActiveForQuote :: "solvers \<Rightarrow> solver_record list" where
  "getActiveForQuote v = filter sr_isActive (solvers_findAll v)"

text \<open>Most writes load the record, change it and persist it, or return nothing.\<close>

definition modify_solver :: "string \<Rightarrow> (solver_record \<Rightarrow> solver_record) \<Rightarrow> solvers \<Rightarrow> solvers \<times> solver_record option" where
  "modify_solver addr f v =
     (case findByAddress v addr of None \<Rightarrow> (v, None) | Some r \<Rightarrow> (persist (f r) v, Some (f r)))"

definition solver_update :: "string \<Rightarrow> mutable_solver_profile \<Rightarrow> solvers \<Rightarrow> solvers \<times> solver_record option" where
  "solver_update addr p = modify_solver addr (\<lambda>r.
     r\<lparr> sr_name := coalesce (mp_name p) (sr_name r), sr_avgFillTime := coalesce (mp_avgFillTime p) (sr_avgFillTime r),
        sr_supportedChains := coalesce (mp_supportedChains p) (sr_supportedChains r),
        sr_supportedTokens := coalesce (mp_supportedTokens p) (sr_supportedTokens r) \<rparr>)"

definition register :: "int \<Rightarrow> solver_record \<Rightarrow> solvers \<Rightarrow> solvers \<times> solver_record" where
  "register now data v =
     (let r = data\<lparr> sr_fillsCompleted := 0, sr_fillsFailed := 0, sr_totalVolume := ''0'', sr_registeredAt := now, sr_lastActiveAt := now \<rparr>
      in (persist r v, r))"

definition deregister :: "int \<Rightarrow> string \<Rightarrow> solvers \<Rightarrow> solvers \<times> solver_record option" where
  "deregister now addr = modify_solver addr (\<lambda>r. r\<lparr> sr_isActive := False, sr_lastActiveAt := now \<rparr>)"

definition markLive :: "int \<Rightarrow> string \<Rightarrow> solvers \<Rightarrow> solvers \<times> solver_record option" where
  "markLive now addr = modify_solver addr (\<lambda>r. r\<lparr> sr_isActive := True, sr_lastActiveAt := now \<rparr>)"

definition markOffline :: "int \<Rightarrow> string \<Rightarrow> solvers \<Rightarrow> solvers \<times> solver_record option" where
  "markOffline now addr = modify_solver addr (\<lambda>r. r\<lparr> sr_isActive := False, sr_lastActiveAt := now \<rparr>)"

definition deactivate :: "int \<Rightarrow> string \<Rightarrow> solvers \<Rightarrow> solvers \<times> solver_record option" where
  "deactivate now addr = modify_solver addr (\<lambda>r. r\<lparr> sr_isActive := False, sr_lastActiveAt := now \<rparr>)"

definition reactivate :: "bool \<Rightarrow> string \<Rightarrow> solvers \<Rightarrow> solvers \<times> solver_record option result" where
  "reactivate suspended addr v =
     (if suspended then (v, Inl (Conflict ''Solver is suspended by an active guardian action''))
      else (let (v', r) = modify_solver addr (\<lambda>r. r\<lparr> sr_isActive := True \<rparr>) v in (v', Inr r)))"

definition registerFromChain :: "int \<Rightarrow> string \<Rightarrow> string \<Rightarrow> string \<Rightarrow> bool \<Rightarrow> string list \<Rightarrow> string list \<Rightarrow> int
    \<Rightarrow> solvers \<Rightarrow> solvers \<times> solver_record" where
  "registerFromChain now addr bondAmount name isActive supported tokens ledger v =
     (let r = \<lparr> sr_address = addr, sr_name = name, sr_bondAmount = bondAmount, sr_fillsCompleted = 0, sr_fillsFailed = 0,
                sr_totalVolume = ''0'', sr_avgFillTime = 0, sr_isActive = isActive, sr_registeredAt = now, sr_lastActiveAt = now,
                sr_supportedChains = supported, sr_supportedTokens = tokens, sr_inventory = None, sr_delegatedSigners = None,
                sr_referredBy = None, sr_source = Some Src_chain, sr_chainUpdatedLedger = Some ledger \<rparr>
      in (persist r v, r))"

record chain_update =
  cu_bondAmount :: "string option"
  cu_isActive :: "bool option"
  cu_source :: "solver_source option"
  cu_chainUpdatedLedger :: "int option"

definition applyChainUpdate :: "int \<Rightarrow> string \<Rightarrow> chain_update \<Rightarrow> solvers \<Rightarrow> solvers \<times> solver_record option" where
  "applyChainUpdate now addr u = modify_solver addr (\<lambda>r.
     r\<lparr> sr_bondAmount := coalesce (cu_bondAmount u) (sr_bondAmount r), sr_isActive := coalesce (cu_isActive u) (sr_isActive r),
        sr_source := (case cu_source u of None \<Rightarrow> sr_source r | Some x \<Rightarrow> Some x),
        sr_chainUpdatedLedger := (case cu_chainUpdatedLedger u of None \<Rightarrow> sr_chainUpdatedLedger r | Some l \<Rightarrow> Some l),
        sr_lastActiveAt := now \<rparr>)"

section \<open>Fills and penalties\<close>

definition added_volume :: "string \<Rightarrow> string option \<Rightarrow> string" where
  "added_volume volume fillAmount =
     (case fillAmount of
        None \<Rightarrow> volume
      | Some a \<Rightarrow> (case (BigInt volume, BigInt a) of (Some x, Some y) \<Rightarrow> toString (x + y) | _ \<Rightarrow> volume))"

definition recordSuccessfulFill :: "int \<Rightarrow> string \<Rightarrow> string option \<Rightarrow> solvers \<Rightarrow> solvers \<times> solver_record option" where
  "recordSuccessfulFill now addr fillAmount = modify_solver addr (\<lambda>r.
     r\<lparr> sr_fillsCompleted := sr_fillsCompleted r + 1, sr_totalVolume := added_volume (sr_totalVolume r) fillAmount,
        sr_lastActiveAt := now \<rparr>)"

definition recordFailedFill :: "int \<Rightarrow> string \<Rightarrow> string \<Rightarrow> solvers \<Rightarrow> solvers \<times> solver_record option" where
  "recordFailedFill now addr iid v =
     (case modify_solver addr (\<lambda>r. r\<lparr> sr_fillsFailed := sr_fillsFailed r + 1 \<rparr>) v of
        (v1, None) \<Rightarrow> (v1, None)
      | (v1, Some saved) \<Rightarrow>
          (v1\<lparr> v_pendingPenalties := AList.update iid \<lparr> pn_intentId = iid, pn_solverAddress = addr, pn_detectedAt = now,
                 pn_state = PN_pending, pn_confirmedSlashAmount = None \<rparr> (v_pendingPenalties v1) \<rparr>, Some saved))"

definition confirmPenalty :: "string \<Rightarrow> string \<Rightarrow> solvers \<Rightarrow> solvers \<times> solver_record option result" where
  "confirmPenalty iid slashAmount v =
     (case map_of (v_pendingPenalties v) iid of
        None \<Rightarrow> (v, Inr None)
      | Some penalty \<Rightarrow>
          if pn_state penalty \<noteq> PN_pending then (v, Inr None)
          else (case findByAddress v (pn_solverAddress penalty) of
                  None \<Rightarrow> (v, Inr None)
                | Some r \<Rightarrow>
                    (case (BigInt (sr_bondAmount r), BigInt slashAmount) of
                       (Some current, Some slash) \<Rightarrow>
                         (let newBond = (if current > slash then current - slash else 0);
                              updated = r\<lparr> sr_bondAmount := toString newBond \<rparr>;
                              v1 = persist updated v
                          in (v1\<lparr> v_pendingPenalties := AList.update iid
                                    (penalty\<lparr> pn_state := PN_confirmed, pn_confirmedSlashAmount := Some slashAmount \<rparr>)
                                    (v_pendingPenalties v1) \<rparr>, Inr (Some updated)))
                     | _ \<Rightarrow> (v, Inl SyntaxError))))"

definition undo_failed :: "solver_record \<Rightarrow> solver_record" where
  "undo_failed r = r\<lparr> sr_fillsFailed := max 0 (sr_fillsFailed r - 1) \<rparr>"

definition rollbackPenalty :: "string \<Rightarrow> string option \<Rightarrow> solvers \<Rightarrow> solvers \<times> solver_record option" where
  "rollbackPenalty iid solverAddress v =
     (case map_of (v_pendingPenalties v) iid of
        None \<Rightarrow>
          (case solverAddress of
             Some a \<Rightarrow> if a = '''' then (v, None) else modify_solver a undo_failed v
           | None \<Rightarrow> (v, None))
      | Some penalty \<Rightarrow>
          if pn_state penalty \<noteq> PN_pending then (v, None)
          else (case modify_solver (pn_solverAddress penalty) undo_failed v of
                  (v1, None) \<Rightarrow> (v1, None)
                | (v1, Some saved) \<Rightarrow>
                    (v1\<lparr> v_pendingPenalties := AList.update iid (penalty\<lparr> pn_state := PN_failed \<rparr>) (v_pendingPenalties v1) \<rparr>,
                     Some saved)))"

section \<open>Slash history and disputes\<close>

definition history_of :: "solvers \<Rightarrow> string \<Rightarrow> slash_record list" where
  "history_of v addr = coalesce (map_of (v_slashHistory v) addr) []"

definition recordSlash :: "string \<Rightarrow> string \<Rightarrow> string \<Rightarrow> int \<Rightarrow> solvers \<Rightarrow> solvers \<times> slash_record option" where
  "recordSlash addr iid reason timestamp v =
     (case findByAddress v addr of
        None \<Rightarrow> (v, None)
      | Some _ \<Rightarrow>
          (let n = v_slashSequence v + 1;
               rec = \<lparr> sl_slashId = ''slash-'' @ nat_to_string n, sl_solver = addr, sl_intentId = iid, sl_reason = reason,
                       sl_timestamp = timestamp, sl_disputeStatus = DS_none, sl_dispute = None \<rparr>
           in (v\<lparr> v_slashSequence := n, v_slashHistory := AList.update addr (history_of v addr @ [rec]) (v_slashHistory v) \<rparr>,
               Some rec)))"

record slash_page =
  sp_records :: "slash_record list"
  sp_page :: int
  sp_pageSize :: int
  sp_total :: nat

definition getSlashHistory :: "string \<Rightarrow> int \<Rightarrow> int \<Rightarrow> solvers \<Rightarrow> slash_page" where
  "getSlashHistory addr page pageSize v =
     (let sorted = sort_key (\<lambda>r. - sl_timestamp r) (history_of v addr); start = (page - 1) * pageSize
      in \<lparr> sp_records = js_slice start (start + pageSize) sorted, sp_page = page, sp_pageSize = pageSize, sp_total = length sorted \<rparr>)"

fun search_slash :: "string \<Rightarrow> slash_record list list \<Rightarrow> slash_record option" where
  "search_slash sid [] = None"
| "search_slash sid (rs # rest) =
     (case List.find (\<lambda>e. sl_slashId e = sid) rs of Some f \<Rightarrow> Some f | None \<Rightarrow> search_slash sid rest)"

definition getSlash :: "string \<Rightarrow> solvers \<Rightarrow> slash_record option" where
  "getSlash sid v = search_slash sid (js_values (v_slashHistory v))"

text \<open>In-place change of the first record with the given id.\<close>

fun change_first :: "string \<Rightarrow> (slash_record \<Rightarrow> slash_record) \<Rightarrow> slash_record list \<Rightarrow> slash_record list" where
  "change_first sid f [] = []"
| "change_first sid f (r # rs) = (if sl_slashId r = sid then f r # rs else r # change_first sid f rs)"

definition change_slash :: "string \<Rightarrow> string \<Rightarrow> (slash_record \<Rightarrow> slash_record) \<Rightarrow> solvers \<Rightarrow> solvers \<times> slash_record option" where
  "change_slash addr sid f v =
     (case List.find (\<lambda>e. sl_slashId e = sid) (history_of v addr) of
        None \<Rightarrow> (v, None)
      | Some r \<Rightarrow> (v\<lparr> v_slashHistory := AList.update addr (change_first sid f (history_of v addr)) (v_slashHistory v) \<rparr>, Some (f r)))"

definition submitDispute :: "int \<Rightarrow> string \<Rightarrow> string \<Rightarrow> string \<Rightarrow> string option \<Rightarrow> solvers \<Rightarrow> solvers \<times> slash_record option" where
  "submitDispute now addr sid reason evidence = change_slash addr sid (\<lambda>r.
     r\<lparr> sl_disputeStatus := DS_disputed,
        sl_dispute := Some \<lparr> sd_submittedAt = now, sd_reason = reason, sd_evidenceReference = evidence \<rparr> \<rparr>)"

definition resolveDispute :: "int \<Rightarrow> string \<Rightarrow> string \<Rightarrow> dispute_status \<Rightarrow> string option \<Rightarrow> string option
    \<Rightarrow> solvers \<Rightarrow> solvers \<times> slash_record option" where
  "resolveDispute now addr sid resolution reviewer note = change_slash addr sid (\<lambda>r.
     r\<lparr> sl_disputeStatus := resolution,
        sl_dispute := (case sl_dispute r of
            Some d \<Rightarrow> Some d
          | None \<Rightarrow> Some \<lparr> sd_submittedAt = now, sd_reason = coalesce note ''manual review'',
                            sd_evidenceReference = (case reviewer of None \<Rightarrow> None
                               | Some w \<Rightarrow> if w = '''' then None else Some (''reviewer:'' @ w)) \<rparr>) \<rparr>)"

section \<open>Invariant\<close>

definition slash_id :: "nat \<Rightarrow> string" where
  "slash_id n = ''slash-'' @ nat_to_string n"

definition history_ok :: "solvers \<Rightarrow> bool" where
  "history_ok v \<longleftrightarrow> (\<forall>a. distinct (map sl_slashId (history_of v a)))
     \<and> (\<forall>a r. r \<in> set (history_of v a) \<longrightarrow> (\<exists>n \<le> v_slashSequence v. sl_slashId r = slash_id n))
     \<and> (\<forall>a b r r'. r \<in> set (history_of v a) \<longrightarrow> r' \<in> set (history_of v b) \<longrightarrow> sl_slashId r = sl_slashId r' \<longrightarrow> a = b)"

definition solvers_inv :: "solvers \<Rightarrow> bool" where
  "solvers_inv v \<longleftrightarrow> wf_map (v_slashHistory v) \<and> history_ok v \<and> (\<forall>a r. findByAddress v a = Some r \<longrightarrow> sr_address r = a)"

text \<open>The steps; a missed fill of an intent in \<open>K\<close> is not recorded again.\<close>

inductive solver_step :: "string set \<Rightarrow> solvers \<Rightarrow> solvers \<Rightarrow> bool" for K where
  sv_update: "solver_step K v (fst (solver_update addr p v))"
| sv_register: "solver_step K v (fst (register now data v))"
| sv_deregister: "solver_step K v (fst (deregister now addr v))"
| sv_live: "solver_step K v (fst (markLive now addr v))"
| sv_offline: "solver_step K v (fst (markOffline now addr v))"
| sv_deactivate: "solver_step K v (fst (deactivate now addr v))"
| sv_reactivate: "solver_step K v (fst (reactivate suspended addr v))"
| sv_fromChain: "solver_step K v (fst (registerFromChain now addr bond name act chs toks ledger v))"
| sv_chainUpdate: "solver_step K v (fst (applyChainUpdate now addr u v))"
| sv_success: "solver_step K v (fst (recordSuccessfulFill now addr amt v))"
| sv_failed: "iid \<notin> K \<Longrightarrow> solver_step K v (fst (recordFailedFill now addr iid v))"
| sv_confirm: "solver_step K v (fst (confirmPenalty iid amt' v))"
| sv_rollback: "solver_step K v (fst (rollbackPenalty iid fallback v))"
| sv_slash: "solver_step K v (fst (recordSlash addr iid reason ts v))"
| sv_dispute: "solver_step K v (fst (submitDispute now addr sid reason evidence v))"
| sv_resolve: "solver_step K v (fst (resolveDispute now addr sid resolution reviewer note v))"

lemma modify_penalties [simp]: "v_pendingPenalties (fst (modify_solver addr f v)) = v_pendingPenalties v"
  by (simp add: modify_solver_def persist_def split: option.split)

lemma modify_history [simp]: "v_slashHistory (fst (modify_solver addr f v)) = v_slashHistory v"
  "v_slashSequence (fst (modify_solver addr f v)) = v_slashSequence v"
  by (simp_all add: modify_solver_def persist_def split: option.split)

lemma persist_history [simp]: "v_slashHistory (persist r v) = v_slashHistory v" "v_slashSequence (persist r v) = v_slashSequence v"
  by (simp_all add: persist_def)

lemma persist_find [simp]: "findByAddress (persist r v) a = (if a = sr_address r then Some r else findByAddress v a)"
  by (simp add: findByAddress_def persist_def)

lemma history_cong:
  "v_slashHistory v' = v_slashHistory v \<Longrightarrow> v_slashSequence v' = v_slashSequence v
     \<Longrightarrow> (\<And>a r. findByAddress v' a = Some r \<Longrightarrow> sr_address r = a) \<Longrightarrow> solvers_inv v \<Longrightarrow> solvers_inv v'"
  by (simp add: solvers_inv_def history_ok_def history_of_def)

lemma modify_inv:
  assumes "solvers_inv v" and "\<And>r. sr_address (f r) = sr_address r"
  shows "solvers_inv (fst (modify_solver addr f v))"
  using assms by (intro history_cong[OF _ _ _ assms(1)])
    (auto simp: modify_solver_def solvers_inv_def split: option.splits if_splits)

lemma persist_inv: "solvers_inv v \<Longrightarrow> solvers_inv (persist r v)"
  by (rule history_cong) (auto simp: solvers_inv_def split: if_splits)

lemma penalties_inv: "solvers_inv v \<Longrightarrow> solvers_inv (v\<lparr> v_pendingPenalties := x \<rparr>)"
  by (rule history_cong) (auto simp: solvers_inv_def findByAddress_def)

lemma slash_id_inj: "slash_id m = slash_id n \<Longrightarrow> m = n"
  using toString_inject[of "int m" "int n"] by (simp add: slash_id_def toString_def)

lemma recordSlash_inv:
  assumes "solvers_inv v"
  shows "solvers_inv (fst (recordSlash addr iid reason ts v))"
proof (cases "findByAddress v addr")
  case (Some x)
  let ?v = "fst (recordSlash addr iid reason ts v)"
  have fresh: "sl_slashId r \<noteq> slash_id (Suc (v_slashSequence v))" if "r \<in> set (history_of v a)" for a r
  proof -
    obtain n where "n \<le> v_slashSequence v" "sl_slashId r = slash_id n"
      using assms \<open>r \<in> set (history_of v a)\<close> unfolding solvers_inv_def history_ok_def by blast
    then show ?thesis using slash_id_inj[of n "Suc (v_slashSequence v)"] by auto
  qed
  define rec where "rec = \<lparr> sl_slashId = slash_id (Suc (v_slashSequence v)), sl_solver = addr, sl_intentId = iid, sl_reason = reason,
                       sl_timestamp = ts, sl_disputeStatus = DS_none, sl_dispute = None \<rparr>"
  then have rec: "sl_slashId rec = slash_id (Suc (v_slashSequence v))" by simp
  have h: "history_of ?v a = (if a = addr then history_of v a @ [rec] else history_of v a)" for a
    using Some by (simp add: recordSlash_def Let_def history_of_def slash_id_def rec_def)
  have sq: "v_slashSequence ?v = Suc (v_slashSequence v)" and st: "v_store ?v = v_store v"
    and wf: "wf_map (v_slashHistory ?v)"
    using Some assms by (simp_all add: recordSlash_def Let_def solvers_inv_def)
  have old: "history_ok v" using assms by (simp add: solvers_inv_def)
  have "history_ok ?v"
    unfolding history_ok_def h sq
  proof (intro conjI allI impI)
    fix a b r r'
    show "distinct (map sl_slashId (if a = addr then history_of v a @ [rec] else history_of v a))"
      using old fresh[of _ a] rec unfolding history_ok_def by (auto simp: image_iff) metis
    assume r: "r \<in> set (if a = addr then history_of v a @ [rec] else history_of v a)"
    then have or: "r \<in> set (history_of v a) \<or> a = addr \<and> r = rec" by (auto split: if_splits)
    then show "\<exists>n \<le> Suc (v_slashSequence v). sl_slashId r = slash_id n"
      using old rec unfolding history_ok_def by (metis le_SucI order_refl)
    assume r': "r' \<in> set (if b = addr then history_of v b @ [rec] else history_of v b)" and eq: "sl_slashId r = sl_slashId r'"
    then have "r' \<in> set (history_of v b) \<or> b = addr \<and> r' = rec" by (auto split: if_splits)
    with or show "a = b"
      using old rec fresh eq unfolding history_ok_def by metis
  qed
  then show ?thesis using assms wf by (simp add: solvers_inv_def findByAddress_def st)
qed (use assms in \<open>simp add: recordSlash_def\<close>)

lemma change_slash_ids:
  assumes "\<And>r. sl_slashId (f r) = sl_slashId r"
  shows "map sl_slashId (change_first sid f rs) = map sl_slashId rs"
  using assms by (induction rs) auto

lemma change_slash_history:
  assumes "\<And>r. sl_slashId (f r) = sl_slashId r"
  shows "map sl_slashId (history_of (fst (change_slash addr sid f v)) a) = map sl_slashId (history_of v a)"
  using change_slash_ids[OF assms] by (auto simp: change_slash_def history_of_def split: option.split)

lemma history_ok_ids:
  assumes "\<And>a. map sl_slashId (history_of v' a) = map sl_slashId (history_of v a)" and "v_slashSequence v' = v_slashSequence v"
    and "history_ok v"
  shows "history_ok v'"
proof -
  have ids: "sl_slashId ` set (history_of v' a) = sl_slashId ` set (history_of v a)" for a
    using arg_cong[OF assms(1), of set a] by simp
  have ex: "\<exists>r0 \<in> set (history_of v a). sl_slashId r0 = sl_slashId r" if "r \<in> set (history_of v' a)" for a r
    using ids[of a] that by (metis imageE image_eqI)
  show ?thesis
    using assms(3) ex unfolding history_ok_def assms(1,2) by metis
qed

lemma change_slash_inv:
  assumes "solvers_inv v" and "\<And>r. sl_slashId (f r) = sl_slashId r"
  shows "solvers_inv (fst (change_slash addr sid f v))"
proof -
  have "history_ok (fst (change_slash addr sid f v))"
    by (rule history_ok_ids[OF change_slash_history[OF assms(2)]])
      (use assms(1) in \<open>auto simp: solvers_inv_def change_slash_def split: option.split\<close>)
  then show ?thesis
    using assms(1) by (auto simp: solvers_inv_def change_slash_def findByAddress_def split: option.split)
qed

lemmas profile_writes = solver_update_def deregister_def markLive_def markOffline_def deactivate_def applyChainUpdate_def
  recordSuccessfulFill_def

lemma recordFailedFill_unfold:
  "fst (recordFailedFill now addr iid v) =
     (let v1 = fst (modify_solver addr (\<lambda>r. r\<lparr> sr_fillsFailed := sr_fillsFailed r + 1 \<rparr>) v)
      in case findByAddress v addr of
           None \<Rightarrow> v1
         | Some _ \<Rightarrow> v1\<lparr> v_pendingPenalties := AList.update iid \<lparr> pn_intentId = iid, pn_solverAddress = addr, pn_detectedAt = now,
                          pn_state = PN_pending, pn_confirmedSlashAmount = None \<rparr> (v_pendingPenalties v1) \<rparr>)"
  by (simp add: recordFailedFill_def modify_solver_def Let_def split: option.split)

lemma solver_step_inv: "solver_step K v v' \<Longrightarrow> solvers_inv v \<Longrightarrow> solvers_inv v'"
proof (induction rule: solver_step.induct)
  case (sv_failed iid v now addr)
  then show ?case
    unfolding recordFailedFill_unfold Let_def by (auto split: option.split intro!: modify_inv penalties_inv)
next
  case (sv_confirm v iid amt')
  then show ?case
    by (auto simp: confirmPenalty_def Let_def split: option.split intro!: persist_inv penalties_inv)
next
  case (sv_rollback v iid fallback)
  have u: "sr_address (undo_failed r) = sr_address r" for r by (simp add: undo_failed_def)
  from sv_rollback show ?case
    using modify_inv[OF sv_rollback u]
    by (auto simp: rollbackPenalty_def split: option.split prod.split intro!: penalties_inv) (metis fst_conv)+
next
  case (sv_reactivate v suspended addr)
  then show ?case by (simp add: reactivate_def Let_def case_prod_unfold modify_inv)
next
  case (sv_register v now data)
  then show ?case by (simp add: register_def Let_def persist_inv)
next
  case (sv_fromChain v now addr bond name act chs toks ledger)
  then show ?case by (simp add: registerFromChain_def Let_def persist_inv)
next
  case (sv_dispute v now addr sid reason evidence)
  then show ?case by (simp add: submitDispute_def change_slash_inv)
next
  case (sv_resolve v now addr sid resolution reviewer remark)
  then show ?case by (simp add: resolveDispute_def change_slash_inv)
qed (simp_all add: profile_writes modify_inv recordSlash_inv)

definition penalty_edge :: "penalty_state \<Rightarrow> penalty_state \<Rightarrow> bool" where
  "penalty_edge a b \<longleftrightarrow> a = PN_pending \<and> b \<noteq> PN_pending"

definition penalty_status :: "string set \<Rightarrow> solvers \<Rightarrow> string \<Rightarrow> penalty_state option" where
  "penalty_status K v iid = (if iid \<in> K then map_option pn_state (map_of (v_pendingPenalties v) iid) else None)"

lemma status_cong: "v_pendingPenalties v' = v_pendingPenalties v \<Longrightarrow> penalty_status K v' k = penalty_status K v k"
  by (simp add: penalty_status_def)

lemma edge_pending: "b \<noteq> PN_pending \<Longrightarrow> penalty_edge\<^sup>*\<^sup>* PN_pending b"
  by (simp add: penalty_edge_def r_into_rtranclp)

lemma change_penalties [simp]: "v_pendingPenalties (fst (change_slash addr sid f v)) = v_pendingPenalties v"
  by (simp add: change_slash_def split: option.split)

lemma persist_penalties [simp]: "v_pendingPenalties (persist r v) = v_pendingPenalties v"
  by (simp add: persist_def)

lemma rollback_penalties:
  "v_pendingPenalties (fst (rollbackPenalty iid fb v)) = v_pendingPenalties v
   \<or> (\<exists>p. map_of (v_pendingPenalties v) iid = Some p \<and> pn_state p = PN_pending
        \<and> v_pendingPenalties (fst (rollbackPenalty iid fb v)) = AList.update iid (p\<lparr> pn_state := PN_failed \<rparr>) (v_pendingPenalties v))"
  by (auto simp: rollbackPenalty_def modify_solver_def split: option.split)

lemma confirm_penalties:
  "v_pendingPenalties (fst (confirmPenalty iid amt v)) = v_pendingPenalties v
   \<or> (\<exists>p. map_of (v_pendingPenalties v) iid = Some p \<and> pn_state p = PN_pending
        \<and> v_pendingPenalties (fst (confirmPenalty iid amt v)) = AList.update iid
            (p\<lparr> pn_state := PN_confirmed, pn_confirmedSlashAmount := Some amt \<rparr>) (v_pendingPenalties v))"
  by (auto simp: confirmPenalty_def Let_def split: option.split)

lemma solver_step_edge:
  assumes "solver_step K v v'" and "penalty_status K v k = Some a"
  shows "\<exists>b. penalty_status K v' k = Some b \<and> penalty_edge\<^sup>*\<^sup>* a b"
  using assms
proof (induction rule: solver_step.induct)
  case (sv_failed iid v now addr)
  then have "penalty_status K (fst (recordFailedFill now addr iid v)) k = penalty_status K v k"
    by (auto simp: recordFailedFill_unfold Let_def penalty_status_def split: option.split if_splits)
  then show ?case using sv_failed by auto
next
  case (sv_confirm v iid amt')
  then show ?case
    using confirm_penalties[of iid amt' v] by (auto simp: penalty_status_def intro!: edge_pending split: if_splits)
next
  case (sv_rollback v iid fallback)
  then show ?case
    using rollback_penalties[of iid fallback v] by (auto simp: penalty_status_def intro!: edge_pending split: if_splits)
next
  case (sv_slash v addr iid reason ts)
  then show ?case by (auto simp: recordSlash_def Let_def penalty_status_def split: option.split if_splits)
qed (auto simp: profile_writes reactivate_def case_prod_unfold register_def registerFromChain_def submitDispute_def
  resolveDispute_def Let_def penalty_status_def split: if_splits)

interpretation solver_runs: status_system "solver_step K" solvers_inv "penalty_status K" penalty_edge
  for K
  by unfold_locales (rule solver_step_inv, assumption+, rule solver_step_edge)

section \<open>Properties\<close>

text \<open>The lookup by id, in terms of the histories.\<close>

lemma search_slash_Some: "search_slash sid rss = Some r \<Longrightarrow> \<exists>rs \<in> set rss. r \<in> set rs \<and> sl_slashId r = sid"
  by (induction rss) (auto simp: find_Some_iff split: option.splits)

lemma search_slash_None: "search_slash sid rss = None \<Longrightarrow> rs \<in> set rss \<Longrightarrow> r \<in> set rs \<Longrightarrow> sl_slashId r \<noteq> sid"
  by (induction rss) (auto simp: find_None_iff split: option.splits)

lemma history_values:
  "wf_map (v_slashHistory v) \<Longrightarrow> (\<exists>rs \<in> set (js_values (v_slashHistory v)). r \<in> set rs) \<longleftrightarrow> (\<exists>a. r \<in> set (history_of v a))"
proof -
  assume wf: "wf_map (v_slashHistory v)"
  have "r \<in> set (history_of v a) \<longleftrightarrow> (\<exists>rs. map_of (v_slashHistory v) a = Some rs \<and> r \<in> set rs)" for a
    by (cases "map_of (v_slashHistory v) a") (simp_all add: history_of_def)
  then show ?thesis using mem_js_values[OF wf] by blast
qed

lemma getSlash_iff:
  assumes "solvers_inv v"
  shows "getSlash sid v = Some r \<longleftrightarrow> (\<exists>a. r \<in> set (history_of v a)) \<and> sl_slashId r = sid"
proof -
  have wf: "wf_map (v_slashHistory v)" and ok: "history_ok v" using assms by (auto simp: solvers_inv_def)
  have uniq: "r = r'" if "r \<in> set (history_of v a)" "r' \<in> set (history_of v b)" "sl_slashId r = sl_slashId r'" for r r' a b
  proof -
    have "a = b" "distinct (map sl_slashId (history_of v a))" using ok that unfolding history_ok_def by blast+
    then show ?thesis using that by (auto simp: distinct_map inj_on_def)
  qed
  show ?thesis
  proof (cases "search_slash sid (js_values (v_slashHistory v))")
    case None
    then show ?thesis using search_slash_None[OF None] history_values[OF wf, of r] by (auto simp: getSlash_def)
  next
    case (Some x)
    then have "(\<exists>a. x \<in> set (history_of v a)) \<and> sl_slashId x = sid"
      using search_slash_Some[OF Some] history_values[OF wf, of x] by blast
    then show ?thesis using Some uniq unfolding getSlash_def by auto
  qed
qed

definition emptySolvers :: solvers where
  "emptySolvers = \<lparr> v_store = [], v_slashHistory = [], v_pendingPenalties = [], v_slashSequence = 0, v_invalidations = 0 \<rparr>"

lemma emptySolvers_inv: "solvers_inv emptySolvers"
  by (simp add: solvers_inv_def history_ok_def emptySolvers_def history_of_def findByAddress_def)

text \<open>Slash identifiers identify: in every reachable state, recording a slash against a registered
solver issues an identifier no earlier slash has, the new slash is found under it, and every slash
recorded before, of whichever solver, is still found unchanged under its own identifier.\<close>

theorem slash_ids_identify:
  assumes "(solver_step {})\<^sup>*\<^sup>* emptySolvers v" and "findByAddress v addr \<noteq> None"
  shows "\<exists>rec. snd (recordSlash addr iid reason ts v) = Some rec
       \<and> getSlash (sl_slashId rec) v = None
       \<and> getSlash (sl_slashId rec) (fst (recordSlash addr iid reason ts v)) = Some rec
       \<and> (\<forall>sid r. getSlash sid v = Some r \<longrightarrow> getSlash sid (fst (recordSlash addr iid reason ts v)) = Some r)"
proof -
  have inv: "solvers_inv v" by (rule solver_runs.run_inv[OF assms(1) emptySolvers_inv])
  let ?v = "fst (recordSlash addr iid reason ts v)"
  have inv': "solvers_inv ?v" by (rule recordSlash_inv[OF inv])
  obtain rec where rec: "snd (recordSlash addr iid reason ts v) = Some rec" "sl_slashId rec = slash_id (Suc (v_slashSequence v))"
    using assms(2) by (auto simp: recordSlash_def Let_def slash_id_def)
  have h: "history_of ?v a = (if a = addr then history_of v a @ [rec] else history_of v a)" for a
    using assms(2) rec(1) by (auto simp: recordSlash_def Let_def history_of_def)
  have "getSlash (sl_slashId rec) v = None"
  proof (rule ccontr)
    assume "getSlash (sl_slashId rec) v \<noteq> None"
    then obtain r a where r: "r \<in> set (history_of v a)" "sl_slashId r = sl_slashId rec" using getSlash_iff[OF inv] by auto
    then obtain n where "n \<le> v_slashSequence v" "sl_slashId r = slash_id n"
      using inv unfolding solvers_inv_def history_ok_def by blast
    then show False using r(2) rec(2) slash_id_inj[of n "Suc (v_slashSequence v)"] by simp
  qed
  moreover have "getSlash (sl_slashId rec) ?v = Some rec" unfolding getSlash_iff[OF inv'] h by (auto intro: exI[of _ addr])
  moreover have "getSlash sid ?v = Some r" if "getSlash sid v = Some r" for sid r
    using that unfolding getSlash_iff[OF inv] getSlash_iff[OF inv'] h by auto
  ultimately show ?thesis using rec(1) by blast
qed

definition sample_solver :: "string \<Rightarrow> solver_record" where
  "sample_solver addr = \<lparr> sr_address = addr, sr_name = ''s'', sr_bondAmount = ''100'', sr_fillsCompleted = 0, sr_fillsFailed = 0,
     sr_totalVolume = ''0'', sr_avgFillTime = 0, sr_isActive = True, sr_registeredAt = 0, sr_lastActiveAt = 0,
     sr_supportedChains = [''base''], sr_supportedTokens = [''USDC''], sr_inventory = None, sr_delegatedSigners = None,
     sr_referredBy = None, sr_source = Some Src_api, sr_chainUpdatedLedger = None \<rparr>"

definition two_solvers :: solvers where
  "two_solvers = fst (register 1 (sample_solver ''GB'') (fst (register 1 (sample_solver ''GA'') emptySolvers)))"

lemma solvers_snoc: "(solver_step K)\<^sup>*\<^sup>* s s' \<Longrightarrow> solver_step K s' s'' \<Longrightarrow> (solver_step K)\<^sup>*\<^sup>* s s''"
  by (rule rtranclp.rtrancl_into_rtrancl)

lemma two_solvers_run: "(solver_step {})\<^sup>*\<^sup>* emptySolvers two_solvers"
  unfolding two_solvers_def by (intro solvers_snoc[OF _ sv_register] rtranclp.rtrancl_refl)

theorem slash_ids_identify_witness:
  "\<exists>rec. snd (recordSlash ''GA'' ''i1'' ''late'' 9 two_solvers) = Some rec
     \<and> getSlash (sl_slashId rec) (fst (recordSlash ''GA'' ''i1'' ''late'' 9 two_solvers)) = Some rec"
proof -
  have "map_option sr_address (findByAddress two_solvers ''GA'') = Some ''GA''" by code_simp
  then have "findByAddress two_solvers ''GA'' \<noteq> None" by auto
  from slash_ids_identify[OF two_solvers_run this] show ?thesis by blast
qed

text \<open>A penalty is enforced or compensated once: once the penalty of an intent is confirmed or rolled
back, no later operation, short of recording the same intent's miss anew, can confirm it or roll
it back again: both leave the whole service unchanged and return nothing, so the bond is cut at
most once and the failure counter restored at most once.\<close>

theorem penalty_settles_once:
  assumes "solvers_inv v" and "map_of (v_pendingPenalties v) iid = Some p" and "pn_state p \<noteq> PN_pending"
    and "(solver_step {iid})\<^sup>*\<^sup>* v v'"
  shows "confirmPenalty iid amt v' = (v', Inr None) \<and> rollbackPenalty iid fallback v' = (v', None)"
proof -
  have "penalty_status {iid} v' iid = Some (pn_state p)"
    using solver_runs.sink_forever[OF assms(4,1), of iid "pn_state p"] assms(2,3) by (auto simp: penalty_status_def penalty_edge_def)
  then obtain p' where "map_of (v_pendingPenalties v') iid = Some p'" "pn_state p' = pn_state p"
    by (auto simp: penalty_status_def)
  then show ?thesis using assms(3) by (simp add: confirmPenalty_def rollbackPenalty_def)
qed

definition penalised :: solvers where
  "penalised = fst (confirmPenalty ''i1'' ''30'' (fst (recordFailedFill 5 ''GA'' ''i1'' two_solvers)))"

theorem penalty_settles_once_witness:
  "confirmPenalty ''i1'' ''30'' (fst (recordSuccessfulFill 9 ''GA'' (Some ''7'') penalised))
     = (fst (recordSuccessfulFill 9 ''GA'' (Some ''7'') penalised), Inr None)"
proof -
  have "(solver_step {})\<^sup>*\<^sup>* emptySolvers penalised"
    unfolding penalised_def by (intro solvers_snoc[OF _ sv_confirm] solvers_snoc[OF _ sv_failed] two_solvers_run) simp
  then have inv: "solvers_inv penalised" by (rule solver_runs.run_inv[OF _ emptySolvers_inv])
  have "map_option pn_state (map_of (v_pendingPenalties penalised) ''i1'') = Some PN_confirmed" by code_simp
  then obtain p where "map_of (v_pendingPenalties penalised) ''i1'' = Some p" "pn_state p \<noteq> PN_pending" by auto
  from penalty_settles_once[OF inv this r_into_rtranclp, OF sv_success] show ?thesis by blast
qed

text \<open>Compensation is exact: rolling back the penalty just recorded for a registered solver restores
every solver record to what it was; confirming it instead takes the slashed amount from that
solver's bond, stopping at zero, and touches no other record.\<close>

theorem penalty_effects:
  assumes "solvers_inv v" and "findByAddress v addr = Some r" and "0 \<le> sr_fillsFailed r"
    and "BigInt (sr_bondAmount r) = Some b" and "BigInt amt = Some x" and "0 \<le> b" and "0 \<le> x"
  shows "findByAddress (fst (rollbackPenalty iid fallback (fst (recordFailedFill now addr iid v)))) = findByAddress v
       \<and> findByAddress (fst (confirmPenalty iid amt (fst (recordFailedFill now addr iid v)))) =
           (findByAddress v)(addr \<mapsto> r\<lparr> sr_fillsFailed := sr_fillsFailed r + 1, sr_bondAmount := toString (max 0 (b - x)) \<rparr>)"
proof -
  let ?v1 = "fst (recordFailedFill now addr iid v)"
  let ?r1 = "r\<lparr> sr_fillsFailed := sr_fillsFailed r + 1 \<rparr>"
  have addr: "sr_address r = addr" using assms(1,2) by (auto simp: solvers_inv_def)
  have f1: "findByAddress ?v1 = (findByAddress v)(addr \<mapsto> ?r1)"
    using assms(2) addr by (auto simp: recordFailedFill_def modify_solver_def findByAddress_def persist_def)
  have p1: "map_of (v_pendingPenalties ?v1) iid = Some \<lparr> pn_intentId = iid, pn_solverAddress = addr, pn_detectedAt = now,
                 pn_state = PN_pending, pn_confirmedSlashAmount = None \<rparr>"
    using assms(2) by (simp add: recordFailedFill_def modify_solver_def)
  have "findByAddress (fst (rollbackPenalty iid fallback ?v1)) = findByAddress v"
    using f1 p1 assms(2,3) addr
    by (auto simp: rollbackPenalty_def modify_solver_def undo_failed_def fun_eq_iff findByAddress_def persist_def)
  moreover have "findByAddress (fst (confirmPenalty iid amt ?v1)) =
      (findByAddress v)(addr \<mapsto> ?r1\<lparr> sr_bondAmount := toString (max 0 (b - x)) \<rparr>)"
    using f1 p1 assms(4-7) addr
    by (auto simp: confirmPenalty_def Let_def fun_eq_iff findByAddress_def persist_def max_def)
  ultimately show ?thesis by simp
qed

theorem penalty_effects_witness:
  "findByAddress (fst (rollbackPenalty ''i1'' None (fst (recordFailedFill 5 ''GA'' ''i1'' two_solvers)))) = findByAddress two_solvers"
proof -
  have inv: "solvers_inv two_solvers" by (rule solver_runs.run_inv[OF two_solvers_run emptySolvers_inv])
  have "map_option (\<lambda>r. (sr_fillsFailed r, sr_bondAmount r)) (findByAddress two_solvers ''GA'') = Some (0, ''100'')" by code_simp
  then obtain r where r: "findByAddress two_solvers ''GA'' = Some r" "sr_fillsFailed r = 0" "sr_bondAmount r = ''100''" by auto
  have b: "BigInt ''100'' = Some 100" by code_simp
  show ?thesis using penalty_effects[OF inv r(1), of 100 "''100''" 100 "''i1''" None 5] r(2,3) b by simp
qed

text \<open>Penalties are keyed by the intent alone. When two solvers miss tranches of one intent, the second
miss replaces the first one's entry: rolling back gives the counter back to the second solver
only, and the first one's failure can never be rolled back or confirmed.\<close>

theorem second_penalty_replaces_first:
  "let v2 = fst (recordFailedFill 6 ''GB'' ''i1'' (fst (recordFailedFill 5 ''GA'' ''i1'' two_solvers)));
       v3 = fst (rollbackPenalty ''i1'' None v2)
   in map_option sr_fillsFailed (findByAddress v3 ''GB'') = Some 0 \<and> map_option sr_fillsFailed (findByAddress v3 ''GA'') = Some 1
      \<and> snd (rollbackPenalty ''i1'' None v3) = None \<and> snd (rollbackPenalty ''i1'' (Some ''GA'') v3) = None"
  by code_simp

end
