(* ===== verification/Amounts.thy ===== *)
theory Amounts
  imports Solver_Fills
begin

text \<open>
  Base-unit and decimal amounts (\<^verbatim>\<open>src/common/amount.ts\<close>) and the price of a Dutch auction
  (\<^verbatim>\<open>src/auctions/dutch.ts\<close>). A JavaScript number is the rational it denotes, and the arithmetic that
  rounds it is written out with \<open>to_double\<close>, the rounding to 53 significant bits, half to even, of
  numbers in the normal range. A value given as a string or as a
  bigint is a two-constructor type, as in the source's signatures. Error messages keep their fixed
  part. \<open>expText\<close> is the exponential notation in which JavaScript prints numbers from \<open>10\<^sup>2\<^sup>1\<close> up.
\<close>

section \<open>Results in sequence\<close>

definition and_then :: "'a result \<Rightarrow> ('a \<Rightarrow> 'b result) \<Rightarrow> 'b result" where
  "and_then r f = (case r of Inl e \<Rightarrow> Inl e | Inr x \<Rightarrow> f x)"

lemma and_then_simps [simp]: "and_then (Inl e) f = Inl e" "and_then (Inr x) f = f x"
  by (simp_all add: and_then_def)

lemma and_then_Inr: "and_then r f = Inr y \<longleftrightarrow> (\<exists>x. r = Inr x \<and> f x = Inr y)"
  by (cases r) auto

definition throw_unless :: "bool \<Rightarrow> exn \<Rightarrow> unit result" where
  "throw_unless b e = (if b then Inr () else Inl e)"

lemma throw_unless_Inr [simp]: "throw_unless b e = Inr u \<longleftrightarrow> b"
  by (simp add: throw_unless_def)

lemma and_then_throw: "and_then (throw_unless b e) f = (if b then f () else Inl e)"
  by (simp add: throw_unless_def)

section \<open>Doubles\<close>

function bit_log :: "int \<Rightarrow> int" where
  "bit_log n = (if n < 2 then 0 else 1 + bit_log (n div 2))"
  by auto
termination by (relation "measure nat") auto

declare bit_log.simps [simp del]

definition round_even :: "rat \<Rightarrow> int" where
  "round_even x =
     (let n = \<lfloor>x\<rfloor>; f = x - of_int n
      in if f < 1 / 2 then n else if f > 1 / 2 then n + 1 else if even n then n else n + 1)"

definition exponent_of :: "rat \<Rightarrow> int" where
  "exponent_of x =
     (let (p, q) = quotient_of x; b = bit_log p - bit_log q
      in if 2 powi b \<le> x then b else b - 1)"

definition to_double :: "rat \<Rightarrow> rat" where
  "to_double x =
     (if x = 0 then 0
      else (let e = exponent_of \<bar>x\<bar> - 52 in of_int (round_even (x / 2 powi e)) * 2 powi e))"

lemma bit_log_bounds: "1 \<le> n \<Longrightarrow> 0 \<le> bit_log n \<and> 2 ^ nat (bit_log n) \<le> n \<and> n < 2 * 2 ^ nat (bit_log n)"
proof (induction n rule: bit_log.induct)
  case (1 n)
  show ?case
  proof (cases "n < 2")
    case False
    then have IH: "0 \<le> bit_log (n div 2)" "2 ^ nat (bit_log (n div 2)) \<le> n div 2" "n div 2 < 2 * 2 ^ nat (bit_log (n div 2))"
      using 1 by auto
    have "bit_log n = 1 + bit_log (n div 2)" using False by (subst bit_log.simps) simp
    then show ?thesis using IH by (simp add: nat_add_distrib) presburger
  qed (use 1 in \<open>simp add: bit_log.simps\<close>)
qed

lemma round_even_err: "\<bar>of_int (round_even x) - x\<bar> \<le> 1 / 2"
proof -
  have "of_int \<lfloor>x\<rfloor> \<le> x" "x < of_int \<lfloor>x\<rfloor> + 1" by linarith+
  then show ?thesis by (auto simp: round_even_def Let_def abs_le_iff)
qed

lemma exponent_low:
  assumes "0 < x"
  shows "2 powi exponent_of x \<le> x"
proof -
  obtain p q where pq: "quotient_of x = (p, q)" by fastforce
  have q: "0 < q" and x: "x = of_int p / of_int q" using pq quotient_of_denom_pos quotient_of_div by auto
  then have p: "0 < p" using assms by (simp add: zero_less_divide_iff)
  let ?a = "bit_log p" and ?b = "bit_log q"
  have a: "0 \<le> ?a" "2 ^ nat ?a \<le> p" and b: "0 \<le> ?b" "q < 2 * 2 ^ nat ?b" using bit_log_bounds[of p] bit_log_bounds[of q] p q by auto
  have "(of_int (2 ^ nat ?a) :: rat) \<le> of_int p" "(of_int q :: rat) \<le> of_int (2 * 2 ^ nat ?b)" using a(2) b(2) by (simp_all only: of_int_le_iff less_imp_le)
  then have "2 ^ nat ?a / (2 * 2 ^ nat ?b) \<le> x" unfolding x using p q by (intro frac_le) simp_all
  moreover have "(2 :: rat) powi (?a - ?b - 1) = 2 ^ nat ?a / (2 * 2 ^ nat ?b)"
  proof -
    have "(2 :: rat) powi ?a = 2 ^ nat ?a" "(2 :: rat) powi ?b = 2 ^ nat ?b" using a(1) b(1) by (simp_all only: power_int_def if_True)
    moreover have "(2 :: rat) powi (?a - ?b - 1) = 2 powi ?a / 2 powi ?b / 2" by (simp add: power_int_diff)
    ultimately show ?thesis by simp
  qed
  ultimately show ?thesis by (simp add: exponent_of_def pq Let_def)
qed

lemma to_double_err: "\<bar>to_double x - x\<bar> \<le> \<bar>x\<bar> / 2 ^ 53"
proof (cases "x = 0")
  case False
  define e where "e = exponent_of \<bar>x\<bar> - 52"
  have pos: "(0 :: rat) < 2 powi e" by simp
  have "to_double x - x = (of_int (round_even (x / 2 powi e)) - x / 2 powi e) * 2 powi e"
    using False pos by (simp add: to_double_def e_def[symmetric] Let_def left_diff_distrib)
  then have "\<bar>to_double x - x\<bar> = \<bar>of_int (round_even (x / 2 powi e)) - x / 2 powi e\<bar> * 2 powi e" by (simp add: abs_mult)
  also have "\<dots> \<le> 1 / 2 * 2 powi e" using round_even_err by (rule mult_right_mono) simp
  also have "2 powi e = (2 powi exponent_of \<bar>x\<bar> :: rat) / 2 ^ 52" by (simp add: e_def power_int_diff)
  also have "1 / 2 * (2 powi exponent_of \<bar>x\<bar> / 2 ^ 52 :: rat) = 2 powi exponent_of \<bar>x\<bar> / 2 ^ 53" by simp
  also have "\<dots> \<le> \<bar>x\<bar> / 2 ^ 53" using exponent_low[of "\<bar>x\<bar>"] False by (intro divide_right_mono) simp_all
  finally show ?thesis .
qed (simp add: to_double_def)

section \<open>Amount helpers\<close>

datatype units_input = U_text string | U_big int

definition BPS_DENOMINATOR :: int where "BPS_DENOMINATOR = 10000"
definition PROTOCOL_FEE_BPS :: int where "PROTOCOL_FEE_BPS = 5"
definition VARIANCE_SCALE :: int where "VARIANCE_SCALE = 1000"
definition MAX_DECIMALS :: int where "MAX_DECIMALS = 36"

definition assertValidDecimals :: "int \<Rightarrow> unit result" where
  "assertValidDecimals decimals =
     throw_unless (\<not> (decimals < 0 \<or> decimals > MAX_DECIMALS)) (RangeError ''decimals must be an integer in [0, 36]'')"

fun parseBaseUnits :: "units_input \<Rightarrow> int result" where
  "parseBaseUnits (U_big n) = (if n < 0 then Inl (RangeError ''base-unit amount must be non-negative'') else Inr n)"
| "parseBaseUnits (U_text s) =
     (let trimmed = js_trim s in
      if \<not> all_digits trimmed then Inl (RangeError ''invalid base-unit amount'')
      else or_throw SyntaxError (BigInt trimmed))"

text \<open>The value of a plain decimal text, which \<open>Number(text)\<close> then rounds.\<close>

definition decimal_value :: "string \<Rightarrow> rat option" where
  "decimal_value s =
     (case js_split CHR ''.'' s of
        [w] \<Rightarrow> map_option of_nat (parse_digits 10 0 w)
      | [w, f] \<Rightarrow> map_option (\<lambda>n. of_nat n / 10 ^ length f) (parse_digits 10 0 (w @ f))
      | _ \<Rightarrow> None)"

definition strip_trailing_zeros :: "string \<Rightarrow> string" where
  "strip_trailing_zeros s = rev (dropWhile (\<lambda>c. c = CHR ''0'') (rev s))"

definition toDecimalNumber :: "units_input \<Rightarrow> int \<Rightarrow> rat result" where
  "toDecimalNumber baseUnits decimals =
     and_then (assertValidDecimals decimals) (\<lambda>_.
     and_then (parseBaseUnits baseUnits) (\<lambda>units.
       if decimals = 0 then Inr (to_double (of_int units))
       else (let divisor = 10 ^ nat decimals;
                 whole = units div divisor;
                 fraction = strip_trailing_zeros (padStart (nat decimals) (toString (units mod divisor)))
             in or_throw (PlainError ''NaN'')
                  (map_option to_double (decimal_value (if fraction \<noteq> [] then toString whole @ ''.'' @ fraction else toString whole))))))"

text \<open>\<open>x.toFixed(d)\<close> for \<open>0 \<le> x < 10\<^sup>2\<^sup>1\<close>: the nearest multiple of \<open>10\<^sup>-\<^sup>d\<close>, the larger one on a tie.\<close>

definition toFixed :: "nat \<Rightarrow> rat \<Rightarrow> string" where
  "toFixed d x =
     (let n = \<lfloor>x * 10 ^ d + 1 / 2\<rfloor>
      in toString (n div 10 ^ d) @ (if d = 0 then [] else CHR ''.'' # padStart d (toString (n mod 10 ^ d))))"

text \<open>The replacement of \<open>/^0+(?=\d)/\<close> by nothing.\<close>

fun strip_leading_zeros :: "string \<Rightarrow> string" where
  "strip_leading_zeros (c # d # s) = (if c = CHR ''0'' \<and> is_digit d then strip_leading_zeros (d # s) else c # d # s)"
| "strip_leading_zeros s = s"

definition padEnd :: "nat \<Rightarrow> string \<Rightarrow> string" where
  "padEnd n s = s @ replicate (n - length s) CHR ''0''"

definition toBaseUnits :: "(rat \<Rightarrow> string) \<Rightarrow> rat \<Rightarrow> int \<Rightarrow> string result" where
  "toBaseUnits expText amount decimals =
     and_then (assertValidDecimals decimals) (\<lambda>_.
       if amount < 0 then Inl (RangeError ''amount must be a non-negative finite number'')
       else
         (let fixed = (if amount \<ge> 10 ^ 21 then expText amount else toFixed (nat decimals + 1) amount);
              parts = js_split CHR ''.'' fixed;
              whole = hd parts;
              fractionRaw = (if 1 < length parts then parts ! 1 else []);
              fraction = padEnd (nat decimals) (take (nat decimals) fractionRaw);
              combined = strip_leading_zeros (whole @ fraction)
          in and_then (or_throw SyntaxError (BigInt combined)) (\<lambda>n. Inr (toString n))))"

definition calculateProtocolFee :: "units_input \<Rightarrow> int result" where
  "calculateProtocolFee dstAmount =
     and_then (parseBaseUnits dstAmount) (\<lambda>n. Inr (bigint_div (n * PROTOCOL_FEE_BPS) BPS_DENOMINATOR))"

definition varianceScaleFromPerfScore :: "rat \<Rightarrow> int" where
  "varianceScaleFromPerfScore perfScore =
     (let clamped = min (max perfScore 0) 1;
          variancePct = to_double (to_double (1 - clamped) * to_double (8 / 1000))
      in js_round (to_double (of_int VARIANCE_SCALE * to_double (1 - variancePct))))"

definition applyVarianceScale :: "units_input \<Rightarrow> int \<Rightarrow> int result" where
  "applyVarianceScale srcAmount varianceScale =
     and_then (parseBaseUnits srcAmount) (\<lambda>n. Inr (bigint_div (n * varianceScale) VARIANCE_SCALE))"

section \<open>Dutch auctions\<close>

definition dutchAuctionPrice :: "dutch_auction \<Rightarrow> int \<Rightarrow> string \<Rightarrow> string result" where
  "dutchAuctionPrice auction timestamp minDstAmount =
     and_then (or_throw SyntaxError (BigInt (startDstAmount auction))) (\<lambda>startAmount.
     and_then (or_throw SyntaxError (BigInt minDstAmount)) (\<lambda>minAmount.
       if timestamp \<le> decayStart auction then Inr (toString startAmount)
       else if timestamp \<ge> decayEnd auction then Inr (toString minAmount)
       else (let elapsed = timestamp - decayStart auction;
                 duration = decayEnd auction - decayStart auction;
                 priceDrop = bigint_div ((startAmount - minAmount) * elapsed) duration
             in Inr (toString (startAmount - priceDrop)))))"

section \<open>Digit strings\<close>

lemma digit_known: "is_digit c \<Longrightarrow> \<exists>e < 10. digit_value 10 c = Some e"
proof -
  assume "is_digit c"
  then have "digit_value 10 c = Some (of_char c - 48)" "(of_char c - 48 :: nat) < 10"
    by (auto simp: is_digit_def digit_value_def Let_def)
  then show ?thesis by blast
qed

lemma parse_acc: "list_all is_digit s \<Longrightarrow> parse_digits 10 acc s = map_option (\<lambda>n. acc * 10 ^ length s + n) (parse_digits 10 0 s)"
proof (induction s arbitrary: acc)
  case (Cons c s)
  obtain d where d: "digit_value 10 c = Some d" using Cons.prems digit_known by auto
  then show ?case
    using Cons.IH[of "acc * 10 + d"] Cons.IH[of d] Cons.prems by (auto simp: option.map_comp comp_def algebra_simps)
qed (simp add: option.map_ident)

lemma parse_concat:
  assumes "list_all is_digit b" and "parse_digits 10 0 a = Some x" and "parse_digits 10 0 b = Some y"
  shows "parse_digits 10 0 (a @ b) = Some (x * 10 ^ length b + y)"
  using assms parse_acc[OF assms(1), of x] by (simp add: parse_digits_append)

lemma zero_digit: "is_digit CHR ''0''" "\<not> is_digit CHR ''.''"
  by (simp_all add: is_digit_def)

lemma pad_digits:
  assumes "m < 10 ^ k" and "0 < k"
  shows "length (padStart k (nat_to_string m)) = k" and "list_all is_digit (padStart k (nat_to_string m))"
    and "parse_digits 10 0 (padStart k (nat_to_string m)) = Some m"
proof -
  obtain j where "k = Suc j" using assms(2) by (cases k) auto
  then have "length (nat_to_string m) \<le> k" using length_nat_to_string[of m j] assms(1) by simp
  then show "length (padStart k (nat_to_string m)) = k" by (simp add: padStart_def)
  show "list_all is_digit (padStart k (nat_to_string m))"
    using nat_to_string_digits[of m] zero_digit by (auto simp: padStart_def list_all_iff)
  show "parse_digits 10 0 (padStart k (nat_to_string m)) = Some m"
    by (simp add: padStart_def parse_digits_nat_to_string)
qed

text \<open>Cutting off the last digit divides by ten.\<close>

lemma parse_butlast:
  assumes "list_all is_digit s" and "length s = Suc d" and "parse_digits 10 0 s = Some n"
  shows "parse_digits 10 0 (take d s) = Some (n div 10)"
proof -
  have "butlast s = take d s" using assms(2) by (simp add: butlast_conv_take)
  moreover have "s \<noteq> []" using assms(2) by auto
  ultimately obtain c where s: "s = take d s @ [c]" by (metis append_butlast_last_id)
  have dig: "list_all is_digit (take d s)" "is_digit c" using assms(1) by (subst (asm) s, simp)+
  obtain x where x: "parse_digits 10 0 (take d s) = Some x" using parse_digits_digits[OF dig(1)] by blast
  obtain e where e: "digit_value 10 c = Some e" "e < 10" using digit_known[OF dig(2)] by blast
  have "parse_digits 10 0 s = Some (x * 10 + e)" using x e(1) by (subst s) (simp add: parse_digits_append)
  then show ?thesis using x e(2) assms(3) by simp
qed

lemma strip_leading_value: "parse_digits 10 0 (strip_leading_zeros s) = parse_digits 10 0 s"
  by (induction s rule: strip_leading_zeros.induct) (auto simp: digit_value_def)

lemma strip_leading_digits: "all_digits s \<Longrightarrow> all_digits (strip_leading_zeros s)"
  by (induction s rule: strip_leading_zeros.induct) (auto simp: all_digits_def)

lemma strip_trailing_split:
  obtains k where "s = strip_trailing_zeros s @ replicate k CHR ''0''"
proof -
  let ?P = "\<lambda>c. c = CHR ''0''"
  let ?t = "takeWhile ?P (rev s)"
  have t: "?t = replicate (length ?t) CHR ''0''"
    by (rule replicate_eqI) (auto dest: set_takeWhileD)
  have "s = rev (?t @ dropWhile ?P (rev s))" by simp
  then have "s = strip_trailing_zeros s @ rev ?t" unfolding strip_trailing_zeros_def rev_append .
  then have "s = strip_trailing_zeros s @ replicate (length ?t) CHR ''0''" by (subst (asm) t) simp
  then show thesis by (rule that)
qed

lemma parse_zeros: "parse_digits 10 x (replicate k CHR ''0'') = Some (x * 10 ^ k)"
  by (induction k arbitrary: x) (simp_all add: digit_value_def)

section \<open>Conversions\<close>

lemma toString_int: "toString (int n) = nat_to_string n"
  by (simp add: toString_nonneg)

text \<open>The split, padded and trimmed text of a base-unit amount is read as that amount, scaled.\<close>

lemma toDecimalNumber_exact:
  assumes "0 \<le> d" and "d \<le> 36" and "parseBaseUnits u = Inr n" and "0 \<le> n"
  shows "toDecimalNumber u d = Inr (to_double (of_int n / 10 ^ nat d))"
proof (cases "d = 0")
  case False
  define k where "k = nat d"
  define m where "m = nat n"
  have k: "0 < k" using False assms(1) by (simp add: k_def)
  have n: "n = int m" using assms(4) by (simp add: m_def)
  let ?w = "nat_to_string (m div 10 ^ k)" and ?f = "padStart k (nat_to_string (m mod 10 ^ k))"
  have f: "length ?f = k" "list_all is_digit ?f" "parse_digits 10 0 ?f = Some (m mod 10 ^ k)"
    using pad_digits[of "m mod 10 ^ k" k] k by simp_all
  obtain j where j: "?f = strip_trailing_zeros ?f @ replicate j CHR ''0''" by (rule strip_trailing_split)
  define t where "t = strip_trailing_zeros ?f"
  have td: "list_all is_digit t" using f(2) unfolding t_def by (subst (asm) j) simp
  have lt: "length t + j = k" using f(1) unfolding t_def by (subst (asm) j) simp
  obtain y where y: "parse_digits 10 0 t = Some y" using parse_digits_digits[OF td] by blast
  have ym: "y * 10 ^ j = m mod 10 ^ k"
    using f(3) y unfolding t_def by (subst (asm) j) (simp add: parse_digits_append parse_zeros t_def)
  have wt: "parse_digits 10 0 (?w @ t) = Some (m div 10 ^ k * 10 ^ length t + y)"
    by (rule parse_concat[OF td parse_digits_nat_to_string y])
  have "(m div 10 ^ k * 10 ^ length t + y) * 10 ^ j = m"
    using ym lt by (metis add_mult_distrib div_mult_mod_eq mult.assoc power_add)
  then have "of_nat (m div 10 ^ k * 10 ^ length t + y) * 10 ^ j = (of_nat m :: rat)" by (metis of_nat_mult of_nat_numeral of_nat_power)
  then have val: "of_nat (m div 10 ^ k * 10 ^ length t + y) / 10 ^ length t = (of_nat m / 10 ^ k :: rat)"
  proof -
    assume eq: "of_nat (m div 10 ^ k * 10 ^ length t + y) * 10 ^ j = (of_nat m :: rat)"
    have "(10 :: rat) ^ k = 10 ^ length t * 10 ^ j" using lt by (metis power_add)
    then show ?thesis unfolding eq[symmetric] by simp
  qed
  have nodot: "CHR ''.'' \<notin> set t" using td digits_chars[of t "CHR ''.''"] by (simp add: is_digit_def)
  have "decimal_value (if t \<noteq> [] then ?w @ ''.'' @ t else ?w) = Some (of_nat m / 10 ^ k)"
  proof (cases "t = []")
    case True
    then have "y = 0" using y by simp
    then show ?thesis
      using val True by (simp add: decimal_value_def js_split_no_sep digit_strings parse_digits_nat_to_string)
  next
    case False
    then show ?thesis
      using wt val nodot by (simp add: decimal_value_def js_split_append js_split_no_sep digit_strings)
  qed
  moreover have "toString (n div 10 ^ k) = ?w" "strip_trailing_zeros (padStart k (toString (n mod 10 ^ k))) = t"
    unfolding t_def toString_int[symmetric] by (simp_all add: n zdiv_int zmod_int)
  ultimately show ?thesis
    using assms(1-3) False
    by (simp add: toDecimalNumber_def assertValidDecimals_def MAX_DECIMALS_def throw_unless_def Let_def k_def[symmetric] split: if_splits)
      (simp_all add: n)
qed (use assms in \<open>simp add: toDecimalNumber_def assertValidDecimals_def MAX_DECIMALS_def throw_unless_def\<close>)

lemma toFixed_units:
  fixes n :: int
  assumes "\<bar>x * 10 ^ Suc k - of_int (10 * n)\<bar> < 1 / 2"
  shows "toFixed (Suc k) x = toString (n div 10 ^ k) @ CHR ''.'' # padStart (Suc k) (toString (10 * (n mod 10 ^ k)))"
proof -
  have "\<lfloor>x * 10 ^ Suc k + 1 / 2\<rfloor> = 10 * n"
    by (rule floor_unique) (use assms in \<open>simp_all only: abs_less_iff\<close>, linarith+)
  moreover have "10 * n div 10 ^ Suc k = n div 10 ^ k" "10 * n mod 10 ^ Suc k = 10 * (n mod 10 ^ k)"
    by (simp_all add: mult_mod_right[symmetric])
  ultimately show ?thesis by (simp add: toFixed_def Let_def del: power_Suc)
qed

lemma toBaseUnits_exact:
  assumes "0 \<le> d" and "d \<le> 36" and "0 \<le> n" and "0 \<le> x" and "x < 10 ^ 21"
    and "\<bar>x * 10 ^ Suc (nat d) - of_int (10 * n)\<bar> < 1 / 2"
  shows "toBaseUnits expText x d = Inr (toString n)"
proof -
  define k where "k = nat d"
  define m where "m = nat n"
  have n: "n = int m" using assms(3) by (simp add: m_def)
  let ?w = "nat_to_string (m div 10 ^ k)" and ?f = "padStart (Suc k) (nat_to_string (10 * (m mod 10 ^ k)))"
  have f: "length ?f = Suc k" "list_all is_digit ?f" "parse_digits 10 0 ?f = Some (10 * (m mod 10 ^ k))"
    using pad_digits[of "10 * (m mod 10 ^ k)" "Suc k"] by simp_all
  have fixed: "toFixed (Suc k) x = ?w @ CHR ''.'' # ?f"
  proof -
    have "n div 10 ^ k = int (m div 10 ^ k)" "10 * (n mod 10 ^ k) = int (10 * (m mod 10 ^ k))"
      by (simp_all add: n zdiv_int zmod_int)
    then show ?thesis using toFixed_units[of x k n] assms(6) by (simp only: toString_int k_def)
  qed
  have nodot: "CHR ''.'' \<notin> set ?f" using digits_chars[OF f(2) zero_digit(2)] .
  have t: "parse_digits 10 0 (take k ?f) = Some (m mod 10 ^ k)" "length (take k ?f) = k"
    using parse_butlast[OF f(2,1,3)] f(1) by simp_all
  have td: "list_all is_digit (take k ?f)" using f(2) unfolding list_all_iff by (blast dest: in_set_takeD)
  have c: "parse_digits 10 0 (?w @ take k ?f) = Some m" "all_digits (?w @ take k ?f)"
    using parse_concat[OF td parse_digits_nat_to_string t(1), of "m div 10 ^ k"] t(2) td nat_to_string_digits
    by (simp_all add: all_digits_def div_mult_mod_eq del: length_take)
  have "BigInt (strip_leading_zeros (?w @ take k ?f)) = Some (int m)"
    using c by (simp add: BigInt_digits strip_leading_digits strip_leading_value)
  moreover have "padEnd k (take k ?f) = take k ?f" using t(2) by (simp add: padEnd_def)
  ultimately show ?thesis
    using assms fixed nodot
    by (simp add: toBaseUnits_def assertValidDecimals_def MAX_DECIMALS_def throw_unless_def Let_def k_def[symmetric]
        js_split_append js_split_no_sep digit_strings n not_less)
qed

section \<open>Properties\<close>

text \<open>Converting a base-unit amount to a decimal number and back is exact although the number in
between is a rounded double: for every admissible number of decimals and every non-negative amount
of which twenty times is below \<open>2\<^sup>5\<^sup>3\<close>, the original amount comes back.\<close>

theorem decimal_round_trip:
  assumes "0 \<le> d" and "d \<le> 36" and "0 \<le> n" and "20 * n < 2 ^ 53"
  shows "\<exists>x. toDecimalNumber (U_big n) d = Inr x \<and> toBaseUnits expText x d = Inr (toString n)"
proof -
  let ?y = "of_int n / 10 ^ nat d :: rat"
  let ?x = "to_double ?y"
  have y: "0 \<le> ?y" "?y \<le> of_int n" using assms(3) by (simp_all add: divide_le_eq mult_le_cancel_left1)
  have n: "(20 * of_int n :: rat) < 2 ^ 53"
    using assms(4) by (metis of_int_less_iff of_int_mult of_int_numeral of_int_power)
  have err: "\<bar>?x - ?y\<bar> \<le> ?y / 2 ^ 53" using to_double_err[of ?y] abs_of_nonneg[OF y(1)] by simp
  have "?y / 2 ^ 53 \<le> ?y / 1" by (rule divide_left_mono) (use y(1) in simp_all)
  then have "0 \<le> ?x" "?x < 10 ^ 21" using err y n by (simp_all add: abs_le_iff)
  moreover have "\<bar>?x * 10 ^ Suc (nat d) - of_int (10 * n)\<bar> < 1 / 2"
  proof -
    have "?x * 10 ^ Suc (nat d) - of_int (10 * n) = (?x - ?y) * 10 ^ Suc (nat d)" by (simp add: left_diff_distrib)
    then have "\<bar>?x * 10 ^ Suc (nat d) - of_int (10 * n)\<bar> = \<bar>?x - ?y\<bar> * 10 ^ Suc (nat d)" by (simp add: abs_mult)
    also have "\<dots> \<le> ?y / 2 ^ 53 * 10 ^ Suc (nat d)" using err by (rule mult_right_mono) simp
    also have "\<dots> = 10 * of_int n / 2 ^ 53" by simp
    also have "\<dots> < 1 / 2" using n by simp
    finally show ?thesis .
  qed
  ultimately have "toBaseUnits expText ?x d = Inr (toString n)" by (rule toBaseUnits_exact[OF assms(1-3)])
  then show ?thesis using toDecimalNumber_exact[OF assms(1,2), of "U_big n" n] assms(3) by simp
qed

theorem decimal_round_trip_witness:
  "\<exists>x. toDecimalNumber (U_big 1250) 2 = Inr x \<and> toBaseUnits (\<lambda>_. []) x 2 = Inr ''1250''"
proof -
  have "toString 1250 = ''1250''" by code_simp
  then show ?thesis using decimal_round_trip[of 2 1250 "\<lambda>_. []"] by auto
qed

text \<open>A Dutch auction's price is sane: with a start amount at least the minimum, the price is an
integer between the minimum and the start amount at every instant, it is the start amount until
the decay begins and the minimum from its end on, and it never rises as time passes.\<close>

theorem dutch_price_decays:
  assumes "BigInt (startDstAmount a) = Some s" and "BigInt md = Some m" and "m \<le> s" and "t \<le> t'"
  shows "\<exists>p p'. dutchAuctionPrice a t md = Inr (toString p) \<and> dutchAuctionPrice a t' md = Inr (toString p')
           \<and> m \<le> p' \<and> p' \<le> p \<and> p \<le> s
           \<and> (t \<le> decayStart a \<longrightarrow> p = s) \<and> (decayStart a < t \<and> decayEnd a \<le> t \<longrightarrow> p = m)"
proof -
  define price where "price x = (if x \<le> decayStart a then s else if x \<ge> decayEnd a then m
      else s - (s - m) * (x - decayStart a) div (decayEnd a - decayStart a))" for x
  have eq: "dutchAuctionPrice a x md = Inr (toString (price x))" for x
    using assms(1-3) by (simp add: dutchAuctionPrice_def price_def Let_def)
  have step: "0 \<le> (s - m) * (x - decayStart a) div (decayEnd a - decayStart a)
      \<and> (s - m) * (x - decayStart a) div (decayEnd a - decayStart a) \<le> s - m"
    if "decayStart a < x" "x < decayEnd a" for x
  proof -
    let ?d = "decayEnd a - decayStart a"
    have "(s - m) * (x - decayStart a) \<le> (s - m) * ?d" using that assms(3) by (intro mult_left_mono) auto
    then have "(s - m) * (x - decayStart a) div ?d \<le> (s - m) * ?d div ?d" using that by (intro zdiv_mono1) auto
    then show ?thesis using that assms(3) by (simp add: pos_imp_zdiv_nonneg_iff)
  qed
  have "price t' \<le> price t"
  proof (cases "decayStart a < t \<and> t' < decayEnd a")
    case True
    then have "(s - m) * (t - decayStart a) div (decayEnd a - decayStart a) \<le> (s - m) * (t' - decayStart a) div (decayEnd a - decayStart a)"
      using assms(3,4) by (intro zdiv_mono1 mult_left_mono) auto
    then show ?thesis using True assms(4) by (simp add: price_def)
  next
    case False
    then show ?thesis using step[of t] step[of t'] assms(3,4) by (auto simp: price_def)
  qed
  moreover have "m \<le> price x \<and> price x \<le> s" for x using step[of x] assms(3) by (auto simp: price_def)
  ultimately show ?thesis using eq by (intro exI[of _ "price t"] exI[of _ "price t'"]) (auto simp: price_def)
qed

definition sample_auction :: dutch_auction where
  "sample_auction = \<lparr> startDstAmount = ''1000'', decayStart = 10, decayEnd = 110, exclusiveSolver = None, exclusivityEnd = None \<rparr>"

theorem dutch_price_decays_witness:
  "\<exists>p p'. dutchAuctionPrice sample_auction 5 ''900'' = Inr (toString p) \<and> dutchAuctionPrice sample_auction 60 ''900'' = Inr (toString p')
     \<and> p = 1000 \<and> 900 \<le> p' \<and> p' \<le> 1000"
proof -
  have b: "BigInt (startDstAmount sample_auction) = Some 1000" "BigInt ''900'' = Some 900" by code_simp+
  show ?thesis using dutch_price_decays[OF b, of 5 60] by (auto simp: sample_auction_def)
qed

text \<open>The comment on \<^verbatim>\<open>toBaseUnits\<close> promises truncation, but the text it cuts was rounded to one more digit
first: an amount just below a unit boundary is carried over it.\<close>

theorem toBaseUnits_rounds_up:
  "toBaseUnits expText (2047 / 2048) 2 = Inr ''100'' \<and> \<lfloor>2047 / 2048 * 10 ^ 2 :: rat\<rfloor> = 99"
proof -
  have "toFixed 3 (2047 / 2048) = ''1.000''" by code_simp
  moreover have "BigInt ''100'' = Some 100" "toString 100 = ''100''" by code_simp+
  moreover have "\<lfloor>51175 / 512 :: rat\<rfloor> = 99" by (rule floor_unique) simp_all
  ultimately show ?thesis
    by (simp add: toBaseUnits_def assertValidDecimals_def MAX_DECIMALS_def throw_unless_def Let_def padEnd_def is_digit_def)
qed

end
