(* ===== verification/Fees.thy ===== *)
theory Fees
  imports Amounts
begin

text \<open>
  Protocol fees: the rule engine of \<^verbatim>\<open>src/fees/fee-engine.ts\<close>, the double-entry ledger of
  \<^verbatim>\<open>src/fees/fee-ledger.ts\<close> and the service over both (\<^verbatim>\<open>src/fees/fees.service.ts\<close>). The rules and
  referral codes, which the service reads from JSON in the environment and does not validate, are
  arguments; basis points and versions are therefore arbitrary rationals, and converting a
  fractional one to a bigint is the \<open>RangeError\<close> of the language.
\<close>

section \<open>Rules\<close>

datatype fee_scope = Scope_pair | Scope_chain | Scope_default

record fee_tier =
  ft_minVolume :: string
  ft_bps :: rat

record fee_rule =
  fr_id :: string
  fr_version :: rat
  fr_scope :: fee_scope
  fr_srcChain :: "string option"
  fr_dstChain :: "string option"
  fr_srcToken :: "string option"
  fr_dstToken :: "string option"
  fr_bps :: rat
  fr_minFee :: string
  fr_maxFee :: string
  fr_tiers :: "fee_tier list"
  fr_integratorShareBps :: rat

record referral_code =
  rc_code :: string
  rc_integratorId :: string
  rc_shareBps :: rat

record fee_input =
  fi_amount :: units_input
  fi_srcChain :: string
  fi_dstChain :: string
  fi_srcToken :: "string option"
  fi_dstToken :: "string option"
  fi_volume :: "units_input option"
  fi_referralCode :: "string option"

record fee_quote =
  fq_amount :: string
  fq_fee :: string
  fq_treasuryFee :: string
  fq_integratorFee :: string
  fq_integratorId :: "string option"
  fq_referralCode :: "string option"
  fq_ruleId :: string
  fq_ruleVersion :: rat
  fq_bps :: rat

definition DEFAULT_FEE_RULE :: fee_rule where
  "DEFAULT_FEE_RULE = \<lparr> fr_id = ''default'', fr_version = 1, fr_scope = Scope_default, fr_srcChain = None, fr_dstChain = None,
     fr_srcToken = None, fr_dstToken = None, fr_bps = 5, fr_minFee = ''0'', fr_maxFee = ''0'', fr_tiers = [],
     fr_integratorShareBps = 0 \<rparr>"

section \<open>Arithmetic\<close>

definition FEE_BPS_DENOMINATOR :: int where "FEE_BPS_DENOMINATOR = 10000"

definition ceilDiv :: "int \<Rightarrow> int \<Rightarrow> int result" where
  "ceilDiv numerator denominator =
     (if denominator \<le> 0 then Inl (PlainError ''denominator must be positive'')
      else if numerator \<le> 0 then Inr 0
      else Inr (bigint_div (numerator + denominator - 1) denominator))"

text \<open>\<open>BigInt(n)\<close> on a number.\<close>

definition bigint_of_number :: "rat \<Rightarrow> int result" where
  "bigint_of_number x = (if of_int \<lfloor>x\<rfloor> = x then Inr \<lfloor>x\<rfloor> else Inl (RangeError ''not an integer''))"

definition check_bps :: "int \<Rightarrow> rat \<Rightarrow> int result" where
  "check_bps amount bps =
     (if bps < 0 \<or> bps > 10000 then Inl (PlainError ''bps out of range'')
      else if amount < 0 then Inl (PlainError ''amount must be non-negative'')
      else bigint_of_number bps)"

definition applyBpsCeil :: "int \<Rightarrow> rat \<Rightarrow> int result" where
  "applyBpsCeil amount bps = and_then (check_bps amount bps) (\<lambda>b. ceilDiv (amount * b) FEE_BPS_DENOMINATOR)"

definition floorBps :: "int \<Rightarrow> rat \<Rightarrow> int result" where
  "floorBps amount bps = and_then (check_bps amount bps) (\<lambda>b. Inr (bigint_div (amount * b) FEE_BPS_DENOMINATOR))"

fun parseUnits :: "units_input \<Rightarrow> int result" where
  "parseUnits (U_big n) = (if n < 0 then Inl (PlainError ''must be non-negative'') else Inr n)"
| "parseUnits (U_text s) =
     (if \<not> all_digits s then Inl (PlainError ''must be a base-unit integer'') else or_throw SyntaxError (BigInt s))"

fun specificity :: "fee_scope \<Rightarrow> nat" where
  "specificity Scope_pair = 3"
| "specificity Scope_chain = 2"
| "specificity Scope_default = 1"

definition unset :: "string option \<Rightarrow> bool" where
  "unset x \<longleftrightarrow> x = None \<or> x = Some []"

definition rule_matches :: "fee_rule \<Rightarrow> fee_input \<Rightarrow> bool" where
  "rule_matches rule inp =
     (case fr_scope rule of
        Scope_default \<Rightarrow> True
      | Scope_chain \<Rightarrow> fr_srcChain rule = Some (fi_srcChain inp)
          \<and> (unset (fr_dstChain rule) \<or> fr_dstChain rule = Some (fi_dstChain inp))
      | Scope_pair \<Rightarrow> fr_srcChain rule = Some (fi_srcChain inp) \<and> fr_dstChain rule = Some (fi_dstChain inp)
          \<and> (unset (fr_srcToken rule) \<or> fr_srcToken rule = fi_srcToken inp)
          \<and> (unset (fr_dstToken rule) \<or> fr_dstToken rule = fi_dstToken inp))"

definition better_rule :: "fee_rule \<Rightarrow> fee_rule \<Rightarrow> fee_rule" where
  "better_rule best rule =
     (let score = int (specificity (fr_scope rule)) - int (specificity (fr_scope best))
      in if score \<noteq> 0 then (if score > 0 then rule else best)
         else if fr_version rule \<ge> fr_version best then rule else best)"

definition selectRule :: "fee_rule list \<Rightarrow> fee_input \<Rightarrow> fee_rule" where
  "selectRule rules inp =
     (case filter (\<lambda>r. rule_matches r inp) rules of
        [] \<Rightarrow> DEFAULT_FEE_RULE
      | r # rs \<Rightarrow> foldl better_rule r rs)"

fun tier_scan :: "int \<Rightarrow> fee_tier list \<Rightarrow> rat \<Rightarrow> int \<Rightarrow> rat result" where
  "tier_scan volume [] bps flr = Inr bps"
| "tier_scan volume (t # ts) bps flr =
     and_then (parseUnits (U_text (ft_minVolume t))) (\<lambda>m.
       if volume \<ge> m \<and> m \<ge> flr then tier_scan volume ts (ft_bps t) m else tier_scan volume ts bps flr)"

definition tierBps :: "fee_rule \<Rightarrow> int \<Rightarrow> rat result" where
  "tierBps rule volume = tier_scan volume (fr_tiers rule) (fr_bps rule) (- 1)"

definition clamp :: "int \<Rightarrow> fee_rule \<Rightarrow> int result" where
  "clamp fee rule =
     and_then (parseUnits (U_text (fr_minFee rule))) (\<lambda>mn.
     and_then (parseUnits (U_text (fr_maxFee rule))) (\<lambda>mx.
       if mx > 0 \<and> mn > mx then Inl (PlainError ''minFee above maxFee'')
       else (let n1 = (if mn > 0 \<and> fee < mn then mn else fee)
             in Inr (if mx > 0 \<and> n1 > mx then mx else n1))))"

definition find_referral :: "referral_code list \<Rightarrow> string option \<Rightarrow> referral_code option" where
  "find_referral referrals code =
     (if unset code then None else List.find (\<lambda>r. Some (rc_code r) = code) referrals)"

definition quoteFee :: "fee_rule list \<Rightarrow> referral_code list \<Rightarrow> fee_input \<Rightarrow> fee_quote result" where
  "quoteFee rules referrals inp =
     and_then (parseUnits (fi_amount inp)) (\<lambda>amount.
     and_then (case fi_volume inp of None \<Rightarrow> Inr amount | Some v \<Rightarrow> parseUnits v) (\<lambda>volume.
     let rule = selectRule (if rules \<noteq> [] then rules else [DEFAULT_FEE_RULE]) inp in
     and_then (tierBps rule volume) (\<lambda>bps.
     and_then (applyBpsCeil amount bps) (\<lambda>raw.
     and_then (clamp raw rule) (\<lambda>fee.
     let referral = find_referral referrals (fi_referralCode inp);
         shareBps = (case referral of None \<Rightarrow> 0 | Some r \<Rightarrow> rc_shareBps r) in
     and_then (floorBps fee shareBps) (\<lambda>integratorFee.
       Inr \<lparr> fq_amount = toString amount, fq_fee = toString fee, fq_treasuryFee = toString (fee - integratorFee),
             fq_integratorFee = toString integratorFee, fq_integratorId = map_option rc_integratorId referral,
             fq_referralCode = map_option rc_code referral, fq_ruleId = fr_id rule, fq_ruleVersion = fr_version rule,
             fq_bps = bps \<rparr>))))))"

section \<open>The ledger\<close>

datatype ledger_side = Debit | Credit
datatype ledger_account = Acc_user | Acc_treasury | Acc_integrator

record ledger_entry =
  le_id :: string
  le_intentId :: string
  le_ruleId :: string
  le_ruleVersion :: rat
  le_side :: ledger_side
  le_account :: ledger_account
  le_accountId :: string
  le_amount :: string
  le_createdAt :: int

fun sum_where :: "(ledger_entry \<Rightarrow> bool) \<Rightarrow> ledger_entry list \<Rightarrow> int \<Rightarrow> int result" where
  "sum_where P [] acc = Inr acc"
| "sum_where P (e # es) acc =
     (if P e then and_then (or_throw SyntaxError (BigInt (le_amount e))) (\<lambda>a. sum_where P es (acc + a))
      else sum_where P es acc)"

definition sumSide :: "ledger_entry list \<Rightarrow> ledger_side \<Rightarrow> int result" where
  "sumSide es side = sum_where (\<lambda>e. le_side e = side) es 0"

definition assertBalanced :: "ledger_entry list \<Rightarrow> unit result" where
  "assertBalanced es =
     and_then (sumSide es Debit) (\<lambda>debits.
     and_then (sumSide es Credit) (\<lambda>credits.
       throw_unless (debits = credits) (PlainError ''ledger out of balance'')))"

definition posting :: "fee_quote \<Rightarrow> string \<Rightarrow> string \<Rightarrow> int \<Rightarrow> ledger_side \<Rightarrow> ledger_account \<Rightarrow> string \<Rightarrow> string \<Rightarrow> ledger_entry" where
  "posting q iid suffix createdAt side account accountId amount =
     \<lparr> le_id = iid @ suffix, le_intentId = iid, le_ruleId = fq_ruleId q, le_ruleVersion = fq_ruleVersion q, le_side = side,
       le_account = account, le_accountId = accountId, le_amount = amount, le_createdAt = createdAt \<rparr>"

definition postingsForFill :: "fee_quote \<Rightarrow> string \<Rightarrow> string \<Rightarrow> int \<Rightarrow> ledger_entry list result" where
  "postingsForFill q iid userId createdAt =
     and_then (or_throw SyntaxError (BigInt (fq_fee q))) (\<lambda>fee.
       if fee = 0 then Inr []
       else
         (let two = [posting q iid '':debit:user'' createdAt Debit Acc_user userId (fq_fee q),
                     posting q iid '':credit:treasury'' createdAt Credit Acc_treasury ''treasury'' (fq_treasuryFee q)] in
          and_then (or_throw SyntaxError (BigInt (fq_integratorFee q))) (\<lambda>integratorFee.
            let es = (if integratorFee > 0 \<and> \<not> unset (fq_integratorId q)
                      then two @ [posting q iid '':credit:integrator'' createdAt Credit Acc_integrator
                                    (the (fq_integratorId q)) (fq_integratorFee q)]
                      else two)
            in and_then (assertBalanced es) (\<lambda>_. Inr es))))"

definition append_batch :: "ledger_entry list \<Rightarrow> ledger_entry list \<Rightarrow> ledger_entry list result" where
  "append_batch entries batch =
     and_then (assertBalanced batch) (\<lambda>_.
     and_then (assertBalanced (entries @ batch)) (\<lambda>_. Inr (entries @ batch)))"

record ledger_totals =
  lt_entryCount :: nat
  lt_totalFees :: string
  lt_treasuryFees :: string
  lt_integratorFees :: string
  lt_last24hFees :: string

definition totals :: "ledger_entry list \<Rightarrow> int \<Rightarrow> int \<Rightarrow> ledger_totals result" where
  "totals entries now windowSec =
     and_then (assertBalanced entries) (\<lambda>_.
     and_then (sum_where (\<lambda>e. le_side e = Credit \<and> le_account e = Acc_treasury) entries 0) (\<lambda>treasury.
     and_then (sum_where (\<lambda>e. le_side e = Credit \<and> le_account e = Acc_integrator) entries 0) (\<lambda>integrator.
     and_then (sum_where (\<lambda>e. le_side e = Debit \<and> le_account e = Acc_user \<and> le_createdAt e \<ge> now - windowSec) entries 0) (\<lambda>last24h.
       Inr \<lparr> lt_entryCount = length entries, lt_totalFees = toString (treasury + integrator), lt_treasuryFees = toString treasury,
             lt_integratorFees = toString integrator, lt_last24hFees = toString last24h \<rparr>))))"

section \<open>The service\<close>

definition post :: "fee_quote \<Rightarrow> string \<Rightarrow> string \<Rightarrow> int \<Rightarrow> ledger_entry list \<Rightarrow> ledger_entry list result" where
  "post q iid userId at_sec entries =
     and_then (postingsForFill q iid userId at_sec) (\<lambda>batch. if batch \<noteq> [] then append_batch entries batch else Inr entries)"

text \<open>A throwing call leaves the entries as they were: the only write is the last step of \<open>append\<close>.\<close>

definition fees_recordFill :: "fee_rule list \<Rightarrow> referral_code list \<Rightarrow> fee_input \<Rightarrow> string \<Rightarrow> string \<Rightarrow> int
    \<Rightarrow> ledger_entry list \<Rightarrow> ledger_entry list \<times> fee_quote result" where
  "fees_recordFill rules referrals inp iid userId at_sec entries =
     (case quoteFee rules referrals inp of
        Inl e \<Rightarrow> (entries, Inl e)
      | Inr q \<Rightarrow> (case post q iid userId at_sec entries of Inl e \<Rightarrow> (entries, Inl e) | Inr es \<Rightarrow> (es, Inr q)))"

section \<open>Arithmetic facts\<close>

lemma check_bps_Inr: "check_bps a x = Inr b \<longleftrightarrow> 0 \<le> a \<and> 0 \<le> b \<and> b \<le> 10000 \<and> x = of_int b"
  by (auto simp: check_bps_def bigint_of_number_def split: if_splits)

lemma applyBpsCeil_Inr:
  assumes "applyBpsCeil a x = Inr r"
  shows "\<exists>b. x = of_int b \<and> a * b \<le> r * 10000 \<and> r * 10000 < a * b + 10000 \<and> 0 \<le> r \<and> r \<le> a"
proof -
  from assms obtain b where b: "0 \<le> a" "0 \<le> b" "b \<le> 10000" "x = of_int b"
    and r: "r = (if a * b \<le> 0 then 0 else (a * b + 9999) div 10000)"
    by (auto simp: applyBpsCeil_def and_then_Inr check_bps_Inr ceilDiv_def FEE_BPS_DENOMINATOR_def split: if_splits)
  have "0 \<le> a * b" using b by simp
  then have bounds: "a * b \<le> r * 10000" "r * 10000 < a * b + 10000" "0 \<le> r" unfolding r by (auto simp: pos_imp_zdiv_nonneg_iff)
  have "a * b \<le> a * 10000" using b by (intro mult_left_mono) auto
  then have "r \<le> a" using bounds(2) by linarith
  with b bounds show ?thesis by blast
qed

lemma floorBps_Inr: "floorBps a x = Inr r \<Longrightarrow> 0 \<le> r \<and> r \<le> a"
proof -
  assume "floorBps a x = Inr r"
  then obtain b where b: "0 \<le> a" "0 \<le> b" "b \<le> 10000" and r: "r = a * b div 10000"
    by (auto simp: floorBps_def and_then_Inr check_bps_Inr FEE_BPS_DENOMINATOR_def)
  have "a * b \<le> a * 10000" using b by (intro mult_left_mono) auto
  then show ?thesis using b unfolding r by (simp add: pos_imp_zdiv_nonneg_iff)
qed

lemma parseUnits_nonneg: "parseUnits u = Inr n \<Longrightarrow> 0 \<le> n"
  by (cases u) (auto dest: all_digits_BigInt split: if_splits)

lemma clamp_Inr:
  assumes "clamp fee rule = Inr f" and "0 \<le> fee"
  shows "\<exists>mn mx. parseUnits (U_text (fr_minFee rule)) = Inr mn \<and> parseUnits (U_text (fr_maxFee rule)) = Inr mx
     \<and> 0 \<le> f \<and> mn \<le> f \<and> (0 < mx \<longrightarrow> f \<le> mx) \<and> (mn \<le> fee \<and> (mx = 0 \<or> fee \<le> mx) \<longrightarrow> f = fee)"
proof -
  from assms(1) obtain mn mx where p: "parseUnits (U_text (fr_minFee rule)) = Inr mn" "parseUnits (U_text (fr_maxFee rule)) = Inr mx"
    and f: "\<not> (mx > 0 \<and> mn > mx)" "f = (let n1 = (if mn > 0 \<and> fee < mn then mn else fee) in if mx > 0 \<and> n1 > mx then mx else n1)"
    unfolding clamp_def and_then_Inr by (auto simp: Let_def split: if_splits)
  have "0 \<le> mn" "0 \<le> mx" using p by (auto dest: parseUnits_nonneg simp del: parseUnits.simps)
  then show ?thesis using p f assms(2) by (auto simp: Let_def simp del: parseUnits.simps split: if_splits)
qed

section \<open>Rule precedence\<close>

definition rule_rank :: "fee_rule \<Rightarrow> nat \<times> rat" where
  "rule_rank r = (specificity (fr_scope r), fr_version r)"

lemma better_rule_rank: "better_rule a b = (if rule_rank a \<le> rule_rank b then b else a)"
  by (auto simp: better_rule_def rule_rank_def Let_def less_eq_prod_def)

lemma best_of_list:
  "foldl better_rule r rs \<in> set (r # rs) \<and> (\<forall>x \<in> set (r # rs). rule_rank x \<le> rule_rank (foldl better_rule r rs))"
proof (induction rs arbitrary: r)
  case (Cons y ys)
  have "rule_rank r \<le> rule_rank (better_rule r y)" "rule_rank y \<le> rule_rank (better_rule r y)" "better_rule r y \<in> {r, y}"
    by (auto simp: better_rule_rank)
  with Cons.IH[of "better_rule r y"] show ?case by (auto intro: order_trans)
qed simp

section \<open>Balance\<close>

definition amt :: "ledger_entry \<Rightarrow> int" where
  "amt e = coalesce (BigInt (le_amount e)) 0"

definition total_of :: "(ledger_entry \<Rightarrow> bool) \<Rightarrow> ledger_entry list \<Rightarrow> int" where
  "total_of P es = sum_list (map amt (filter P es))"

lemma total_of_append [simp]: "total_of P (es @ fs) = total_of P es + total_of P fs"
  by (simp add: total_of_def)

definition entry_ok :: "ledger_entry \<Rightarrow> bool" where
  "entry_ok e \<longleftrightarrow> BigInt (le_amount e) \<noteq> None \<and> (le_side e = Debit \<longleftrightarrow> le_account e = Acc_user)"

definition ledger_good :: "ledger_entry list \<Rightarrow> bool" where
  "ledger_good es \<longleftrightarrow> (\<forall>e \<in> set es. entry_ok e)
     \<and> total_of (\<lambda>e. le_side e = Debit) es = total_of (\<lambda>e. le_side e = Credit) es"

lemma sum_where_total: "\<forall>e \<in> set es. entry_ok e \<Longrightarrow> sum_where P es acc = Inr (acc + total_of P es)"
  by (induction es arbitrary: acc) (auto simp: total_of_def amt_def entry_ok_def)

lemma balanced_good: "\<forall>e \<in> set es. entry_ok e \<Longrightarrow> assertBalanced es = Inr () \<longleftrightarrow> ledger_good es"
  by (simp add: assertBalanced_def sumSide_def sum_where_total ledger_good_def throw_unless_def)

lemma good_append: "ledger_good es \<Longrightarrow> ledger_good fs \<Longrightarrow> ledger_good (es @ fs)"
  by (auto simp: ledger_good_def)

lemma credit_account: "entry_ok e \<Longrightarrow> le_side e = Credit \<Longrightarrow> (le_account e = Acc_treasury) \<noteq> (le_account e = Acc_integrator)"
  by (cases "le_account e") (auto simp: entry_ok_def)

lemma credit_accounts:
  "\<forall>e \<in> set es. entry_ok e \<Longrightarrow> total_of (\<lambda>e. le_side e = Credit \<and> le_account e = Acc_treasury) es
     + total_of (\<lambda>e. le_side e = Credit \<and> le_account e = Acc_integrator) es = total_of (\<lambda>e. le_side e = Credit) es"
proof (induction es)
  case (Cons e es)
  then show ?case using credit_account[of e] by (cases "le_side e") (auto simp: total_of_def)
qed (simp add: total_of_def)

lemma append_batch_good:
  assumes "ledger_good es" and "\<forall>e \<in> set batch. entry_ok e" and "append_batch es batch = Inr es'"
  shows "ledger_good es' \<and> es' = es @ batch"
  using assms balanced_good[OF assms(2)] good_append by (auto simp: append_batch_def and_then_Inr)

lemma postings_ok:
  assumes "postingsForFill q iid u t = Inr batch" and "BigInt (fq_treasuryFee q) \<noteq> None"
  shows "\<forall>e \<in> set batch. entry_ok e"
  using assms by (auto simp: postingsForFill_def and_then_Inr Let_def posting_def entry_ok_def split: if_splits)

lemma quoteFee_Inr:
  assumes "quoteFee rules referrals inp = Inr q"
  obtains amount raw fee i rule where
    "rule = selectRule (if rules \<noteq> [] then rules else [DEFAULT_FEE_RULE]) inp"
    "parseUnits (fi_amount inp) = Inr amount" "applyBpsCeil amount (fq_bps q) = Inr raw" "clamp raw rule = Inr fee"
    "0 \<le> fee" "0 \<le> i" "i \<le> fee"
    "fq_amount q = toString amount" "fq_fee q = toString fee" "fq_treasuryFee q = toString (fee - i)" "fq_integratorFee q = toString i"
    "fq_integratorId q = None \<Longrightarrow> i = 0"
proof -
  from assms obtain amount volume bps raw fee i where
    1: "parseUnits (fi_amount inp) = Inr amount" "applyBpsCeil amount bps = Inr raw"
    "clamp raw (selectRule (if rules \<noteq> [] then rules else [DEFAULT_FEE_RULE]) inp) = Inr fee"
    "floorBps fee (case find_referral referrals (fi_referralCode inp) of None \<Rightarrow> 0 | Some r \<Rightarrow> rc_shareBps r) = Inr i"
    and q: "fq_bps q = bps" "fq_amount q = toString amount" "fq_fee q = toString fee" "fq_treasuryFee q = toString (fee - i)"
      "fq_integratorFee q = toString i" "fq_integratorId q = map_option rc_integratorId (find_referral referrals (fi_referralCode inp))"
    unfolding quoteFee_def and_then_Inr Let_def by auto
  have "0 \<le> raw" using applyBpsCeil_Inr[OF 1(2)] by blast
  then have "0 \<le> fee" using clamp_Inr[OF 1(3)] by blast
  moreover have "i = 0" if "fq_integratorId q = None"
    using that 1(4) q(6) by (auto simp: floorBps_def and_then_Inr check_bps_Inr FEE_BPS_DENOMINATOR_def)
  ultimately show thesis using that 1 q floorBps_Inr[OF 1(4)] by metis
qed

text \<open>A quote with a named integrator, or none, can always be booked.\<close>

lemma postings_of_quote:
  assumes "quoteFee rules referrals inp = Inr q" and "fq_integratorId q \<noteq> Some []"
  shows "\<exists>batch fee. BigInt (fq_fee q) = Some fee \<and> postingsForFill q iid u t = Inr batch \<and> ledger_good batch
           \<and> total_of (\<lambda>e. le_side e = Debit) batch = fee"
proof -
  obtain fee i where q: "0 \<le> fee" "0 \<le> i" "i \<le> fee" "fq_fee q = toString fee" "fq_treasuryFee q = toString (fee - i)"
    "fq_integratorFee q = toString i" "fq_integratorId q = None \<Longrightarrow> i = 0"
    using quoteFee_Inr[OF assms(1)] by metis
  show ?thesis
    using q assms(2)
    by (cases "fq_integratorId q")
      (auto simp: postingsForFill_def Let_def posting_def assertBalanced_def sumSide_def throw_unless_def ledger_good_def
        entry_ok_def total_of_def amt_def unset_def)
qed

lemma quote_treasury: "quoteFee rules referrals inp = Inr q \<Longrightarrow> BigInt (fq_treasuryFee q) \<noteq> None"
  by (erule quoteFee_Inr) simp

lemma record_good:
  assumes "ledger_good es"
  shows "ledger_good (fst (fees_recordFill rules referrals inp iid u t es))"
proof (cases "quoteFee rules referrals inp")
  case (Inr q)
  have "ledger_good es'" if "post q iid u t es = Inr es'" for es'
  proof -
    from that obtain batch where b: "postingsForFill q iid u t = Inr batch"
      "if batch \<noteq> [] then append_batch es batch = Inr es' else es' = es"
      unfolding post_def and_then_Inr by (auto split: if_splits)
    then show ?thesis
      using append_batch_good[OF assms postings_ok[OF b(1) quote_treasury[OF Inr]]] assms by (auto split: if_splits)
  qed
  then show ?thesis using Inr assms by (auto simp: fees_recordFill_def split: sum.splits)
qed (use assms in \<open>simp add: fees_recordFill_def\<close>)

inductive fees_step :: "fee_rule list \<Rightarrow> referral_code list \<Rightarrow> ledger_entry list \<Rightarrow> ledger_entry list \<Rightarrow> bool" for rules referrals where
  fee_recorded: "fees_step rules referrals es (fst (fees_recordFill rules referrals inp iid u t es))"

interpretation fee_runs: inv_system "fees_step rules referrals" ledger_good
  for rules referrals
  by unfold_locales (auto elim!: fees_step.cases intro: record_good)

section \<open>Properties\<close>

text \<open>C31. A quoted fee is what the rules say: the amounts of a quote are non-negative, the treasury's and
the integrator's parts add up to the fee, the fee respects the selected rule's floor and ceiling,
and for a rule with neither it is the basis-point share of the amount rounded up to the next
unit, so it never exceeds the amount.\<close>

theorem fee_quote_sound:
  assumes "quoteFee rules referrals inp = Inr q"
  shows "\<exists>amount fee t i b mn mx. fq_amount q = toString amount \<and> fq_fee q = toString fee \<and> fq_treasuryFee q = toString t
     \<and> fq_integratorFee q = toString i \<and> 0 \<le> t \<and> 0 \<le> i \<and> t + i = fee
     \<and> fq_bps q = of_int b
     \<and> parseUnits (U_text (fr_minFee (selectRule (if rules \<noteq> [] then rules else [DEFAULT_FEE_RULE]) inp))) = Inr mn
     \<and> parseUnits (U_text (fr_maxFee (selectRule (if rules \<noteq> [] then rules else [DEFAULT_FEE_RULE]) inp))) = Inr mx
     \<and> mn \<le> fee \<and> (0 < mx \<longrightarrow> fee \<le> mx)
     \<and> (mn = 0 \<and> mx = 0 \<longrightarrow> amount * b \<le> fee * 10000 \<and> fee * 10000 < amount * b + 10000 \<and> fee \<le> amount)"
proof -
  obtain amount raw fee i rule where q: "rule = selectRule (if rules \<noteq> [] then rules else [DEFAULT_FEE_RULE]) inp"
    "applyBpsCeil amount (fq_bps q) = Inr raw" "clamp raw rule = Inr fee"
    "0 \<le> i" "i \<le> fee" "fq_amount q = toString amount" "fq_fee q = toString fee" "fq_treasuryFee q = toString (fee - i)"
    "fq_integratorFee q = toString i"
    using quoteFee_Inr[OF assms] by metis
  obtain b where b: "fq_bps q = of_int b" "amount * b \<le> raw * 10000" "raw * 10000 < amount * b + 10000" "0 \<le> raw" "raw \<le> amount"
    using applyBpsCeil_Inr[OF q(2)] by blast
  obtain mn mx where m: "parseUnits (U_text (fr_minFee rule)) = Inr mn" "parseUnits (U_text (fr_maxFee rule)) = Inr mx"
    "mn \<le> fee" "0 < mx \<longrightarrow> fee \<le> mx" "mn \<le> raw \<and> (mx = 0 \<or> raw \<le> mx) \<longrightarrow> fee = raw"
    using clamp_Inr[OF q(3) b(4)] by blast
  have "mn = 0 \<and> mx = 0 \<longrightarrow> amount * b \<le> fee * 10000 \<and> fee * 10000 < amount * b + 10000 \<and> fee \<le> amount"
    using m(5) b(2-5) by auto
  moreover have "0 \<le> fee - i" "fee - i + i = fee" using q(5) by simp_all
  ultimately show ?thesis unfolding q(1)[symmetric] using q(4,6-9) b(1) m(1-4) by blast
qed

definition sample_fee_input :: fee_input where
  "sample_fee_input = \<lparr> fi_amount = U_big 100001, fi_srcChain = ''base'', fi_dstChain = ''stellar'', fi_srcToken = None,
     fi_dstToken = None, fi_volume = None, fi_referralCode = Some ''R'' \<rparr>"

definition sample_referral :: "string \<Rightarrow> referral_code" where
  "sample_referral integrator = \<lparr> rc_code = ''R'', rc_integratorId = integrator, rc_shareBps = 2000 \<rparr>"

definition quoted :: "string \<Rightarrow> fee_quote" where
  "quoted integrator = \<lparr> fq_amount = toString 100001, fq_fee = toString 51, fq_treasuryFee = toString 41, fq_integratorFee = toString 10,
     fq_integratorId = Some integrator, fq_referralCode = Some ''R'', fq_ruleId = ''default'', fq_ruleVersion = 1, fq_bps = 5 \<rparr>"

lemma sample_quote: "quoteFee [] [sample_referral integrator] sample_fee_input = Inr (quoted integrator)"
proof -
  have "BigInt ''0'' = Some 0" "all_digits ''0''" by code_simp+
  then show ?thesis
    by (simp add: quoteFee_def sample_fee_input_def sample_referral_def quoted_def selectRule_def rule_matches_def tierBps_def
        DEFAULT_FEE_RULE_def applyBpsCeil_def check_bps_def bigint_of_number_def ceilDiv_def FEE_BPS_DENOMINATOR_def clamp_def
        floorBps_def find_referral_def unset_def bigint_div_def)
qed

theorem fee_quote_sound_witness:
  "\<exists>amount fee t i b mn mx. fq_amount (quoted ''acme'') = toString amount \<and> fq_fee (quoted ''acme'') = toString fee
     \<and> fq_treasuryFee (quoted ''acme'') = toString t \<and> fq_integratorFee (quoted ''acme'') = toString i \<and> 0 \<le> t \<and> 0 \<le> i \<and> t + i = fee
     \<and> mn \<le> fee \<and> (0 < mx \<longrightarrow> fee \<le> mx)
     \<and> (mn = 0 \<and> mx = 0 \<longrightarrow> amount * b \<le> fee * 10000 \<and> fee * 10000 < amount * b + 10000 \<and> fee \<le> amount)"
  using fee_quote_sound[OF sample_quote[of "''acme''"]] by blast

text \<open>Rule precedence: when some configured rule applies to a trade, the selected rule is one of them
and none of the applicable rules outranks it, a pair rule ranking above a chain rule, a chain rule
above a default one, and within a kind the higher version; when none applies, it is the built-in
rule.\<close>

theorem selected_rule_outranks:
  "if \<exists>r \<in> set rules. rule_matches r inp
   then selectRule rules inp \<in> set rules \<and> rule_matches (selectRule rules inp) inp
     \<and> {r \<in> set rules. rule_matches r inp \<and> rule_rank (selectRule rules inp) < rule_rank r} = {}
   else selectRule rules inp = DEFAULT_FEE_RULE"
proof (cases "filter (\<lambda>r. rule_matches r inp) rules")
  case Nil
  then show ?thesis by (auto simp: selectRule_def filter_empty_conv)
next
  case (Cons r rs)
  have set_eq: "set (r # rs) = {x \<in> set rules. rule_matches x inp}" unfolding Cons[symmetric] by auto
  have "selectRule rules inp = foldl better_rule r rs" by (simp add: selectRule_def Cons)
  then have "selectRule rules inp \<in> set (r # rs) \<and> (\<forall>x \<in> set (r # rs). rule_rank x \<le> rule_rank (selectRule rules inp))"
    using best_of_list[of r rs] by simp
  then show ?thesis unfolding set_eq by (auto simp: not_less[symmetric])
qed

text \<open>C32. Every fee is booked once and the books stay balanced: after any sequence of recorded fills,
including failing ones, recording a fill whose quote names its integrator (or has none) succeeds;
the users' debits grow by exactly the quoted fee, and the ledger's totals, which add up the
treasury's and the integrators' credits, report exactly all the users were charged.\<close>

theorem fees_fully_booked:
  assumes "(fees_step rules referrals)\<^sup>*\<^sup>* [] es" and "quoteFee rules referrals inp = Inr q" and "fq_integratorId q \<noteq> Some []"
  shows "\<exists>es' d fee t. fees_recordFill rules referrals inp iid u at_sec es = (es', Inr q)
     \<and> sumSide es Debit = Inr d \<and> BigInt (fq_fee q) = Some fee \<and> sumSide es' Debit = Inr (d + fee)
     \<and> totals es' now w = Inr t \<and> lt_totalFees t = toString (d + fee)"
proof -
  have good: "ledger_good es" by (rule fee_runs.run_inv[OF assms(1)]) (simp add: ledger_good_def total_of_def)
  obtain batch fee where b: "BigInt (fq_fee q) = Some fee" "postingsForFill q iid u at_sec = Inr batch" "ledger_good batch"
    "total_of (\<lambda>e. le_side e = Debit) batch = fee"
    using postings_of_quote[OF assms(2,3)] by blast
  let ?es = "es @ batch"
  have g': "ledger_good ?es" by (rule good_append[OF good b(3)])
  have ok: "\<forall>e \<in> set es. entry_ok e" "\<forall>e \<in> set ?es. entry_ok e" "\<forall>e \<in> set batch. entry_ok e"
    using good g' b(3) by (auto simp: ledger_good_def)
  have rec: "fees_recordFill rules referrals inp iid u at_sec es = (?es, Inr q)"
    using assms(2) b(2) balanced_good[OF ok(3)] balanced_good[OF ok(2)] b(3) g'
    by (auto simp: fees_recordFill_def post_def append_batch_def)
  have "total_of (\<lambda>e. le_side e = Credit \<and> le_account e = Acc_treasury) ?es
      + total_of (\<lambda>e. le_side e = Credit \<and> le_account e = Acc_integrator) ?es = total_of (\<lambda>e. le_side e = Credit) ?es"
    by (rule credit_accounts[OF ok(2)])
  then show ?thesis
    using rec ok b(1,4) g' balanced_good[OF ok(2)]
    by (auto simp: totals_def sumSide_def sum_where_total ledger_good_def)
qed

theorem fees_fully_booked_witness:
  "\<exists>es'. fees_recordFill [] [sample_referral ''acme''] sample_fee_input ''i1'' ''GU'' 7 [] = (es', Inr (quoted ''acme''))
     \<and> sumSide es' Debit = Inr 51"
proof -
  have "fq_integratorId (quoted ''acme'') \<noteq> Some []" by (simp add: quoted_def)
  from fees_fully_booked[OF rtranclp.rtrancl_refl sample_quote this, of "''i1''" "''GU''" 7 0 0]
  show ?thesis by (auto simp: sumSide_def quoted_def)
qed

text \<open>An integrator configured with an empty identifier earns a share but gets no credit entry, so the
postings of such a fill never balance and recording it always fails.\<close>

theorem empty_integrator_unpostable:
  "\<exists>e. snd (fees_recordFill [] [sample_referral ''''] sample_fee_input ''i1'' ''GU'' 7 []) = Inl e"
  by (simp add: fees_recordFill_def sample_quote post_def postingsForFill_def posting_def assertBalanced_def sumSide_def
      throw_unless_def unset_def quoted_def Let_def)

end
