(* ===== verification/Partial_Fills.thy ===== *)
theory Partial_Fills
  imports Intent_Types
begin

text \<open>
  Partial-fill accounting: the integer arithmetic of
  \<^verbatim>\<open>src/intents/partial-fills/partial-fill.math.ts\<close> and the in-memory tranche store of
  \<^verbatim>\<open>src/intents/partial-fills/intent-fills.repository.ts\<close>. The store serialises the calls for one
  intent with a promise chain, so each of them is one atomic step; \<open>isOpen\<close> is the answer of the
  callback evaluated under that lock. \<open>None\<close> from an arithmetic function is the \<open>SyntaxError\<close>
  that \<open>BigInt\<close> throws on a malformed stored amount.
\<close>

section \<open>Accounting\<close>

definition isHolding :: "intent_fill \<Rightarrow> bool" where
  "isHolding f \<longleftrightarrow> f_status f = FS_reserved \<or> f_status f = FS_filled"

record fill_allocation =
  al_srcAmount :: int
  al_reserved :: int
  al_filled :: int
  al_remaining :: int

fun alloc_sums :: "intent_fill list \<Rightarrow> int \<Rightarrow> int \<Rightarrow> (int \<times> int) option" where
  "alloc_sums [] res fil = Some (res, fil)"
| "alloc_sums (f # fs) res fil =
     (case f_status f of
        FS_reserved \<Rightarrow> (case BigInt (f_reservedAmount f) of None \<Rightarrow> None | Some a \<Rightarrow> alloc_sums fs (res + a) fil)
      | FS_filled \<Rightarrow> (case BigInt (f_reservedAmount f) of None \<Rightarrow> None | Some a \<Rightarrow> alloc_sums fs res (fil + a))
      | _ \<Rightarrow> alloc_sums fs res fil)"

definition allocation :: "string \<Rightarrow> intent_fill list \<Rightarrow> fill_allocation option" where
  "allocation srcAmount fills =
     (case (BigInt srcAmount, alloc_sums fills 0 0) of
        (Some t, Some (r, f)) \<Rightarrow> Some \<lparr> al_srcAmount = t, al_reserved = r, al_filled = f, al_remaining = t - r - f \<rparr>
      | _ \<Rightarrow> None)"

datatype rejection = RJ_invalid_amount | RJ_nothing_remaining | RJ_exceeds_remaining | RJ_below_min_fill | RJ_intent_not_open

datatype reservation_plan = RP_ok int | RP_no rejection int

definition planReservation :: "string \<Rightarrow> string option \<Rightarrow> intent_fill list \<Rightarrow> string \<Rightarrow> reservation_plan option" where
  "planReservation srcAmount minFillAmount fills amount =
     (case allocation srcAmount fills of
        None \<Rightarrow> None
      | Some al \<Rightarrow>
          (let remaining = al_remaining al in
           case BigInt amount of
             None \<Rightarrow> Some (RP_no RJ_invalid_amount remaining)
           | Some a \<Rightarrow>
               if a \<le> 0 then Some (RP_no RJ_invalid_amount remaining)
               else if remaining \<le> 0 then Some (RP_no RJ_nothing_remaining remaining)
               else if a > remaining then Some (RP_no RJ_exceeds_remaining remaining)
               else (case BigInt (coalesce minFillAmount ''1'') of
                       None \<Rightarrow> None
                     | Some m \<Rightarrow> if a < m \<and> a \<noteq> remaining then Some (RP_no RJ_below_min_fill remaining)
                                 else Some (RP_ok (remaining - a)))))"

definition proRataMinDst :: "string \<Rightarrow> string \<Rightarrow> string \<Rightarrow> string option" where
  "proRataMinDst minDstAmount reservedAmount srcAmount =
     (case (BigInt minDstAmount, BigInt reservedAmount, BigInt srcAmount) of
        (Some m, Some part, Some total_amt) \<Rightarrow>
          Some (if total_amt = 0 then ''0'' else toString (bigint_div (m * part + total_amt - 1) total_amt))
      | _ \<Rightarrow> None)"

fun dst_filled :: "intent_fill list \<Rightarrow> int \<Rightarrow> int option" where
  "dst_filled [] acc = Some acc"
| "dst_filled (f # fs) acc =
     (if f_status f = FS_filled
      then (case BigInt (coalesce (f_dstAmount f) ''0'') of None \<Rightarrow> None | Some d \<Rightarrow> dst_filled fs (acc + d))
      else dst_filled fs acc)"

definition computeFillProgress :: "string \<Rightarrow> intent_state \<Rightarrow> intent_fill list \<Rightarrow> fill_progress option" where
  "computeFillProgress srcAmount st fills =
     (case (allocation srcAmount fills, dst_filled fills 0) of
        (Some al, Some d) \<Rightarrow>
          Some \<lparr> fp_status = (if al_filled al = 0 then PS_none
                   else if al_filled al \<ge> al_srcAmount al then PS_filled else PS_partially_filled),
                 fp_srcAmount = toString (al_srcAmount al), fp_reservedAmount = toString (al_reserved al),
                 fp_filledAmount = toString (al_filled al), fp_remainingAmount = toString (al_remaining al),
                 fp_dstFilledAmount = toString d,
                 fp_fillCount = length (filter (\<lambda>f. f_status f = FS_filled) fills),
                 fp_activeReservations = length (filter (\<lambda>f. f_status f = FS_reserved) fills),
                 fp_remainderCancelled =
                   (if (st = St_filled \<or> st = St_pending_filled) \<and> al_filled al < al_srcAmount al \<and> al_filled al > 0
                    then Some True else None) \<rparr>
      | _ \<Rightarrow> None)"

section \<open>The tranche store\<close>

record reserve_request =
  rq_intentId :: string
  rq_srcAmount :: string
  rq_minDstAmount :: string
  rq_minFillAmount :: "string option"
  rq_solver :: string
  rq_amount :: string
  rq_deadline :: int
  rq_now :: int

datatype reserve_result = RR_ok intent_fill | RR_no rejection string

record fills_repo =
  fr_fills :: "(string, intent_fill) jsmap"
  fr_byIntent :: "(string, string list) jsmap"

definition ids_of :: "fills_repo \<Rightarrow> string \<Rightarrow> string list" where
  "ids_of r iid = coalesce (map_of (fr_byIntent r) iid) []"

definition listSync :: "fills_repo \<Rightarrow> string \<Rightarrow> intent_fill list" where
  "listSync r iid = List.map_filter (map_of (fr_fills r)) (ids_of r iid)"

definition newFillRow :: "string \<Rightarrow> reserve_request \<Rightarrow> intent_fill option" where
  "newFillRow uuid rq =
     (case (BigInt (rq_amount rq), proRataMinDst (rq_minDstAmount rq) (rq_amount rq) (rq_srcAmount rq)) of
        (Some a, Some m) \<Rightarrow>
          Some \<lparr> f_fillId = uuid, f_intentId = rq_intentId rq, f_solver = rq_solver rq, f_reservedAmount = toString a,
                 f_minDstAmount = m, f_status = FS_reserved, f_reservedAt = rq_now rq, f_deadline = rq_deadline rq,
                 f_dstAmount = None, f_feeAmount = None, f_txHash = None, f_filledAt = None, f_slashedAt = None,
                 f_releasedAt = None \<rparr>
      | _ \<Rightarrow> None)"

definition reserve :: "fills_repo \<Rightarrow> string \<Rightarrow> reserve_request \<Rightarrow> bool \<Rightarrow> fills_repo \<times> reserve_result result" where
  "reserve r uuid rq isOpen =
     (let current = listSync r (rq_intentId rq) in
      if \<not> isOpen then (r, Inr (RR_no RJ_intent_not_open ''0''))
      else (case planReservation (rq_srcAmount rq) (rq_minFillAmount rq) current (rq_amount rq) of
              None \<Rightarrow> (r, Inl SyntaxError)
            | Some (RP_no reason remaining) \<Rightarrow> (r, Inr (RR_no reason (toString remaining)))
            | Some (RP_ok _) \<Rightarrow>
                (case newFillRow uuid rq of
                   None \<Rightarrow> (r, Inl SyntaxError)
                 | Some f \<Rightarrow> (r\<lparr> fr_fills := AList.update (f_fillId f) f (fr_fills r),
                                 fr_byIntent := AList.update (rq_intentId rq) (ids_of r (rq_intentId rq) @ [f_fillId f]) (fr_byIntent r) \<rparr>,
                              Inr (RR_ok f)))))"

definition fillById :: "fills_repo \<Rightarrow> string \<Rightarrow> intent_fill option" where
  "fillById r fid = map_of (fr_fills r) fid"

definition intentIdsWithFills :: "fills_repo \<Rightarrow> string list \<Rightarrow> string list" where
  "intentIdsWithFills r iids = filter (\<lambda>iid. ids_of r iid \<noteq> []) iids"

text \<open>The scan stops after the entry that fills the page; the limit is tested after each row.\<close>

fun expired_scan :: "int \<Rightarrow> nat \<Rightarrow> intent_fill list \<Rightarrow> intent_fill list \<Rightarrow> intent_fill list" where
  "expired_scan now limit [] out = out"
| "expired_scan now limit (f # fs) out =
     (let out' = (if f_status f = FS_reserved \<and> f_deadline f \<le> now then out @ [f] else out)
      in if length out' \<ge> limit then out' else expired_scan now limit fs out')"

definition findExpiredReservations :: "fills_repo \<Rightarrow> int \<Rightarrow> nat \<Rightarrow> intent_fill list" where
  "findExpiredReservations r now limit = expired_scan now limit (js_values (fr_fills r)) []"

definition fill_transition :: "fills_repo \<Rightarrow> string \<Rightarrow> (intent_fill \<Rightarrow> bool) \<Rightarrow> (intent_fill \<Rightarrow> intent_fill)
    \<Rightarrow> fills_repo \<times> intent_fill option" where
  "fill_transition r fid guard patch =
     (case map_of (fr_fills r) fid of
        None \<Rightarrow> (r, None)
      | Some current \<Rightarrow>
          if \<not> guard current then (r, None)
          else (r\<lparr> fr_fills := AList.update fid (patch current) (fr_fills r) \<rparr>, Some (patch current)))"

record filled_patch =
  fl_dstAmount :: string
  fl_feeAmount :: string
  fl_txHash :: "string option"
  fl_filledAt :: int

definition markFilled :: "fills_repo \<Rightarrow> string \<Rightarrow> string \<Rightarrow> filled_patch \<Rightarrow> fills_repo \<times> intent_fill option" where
  "markFilled r fid solver p =
     (case map_of (fr_fills r) fid of
        None \<Rightarrow> (r, None)
      | Some current \<Rightarrow>
          if f_status current \<noteq> FS_reserved \<or> f_solver current \<noteq> solver \<or> f_deadline current \<le> fl_filledAt p then (r, None)
          else (let updated = current\<lparr> f_status := FS_filled, f_dstAmount := Some (fl_dstAmount p),
                        f_feeAmount := Some (fl_feeAmount p), f_txHash := fl_txHash p, f_filledAt := Some (fl_filledAt p) \<rparr>
                in (r\<lparr> fr_fills := AList.update fid updated (fr_fills r) \<rparr>, Some updated)))"

definition markSlashed :: "fills_repo \<Rightarrow> string \<Rightarrow> int \<Rightarrow> fills_repo \<times> intent_fill option" where
  "markSlashed r fid now = fill_transition r fid (\<lambda>f. f_status f = FS_reserved \<and> f_deadline f \<le> now)
     (\<lambda>f. f\<lparr> f_status := FS_slashed, f_slashedAt := Some now \<rparr>)"

definition markReleased :: "fills_repo \<Rightarrow> string \<Rightarrow> int \<Rightarrow> fills_repo \<times> intent_fill option" where
  "markReleased r fid now = fill_transition r fid (\<lambda>f. f_status f = FS_reserved)
     (\<lambda>f. f\<lparr> f_status := FS_released, f_releasedAt := Some now \<rparr>)"

section \<open>Facts about the accounting\<close>

definition amount_of :: "intent_fill \<Rightarrow> int" where
  "amount_of f = coalesce (BigInt (f_reservedAmount f)) 0"

definition held :: "fill_status \<Rightarrow> intent_fill \<Rightarrow> int" where
  "held st f = (if f_status f = st then amount_of f else 0)"

lemma alloc_sums_eq:
  "\<forall>f \<in> set fs. BigInt (f_reservedAmount f) \<noteq> None \<Longrightarrow>
     alloc_sums fs r d = Some (r + sum_list (map (held FS_reserved) fs), d + sum_list (map (held FS_filled) fs))"
  by (induction fs arbitrary: r d) (auto simp: held_def amount_of_def split: fill_status.splits)

lemma allocation_eq:
  assumes "BigInt src = Some t" and "\<forall>f \<in> set fs. BigInt (f_reservedAmount f) \<noteq> None"
  shows "allocation src fs = Some \<lparr> al_srcAmount = t, al_reserved = sum_list (map (held FS_reserved) fs),
     al_filled = sum_list (map (held FS_filled) fs),
     al_remaining = t - sum_list (map (held FS_reserved) fs) - sum_list (map (held FS_filled) fs) \<rparr>"
  using assms by (simp add: allocation_def alloc_sums_eq)

lemma planReservation_ok:
  assumes "allocation src fs = Some al"
  shows "planReservation src minFill fs amount = Some (RP_ok rest) \<longleftrightarrow>
     (\<exists>a m. BigInt amount = Some a \<and> BigInt (coalesce minFill ''1'') = Some m \<and> 0 < a \<and> a \<le> al_remaining al
        \<and> (m \<le> a \<or> a = al_remaining al) \<and> rest = al_remaining al - a)"
  using assms by (auto simp: planReservation_def Let_def split: option.splits)

text \<open>The rounded-up share: its multiples cover the whole.\<close>

definition share :: "int \<Rightarrow> int \<Rightarrow> int \<Rightarrow> int" where
  "share m part t = bigint_div (m * part + t - 1) t"

lemma share_covers:
  assumes "0 < t" and "0 \<le> m" and "0 \<le> part"
  shows "m * part \<le> share m part t * t"
proof -
  have "0 \<le> m * part + t - 1" using assms mult_nonneg_nonneg[of m part] by linarith
  then have s: "share m part t = (m * part + t - 1) div t" using assms(1) by (simp add: share_def)
  have "(m * part + t - 1) div t * t = m * part + t - 1 - (m * part + t - 1) mod t" by (simp add: minus_mod_eq_div_mult)
  moreover have "(m * part + t - 1) mod t \<le> t - 1" using assms(1) by (simp add: zle_diff1_eq)
  ultimately show ?thesis unfolding s by linarith
qed

section \<open>Conditional writes on tranches\<close>

interpretation tranches: conditional_write fillById "\<lambda>g. g" "\<lambda>k p. p" fill_transition
  by unfold_locales (auto simp: fillById_def fill_transition_def split: option.splits)

definition filled_guard :: "string \<Rightarrow> filled_patch \<Rightarrow> intent_fill \<Rightarrow> bool" where
  "filled_guard solver p f \<longleftrightarrow> f_status f = FS_reserved \<and> f_solver f = solver \<and> fl_filledAt p < f_deadline f"

definition filled_row :: "filled_patch \<Rightarrow> intent_fill \<Rightarrow> intent_fill" where
  "filled_row p f = f\<lparr> f_status := FS_filled, f_dstAmount := Some (fl_dstAmount p), f_feeAmount := Some (fl_feeAmount p),
     f_txHash := fl_txHash p, f_filledAt := Some (fl_filledAt p) \<rparr>"

lemma markFilled_transition: "markFilled r fid solver p = fill_transition r fid (filled_guard solver p) (filled_row p)"
  by (auto simp: markFilled_def fill_transition_def filled_guard_def filled_row_def Let_def split: option.splits)

lemmas tranche_writes = markFilled_transition markSlashed_def markReleased_def

lemma transition_byIntent [simp]: "fr_byIntent (fst (fill_transition r fid g p)) = fr_byIntent r"
  by (simp add: fill_transition_def split: option.splits)

lemma transition_wf [simp]: "wf_map (fr_fills r) \<Longrightarrow> wf_map (fr_fills (fst (fill_transition r fid g p)))"
  by (simp add: fill_transition_def split: option.splits)

section \<open>Invariant of the store\<close>

text \<open>
  \<open>T\<close> and \<open>M\<close> give the source amount and the minimum destination amount of each intent, which its
  reservations all quote. A tranche carries its share of the minimum, and a filled one delivered
  at least that.
\<close>

definition tranche_ok :: "(string \<Rightarrow> int) \<Rightarrow> (string \<Rightarrow> int) \<Rightarrow> intent_fill \<Rightarrow> bool" where
  "tranche_ok T M f \<longleftrightarrow> BigInt (f_reservedAmount f) = Some (amount_of f) \<and> 0 < amount_of f \<and> 0 < T (f_intentId f)
     \<and> BigInt (f_minDstAmount f) = Some (share (M (f_intentId f)) (amount_of f) (T (f_intentId f)))
     \<and> (f_status f = FS_filled \<longrightarrow> (\<exists>d. BigInt (coalesce (f_dstAmount f) ''0'') = Some d
          \<and> share (M (f_intentId f)) (amount_of f) (T (f_intentId f)) \<le> d))"

definition ids_ok :: "fills_repo \<Rightarrow> bool" where
  "ids_ok r \<longleftrightarrow> wf_map (fr_fills r) \<and> (\<forall>iid. distinct (ids_of r iid)
     \<and> (\<forall>k \<in> set (ids_of r iid). \<exists>f. fillById r k = Some f \<and> f_intentId f = iid))
     \<and> (\<forall>k f. fillById r k = Some f \<longrightarrow> f_fillId f = k \<and> k \<in> set (ids_of r (f_intentId f)))"

definition holding :: "fills_repo \<Rightarrow> string \<Rightarrow> int" where
  "holding r iid = (\<Sum>k \<in> set (ids_of r iid). held FS_reserved (the (fillById r k)) + held FS_filled (the (fillById r k)))"

definition fills_inv :: "(string \<Rightarrow> int) \<Rightarrow> (string \<Rightarrow> int) \<Rightarrow> fills_repo \<Rightarrow> bool" where
  "fills_inv T M r \<longleftrightarrow> ids_ok r \<and> (\<forall>k f. fillById r k = Some f \<longrightarrow> tranche_ok T M f)
     \<and> (\<forall>iid. ids_of r iid \<noteq> [] \<longrightarrow> holding r iid \<le> T iid)"

inductive fills_step :: "(string \<Rightarrow> int) \<Rightarrow> (string \<Rightarrow> int) \<Rightarrow> fills_repo \<Rightarrow> fills_repo \<Rightarrow> bool" for T M where
  fs_reserve: "fillById r uuid = None \<Longrightarrow> BigInt (rq_srcAmount rq) = Some (T (rq_intentId rq))
    \<Longrightarrow> BigInt (rq_minDstAmount rq) = Some (M (rq_intentId rq)) \<Longrightarrow> fills_step T M r (fst (reserve r uuid rq op))"
| fs_filled: "(\<And>f. fillById r fid = Some f \<Longrightarrow> \<exists>d m. BigInt (fl_dstAmount p) = Some d \<and> BigInt (f_minDstAmount f) = Some m \<and> m \<le> d)
    \<Longrightarrow> fills_step T M r (fst (markFilled r fid solver p))"
| fs_slashed: "fills_step T M r (fst (markSlashed r fid now))"
| fs_released: "fills_step T M r (fst (markReleased r fid now))"

lemma ids_ok_mem: "ids_ok r \<Longrightarrow> k \<in> set (ids_of r iid) \<Longrightarrow> \<exists>f. fillById r k = Some f \<and> f_intentId f = iid"
  by (auto simp: ids_ok_def)

lemma ids_ok_row: "ids_ok r \<Longrightarrow> fillById r k = Some f \<Longrightarrow> f_fillId f = k \<and> k \<in> set (ids_of r (f_intentId f))"
  by (auto simp: ids_ok_def)

lemma ids_okI:
  assumes "wf_map (fr_fills r)" and "\<And>iid. distinct (ids_of r iid)"
    and "\<And>k iid. k \<in> set (ids_of r iid) \<Longrightarrow> \<exists>f. fillById r k = Some f \<and> f_intentId f = iid"
    and "\<And>k f. fillById r k = Some f \<Longrightarrow> f_fillId f = k \<and> k \<in> set (ids_of r (f_intentId f))"
  shows "ids_ok r"
  unfolding ids_ok_def using assms by blast

lemma inv_tranche: "fills_inv T M r \<Longrightarrow> fillById r k = Some f \<Longrightarrow> tranche_ok T M f"
  by (simp add: fills_inv_def)

lemma listSync_map: "ids_ok r \<Longrightarrow> listSync r iid = map (\<lambda>k. the (fillById r k)) (ids_of r iid)"
proof -
  assume ok: "ids_ok r"
  have "List.map_filter (fillById r) ks = map (\<lambda>k. the (fillById r k)) ks" if "\<forall>k \<in> set ks. \<exists>f. fillById r k = Some f" for ks
    using that by (induction ks) (auto simp: List.map_filter_def)
  then show ?thesis using ok unfolding ids_ok_def listSync_def fillById_def by blast
qed

lemma sum_listSync:
  "ids_ok r \<Longrightarrow> sum_list (map h (listSync r iid)) = (\<Sum>k \<in> set (ids_of r iid). h (the (fillById r k)))"
  by (simp add: listSync_map sum_list_distinct_conv_sum_set ids_ok_def comp_def)

lemma listSync_mem: "ids_ok r \<Longrightarrow> f \<in> set (listSync r iid) \<Longrightarrow> fillById r (f_fillId f) = Some f \<and> f_intentId f = iid"
  by (fastforce simp: listSync_map ids_ok_def)

lemma holding_list:
  "ids_ok r \<Longrightarrow> holding r iid = sum_list (map (held FS_reserved) (listSync r iid)) + sum_list (map (held FS_filled) (listSync r iid))"
  by (simp add: holding_def sum_listSync sum.distrib)

lemma inv_allocation:
  assumes "fills_inv T M r" and "BigInt src = Some (T iid)"
  shows "allocation src (listSync r iid) = Some \<lparr> al_srcAmount = T iid,
     al_reserved = sum_list (map (held FS_reserved) (listSync r iid)), al_filled = sum_list (map (held FS_filled) (listSync r iid)),
     al_remaining = T iid - holding r iid \<rparr>"
proof -
  have ok: "ids_ok r" using assms(1) by (simp add: fills_inv_def)
  have "\<forall>f \<in> set (listSync r iid). BigInt (f_reservedAmount f) \<noteq> None"
    using listSync_mem[OF ok] assms(1) by (fastforce simp: fills_inv_def tranche_ok_def)
  from allocation_eq[OF assms(2) this] show ?thesis by (simp add: holding_list[OF ok])
qed

lemma transition_get:
  "fillById (fst (fill_transition r fid g p)) k =
     (if k = fid then (case fillById r fid of None \<Rightarrow> None | Some f \<Rightarrow> Some (if g f then p f else f)) else fillById r k)"
  by (rule tranches.get_after)

lemma transition_ids [simp]: "ids_of (fst (fill_transition r fid g p)) iid = ids_of r iid"
  by (simp add: ids_of_def)

text \<open>Settling a reserved tranche keeps the invariant when the new row is sound and holds no more.\<close>

lemma transition_inv:
  assumes inv: "fills_inv T M r"
    and "\<And>f. g f \<Longrightarrow> f_status f = FS_reserved"
    and "\<And>f. g f \<Longrightarrow> f_fillId (p f) = f_fillId f \<and> f_intentId (p f) = f_intentId f \<and> f_reservedAmount (p f) = f_reservedAmount f
           \<and> f_status (p f) \<noteq> FS_reserved"
    and "\<And>f. g f \<Longrightarrow> fillById r fid = Some f \<Longrightarrow> tranche_ok T M f \<Longrightarrow> tranche_ok T M (p f)"
  shows "fills_inv T M (fst (fill_transition r fid g p))" (is "fills_inv T M ?r")
proof -
  have ok: "ids_ok r" and tr: "\<And>k f. fillById r k = Some f \<Longrightarrow> tranche_ok T M f"
    and cap: "\<And>iid. ids_of r iid \<noteq> [] \<Longrightarrow> holding r iid \<le> T iid" using inv by (auto simp: fills_inv_def)
  have amt: "amount_of (p f) = amount_of f" if "g f" for f using assms(3)[OF that] by (simp add: amount_of_def)
  have le: "held FS_reserved (the (fillById ?r k)) + held FS_filled (the (fillById ?r k))
      \<le> held FS_reserved (the (fillById r k)) + held FS_filled (the (fillById r k))" if "k \<in> set (ids_of r iid)" for k iid
  proof -
    obtain f where f: "fillById r k = Some f" using ids_ok_mem[OF ok \<open>k \<in> set (ids_of r iid)\<close>] by blast
    then have "0 < amount_of f" using tr by (auto simp: tranche_ok_def)
    then show ?thesis using f assms(2,3)[of f] amt[of f] by (cases "g f") (auto simp: transition_get held_def)
  qed
  have "holding ?r iid \<le> holding r iid" for iid
    unfolding holding_def transition_ids by (rule sum_mono) (rule le)
  then have "holding ?r iid \<le> T iid" if "ids_of r iid \<noteq> []" for iid using cap[OF that] order_trans by blast
  moreover have "ids_ok ?r"
  proof -
    have "\<exists>f. fillById ?r k = Some f \<and> f_intentId f = iid" if "k \<in> set (ids_of r iid)" for k iid
    proof -
      obtain f where f: "fillById r k = Some f" "f_intentId f = iid"
        using ids_ok_mem[OF ok \<open>k \<in> set (ids_of r iid)\<close>] by blast
      then show ?thesis using assms(3)[of f] by (auto simp: transition_get)
    qed
    moreover have "f_fillId f = k \<and> k \<in> set (ids_of r (f_intentId f))" if "fillById ?r k = Some f" for k f
      using that ok assms(3) by (auto simp: transition_get ids_ok_def split: if_splits option.splits)
    ultimately show ?thesis using ok by (simp add: ids_ok_def)
  qed
  moreover have "tranche_ok T M f" if "fillById ?r k = Some f" for k f
    using that tr assms(4) by (auto simp: transition_get split: if_splits option.splits)
  ultimately show ?thesis by (simp add: fills_inv_def)
qed

lemma newFillRow_ok:
  assumes "newFillRow uuid rq = Some f" and "BigInt (rq_srcAmount rq) = Some t" and "BigInt (rq_minDstAmount rq) = Some m" and "t \<noteq> 0"
  shows "f_fillId f = uuid" "f_intentId f = rq_intentId rq" "f_status f = FS_reserved" "BigInt (f_reservedAmount f) = Some (amount_of f)"
    "BigInt (rq_amount rq) = Some (amount_of f)" "BigInt (f_minDstAmount f) = Some (share m (amount_of f) t)"
  using assms by (auto simp: newFillRow_def proRataMinDst_def share_def amount_of_def split: option.splits)

lemma reserve_inv:
  assumes inv: "fills_inv T M r" and fresh: "fillById r uuid = None"
    and src: "BigInt (rq_srcAmount rq) = Some (T (rq_intentId rq))" and md: "BigInt (rq_minDstAmount rq) = Some (M (rq_intentId rq))"
  shows "fills_inv T M (fst (reserve r uuid rq op))"
proof (cases "\<exists>f. snd (reserve r uuid rq op) = Inr (RR_ok f)")
  case False
  then have "fst (reserve r uuid rq op) = r"
    by (auto simp: reserve_def Let_def split: option.splits reservation_plan.splits)
  then show ?thesis using inv by simp
next
  case True
  let ?iid = "rq_intentId rq"
  have ok: "ids_ok r" using inv by (simp add: fills_inv_def)
  from True obtain f rest where f: "newFillRow uuid rq = Some f"
    "planReservation (rq_srcAmount rq) (rq_minFillAmount rq) (listSync r ?iid) (rq_amount rq) = Some (RP_ok rest)"
    and r': "fst (reserve r uuid rq op) = r\<lparr> fr_fills := AList.update (f_fillId f) f (fr_fills r),
        fr_byIntent := AList.update ?iid (ids_of r ?iid @ [f_fillId f]) (fr_byIntent r) \<rparr>" (is "_ = ?r")
    by (auto simp: reserve_def Let_def split: option.splits reservation_plan.splits if_splits)
  from f(2) planReservation_ok[OF inv_allocation[OF inv src]] obtain a where
    a: "BigInt (rq_amount rq) = Some a" "0 < a" "a \<le> T ?iid - holding r ?iid" by auto
  have hold0: "0 \<le> holding r ?iid"
    unfolding holding_def
    using ok inv by (intro sum_nonneg) (fastforce simp: ids_ok_def fills_inv_def tranche_ok_def held_def)
  then have t: "0 < T ?iid" using a by linarith
  note nf = newFillRow_ok[OF f(1) src md] and amt = newFillRow_ok(5)[OF f(1) src md]
  have fa: "amount_of f = a" using nf(5) t a(1) by simp
  have g: "fillById ?r k = (if k = uuid then Some f else fillById r k)" for k
    using nf(1) t by (simp add: fillById_def)
  have ids: "ids_of ?r i = (if i = ?iid then ids_of r i @ [uuid] else ids_of r i)" for i
    using nf(1) t by (simp add: ids_of_def)
  have nin: "uuid \<notin> set (ids_of r i)" for i using ok fresh by (fastforce simp: ids_ok_def)
  have "ids_ok ?r"
  proof (rule ids_okI)
    show "\<exists>x. fillById ?r k = Some x \<and> f_intentId x = i" if "k \<in> set (ids_of ?r i)" for k i
      using that ids_ok_mem[OF ok, of k i] nin nf(2) t unfolding g ids by (auto split: if_splits)
    show "f_fillId x = k \<and> k \<in> set (ids_of ?r (f_intentId x))" if "fillById ?r k = Some x" for k x
      using that ids_ok_row[OF ok, of k x] nf(1,2) t unfolding g ids by (auto split: if_splits)
    show "distinct (ids_of ?r i)" for i using ok nin unfolding ids by (auto simp: ids_ok_def)
    show "wf_map (fr_fills ?r)" using ok by (simp add: ids_ok_def)
  qed
  moreover have "holding ?r i = holding r i + (if i = ?iid then a else 0)" for i
  proof -
    have "(\<Sum>k \<in> set (ids_of r i). held FS_reserved (the (fillById ?r k)) + held FS_filled (the (fillById ?r k))) = holding r i"
      unfolding holding_def by (rule sum.cong) (use nin g in auto)
    moreover have "held FS_reserved (the (fillById ?r uuid)) + held FS_filled (the (fillById ?r uuid)) = a"
      using nf(3) t fa by (simp add: g held_def)
    ultimately show ?thesis using nin by (cases "i = ?iid") (simp_all add: holding_def[of ?r] ids)
  qed
  moreover have "tranche_ok T M f" using nf t a fa by (simp add: tranche_ok_def)
  ultimately show ?thesis
    using inv_tranche[OF inv] inv a t unfolding r' fills_inv_def g ids by (simp add: fills_inv_def)
qed

lemma fills_step_inv: "fills_step T M r r' \<Longrightarrow> fills_inv T M r \<Longrightarrow> fills_inv T M r'"
proof (induction rule: fills_step.induct)
  case (fs_filled r fid p solver)
  show ?case
    unfolding markFilled_transition
  proof (rule transition_inv[OF fs_filled.prems])
    fix f assume "filled_guard solver p f" "fillById r fid = Some f" "tranche_ok T M f"
    then show "tranche_ok T M (filled_row p f)"
      using fs_filled.hyps[of f] by (auto simp: tranche_ok_def filled_row_def amount_of_def)
  qed (auto simp: filled_guard_def filled_row_def)
next
  case (fs_slashed r fid now)
  show ?case unfolding markSlashed_def
    by (rule transition_inv[OF fs_slashed]) (auto simp: tranche_ok_def amount_of_def)
next
  case (fs_released r fid now)
  show ?case unfolding markReleased_def
    by (rule transition_inv[OF fs_released]) (auto simp: tranche_ok_def amount_of_def)
qed (rule reserve_inv)

text \<open>The lifecycle of a tranche.\<close>

definition tranche_edge :: "fill_status \<Rightarrow> fill_status \<Rightarrow> bool" where
  "tranche_edge a b \<longleftrightarrow> a = FS_reserved \<and> b \<noteq> FS_reserved"

lemma fills_step_edge:
  assumes "fills_step T M r r'" and "fillById r k = Some f"
  shows "\<exists>f'. fillById r' k = Some f' \<and> tranche_edge\<^sup>*\<^sup>* (f_status f) (f_status f')"
  using assms
proof (induction rule: fills_step.induct)
  case (fs_reserve r uuid rq op)
  then have "k \<noteq> uuid" by auto
  then have "fillById (fst (reserve r uuid rq op)) k = fillById r k"
    by (auto simp: reserve_def newFillRow_def fillById_def Let_def split: option.splits reservation_plan.splits)
  then show ?case using fs_reserve.prems by auto
qed (auto simp: tranche_writes transition_get filled_guard_def filled_row_def tranche_edge_def intro!: r_into_rtranclp)

interpretation tranche_runs: status_system "fills_step T M" "fills_inv T M" "\<lambda>r k. map_option f_status (fillById r k)" tranche_edge
  for T M
proof
  show "fills_inv T M r'" if "fills_step T M r r'" "fills_inv T M r" for r r' using that by (rule fills_step_inv)
  show "\<exists>b. map_option f_status (fillById r' k) = Some b \<and> tranche_edge\<^sup>*\<^sup>* a b"
    if "fills_step T M r r'" "fills_inv T M r" "map_option f_status (fillById r k) = Some a" for r r' k a
    using fills_step_edge[OF that(1)] that(3) by fastforce
qed

definition emptyFills :: fills_repo where
  "emptyFills = \<lparr> fr_fills = [], fr_byIntent = [] \<rparr>"

lemma emptyFills_inv: "fills_inv T M emptyFills"
  by (simp add: fills_inv_def ids_ok_def emptyFills_def ids_of_def fillById_def)

section \<open>Properties\<close>

text \<open>C2. No over-reservation: after any sequence of reservations, fills, slashes and releases, whoever
makes them and in whatever order, the accounting of every intent is exact: reserved, filled and
remaining amounts are all non-negative and add up to its source amount. So the live reservations
and completed fills of an intent never exceed what the user escrowed.\<close>

theorem never_over_reserved:
  assumes "(fills_step T M)\<^sup>*\<^sup>* emptyFills r" and "BigInt src = Some (T iid)" and "0 \<le> T iid"
  shows "\<exists>al. allocation src (listSync r iid) = Some al \<and> 0 \<le> al_reserved al \<and> 0 \<le> al_filled al \<and> 0 \<le> al_remaining al
           \<and> al_reserved al + al_filled al + al_remaining al = T iid"
proof -
  have inv: "fills_inv T M r" by (rule tranche_runs.run_inv[OF assms(1) emptyFills_inv])
  then have ok: "ids_ok r" by (simp add: fills_inv_def)
  have pos: "0 \<le> held st f" if "f \<in> set (listSync r iid)" for st f
    using inv_tranche[OF inv, of "f_fillId f" f] listSync_mem[OF ok that] by (auto simp: tranche_ok_def held_def)
  have "holding r iid \<le> T iid"
  proof (cases "ids_of r iid = []")
    case True
    then show ?thesis using assms(3) by (simp add: holding_def)
  qed (use inv in \<open>simp add: fills_inv_def\<close>)
  then show ?thesis
    using inv_allocation[OF inv assms(2)] pos by (auto simp: holding_list[OF ok] intro!: sum_list_nonneg)
qed

definition sample_request :: "string \<Rightarrow> string \<Rightarrow> reserve_request" where
  "sample_request solver amt = \<lparr> rq_intentId = ''i1'', rq_srcAmount = ''1000'', rq_minDstAmount = ''990'', rq_minFillAmount = Some ''100'',
     rq_solver = solver, rq_amount = amt, rq_deadline = 50, rq_now = 10 \<rparr>"

definition reserved_repo :: fills_repo where
  "reserved_repo = fst (reserve (fst (reserve emptyFills ''f1'' (sample_request ''GS'' ''600'') True)) ''f2'' (sample_request ''GT'' ''500'') True)"

lemma reserved_run: "(fills_step (\<lambda>_. 1000) (\<lambda>_. 990))\<^sup>*\<^sup>* emptyFills reserved_repo"
proof -
  let ?r1 = "fst (reserve emptyFills ''f1'' (sample_request ''GS'' ''600'') True)"
  have b: "BigInt ''1000'' = Some 1000" "BigInt ''990'' = Some 990" by code_simp+
  have "fills_step (\<lambda>_. 1000) (\<lambda>_. 990) emptyFills ?r1"
    by (rule fs_reserve) (simp_all add: emptyFills_def fillById_def sample_request_def b)
  moreover have "fillById ?r1 ''f2'' = None" by code_simp
  then have "fills_step (\<lambda>_. 1000) (\<lambda>_. 990) ?r1 reserved_repo"
    unfolding reserved_repo_def by (rule fs_reserve) (simp_all add: sample_request_def b)
  ultimately show ?thesis by simp
qed

theorem never_over_reserved_witness:
  "\<exists>al. allocation ''1000'' (listSync reserved_repo ''i1'') = Some al \<and> 0 \<le> al_remaining al
     \<and> al_reserved al + al_filled al + al_remaining al = 1000"
proof -
  have "BigInt ''1000'' = Some 1000" by code_simp
  with never_over_reserved[OF reserved_run, of "''1000''" "''i1''"] show ?thesis by auto
qed

lemma dst_filled_eq:
  assumes "\<forall>f \<in> set fs. f_status f = FS_filled \<longrightarrow> BigInt (coalesce (f_dstAmount f) ''0'') \<noteq> None"
  shows "dst_filled fs acc = Some (acc + sum_list (map (\<lambda>f. if f_status f = FS_filled
     then coalesce (BigInt (coalesce (f_dstAmount f) ''0'')) 0 else 0) fs))"
  using assms by (induction fs arbitrary: acc) auto

lemma filled_cover_minimum:
  assumes inv: "fills_inv T M r" and "BigInt src = Some (T iid)" and "0 < T iid" and "0 \<le> M iid"
    and "allocation src (listSync r iid) = Some al" and "al_filled al = T iid"
  shows "\<exists>d. dst_filled (listSync r iid) 0 = Some d \<and> M iid \<le> d"
proof -
  have ok: "ids_ok r" using inv by (simp add: fills_inv_def)
  let ?fs = "listSync r iid"
  let ?d = "\<lambda>f. if f_status f = FS_filled then coalesce (BigInt (coalesce (f_dstAmount f) ''0'')) 0 else 0"
  have tr: "tranche_ok T M f \<and> f_intentId f = iid" if "f \<in> set ?fs" for f
    using listSync_mem[OF ok that] inv by (auto simp: fills_inv_def)
  have d: "dst_filled ?fs 0 = Some (sum_list (map ?d ?fs))"
    using tr dst_filled_eq[of ?fs 0] by (force simp: tranche_ok_def)
  have "M iid * held FS_filled f \<le> ?d f * T iid" if "f \<in> set ?fs" for f
  proof (cases "f_status f = FS_filled")
    case True
    obtain x where x: "BigInt (coalesce (f_dstAmount f) ''0'') = Some x" "share (M iid) (amount_of f) (T iid) \<le> x" "0 < amount_of f"
      using tr[OF \<open>f \<in> set ?fs\<close>] True by (auto simp: tranche_ok_def)
    have "M iid * amount_of f \<le> share (M iid) (amount_of f) (T iid) * T iid"
      using share_covers[OF assms(3,4)] x(3) by simp
    also have "\<dots> \<le> x * T iid" using x(2) assms(3) by simp
    finally show ?thesis using True x(1) by (simp add: held_def)
  qed (simp add: held_def)
  then have "sum_list (map (\<lambda>f. M iid * held FS_filled f) ?fs) \<le> sum_list (map (\<lambda>f. ?d f * T iid) ?fs)"
    by (rule sum_list_mono)
  then have "M iid * al_filled al \<le> sum_list (map ?d ?fs) * T iid"
    using assms(5) inv_allocation[OF inv assms(2)] by (auto simp: sum_list_const_mult sum_list_mult_const)
  then have "M iid \<le> sum_list (map ?d ?fs)" using assms(3,6) by simp
  then show ?thesis using d by blast
qed

text \<open>The user is never short-changed by splitting: once the filled tranches of an intent cover its
whole source amount, the destination amounts they delivered add up to at least the intent's
minimum, whatever the number and sizes of the tranches, because each tranche had to deliver its
share rounded up.\<close>

theorem tranches_deliver_minimum:
  assumes "(fills_step T M)\<^sup>*\<^sup>* emptyFills r" and "BigInt src = Some (T iid)" and "0 < T iid" and "0 \<le> M iid"
    and "allocation src (listSync r iid) = Some al" and "al_filled al = T iid"
  shows "\<exists>d. dst_filled (listSync r iid) 0 = Some d \<and> M iid \<le> d"
  by (rule filled_cover_minimum[OF tranche_runs.run_inv[OF assms(1) emptyFills_inv] assms(2-6)])

definition filled_repo :: fills_repo where
  "filled_repo =
     (let r1 = fst (reserve emptyFills ''f1'' (sample_request ''GS'' ''1000'') True)
      in fst (markFilled r1 ''f1'' ''GS'' \<lparr> fl_dstAmount = ''995'', fl_feeAmount = ''0'', fl_txHash = None, fl_filledAt = 20 \<rparr>))"

theorem tranches_deliver_minimum_witness:
  "\<exists>d. dst_filled (listSync filled_repo ''i1'') 0 = Some d \<and> 990 \<le> d"
proof -
  let ?r1 = "fst (reserve emptyFills ''f1'' (sample_request ''GS'' ''1000'') True)"
  have b: "BigInt ''1000'' = Some 1000" "BigInt ''990'' = Some 990" "BigInt ''995'' = Some 995" by code_simp+
  have 1: "fills_step (\<lambda>_. 1000) (\<lambda>_. 990) emptyFills ?r1"
    by (rule fs_reserve) (simp_all add: emptyFills_def fillById_def sample_request_def b)
  have "map_option f_minDstAmount (fillById ?r1 ''f1'') = Some ''990''" by code_simp
  then have 2: "fills_step (\<lambda>_. 1000) (\<lambda>_. 990) ?r1 filled_repo"
    unfolding filled_repo_def Let_def by (intro fs_filled) (auto simp: b)
  have run: "(fills_step (\<lambda>_. 1000) (\<lambda>_. 990))\<^sup>*\<^sup>* emptyFills filled_repo" using 1 2 by simp
  have "map_option al_filled (allocation ''1000'' (listSync filled_repo ''i1'')) = Some 1000" by code_simp
  then obtain al where "allocation ''1000'' (listSync filled_repo ''i1'') = Some al" "al_filled al = 1000" by auto
  with tranches_deliver_minimum[OF run, of "''1000''" "''i1''" al] show ?thesis by (auto simp: b)
qed

text \<open>The whole remainder can always be taken, so no dust is stranded: while something remains, a
reservation of exactly the remainder is accepted whatever the minimum tranche size; and in
general a plan is accepted exactly for a positive amount that fits the remainder and is at least
the minimum or the entire remainder.\<close>

theorem reservation_rules:
  assumes "allocation src fs = Some al" and "BigInt (coalesce minFill ''1'') = Some m"
  shows "(0 < al_remaining al \<longrightarrow> planReservation src minFill fs (toString (al_remaining al)) = Some (RP_ok 0))
       \<and> (planReservation src minFill fs amount = Some (RP_ok rest) \<longleftrightarrow>
            (\<exists>a. BigInt amount = Some a \<and> 0 < a \<and> a \<le> al_remaining al \<and> (m \<le> a \<or> a = al_remaining al)
               \<and> rest = al_remaining al - a))"
  using assms planReservation_ok[OF assms(1)] by auto

theorem reservation_rules_witness:
  "planReservation ''1000'' (Some ''500'') [] ''1000'' = Some (RP_ok 0)"
proof -
  have "BigInt ''1000'' = Some 1000" by code_simp
  then have "allocation ''1000'' [] = Some \<lparr> al_srcAmount = 1000, al_reserved = 0, al_filled = 0, al_remaining = 1000 \<rparr>"
    by (simp add: allocation_def)
  moreover have "BigInt (coalesce (Some ''500'') ''1'') = Some 500" by code_simp
  moreover have "toString 1000 = ''1000''" by code_simp
  ultimately show ?thesis using reservation_rules[of "''1000''" "[]" _ "Some ''500''" 500 "''1000''" 0] by auto
qed

text \<open>A tranche is settled once, and fill and slash never contend: at any instant, for a reserved
tranche of the solver, exactly one of the fill and the slash is enabled (the fill before the
deadline, the slash from the deadline on); and a tranche that is filled, slashed or released
keeps that status for ever, so neither can undo the other later.\<close>

theorem tranche_settles_once:
  assumes "fills_inv T M r" and "fillById r fid = Some f"
  shows "(f_status f = FS_reserved \<and> f_solver f = solver \<longrightarrow>
            (snd (markFilled r fid solver p) \<noteq> None) \<noteq> (snd (markSlashed r fid (fl_filledAt p)) \<noteq> None))
       \<and> (f_status f \<noteq> FS_reserved \<and> (fills_step T M)\<^sup>*\<^sup>* r r' \<longrightarrow>
            (\<exists>f'. fillById r' fid = Some f' \<and> f_status f' = f_status f)
            \<and> snd (markFilled r' fid solver p) = None \<and> snd (markSlashed r' fid t) = None \<and> snd (markReleased r' fid t) = None)"
proof (intro conjI impI, goal_cases)
  case 1
  then show ?case
    using assms(2) by (auto simp: tranche_writes fill_transition_def fillById_def filled_guard_def)
next
  case 2
  then have "map_option f_status (fillById r' fid) = Some (f_status f)"
    using tranche_runs.sink_forever[of T M r r' fid "f_status f"] assms by (auto simp: tranche_edge_def)
  then show ?case by auto
qed (use assms tranche_runs.sink_forever[of T M r r' fid "f_status f"] in
  \<open>auto simp: tranche_edge_def tranche_writes fill_transition_def fillById_def filled_guard_def\<close>)

theorem tranche_settles_once_witness:
  "snd (markFilled reserved_repo ''f1'' ''GS'' \<lparr> fl_dstAmount = ''600'', fl_feeAmount = ''0'', fl_txHash = None, fl_filledAt = 20 \<rparr>) \<noteq> None
   \<and> snd (markSlashed reserved_repo ''f1'' 20) = None"
proof -
  have inv: "fills_inv (\<lambda>_. 1000) (\<lambda>_. 990) reserved_repo" by (rule tranche_runs.run_inv[OF reserved_run emptyFills_inv])
  have "map_option (\<lambda>f. (f_status f, f_solver f)) (fillById reserved_repo ''f1'') = Some (FS_reserved, ''GS'')" by code_simp
  then obtain f where f: "fillById reserved_repo ''f1'' = Some f" "f_status f = FS_reserved" "f_solver f = ''GS''" by auto
  have "snd (markSlashed reserved_repo ''f1'' 20) = None" by code_simp
  then show ?thesis
    using tranche_settles_once[OF inv f(1), of "''GS''" "\<lparr> fl_dstAmount = ''600'', fl_feeAmount = ''0'', fl_txHash = None, fl_filledAt = 20 \<rparr>"]
      f(2,3) by auto
qed

end
