(* ===== verification/Partial_Fill_Service.thy ===== *)
theory Partial_Fill_Service
  imports Intents_Service_Props Partial_Fills Solver_Griefing Solvers
begin

text \<open>
  The partial-fill service of \<^verbatim>\<open>src/intents/partial-fills/partial-fill.service.ts\<close>, which composes the
  intents service, the tranche store, the solver records and the anti-griefing service. \<open>nowMs\<close> is
  the wall clock in milliseconds, used by the audit log and the solver records, and \<open>now\<close> the
  request's instant in seconds. The gateway's broadcasts are recorded as a list of events and the
  on-chain slashing calls as a list of calls; a failing call is caught and logged by the source,
  so its outcome is not observable here.
\<close>

section \<open>State\<close>

datatype tranche_event =
    Ev_tranche_reserved string string string string int fill_progress
  | Ev_partially_filled string string string string string fill_progress
  | Ev_tranche_slashed string string string string "fill_progress option"
  | Ev_intent_filled string string string fill_progress

record pf_env =
  pe_svc :: svc_env
  pe_onchainEnabled :: bool
  pe_solverRegistry :: bool
  pe_griefing :: "griefing_config option"

record pf_state =
  pf_svc :: svc
  pf_fills :: fills_repo
  pf_solvers :: solvers
  pf_griefing :: griefing
  pf_events :: "tranche_event list"
  pf_slashCalls :: "(string \<times> string \<times> string) list"

definition broadcast :: "tranche_event \<Rightarrow> pf_state \<Rightarrow> pf_state" where
  "broadcast ev s = s\<lparr> pf_events := pf_events s @ [ev] \<rparr>"

definition pf_audit :: "int \<Rightarrow> string \<Rightarrow> intent_state \<Rightarrow> string \<Rightarrow> string \<Rightarrow> (string, meta_value) jsmap \<Rightarrow> pf_state \<Rightarrow> pf_state" where
  "pf_audit nowMs iid st actor reason metadata s =
     s\<lparr> pf_svc := appendAuditEntry nowMs iid st actor reason (Some metadata) (pf_svc s) \<rparr>"

definition protocolFee :: "int \<Rightarrow> int" where
  "protocolFee dstAmount = bigint_div (dstAmount * 5) 10000"

section \<open>Reads\<close>

definition progress_of :: "intent \<Rightarrow> intent_fill list \<Rightarrow> fill_progress result" where
  "progress_of i fills = or_throw SyntaxError (computeFillProgress (i_srcAmount i) (i_state i) fills)"

definition with_progress_one :: "fills_repo \<Rightarrow> intent \<Rightarrow> intent result" where
  "with_progress_one r i =
     (if i_allowPartialFill i \<noteq> Some True then Inr i
      else (case progress_of i (listSync r (i_intentId i)) of
              Inl e \<Rightarrow> Inl e
            | Inr p \<Rightarrow> Inr (i\<lparr> i_fillProgress := Some p \<rparr>)))"

fun withProgress :: "fills_repo \<Rightarrow> intent list \<Rightarrow> intent list result" where
  "withProgress r [] = Inr []"
| "withProgress r (i # is) =
     (case (with_progress_one r i, withProgress r is) of
        (Inr j, Inr js) \<Rightarrow> Inr (j # js)
      | (Inl e, _) \<Rightarrow> Inl e
      | (_, Inl e) \<Rightarrow> Inl e)"

definition details :: "fills_repo \<Rightarrow> intent \<Rightarrow> (intent \<times> intent_fill list \<times> fill_progress) result" where
  "details r i =
     (let fills = listSync r (i_intentId i) in
      case progress_of i fills of
        Inl e \<Rightarrow> Inl e
      | Inr p \<Rightarrow> Inr (i\<lparr> i_fillProgress := Some p \<rparr>, fills, p))"

section \<open>Reserving\<close>

definition still_open :: "svc \<Rightarrow> string \<Rightarrow> int \<Rightarrow> bool" where
  "still_open sv iid now =
     (case findById (s_repo sv) iid of None \<Rightarrow> False | Some c \<Rightarrow> i_state c = St_open \<and> i_deadline c > now)"

fun rejection_exn :: "rejection \<Rightarrow> exn" where
  "rejection_exn RJ_invalid_amount = BadRequest ''amount must be a positive integer string''"
| "rejection_exn RJ_below_min_fill = BadRequest ''Reservation below minFillAmount''"
| "rejection_exn RJ_exceeds_remaining = Conflict ''Reservation exceeds the unreserved remainder''"
| "rejection_exn RJ_nothing_remaining = Conflict ''Nothing left to reserve on this intent''"
| "rejection_exn RJ_intent_not_open = Conflict ''Intent is no longer open''"

definition reserve_check :: "intent \<Rightarrow> int \<Rightarrow> exn option" where
  "reserve_check i now =
     (if i_allowPartialFill i \<noteq> Some True then Some (Conflict ''Intent does not allow partial fills'')
      else if i_state i \<noteq> St_open then Some (Conflict (''Intent is '' @ state_name (i_state i) @ '', cannot reserve''))
      else if i_deadline i \<le> now then Some (Gone ''Intent has expired'')
      else if i_srcVerified i = Some False then Some (Conflict ''Source deposit is not verified yet; the intent cannot be reserved'')
      else None)"

definition pf_reserve :: "int \<Rightarrow> string \<Rightarrow> intent \<Rightarrow> string \<Rightarrow> string \<Rightarrow> int \<Rightarrow> pf_state
    \<Rightarrow> pf_state \<times> (intent_fill \<times> intent) result" where
  "pf_reserve nowMs uuid i solver amount now s =
     (case reserve_check i now of
        Some e \<Rightarrow> (s, Inl e)
      | None \<Rightarrow>
          (let deadline = min (now + Intents_Service.fill_window i) (i_deadline i);
               rq = \<lparr> rq_intentId = i_intentId i, rq_srcAmount = i_srcAmount i, rq_minDstAmount = i_minDstAmount i,
                      rq_minFillAmount = i_minFillAmount i, rq_solver = solver, rq_amount = amount, rq_deadline = deadline, rq_now = now \<rparr>;
               (fr, result) = reserve (pf_fills s) uuid rq (still_open (pf_svc s) (i_intentId i) now);
               s1 = s\<lparr> pf_fills := fr \<rparr>
           in case result of
                Inl e \<Rightarrow> (s1, Inl e)
              | Inr (RR_no reason remaining) \<Rightarrow> (s1, Inl (rejection_exn reason))
              | Inr (RR_ok f) \<Rightarrow>
                  (let s2 = pf_audit nowMs (i_intentId i) St_open solver ''solver reserved tranche''
                              [(''fillId'', MStr (f_fillId f)), (''reservedAmount'', MStr (f_reservedAmount f)), (''deadline'', MInt (f_deadline f))] s1
                   in case details (pf_fills s2) i of
                        Inl e \<Rightarrow> (s2, Inl e)
                      | Inr (decorated, _, p) \<Rightarrow>
                          (broadcast (Ev_tranche_reserved (i_intentId i) solver (f_fillId f) (f_reservedAmount f) (f_deadline f) p) s2,
                           Inr (f, decorated)))))"

section \<open>Settling\<close>

fun fee_filled :: "intent_fill list \<Rightarrow> int \<Rightarrow> int option" where
  "fee_filled [] acc = Some acc"
| "fee_filled (f # fs) acc =
     (if f_status f = FS_filled
      then (case BigInt (coalesce (f_feeAmount f) ''0'') of None \<Rightarrow> None | Some d \<Rightarrow> fee_filled fs (acc + d))
      else fee_filled fs acc)"

definition newest_first :: "intent_fill list \<Rightarrow> intent_fill list" where
  "newest_first fills = sort_key (\<lambda>f. - coalesce (f_filledAt f) 0) (filter (\<lambda>f. f_status f = FS_filled) fills)"

definition settle :: "int \<Rightarrow> intent \<Rightarrow> intent_fill list \<Rightarrow> string \<Rightarrow> string \<Rightarrow> int \<Rightarrow> pf_state \<Rightarrow> pf_state \<times> intent option result" where
  "settle nowMs i fills solver reason now s =
     (case (dst_filled fills 0, fee_filled fills 0) of
        (Some dstTotal, Some feeTotal) \<Rightarrow>
          (let lastTx = (case newest_first fills of [] \<Rightarrow> None | f # _ \<Rightarrow> f_txHash f);
               patch = \<lparr> fpatch_filledAt = Some (Some now), fpatch_fillAmount = Some (Some (toString dstTotal)),
                         fpatch_feeAmount = Some (Some (toString feeTotal)), fpatch_txHash = Some lastTx \<rparr>;
               (sv, settled) = settlePartialFill (i_intentId i) solver patch now (pf_svc s);
               s1 = s\<lparr> pf_svc := sv \<rparr>
           in case settled of
                None \<Rightarrow> (s1, Inr None)
              | Some st \<Rightarrow>
                  (let s2 = pf_audit nowMs (i_intentId i) St_filled solver reason
                              [(''fillAmount'', MStr (toString dstTotal)),
                               (''tranches'', MInt (int (length (filter (\<lambda>f. f_status f = FS_filled) fills))))] s1
                   in case progress_of st fills of
                        Inl e \<Rightarrow> (s2, Inl e)
                      | Inr p \<Rightarrow> (broadcast (Ev_intent_filled (i_intentId i) solver (toString dstTotal) p) s2, Inr (Some st))))
      | _ \<Rightarrow> (s, Inl SyntaxError))"

section \<open>Filling\<close>

fun fill_status_name :: "fill_status \<Rightarrow> string" where
  "fill_status_name FS_reserved = ''reserved''"
| "fill_status_name FS_filled = ''filled''"
| "fill_status_name FS_slashed = ''slashed''"
| "fill_status_name FS_released = ''released''"

definition tranche_check :: "fills_repo \<Rightarrow> intent \<Rightarrow> string \<Rightarrow> string \<Rightarrow> int \<Rightarrow> intent_fill result" where
  "tranche_check r i fid solver now =
     (case fillById r fid of
        None \<Rightarrow> Inl (NotFound ''Tranche not found'')
      | Some existing \<Rightarrow>
          if f_intentId existing \<noteq> i_intentId i then Inl (NotFound ''Tranche not found'')
          else if f_solver existing \<noteq> solver then Inl (Forbidden ''Tranche is reserved by a different solver'')
          else if f_status existing \<noteq> FS_reserved then Inl (Conflict (''Tranche is '' @ fill_status_name (f_status existing) @ '', cannot fill''))
          else if f_deadline existing \<le> now then Inl (Gone ''Tranche fill window has expired'')
          else Inr existing)"

definition delivery_check :: "intent_fill \<Rightarrow> string \<Rightarrow> int result" where
  "delivery_check existing dstAmount =
     (case BigInt dstAmount of
        None \<Rightarrow> Inl (BadRequest ''dstAmount must be an integer string'')
      | Some delivered \<Rightarrow>
          (case BigInt (f_minDstAmount existing) of
             None \<Rightarrow> Inl SyntaxError
           | Some m \<Rightarrow> if delivered < m then Inl (BadRequest ''Tranche delivery below its pro-rata minimum'') else Inr delivered))"

definition settle_if_last :: "int \<Rightarrow> intent \<Rightarrow> intent_fill list \<Rightarrow> string \<Rightarrow> int \<Rightarrow> pf_state \<Rightarrow> pf_state \<times> bool result" where
  "settle_if_last nowMs i fills solver now s =
     (case allocation (i_srcAmount i) fills of
        None \<Rightarrow> (s, Inl SyntaxError)
      | Some al \<Rightarrow>
          if al_remaining al = 0 \<and> al_reserved al = 0
          then (case settle nowMs i fills solver ''all tranches filled'' now s of
                  (s', Inl e) \<Rightarrow> (s', Inl e)
                | (s', Inr r) \<Rightarrow> (s', Inr (r \<noteq> None)))
          else (s, Inr False))"

definition finish_fill :: "int \<Rightarrow> intent \<Rightarrow> string \<Rightarrow> string \<Rightarrow> string option \<Rightarrow> int \<Rightarrow> intent_fill \<Rightarrow> pf_state
    \<Rightarrow> pf_state \<times> (intent_fill \<times> intent \<times> bool) result" where
  "finish_fill nowMs i fid solver txHash now f s1 =
     (let s2 = s1\<lparr> pf_solvers := fst (recordSuccessfulFill (nowMs div 1000) solver (f_dstAmount f) (pf_solvers s1)) \<rparr>;
          s3 = pf_audit nowMs (i_intentId i) St_open solver ''solver filled tranche''
                 [(''fillId'', MStr fid), (''reservedAmount'', MStr (f_reservedAmount f)), (''dstAmount'', meta_opt (f_dstAmount f)),
                  (''txHash'', meta_opt txHash)] s2;
          fills = listSync (pf_fills s3) (i_intentId i)
      in case progress_of i fills of
           Inl e \<Rightarrow> (s3, Inl e)
         | Inr progress \<Rightarrow>
     (let s4 = broadcast (Ev_partially_filled (i_intentId i) solver fid (f_reservedAmount f) (coalesce (f_dstAmount f) []) progress) s3
      in case settle_if_last nowMs i fills solver now s4 of
           (s5, Inl e) \<Rightarrow> (s5, Inl e)
         | (s5, Inr settled) \<Rightarrow>
     (let current = coalesce (findById (s_repo (pf_svc s5)) (i_intentId i)) i
      in case progress_of current fills of
           Inl e \<Rightarrow> (s5, Inl e)
         | Inr p \<Rightarrow> (s5, Inr (f, current\<lparr> i_fillProgress := Some p \<rparr>, settled)))))"

definition fillTranche :: "int \<Rightarrow> intent \<Rightarrow> string \<Rightarrow> string \<Rightarrow> string \<Rightarrow> string option \<Rightarrow> int \<Rightarrow> pf_state
    \<Rightarrow> pf_state \<times> (intent_fill \<times> intent \<times> bool) result" where
  "fillTranche nowMs i fid solver dstAmount txHash now s =
     (case tranche_check (pf_fills s) i fid solver now of
        Inl e \<Rightarrow> (s, Inl e)
      | Inr existing \<Rightarrow>
     (case delivery_check existing dstAmount of
        Inl e \<Rightarrow> (s, Inl e)
      | Inr delivered \<Rightarrow>
     (let (fr, result) = markFilled (pf_fills s) fid solver
            \<lparr> fl_dstAmount = toString delivered, fl_feeAmount = toString (protocolFee delivered), fl_txHash = txHash, fl_filledAt = now \<rparr>;
          s1 = s\<lparr> pf_fills := fr \<rparr>
      in case result of
           None \<Rightarrow> (s1, Inl (Conflict (''Tranche is ''
                     @ coalesce (map_option (\<lambda>c. fill_status_name (f_status c)) (fillById fr fid)) ''unknown'' @ '', cannot fill'')))
         | Some f \<Rightarrow> finish_fill nowMs i fid solver txHash now f s1)))"

section \<open>Cancelling the remainder\<close>

definition cancelRemainder :: "pf_env \<Rightarrow> int \<Rightarrow> intent \<Rightarrow> string \<Rightarrow> int \<Rightarrow> pf_state \<Rightarrow> pf_state \<times> (intent option \<times> bool) result" where
  "cancelRemainder env nowMs i user now s =
     (let fills = listSync (pf_fills s) (i_intentId i) in
      case allocation (i_srcAmount i) fills of
        None \<Rightarrow> (s, Inl SyntaxError)
      | Some al \<Rightarrow>
          if al_reserved al > 0 then (s, Inl (Conflict ''Cannot cancel while tranche reservations are outstanding''))
          else if al_filled al = 0
          then (case svc_cancelIfOpen (pe_svc env) nowMs (i_intentId i) no_ctx (pf_svc s) of
                  (sv, Inl e) \<Rightarrow> (s\<lparr> pf_svc := sv \<rparr>, Inl e)
                | (sv, Inr cancelled) \<Rightarrow> (s\<lparr> pf_svc := sv \<rparr>, Inr (cancelled, False)))
          else (case newest_first fills of
                  [] \<Rightarrow> (s, Inl (PlainError ''Cannot read properties of undefined''))
                | last_fill # _ \<Rightarrow>
                    (case settle nowMs i fills (f_solver last_fill) (''remainder cancelled by '' @ user) now s of
                       (s', Inl e) \<Rightarrow> (s', Inl e)
                     | (s', Inr None) \<Rightarrow> (s', Inr (None, False))
                     | (s', Inr (Some st)) \<Rightarrow>
                         (case progress_of st fills of
                            Inl e \<Rightarrow> (s', Inl e)
                          | Inr p \<Rightarrow> (s', Inr (Some (st\<lparr> i_fillProgress := Some p \<rparr>), True))))))"

section \<open>Slashing expired reservations\<close>

definition penalty_books :: "pf_env \<Rightarrow> int \<Rightarrow> intent_fill \<Rightarrow> int \<Rightarrow> pf_state \<Rightarrow> pf_state" where
  "penalty_books env nowMs f now s =
     (let reason = ''partial-fill tranche '' @ f_fillId f @ '' ('' @ f_reservedAmount f @ '' reserved) not filled before deadline'';
          s1 = pf_audit nowMs (f_intentId f) St_open ''system'' ''tranche reservation slashed''
                 [(''fillId'', MStr (f_fillId f)), (''solver'', MStr (f_solver f)), (''slashedAmount'', MStr (f_reservedAmount f))] s;
          v = fst (recordFailedFill (nowMs div 1000) (f_solver f) (f_intentId f) (pf_solvers s1));
          s2 = s1\<lparr> pf_solvers := fst (recordSlash (f_solver f) (f_intentId f) reason now v) \<rparr>;
          s3 = (case pe_griefing env of
                  None \<Rightarrow> s2
                | Some cfg \<Rightarrow> s2\<lparr> pf_griefing := recordUnfilled cfg (f_solver f) (f_intentId f) now (pf_griefing s2) \<rparr>)
      in if pe_onchainEnabled env \<and> pe_solverRegistry env
         then s3\<lparr> pf_slashCalls := pf_slashCalls s3 @ [(f_solver f, f_intentId f, reason)] \<rparr> else s3)"

definition penalise :: "pf_env \<Rightarrow> int \<Rightarrow> intent_fill \<Rightarrow> int \<Rightarrow> pf_state \<Rightarrow> pf_state \<times> unit result" where
  "penalise env nowMs f now s =
     (let s4 = penalty_books env nowMs f now s;
          fills = listSync (pf_fills s4) (f_intentId f)
      in case findById (s_repo (pf_svc s4)) (f_intentId f) of
           None \<Rightarrow> (broadcast (Ev_tranche_slashed (f_intentId f) (f_solver f) (f_fillId f) (f_reservedAmount f) None) s4, Inr ())
         | Some i \<Rightarrow>
             (case progress_of i fills of
                Inl e \<Rightarrow> (s4, Inl e)
              | Inr p \<Rightarrow> (broadcast (Ev_tranche_slashed (f_intentId f) (f_solver f) (f_fillId f) (f_reservedAmount f) (Some p)) s4, Inr ())))"

fun slash_each :: "pf_env \<Rightarrow> int \<Rightarrow> int \<Rightarrow> intent_fill list \<Rightarrow> nat \<Rightarrow> pf_state \<Rightarrow> pf_state \<times> nat result" where
  "slash_each env nowMs now [] n s = (s, Inr n)"
| "slash_each env nowMs now (c # cs) n s =
     (case markSlashed (pf_fills s) (f_fillId c) now of
        (fr, None) \<Rightarrow> slash_each env nowMs now cs n (s\<lparr> pf_fills := fr \<rparr>)
      | (fr, Some f) \<Rightarrow>
          (case penalise env nowMs f now (s\<lparr> pf_fills := fr \<rparr>) of
             (s', Inl e) \<Rightarrow> (s', Inl e)
           | (s', Inr _) \<Rightarrow> slash_each env nowMs now cs (n + 1) s'))"

definition slashExpiredReservations :: "pf_env \<Rightarrow> int \<Rightarrow> int \<Rightarrow> string option \<Rightarrow> pf_state \<Rightarrow> pf_state \<times> nat result" where
  "slashExpiredReservations env nowMs now iid s =
     (let due = (case iid of
            Some k \<Rightarrow> if k \<noteq> [] then filter (\<lambda>f. f_status f = FS_reserved \<and> f_deadline f \<le> now) (listSync (pf_fills s) k)
                      else findExpiredReservations (pf_fills s) now 500
          | None \<Rightarrow> findExpiredReservations (pf_fills s) now 500)
      in slash_each env nowMs now due 0 s)"

section \<open>The service drives the tranche store\<close>

text \<open>
  \<open>T\<close> and \<open>M\<close> give the source amount and the minimum destination amount under which the tranches of
  each intent are reserved. The other services may change at any time (\<open>pst_other\<close>).
\<close>

definition terms_are :: "(string \<Rightarrow> int) \<Rightarrow> (string \<Rightarrow> int) \<Rightarrow> intent \<Rightarrow> bool" where
  "terms_are T M i \<longleftrightarrow> BigInt (i_srcAmount i) = Some (T (i_intentId i)) \<and> BigInt (i_minDstAmount i) = Some (M (i_intentId i))"

inductive pf_step :: "(string \<Rightarrow> int) \<Rightarrow> (string \<Rightarrow> int) \<Rightarrow> pf_state \<Rightarrow> pf_state \<Rightarrow> bool" for T M where
  pst_reserve: "fillById (pf_fills s) uuid = None \<Longrightarrow> terms_are T M i
    \<Longrightarrow> pf_step T M s (fst (pf_reserve nowMs uuid i solver amount now s))"
| pst_fill: "pf_step T M s (fst (fillTranche nowMs i fid solver dst tx now s))"
| pst_cancel: "pf_step T M s (fst (cancelRemainder env nowMs i user now s))"
| pst_slash: "pf_step T M s (fst (slashExpiredReservations env nowMs now iid s))"
| pst_other: "pf_fills s' = pf_fills s \<Longrightarrow> pf_step T M s s'"

lemma frame_fills [simp]: "pf_fills (broadcast ev s) = pf_fills s" "pf_fills (pf_audit t iid st a r m s) = pf_fills s"
  by (simp_all add: broadcast_def pf_audit_def)

lemma settle_fills [simp]: "pf_fills (fst (settle nowMs i fills solver reason now s)) = pf_fills s"
  by (simp add: settle_def Let_def case_prod_unfold split: option.split sum.split)

lemma settle_last_fills [simp]: "pf_fills (fst (settle_if_last nowMs i fills solver now s)) = pf_fills s"
proof -
  obtain s' r where "settle nowMs i fills solver ''all tranches filled'' now s = (s', r)" by fastforce
  moreover from this have "pf_fills s' = pf_fills s" by (metis fst_conv settle_fills)
  ultimately show ?thesis by (simp add: settle_if_last_def split: option.split sum.split)
qed

lemma cancel_fills [simp]: "pf_fills (fst (cancelRemainder env nowMs i user now s)) = pf_fills s"
proof -
  have "pf_fills s' = pf_fills s" if "settle nowMs i fs sv re now s = (s', r)" for fs sv re s' r
    using that by (metis fst_conv settle_fills)
  then show ?thesis
    by (simp add: cancelRemainder_def Let_def split: option.split sum.split prod.split list.split)
qed

lemma frame_repo [simp]: "s_repo (pf_svc (broadcast ev s)) = s_repo (pf_svc s)"
  "s_repo (pf_svc (pf_audit t iid st a r m s)) = s_repo (pf_svc s)"
  by (simp_all add: broadcast_def pf_audit_def appendAuditEntry_def Let_def)

lemma books_frame [simp]: "pf_fills (penalty_books env nowMs f now s) = pf_fills s"
  "s_repo (pf_svc (penalty_books env nowMs f now s)) = s_repo (pf_svc s)"
  by (simp_all add: penalty_books_def Let_def split: option.split)

lemma penalise_fills [simp]: "pf_fills (fst (penalise env nowMs f now s)) = pf_fills s"
  "s_repo (pf_svc (fst (penalise env nowMs f now s))) = s_repo (pf_svc s)"
  by (simp_all add: penalise_def Let_def split: option.split sum.split)

lemma finish_fills [simp]: "pf_fills (fst (finish_fill nowMs i fid solver tx now f s)) = pf_fills s"
proof -
  have "pf_fills s' = pf_fills s0" if "settle_if_last nowMs i fs solver now s0 = (s', r)" for fs s0 s' r
    using that by (metis fst_conv settle_last_fills)
  then show ?thesis by (simp add: finish_fill_def Let_def split: option.split sum.split prod.split)
qed

lemma fillTranche_fills:
  "pf_fills (fst (fillTranche nowMs i fid solver dst tx now s)) =
     (case tranche_check (pf_fills s) i fid solver now of
        Inl _ \<Rightarrow> pf_fills s
      | Inr existing \<Rightarrow>
          (case delivery_check existing dst of
             Inl _ \<Rightarrow> pf_fills s
           | Inr delivered \<Rightarrow> fst (markFilled (pf_fills s) fid solver
               \<lparr> fl_dstAmount = toString delivered, fl_feeAmount = toString (protocolFee delivered), fl_txHash = tx, fl_filledAt = now \<rparr>)))"
  by (simp add: fillTranche_def Let_def case_prod_unfold split: option.split sum.split)

lemma slash_each_run: "(fills_step T M)\<^sup>*\<^sup>* (pf_fills s) (pf_fills (fst (slash_each env nowMs now cs n s)))"
proof (induction env nowMs now cs n s rule: slash_each.induct)
  case (2 env nowMs now c cs n s)
  obtain fr res where m: "markSlashed (pf_fills s) (f_fillId c) now = (fr, res)" by fastforce
  have step: "fills_step T M (pf_fills s) fr" using fs_slashed[of T M "pf_fills s" "f_fillId c" now] m by simp
  show ?case
  proof (cases res)
    case None
    then show ?thesis using 2(1)[OF m[symmetric, unfolded None]] m step by (simp add: converse_rtranclp_into_rtranclp)
  next
    case (Some f)
    obtain s' r where p: "penalise env nowMs f now (s\<lparr> pf_fills := fr \<rparr>) = (s', r)" by fastforce
    then have f: "pf_fills s' = fr" using penalise_fills[of env nowMs f now "s\<lparr> pf_fills := fr \<rparr>"] by simp
    show ?thesis
    proof (cases r)
      case (Inr u)
      then show ?thesis
        using 2(2)[OF m[symmetric] Some p[symmetric] Inr] m Some p f step by (simp add: converse_rtranclp_into_rtranclp)
    qed (use m Some p f step in \<open>simp add: r_into_rtranclp\<close>)
  qed
qed simp

lemma pf_step_run: "pf_step T M s s' \<Longrightarrow> (fills_step T M)\<^sup>*\<^sup>* (pf_fills s) (pf_fills s')"
proof (induction rule: pf_step.induct)
  case (pst_reserve s uuid i nowMs solver amount now)
  let ?rq = "\<lparr> rq_intentId = i_intentId i, rq_srcAmount = i_srcAmount i, rq_minDstAmount = i_minDstAmount i,
      rq_minFillAmount = i_minFillAmount i, rq_solver = solver, rq_amount = amount,
      rq_deadline = min (now + Intents_Service.fill_window i) (i_deadline i), rq_now = now \<rparr>"
  have "fills_step T M (pf_fills s) (fst (reserve (pf_fills s) uuid ?rq op))" for op
    by (rule fs_reserve) (use pst_reserve in \<open>auto simp: terms_are_def\<close>)
  then have r: "(fills_step T M)\<^sup>*\<^sup>* (pf_fills s) (fst (reserve (pf_fills s) uuid ?rq op))" for op by blast
  have "pf_fills (fst (pf_reserve nowMs uuid i solver amount now s)) =
      (if reserve_check i now = None then fst (reserve (pf_fills s) uuid ?rq (still_open (pf_svc s) (i_intentId i) now)) else pf_fills s)"
    by (simp add: pf_reserve_def Let_def case_prod_unfold split: option.split sum.split reserve_result.split prod.split)
  then show ?case using r by simp
next
  case (pst_fill s nowMs i fid solver dst tx now)
  have "fills_step T M (pf_fills s) (fst (markFilled (pf_fills s) fid solver
      \<lparr> fl_dstAmount = toString delivered, fl_feeAmount = toString (protocolFee delivered), fl_txHash = tx, fl_filledAt = now \<rparr>))"
    if "tranche_check (pf_fills s) i fid solver now = Inr e" "delivery_check e dst = Inr delivered" for e delivered
    by (rule fs_filled) (use that in \<open>auto simp: tranche_check_def delivery_check_def split: option.splits if_splits\<close>)
  then show ?case unfolding fillTranche_fills by (auto split: sum.split)
next
  case (pst_slash s env nowMs now iid)
  then show ?case by (simp add: slashExpiredReservations_def Let_def slash_each_run)
qed simp_all

lemma pf_runs: "(pf_step T M)\<^sup>*\<^sup>* s s' \<Longrightarrow> (fills_step T M)\<^sup>*\<^sup>* (pf_fills s) (pf_fills s')"
proof (induction rule: rtranclp_induct)
  case (step y z)
  then show ?case using pf_step_run[of T M y z] by (meson rtranclp_trans)
qed simp

interpretation pf_service: inv_system "pf_step T M" "\<lambda>s. fills_inv T M (pf_fills s)" for T M
proof
  fix s s' assume "pf_step T M s s'" "fills_inv T M (pf_fills s)"
  then show "fills_inv T M (pf_fills s')" using tranche_runs.run_inv pf_step_run by blast
qed

lemma progress_returns:
  assumes "fills_inv T M r" and "BigInt (i_srcAmount i) \<noteq> None"
  shows "\<exists>p. progress_of i (listSync r iid) = Inr p"
proof -
  have ok: "ids_ok r" using assms(1) by (simp add: fills_inv_def)
  let ?fs = "listSync r iid"
  have tr: "tranche_ok T M t" if "t \<in> set ?fs" for t using listSync_mem[OF ok that] inv_tranche[OF assms(1)] by blast
  have "alloc_sums ?fs 0 0 \<noteq> None" using tr alloc_sums_eq[of ?fs 0 0] by (force simp: tranche_ok_def)
  moreover have "dst_filled ?fs 0 \<noteq> None" using tr dst_filled_eq[of ?fs 0] by (force simp: tranche_ok_def)
  ultimately show ?thesis using assms(2) by (auto simp: progress_of_def computeFillProgress_def allocation_def or_throw_def)
qed

text \<open>An intent of 8 units for at least 6, wholly reserved by one solver, used in examples.\<close>

definition partial_intent :: intent where
  "partial_intent = (sample_intent ''i1'' ''GA'' 100)\<lparr> i_srcAmount := ''8'', i_minDstAmount := ''6'', i_allowPartialFill := Some True \<rparr>"

definition partial_start :: pf_state where
  "partial_start = \<lparr> pf_svc = emptySvc\<lparr> s_repo := \<lparr> store = [(''i1'', partial_intent)], idempotencyKeys = [] \<rparr> \<rparr>, pf_fills = emptyFills,
     pf_solvers = emptySolvers, pf_griefing = emptyGriefing, pf_events = [], pf_slashCalls = [] \<rparr>"

definition one_reserved :: pf_state where
  "one_reserved = fst (pf_reserve 20000 ''f1'' partial_intent ''GS'' ''8'' 20 partial_start)"

definition one_filled :: "pf_state \<times> (intent_fill \<times> intent \<times> bool) result" where
  "one_filled = fillTranche 30000 partial_intent ''f1'' ''GS'' ''7'' None 30 one_reserved"

lemma one_reserved_step: "pf_step (\<lambda>_. 8) (\<lambda>_. 6) partial_start one_reserved"
proof -
  have "BigInt ''8'' = Some 8" "BigInt ''6'' = Some 6" by code_simp+
  then show ?thesis unfolding one_reserved_def
    by (intro pst_reserve) (simp_all add: partial_start_def emptyFills_def fillById_def terms_are_def partial_intent_def)
qed

text \<open>C18. The partial-fill service implements the tranche protocol: every operation of the service, with
all its checks, audit entries, broadcasts, penalties and settlements, acts on the tranche store as
a sequence of the store's own guarded steps, so what holds of every run of the store holds of every
run of the service.\<close>

theorem service_refines_tranche_protocol:
  assumes "pf_step T M s s'"
  shows "(fills_step T M)\<^sup>*\<^sup>* (pf_fills s) (pf_fills s')"
  using assms by (rule pf_step_run)

theorem service_refines_tranche_protocol_witness:
  "(fills_step (\<lambda>_. 8) (\<lambda>_. 6))\<^sup>*\<^sup>* emptyFills (pf_fills one_reserved)"
  using service_refines_tranche_protocol[OF one_reserved_step] by (simp add: partial_start_def)

section \<open>Reservations are all-or-nothing\<close>

definition reservation_allowed :: "intent \<Rightarrow> string \<Rightarrow> int \<Rightarrow> pf_state \<Rightarrow> bool" where
  "reservation_allowed i amount now s \<longleftrightarrow> reserve_check i now = None \<and> still_open (pf_svc s) (i_intentId i) now
     \<and> (\<exists>al a m. allocation (i_srcAmount i) (listSync (pf_fills s) (i_intentId i)) = Some al \<and> BigInt amount = Some a
          \<and> BigInt (coalesce (i_minFillAmount i) ''1'') = Some m \<and> 0 < a \<and> a \<le> al_remaining al \<and> (m \<le> a \<or> a = al_remaining al))"



section \<open>Settlement\<close>

lemma settlePartialFill_row:
  assumes "settlePartialFill iid solver patch now sv = (sv', Some st)"
  shows "findById (s_repo sv') iid = Some st \<and> i_state st = St_filled \<and> i_solver st = Some solver
    \<and> (\<forall>a. fpatch_fillAmount patch = Some a \<longrightarrow> i_fillAmount st = a)"
  using assms
  by (auto simp: settlePartialFill_def Let_def case_prod_unfold acceptIfOpen_def fillIfAccepted_def countTransition_def
      mutate_intent findById_mutate version_guard_def stamped_def apply_fill_patch_def split: option.splits if_splits)

lemma settle_row:
  assumes "settle nowMs i fills solver reason now s = (s', Inr (Some st))"
  shows "\<exists>d. dst_filled fills 0 = Some d \<and> findById (s_repo (pf_svc s')) (i_intentId i) = Some st
    \<and> i_state st = St_filled \<and> i_fillAmount st = Some (toString d)"
proof -
  obtain d fee where d: "dst_filled fills 0 = Some d" "fee_filled fills 0 = Some fee"
    using assms by (auto simp: settle_def split: option.splits)
  let ?patch = "\<lparr> fpatch_filledAt = Some (Some now), fpatch_fillAmount = Some (Some (toString d)),
     fpatch_feeAmount = Some (Some (toString fee)),
     fpatch_txHash = Some (case newest_first fills of [] \<Rightarrow> None | f # _ \<Rightarrow> f_txHash f) \<rparr>"
  obtain sv r where sp: "settlePartialFill (i_intentId i) solver ?patch now (pf_svc s) = (sv, r)" by fastforce
  have "r = Some st \<and> s_repo (pf_svc s') = s_repo sv"
    using assms d sp by (auto simp: settle_def Let_def split: option.splits sum.splits)
  then show ?thesis using settlePartialFill_row[of "i_intentId i" solver ?patch now "pf_svc s" sv st] sp d by simp
qed

lemma finish_fill_last:
  assumes "finish_fill nowMs i fid solver tx now f s = (s', Inr (f', out, True))"
  shows "f' = f \<and> (\<exists>s4. settle_if_last nowMs i (listSync (pf_fills s) (i_intentId i)) solver now s4 = (s', Inr True) \<and> pf_fills s4 = pf_fills s)"
  using assms by (auto simp: finish_fill_def Let_def split: sum.splits prod.splits)

lemma fillTranche_ok:
  assumes "fillTranche nowMs i fid solver dst tx now s = (s', Inr (f, out, settled))"
  shows "\<exists>s1 f0. finish_fill nowMs i fid solver tx now f0 s1 = (s', Inr (f, out, settled))
    \<and> fillById (pf_fills s1) fid = Some f0 \<and> f_intentId f0 = i_intentId i"
proof -
  obtain e d where tc: "tranche_check (pf_fills s) i fid solver now = Inr e" and dc: "delivery_check e dst = Inr d"
    using assms by (cases "tranche_check (pf_fills s) i fid solver now"; cases "delivery_check (projr (tranche_check (pf_fills s) i fid solver now)) dst")
      (auto simp: fillTranche_def)
  let ?p = "\<lparr> fl_dstAmount = toString d, fl_feeAmount = toString (protocolFee d), fl_txHash = tx, fl_filledAt = now \<rparr>"
  obtain fr r where m: "markFilled (pf_fills s) fid solver ?p = (fr, r)" by fastforce
  obtain f0 where r: "r = Some f0" and fin: "finish_fill nowMs i fid solver tx now f0 (s\<lparr> pf_fills := fr \<rparr>) = (s', Inr (f, out, settled))"
    using assms tc dc m by (cases r) (auto simp: fillTranche_def)
  have "fillById (pf_fills s) fid = Some e \<and> f_intentId e = i_intentId i"
    using tc by (auto simp: tranche_check_def split: option.splits if_splits)
  then have "fillById fr fid = Some f0 \<and> f_intentId f0 = i_intentId i"
    using m r by (auto simp: markFilled_def fillById_def Let_def split: if_splits)
  then show ?thesis using fin by fastforce
qed

lemma fillTranche_settled:
  assumes "fillTranche nowMs i fid solver dst tx now s = (s', Inr (f, out, True))"
  shows "\<exists>al st d. allocation (i_srcAmount i) (listSync (pf_fills s') (i_intentId i)) = Some al \<and> al_remaining al = 0 \<and> al_reserved al = 0
    \<and> dst_filled (listSync (pf_fills s') (i_intentId i)) 0 = Some d \<and> findById (s_repo (pf_svc s')) (i_intentId i) = Some st
    \<and> i_state st = St_filled \<and> i_fillAmount st = Some (toString d)
    \<and> fillById (pf_fills s') fid = Some f \<and> f_intentId f = i_intentId i"
proof -
  obtain s4 where last: "settle_if_last nowMs i (listSync (pf_fills s4) (i_intentId i)) solver now s4 = (s', Inr True)"
    and f: "fillById (pf_fills s4) fid = Some f" "f_intentId f = i_intentId i"
    using fillTranche_ok[OF assms] finish_fill_last by metis
  have fills: "pf_fills s' = pf_fills s4" using last settle_last_fills by (metis fst_conv)
  from last obtain al st where "allocation (i_srcAmount i) (listSync (pf_fills s4) (i_intentId i)) = Some al"
      "al_remaining al = 0" "al_reserved al = 0"
      "settle nowMs i (listSync (pf_fills s4) (i_intentId i)) solver ''all tranches filled'' now s4 = (s', Inr (Some st))"
    by (auto simp: settle_if_last_def split: option.splits if_splits prod.splits sum.splits)
  moreover from settle_row[OF this(4)] obtain d where "dst_filled (listSync (pf_fills s4) (i_intentId i)) 0 = Some d"
      "findById (s_repo (pf_svc s')) (i_intentId i) = Some st" "i_state st = St_filled" "i_fillAmount st = Some (toString d)" by blast
  ultimately show ?thesis using f unfolding fills by blast
qed



section \<open>The slashing sweep of one intent\<close>

definition slashed_row :: "int \<Rightarrow> intent_fill \<Rightarrow> intent_fill" where
  "slashed_row now f = f\<lparr> f_status := FS_slashed, f_slashedAt := Some now \<rparr>"

definition due_row :: "int \<Rightarrow> intent_fill \<Rightarrow> bool" where
  "due_row now f \<longleftrightarrow> f_status f = FS_reserved \<and> f_deadline f \<le> now"

lemma markSlashed_due:
  assumes "fillById r k = Some f" and "due_row now f"
  shows "markSlashed r k now = (r\<lparr> fr_fills := AList.update k (slashed_row now f) (fr_fills r) \<rparr>, Some (slashed_row now f))"
  using assms by (simp add: markSlashed_def fill_transition_def fillById_def due_row_def slashed_row_def)

lemma penalise_returns:
  assumes "fills_inv T M (pf_fills s)"
    and "\<And>i. findById (s_repo (pf_svc s)) (f_intentId f) = Some i \<Longrightarrow> BigInt (i_srcAmount i) \<noteq> None"
  shows "\<exists>s'. penalise env nowMs f now s = (s', Inr ())"
proof (cases "findById (s_repo (pf_svc s)) (f_intentId f)")
  case (Some i)
  then obtain p where "progress_of i (listSync (pf_fills s) (f_intentId f)) = Inr p"
    using progress_returns[OF assms(1)] assms(2) by blast
  then show ?thesis using Some by (simp add: penalise_def Let_def)
qed (simp add: penalise_def Let_def)

lemma slash_each_exact:
  assumes "fills_inv T M (pf_fills s)" and "distinct (map f_fillId cs)"
    and "\<And>c. c \<in> set cs \<Longrightarrow> fillById (pf_fills s) (f_fillId c) = Some c \<and> due_row now c \<and> f_intentId c = iid"
    and "\<And>i. findById (s_repo (pf_svc s)) iid = Some i \<Longrightarrow> BigInt (i_srcAmount i) \<noteq> None"
  shows "\<exists>s'. slash_each env nowMs now cs n s = (s', Inr (n + length cs))
    \<and> (\<forall>k. fillById (pf_fills s') k = map_option (\<lambda>f. if f \<in> set cs then slashed_row now f else f) (fillById (pf_fills s) k))"
  using assms
proof (induction cs arbitrary: n s)
  case (Cons c cs)
  let ?r = "(pf_fills s)\<lparr> fr_fills := AList.update (f_fillId c) (slashed_row now c) (fr_fills (pf_fills s)) \<rparr>"
  have c: "fillById (pf_fills s) (f_fillId c) = Some c" "due_row now c" "f_intentId c = iid" using Cons.prems(3) by auto
  note m = markSlashed_due[OF c(1,2)]
  have inv: "fills_inv T M ?r"
    using fills_step_inv[OF fs_slashed[of T M "pf_fills s" "f_fillId c" now] Cons.prems(1)] m by simp
  have get: "fillById ?r k = (if k = f_fillId c then Some (slashed_row now c) else fillById (pf_fills s) k)" for k
    by (simp add: fillById_def)
  obtain s1 where p: "penalise env nowMs (slashed_row now c) now (s\<lparr> pf_fills := ?r \<rparr>) = (s1, Inr ())"
    using penalise_returns[of T M "s\<lparr> pf_fills := ?r \<rparr>"] inv Cons.prems(4) c(3) by (fastforce simp: slashed_row_def)
  have s1: "pf_fills s1 = ?r" "s_repo (pf_svc s1) = s_repo (pf_svc s)"
    using penalise_fills[of env nowMs "slashed_row now c" now "s\<lparr> pf_fills := ?r \<rparr>"] p by simp_all
  have "\<exists>s'. slash_each env nowMs now cs (n + 1) s1 = (s', Inr (n + 1 + length cs))
    \<and> (\<forall>k. fillById (pf_fills s') k = map_option (\<lambda>f. if f \<in> set cs then slashed_row now f else f) (fillById (pf_fills s1) k))"
  proof (rule Cons.IH)
    show "distinct (map f_fillId cs)" using Cons.prems(2) by simp
    show "fillById (pf_fills s1) (f_fillId d) = Some d \<and> due_row now d \<and> f_intentId d = iid" if "d \<in> set cs" for d
      using Cons.prems(2,3) that unfolding s1 get by (auto simp: image_iff)
  qed (use inv s1 Cons.prems(4) in auto)
  then obtain s' where s': "slash_each env nowMs now cs (n + 1) s1 = (s', Inr (n + 1 + length cs))"
    "\<And>k. fillById (pf_fills s') k = map_option (\<lambda>f. if f \<in> set cs then slashed_row now f else f) (fillById ?r k)"
    unfolding s1 by blast
  have fresh: "slashed_row now c \<notin> set cs"
    using Cons.prems(2) by (auto simp: slashed_row_def image_iff)
  have "fillById (pf_fills s') k = map_option (\<lambda>f. if f \<in> set (c # cs) then slashed_row now f else f) (fillById (pf_fills s) k)" for k
  proof (cases "k = f_fillId c")
    case False
    have "f \<noteq> c" if "fillById (pf_fills s) k = Some f" for f
      using that False ids_ok_row[of "pf_fills s" k f] Cons.prems(1) by (auto simp: fills_inv_def)
    then show ?thesis unfolding s'(2) get using False by (cases "fillById (pf_fills s) k") simp_all
  qed (use s'(2) get c(1) fresh in simp)
  then show ?case using s'(1) m p by simp
qed (simp add: option.map_ident)

text \<open>C27. The slashing sweep of an intent is exact: whatever happened before, a sweep of one intent at an
instant slashes precisely its reserved tranches whose window has closed at that instant, stamps
them, leaves every other tranche of every intent as it was, and returns their number. It never
fails part-way, provided the stored intent has a readable source amount.\<close>

theorem slash_sweep_exact:
  assumes "(pf_step T M)\<^sup>*\<^sup>* s0 s" and "pf_fills s0 = emptyFills" and "iid \<noteq> []"
    and "\<And>i. findById (s_repo (pf_svc s)) iid = Some i \<Longrightarrow> BigInt (i_srcAmount i) \<noteq> None"
  shows "\<exists>s'. slashExpiredReservations env nowMs now (Some iid) s = (s', Inr (length (filter (due_row now) (listSync (pf_fills s) iid))))
    \<and> (\<forall>k. fillById (pf_fills s') k
         = map_option (\<lambda>f. if f_intentId f = iid \<and> due_row now f then slashed_row now f else f) (fillById (pf_fills s) k))"
proof -
  let ?cs = "filter (due_row now) (listSync (pf_fills s) iid)"
  have inv: "fills_inv T M (pf_fills s)" using pf_service.run_inv[OF assms(1)] assms(2) emptyFills_inv by simp
  then have ok: "ids_ok (pf_fills s)" by (simp add: fills_inv_def)
  have ids: "map f_fillId (listSync (pf_fills s) iid) = ids_of (pf_fills s) iid"
    unfolding listSync_map[OF ok] map_map using ids_ok_mem[OF ok, of _ iid] ids_ok_row[OF ok] by (intro map_idI) force
  then have "distinct (map f_fillId ?cs)" using ok by (metis distinct_map_filter ids_ok_def)
  moreover have "fillById (pf_fills s) (f_fillId c) = Some c \<and> due_row now c \<and> f_intentId c = iid" if "c \<in> set ?cs" for c
    using that listSync_mem[OF ok, of c iid] by simp
  ultimately obtain s' where s': "slash_each env nowMs now ?cs 0 s = (s', Inr (0 + length ?cs))"
    "\<And>k. fillById (pf_fills s') k = map_option (\<lambda>f. if f \<in> set ?cs then slashed_row now f else f) (fillById (pf_fills s) k)"
    using slash_each_exact[OF inv, of ?cs now iid env nowMs 0] assms(4) by blast
  have "f \<in> set ?cs \<longleftrightarrow> f_intentId f = iid \<and> due_row now f" if f: "fillById (pf_fills s) k = Some f" for f k
  proof -
    have "f \<in> set (listSync (pf_fills s) iid)" if "f_intentId f = iid"
      using ids_ok_row[OF ok f] that f unfolding listSync_map[OF ok] by force
    then show ?thesis using listSync_mem[OF ok] by auto
  qed
  then have "fillById (pf_fills s') k
     = map_option (\<lambda>f. if f_intentId f = iid \<and> due_row now f then slashed_row now f else f) (fillById (pf_fills s) k)" for k
    unfolding s'(2) by (cases "fillById (pf_fills s) k") auto
  then show ?thesis using s'(1) assms(3) by (auto simp: slashExpiredReservations_def due_row_def[abs_def])
qed

theorem slash_sweep_exact_witness:
  "\<exists>s'. slashExpiredReservations \<lparr> pe_svc = sample_env, pe_onchainEnabled = False, pe_solverRegistry = False, pe_griefing = None \<rparr>
     200000 200 (Some ''i1'') one_reserved = (s', Inr 1) \<and> map_option f_status (fillById (pf_fills s') ''f1'') = Some FS_slashed"
proof -
  let ?env = "\<lparr> pe_svc = sample_env, pe_onchainEnabled = False, pe_solverRegistry = False, pe_griefing = None \<rparr>"
  have row: "map_option i_srcAmount (findById (s_repo (pf_svc one_reserved)) ''i1'') = Some ''8''" by code_simp
  have n: "length (filter (due_row 200) (listSync (pf_fills one_reserved) ''i1'')) = 1" by code_simp
  have f: "map_option (\<lambda>f. (f_intentId f, due_row 200 f)) (fillById (pf_fills one_reserved) ''f1'') = Some (''i1'', True)" by code_simp
  have "BigInt ''8'' \<noteq> None" by code_simp
  then have "BigInt (i_srcAmount i) \<noteq> None" if "findById (s_repo (pf_svc one_reserved)) ''i1'' = Some i" for i using row that by auto
  with slash_sweep_exact[OF r_into_rtranclp[where r = "pf_step (\<lambda>_. 8) (\<lambda>_. 6)", OF one_reserved_step], of "''i1''" ?env 200000 200]
  show ?thesis unfolding n using f by (fastforce simp: partial_start_def slashed_row_def)
qed

section \<open>Amending under live reservations\<close>

text \<open>
  A tranche keeps the share of the minimum that was in force when it was reserved, and the amend
  operation does not look at the reservations. So a minimum raised after a reservation is not met:
  the intent below is settled as filled with 7 although its owner had raised the minimum to 9.
\<close>

definition amended_after_reserve :: pf_state where
  "amended_after_reserve = one_reserved\<lparr> pf_svc := fst (svc_amendIfOpen ''i1'' ''9'' 100 25 (pf_svc one_reserved)) \<rparr>"

lemma amend_after_reserve_undercuts:
  "(case findById (s_repo (pf_svc amended_after_reserve)) ''i1'' of
      None \<Rightarrow> False
    | Some i \<Rightarrow> (case fillTranche 30000 i ''f1'' ''GS'' ''7'' None 30 amended_after_reserve of
        (s', Inr (f, out, True)) \<Rightarrow>
          map_option (\<lambda>r. (i_state r, i_minDstAmount r, i_fillAmount r)) (findById (s_repo (pf_svc s')) ''i1'')
            = Some (St_filled, ''9'', Some ''7'')
      | _ \<Rightarrow> False))"
  by code_simp

end
