(* ===== verification/Kill_Switch.thy ===== *)
theory Kill_Switch
  imports Js_Prelude
begin

text \<open>
  The emergency kill switch of \<^verbatim>\<open>src/killswitch\<close>: the hierarchy evaluation
  (\<^verbatim>\<open>killswitch.evaluate.ts\<close>), the in-memory store of switches (\<^verbatim>\<open>killswitch.repository.ts\<close>),
  the service with its cached snapshot (\<^verbatim>\<open>killswitch.service.ts\<close>), the guard
  (\<^verbatim>\<open>killswitch.guard.ts\<close>) and the operator identity (\<^verbatim>\<open>operator.guard.ts\<close>). A \<open>null\<close> or absent
  column is \<open>None\<close>. The service reloads its snapshot through a repository method that no
  repository of the source declares (\<open>listScheduledWindows\<close>); its answer is the argument \<open>windows\<close>.
  Redis propagation and the announcement to clients change no state modelled here.
\<close>

section \<open>Switches\<close>

datatype ks_operation = KO_create | KO_accept | KO_fill | KO_slash | KO_onchain

datatype ks_scope = SC_global | SC_chain | SC_token | SC_operation

fun operation_name :: "ks_operation \<Rightarrow> string" where
  "operation_name KO_create = ''create''"
| "operation_name KO_accept = ''accept''"
| "operation_name KO_fill = ''fill''"
| "operation_name KO_slash = ''slash''"
| "operation_name KO_onchain = ''onchain''"

fun scope_name :: "ks_scope \<Rightarrow> string" where
  "scope_name SC_global = ''global''"
| "scope_name SC_chain = ''chain''"
| "scope_name SC_token = ''token''"
| "scope_name SC_operation = ''operation''"

record switch_target =
  tg_chain :: "string option"
  tg_token :: "string option"
  tg_operation :: ks_operation

record switch_entry =
  se_scope :: ks_scope
  se_chain :: "string option"
  se_token :: "string option"
  se_operation :: "ks_operation option"
  se_active :: bool
  se_reasonCode :: string
  se_reason :: string
  se_activatedBy :: string
  se_updatedAt :: int

record switch_decision =
  dc_paused :: bool
  dc_matched :: "switch_entry option"
  dc_matchedChain :: "switch_entry list"

definition ALLOW_ALL :: switch_decision where
  "ALLOW_ALL = \<lparr> dc_paused = False, dc_matched = None, dc_matchedChain = [] \<rparr>"

definition scopeKey :: "ks_scope \<Rightarrow> string option \<Rightarrow> string option \<Rightarrow> ks_operation option \<Rightarrow> string" where
  "scopeKey sc ch tk op =
     scope_name sc @ ''|'' @ coalesce ch [] @ ''|'' @ coalesce tk [] @ ''|'' @ coalesce (map_option operation_name op) []"

section \<open>Evaluating the hierarchy\<close>

definition ONCHAIN_GATED_OPERATIONS :: "ks_operation list" where
  "ONCHAIN_GATED_OPERATIONS = [KO_fill, KO_slash]"

definition candidateOperations :: "ks_operation \<Rightarrow> ks_operation list" where
  "candidateOperations op = (if op \<in> set ONCHAIN_GATED_OPERATIONS then [op, KO_onchain] else [op])"

fun scopeMatches :: "switch_entry \<Rightarrow> ks_scope \<Rightarrow> switch_target \<Rightarrow> ks_operation list \<Rightarrow> bool" where
  "scopeMatches e SC_global t cs = True"
| "scopeMatches e SC_chain t cs = (se_chain e \<noteq> None \<and> se_chain e = tg_chain t)"
| "scopeMatches e SC_token t cs =
     (se_chain e \<noteq> None \<and> se_chain e = tg_chain t \<and> (se_token e = None \<or> se_token e = tg_token t))"
| "scopeMatches e SC_operation t cs =
     (se_chain e \<noteq> None \<and> se_chain e = tg_chain t \<and> (se_token e = None \<or> se_token e = tg_token t)
       \<and> (case se_operation e of None \<Rightarrow> False | Some op \<Rightarrow> op \<in> set cs))"

definition EVALUATION_ORDER :: "ks_scope list" where
  "EVALUATION_ORDER = [SC_global, SC_chain, SC_token, SC_operation]"

fun scan_entries :: "ks_scope \<Rightarrow> switch_target \<Rightarrow> switch_entry list \<Rightarrow> switch_entry list \<times> switch_entry option
    \<Rightarrow> switch_entry list \<times> switch_entry option" where
  "scan_entries sc t [] acc = acc"
| "scan_entries sc t (e # es) (matched, governing) =
     (if se_scope e \<noteq> sc \<or> \<not> scopeMatches e sc t (candidateOperations (tg_operation t))
      then scan_entries sc t es (matched, governing)
      else scan_entries sc t es (matched @ [e], if se_active e then Some e else governing))"

fun scan_scopes :: "ks_scope list \<Rightarrow> switch_target \<Rightarrow> switch_entry list \<Rightarrow> switch_entry list \<times> switch_entry option
    \<Rightarrow> switch_entry list \<times> switch_entry option" where
  "scan_scopes [] t es acc = acc"
| "scan_scopes (sc # scs) t es acc = scan_scopes scs t es (scan_entries sc t es acc)"

definition evaluate :: "switch_entry list \<Rightarrow> switch_target \<Rightarrow> switch_decision" where
  "evaluate es t =
     (if es = [] then ALLOW_ALL
      else (let (matched, governing) = scan_scopes EVALUATION_ORDER t es ([], None)
            in if matched = [] then ALLOW_ALL
               else \<lparr> dc_paused = (\<exists>e \<in> set matched. se_active e),
                      dc_matched = (case governing of Some g \<Rightarrow> Some g | None \<Rightarrow> Some (last matched)),
                      dc_matchedChain = matched \<rparr>))"

section \<open>The store of switches\<close>

record ks_record = switch_entry +
  kr_id :: string
  kr_approvalsRequired :: nat
  kr_approvers :: "string list"
  kr_resumedAt :: "int option"

type_synonym ks_repo = "(string, ks_record) jsmap"

record activate_input =
  ai_scope :: ks_scope
  ai_chain :: "string option"
  ai_token :: "string option"
  ai_operation :: "ks_operation option"
  ai_reasonCode :: string
  ai_reason :: string
  ai_activatedBy :: string
  ai_now :: int

definition input_key :: "activate_input \<Rightarrow> string" where
  "input_key i = scopeKey (ai_scope i) (ai_chain i) (ai_token i) (ai_operation i)"

definition listAll :: "ks_repo \<Rightarrow> ks_record list" where
  "listAll r = js_values r"

fun max_updated :: "ks_record list \<Rightarrow> int \<Rightarrow> int" where
  "max_updated [] m = m"
| "max_updated (k # ks) m = max_updated ks (if se_updatedAt k > m then se_updatedAt k else m)"

definition maxUpdatedAt :: "ks_repo \<Rightarrow> int" where
  "maxUpdatedAt r = max_updated (js_values r) 0"

definition findByTarget :: "ks_repo \<Rightarrow> ks_scope \<Rightarrow> string option \<Rightarrow> string option \<Rightarrow> ks_operation option \<Rightarrow> ks_record option" where
  "findByTarget r sc ch tk op = map_of r (scopeKey sc ch tk op)"

definition activate :: "ks_repo \<Rightarrow> activate_input \<Rightarrow> ks_repo \<times> ks_record" where
  "activate r i =
     (let key = input_key i;
          record' = (case map_of r key of
            Some existing \<Rightarrow> existing\<lparr> se_active := True, se_reasonCode := ai_reasonCode i, se_reason := ai_reason i,
              se_activatedBy := ai_activatedBy i, kr_approvers := [], se_updatedAt := ai_now i \<rparr>
          | None \<Rightarrow> \<lparr> se_scope = ai_scope i, se_chain = ai_chain i, se_token = ai_token i, se_operation = ai_operation i,
              se_active = True, se_reasonCode = ai_reasonCode i, se_reason = ai_reason i, se_activatedBy = ai_activatedBy i,
              se_updatedAt = ai_now i, kr_id = ''ks_'' @ key, kr_approvalsRequired = 2, kr_approvers = [], kr_resumedAt = None \<rparr>)
      in (AList.update key record' r, record'))"

definition find_switch :: "ks_repo \<Rightarrow> string \<Rightarrow> (string \<times> ks_record) option" where
  "find_switch r sid = find (\<lambda>(k, v). kr_id v = sid) r"

definition resumeIfApproved :: "ks_repo \<Rightarrow> string \<Rightarrow> string \<Rightarrow> nat \<Rightarrow> int \<Rightarrow> ks_repo \<times> ks_record result" where
  "resumeIfApproved r sid approver required now =
     (case find_switch r sid of
        None \<Rightarrow> (r, Inl (PlainError (''KillSwitch '' @ sid @ '' not found'')))
      | Some (key, v) \<Rightarrow>
          if \<not> se_active v then (r, Inr v)
          else (let v1 = (if approver \<in> set (kr_approvers v) then v else v\<lparr> kr_approvers := kr_approvers v @ [approver] \<rparr>);
                    v2 = (if length (kr_approvers v1) < required then v1
                          else v1\<lparr> se_active := False, se_updatedAt := now, kr_resumedAt := Some now, kr_approvers := [] \<rparr>)
                in (AList.update key v2 r, Inr v2)))"

definition listApprovals :: "ks_repo \<Rightarrow> string \<Rightarrow> string list" where
  "listApprovals r sid = (case find_switch r sid of None \<Rightarrow> [] | Some (_, v) \<Rightarrow> kr_approvers v)"

definition listResolved :: "ks_repo \<Rightarrow> int option \<Rightarrow> string option \<Rightarrow> ks_record list" where
  "listResolved r since chain =
     sort_key (\<lambda>v. - coalesce (kr_resumedAt v) 0)
       (filter (\<lambda>v. case chain of None \<Rightarrow> True | Some c \<Rightarrow> se_chain v = Some c)
          (filter (\<lambda>v. case since of None \<Rightarrow> True | Some s \<Rightarrow> coalesce (kr_resumedAt v) 0 \<ge> s)
             (filter (\<lambda>v. \<not> se_active v \<and> kr_resumedAt v \<noteq> None) (js_values r))))"

section \<open>The service\<close>

record guardian_pause =
  gp_txHash :: "string option"
  gp_since :: "int option"

record ks_service =
  ks_repo :: ks_repo
  ks_snapshot :: "switch_entry list"
  ks_lastUpdatedAt :: int
  ks_ready :: bool
  ks_guardian :: "guardian_pause option"

definition guardian_entry :: "guardian_pause \<Rightarrow> int \<Rightarrow> switch_entry" where
  "guardian_entry g nowMs =
     \<lparr> se_scope = SC_global, se_chain = None, se_token = None, se_operation = None, se_active = True,
       se_reasonCode = ''GUARDIAN_PAUSE'',
       se_reason = ''On-chain guardian pause (tx '' @ coalesce (gp_txHash g) ''unknown'' @ '')'',
       se_activatedBy = ''guardian'',
       se_updatedAt = (case gp_since g of None \<Rightarrow> nowMs | Some t \<Rightarrow> if t = 0 then nowMs else t) \<rparr>"

definition evaluateTarget :: "ks_service \<Rightarrow> int \<Rightarrow> switch_target \<Rightarrow> switch_decision" where
  "evaluateTarget s nowMs t =
     (if \<not> ks_ready s then \<lparr> dc_paused = True, dc_matched = None, dc_matchedChain = [] \<rparr>
      else (case ks_guardian s of
              Some g \<Rightarrow> \<lparr> dc_paused = True, dc_matched = Some (guardian_entry g nowMs), dc_matchedChain = [guardian_entry g nowMs] \<rparr>
            | None \<Rightarrow> evaluate (ks_snapshot s) t))"

definition isBlocked :: "ks_service \<Rightarrow> int \<Rightarrow> switch_target \<Rightarrow> bool" where
  "isBlocked s nowMs t = (if \<not> ks_ready s then True else dc_paused (evaluateTarget s nowMs t))"

definition refresh :: "unit result \<Rightarrow> ks_service \<Rightarrow> ks_service \<times> unit result" where
  "refresh windows s =
     (let s1 = s\<lparr> ks_snapshot := map switch_entry.truncate (listAll (ks_repo s)), ks_lastUpdatedAt := maxUpdatedAt (ks_repo s) \<rparr>
      in case windows of
           Inl e \<Rightarrow> (s1, Inl e)
         | Inr _ \<Rightarrow> (s1\<lparr> ks_ready := True \<rparr>, Inr ()))"

definition truthy_str :: "string option \<Rightarrow> bool" where
  "truthy_str s = (case s of None \<Rightarrow> False | Some x \<Rightarrow> x \<noteq> [])"

definition normaliseScope :: "activate_input \<Rightarrow> exn option" where
  "normaliseScope i =
     (let chain = truthy_str (ai_chain i); token = truthy_str (ai_token i); operation = (ai_operation i \<noteq> None) in
      if ai_scope i = SC_global \<and> (chain \<or> token \<or> operation)
      then Some (PlainError ''A global kill-switch cannot specify chain, token, or operation'')
      else if ai_scope i = SC_chain \<and> (\<not> chain \<or> token \<or> operation)
      then Some (PlainError ''A chain kill-switch requires chain and cannot specify token or operation'')
      else if ai_scope i = SC_token \<and> (\<not> chain \<or> \<not> token \<or> operation)
      then Some (PlainError ''A token kill-switch requires chain and token, and cannot specify operation'')
      else if ai_scope i = SC_operation \<and> (\<not> chain \<or> \<not> operation)
      then Some (PlainError ''An operation kill-switch requires chain and operation'')
      else None)"

definition pause :: "unit result \<Rightarrow> activate_input \<Rightarrow> ks_service \<Rightarrow> ks_service \<times> ks_record result" where
  "pause windows i s =
     (case normaliseScope i of
        Some e \<Rightarrow> (s, Inl e)
      | None \<Rightarrow>
          (let (repo, v) = activate (ks_repo s) i in
           case refresh windows (s\<lparr> ks_repo := repo \<rparr>) of
             (s', Inl e) \<Rightarrow> (s', Inl e)
           | (s', Inr _) \<Rightarrow> (s', Inr v)))"

record approval =
  ap_record :: ks_record
  ap_resumed :: bool
  ap_approvals :: nat
  ap_required :: nat

definition approveResume :: "unit result \<Rightarrow> string \<Rightarrow> string \<Rightarrow> nat \<Rightarrow> int \<Rightarrow> ks_service \<Rightarrow> ks_service \<times> approval result" where
  "approveResume windows sid approver required now s =
     (case resumeIfApproved (ks_repo s) sid approver required now of
        (repo, Inl e) \<Rightarrow> (s\<lparr> ks_repo := repo \<rparr>, Inl e)
      | (repo, Inr v) \<Rightarrow>
          (let approvals = listApprovals repo sid in
           case refresh windows (s\<lparr> ks_repo := repo \<rparr>) of
             (s', Inl e) \<Rightarrow> (s', Inl e)
           | (s', Inr _) \<Rightarrow> (s', Inr \<lparr> ap_record = v, ap_resumed = (\<not> se_active v), ap_approvals = length approvals,
                                      ap_required = required \<rparr>)))"

definition poll :: "unit result \<Rightarrow> ks_service \<Rightarrow> ks_service" where
  "poll windows s = (if maxUpdatedAt (ks_repo s) \<noteq> ks_lastUpdatedAt s then fst (refresh windows s) else s)"

record pause_preview =
  pv_wouldPause :: bool
  pv_matchedChain :: "switch_entry list"
  pv_overlappingActive :: "switch_entry list"

definition previewPause :: "activate_input \<Rightarrow> int \<Rightarrow> ks_service \<Rightarrow> pause_preview result" where
  "previewPause i nowMs s =
     (case normaliseScope i of
        Some e \<Rightarrow> Inl e
      | None \<Rightarrow>
          (let hypothetical = \<lparr> se_scope = ai_scope i, se_chain = ai_chain i, se_token = ai_token i, se_operation = ai_operation i,
                 se_active = True, se_reasonCode = ''PREVIEW'', se_reason = ''Hypothetical pause (preview only)'',
                 se_activatedBy = ''preview'', se_updatedAt = nowMs \<rparr>;
               decision = evaluate (ks_snapshot s @ [hypothetical])
                 \<lparr> tg_chain = ai_chain i, tg_token = ai_token i, tg_operation = coalesce (ai_operation i) KO_fill \<rparr>
           in Inr \<lparr> pv_wouldPause = dc_paused decision, pv_matchedChain = dc_matchedChain decision,
                    pv_overlappingActive = filter (\<lambda>e. se_active e \<and> se_reasonCode e \<noteq> ''PREVIEW'') (dc_matchedChain decision) \<rparr>))"

section \<open>The guard\<close>

record ks_active_exn =
  ke_reasonCode :: string
  ke_reason :: string
  ke_scope :: string
  ke_chain :: "string option"
  ke_token :: "string option"
  ke_operation :: "ks_operation option"
  ke_activatedBy :: string
  ke_since :: int
  ke_retryAfterSeconds :: int

definition DEFAULT_RETRY_AFTER_SECONDS :: int where
  "DEFAULT_RETRY_AFTER_SECONDS = 30"

definition assertNotPaused :: "ks_service \<Rightarrow> int \<Rightarrow> switch_target \<Rightarrow> int option \<Rightarrow> ks_active_exn option" where
  "assertNotPaused s nowMs t retryAfter =
     (let decision = evaluateTarget s nowMs t; m = dc_matched decision in
      if \<not> dc_paused decision then None
      else Some \<lparr> ke_reasonCode = coalesce (map_option se_reasonCode m) ''UNKNOWN'',
                  ke_reason = coalesce (map_option se_reason m) ''An emergency pause is active for this scope'',
                  ke_scope = coalesce (map_option (\<lambda>e. scope_name (se_scope e)) m) ''global'',
                  ke_chain = Option.bind m se_chain, ke_token = Option.bind m se_token,
                  ke_operation = (case Option.bind m se_operation of Some op \<Rightarrow> Some op | None \<Rightarrow> Some (tg_operation t)),
                  ke_activatedBy = coalesce (map_option se_activatedBy m) ''unknown'',
                  ke_since = coalesce (map_option se_updatedAt m) nowMs,
                  ke_retryAfterSeconds = coalesce retryAfter DEFAULT_RETRY_AFTER_SECONDS \<rparr>)"

datatype token_ref = TR_string string | TR_object "string option" "string option"

record body_address =
  ba_srcChain :: "string option"
  ba_dstChain :: "string option"
  ba_chain :: "string option"
  ba_token :: "string option"
  ba_address :: "string option"
  ba_srcTokenAddress :: "string option"
  ba_srcToken :: "token_ref option"
  ba_dstToken :: "token_ref option"

definition first_set :: "'a option list \<Rightarrow> 'a option" where
  "first_set xs = (case dropWhile (\<lambda>x. x = None) xs of [] \<Rightarrow> None | x # _ \<Rightarrow> x)"

definition readAddress :: "body_address \<Rightarrow> string option \<Rightarrow> string option \<Rightarrow> string option \<times> string option" where
  "readAddress body paramChain paramToken =
     (let chain = first_set [paramChain, ba_chain body, ba_srcChain body, ba_dstChain body];
          rawToken = first_set [map_option TR_string (ba_token body), map_option TR_string (ba_srcTokenAddress body),
                                ba_srcToken body, ba_dstToken body, map_option TR_string (ba_address body),
                                map_option TR_string paramToken];
          token = (case rawToken of None \<Rightarrow> None | Some (TR_string t) \<Rightarrow> Some t | Some (TR_object a sy) \<Rightarrow> first_set [a, sy])
      in (chain, token))"

record gate_metadata =
  gm_operation :: ks_operation
  gm_chain :: "string option"
  gm_token :: "string option"
  gm_retryAfterSeconds :: "int option"

definition guard_canActivate :: "ks_service \<Rightarrow> int \<Rightarrow> gate_metadata option \<Rightarrow> body_address \<Rightarrow> string option \<Rightarrow> string option
    \<Rightarrow> ks_active_exn option" where
  "guard_canActivate s nowMs meta body paramChain paramToken =
     (case meta of
        None \<Rightarrow> None
      | Some m \<Rightarrow>
          (let (chain, token) = readAddress body paramChain paramToken in
           assertNotPaused s nowMs \<lparr> tg_chain = first_set [gm_chain m, chain], tg_token = first_set [gm_token m, token],
             tg_operation = gm_operation m \<rparr> (gm_retryAfterSeconds m)))"

text \<open>The hash comparison of the shared secret is equality of the two strings.\<close>

definition operator_canActivate :: "string \<Rightarrow> string option \<Rightarrow> string option \<Rightarrow> string result" where
  "operator_canActivate secret providedToken operatorId =
     (if secret = [] then Inl (Forbidden ''Operator API is not configured'')
      else if \<not> truthy_str providedToken \<or> providedToken \<noteq> Some secret then Inl (HttpError 401 ''Invalid operator token'')
      else Inr (coalesce operatorId ''operator''))"

section \<open>The hierarchy is fail-closed\<close>

definition governs :: "switch_entry \<Rightarrow> switch_target \<Rightarrow> bool" where
  "governs e t \<longleftrightarrow> scopeMatches e (se_scope e) t (candidateOperations (tg_operation t))"

fun scope_rank :: "ks_scope \<Rightarrow> nat" where
  "scope_rank SC_global = 0"
| "scope_rank SC_chain = 1"
| "scope_rank SC_token = 2"
| "scope_rank SC_operation = 3"

definition last_active :: "switch_entry list \<Rightarrow> switch_entry option \<Rightarrow> switch_entry option" where
  "last_active es g = (if filter se_active es = [] then g else Some (last (filter se_active es)))"

lemma last_active_app: "last_active (xs @ ys) g = last_active ys (last_active xs g)"
  by (simp add: last_active_def)

lemma scan_entries_eq:
  "scan_entries sc t es (m, g) =
     (let hits = filter (\<lambda>e. se_scope e = sc \<and> governs e t) es in (m @ hits, last_active hits g))"
proof (induction es arbitrary: m g)
  case (Cons e es)
  have "last_active (e # hits) g = last_active hits (if se_active e then Some e else g)" for hits
    by (simp add: last_active_def)
  then show ?case using Cons by (auto simp: governs_def Let_def)
qed (simp add: last_active_def)

definition hits :: "switch_entry list \<Rightarrow> switch_target \<Rightarrow> ks_scope list \<Rightarrow> switch_entry list" where
  "hits es t scs = concat (map (\<lambda>sc. filter (\<lambda>e. se_scope e = sc \<and> governs e t) es) scs)"

lemma scan_scopes_eq: "scan_scopes scs t es (m, g) = (m @ hits es t scs, last_active (hits es t scs) g)"
proof (induction scs arbitrary: m g)
  case (Cons sc scs)
  then show ?case by (simp add: scan_entries_eq hits_def Let_def last_active_app)
qed (simp add: hits_def last_active_def)

lemma all_scopes: "sc \<in> set EVALUATION_ORDER"
  by (cases sc) (simp_all add: EVALUATION_ORDER_def)

lemma hits_mem: "e \<in> set (hits es t EVALUATION_ORDER) \<longleftrightarrow> e \<in> set es \<and> governs e t"
  using all_scopes by (auto simp: hits_def)

lemma hits_sorted: "sorted (map (\<lambda>e. scope_rank (se_scope e)) (hits es t EVALUATION_ORDER))"
proof -
  have "sorted (map (\<lambda>e. scope_rank (se_scope e)) (filter (\<lambda>e. se_scope e = sc \<and> governs e t) es))" for sc
    by (induction es) auto
  then show ?thesis by (auto simp: hits_def EVALUATION_ORDER_def sorted_append)
qed

lemma last_is_max: "sorted (map f xs) \<Longrightarrow> x \<in> set xs \<Longrightarrow> (f x :: nat) \<le> f (last xs)"
  by (induction xs) auto

lemma evaluate_eq:
  "evaluate es t =
     (let hs = hits es t EVALUATION_ORDER in
      if hs = [] then ALLOW_ALL
      else \<lparr> dc_paused = (\<exists>e \<in> set hs. se_active e),
             dc_matched = (case last_active hs None of Some g \<Rightarrow> Some g | None \<Rightarrow> Some (last hs)), dc_matchedChain = hs \<rparr>)"
proof -
  have "hits [] t EVALUATION_ORDER = []" by (simp add: hits_def)
  then show ?thesis by (simp add: evaluate_def scan_scopes_eq Let_def)
qed

lemma paused_iff: "dc_paused (evaluate es t) \<longleftrightarrow> (\<exists>e \<in> set es. governs e t \<and> se_active e)"
  using hits_mem[of _ es t] by (auto simp: evaluate_eq Let_def ALLOW_ALL_def)

text \<open>C16. The pause hierarchy is fail-closed: a write is blocked exactly when some active switch, at any
level, covers it; a narrower switch that is inactive never reopens what a broader one holds
closed. The switch reported with a blocked write is itself active, covers the write, and is at
the narrowest level at which an active switch covers it.\<close>

theorem evaluation_fail_closed:
  "(dc_paused (evaluate es t) \<longleftrightarrow> (\<exists>e \<in> set es. governs e t \<and> se_active e))
   \<and> (dc_paused (evaluate es t) \<longrightarrow>
        (\<exists>e. dc_matched (evaluate es t) = Some e \<and> e \<in> set es \<and> governs e t \<and> se_active e
           \<and> (\<forall>e' \<in> set es. governs e' t \<and> se_active e' \<longrightarrow> scope_rank (se_scope e') \<le> scope_rank (se_scope e))))"
proof (intro conjI impI paused_iff)
  assume "dc_paused (evaluate es t)"
  let ?hs = "hits es t EVALUATION_ORDER"
  let ?as = "filter se_active ?hs"
  have ne: "?as \<noteq> []" using \<open>dc_paused _\<close> hits_mem by (auto simp: paused_iff filter_empty_conv)
  then have m: "dc_matched (evaluate es t) = Some (last ?as)"
    by (auto simp: evaluate_eq Let_def last_active_def)
  have l: "last ?as \<in> set es \<and> governs (last ?as) t \<and> se_active (last ?as)" using last_in_set[OF ne] hits_mem by auto
  have "sorted (map (\<lambda>e. scope_rank (se_scope e)) ?as)" by (rule sorted_filter[OF hits_sorted])
  then have "scope_rank (se_scope e') \<le> scope_rank (se_scope (last ?as))" if "e' \<in> set es" "governs e' t" "se_active e'" for e'
    by (rule last_is_max[where f = "\<lambda>e. scope_rank (se_scope e)"]) (use that hits_mem in auto)
  then show "\<exists>e. dc_matched (evaluate es t) = Some e \<and> e \<in> set es \<and> governs e t \<and> se_active e
           \<and> (\<forall>e' \<in> set es. governs e' t \<and> se_active e' \<longrightarrow> scope_rank (se_scope e') \<le> scope_rank (se_scope e))"
    using m l by blast
qed

definition sample_switch :: "ks_scope \<Rightarrow> ks_operation option \<Rightarrow> bool \<Rightarrow> switch_entry" where
  "sample_switch sc op act = \<lparr> se_scope = sc, se_chain = Some ''base'', se_token = None, se_operation = op, se_active = act,
     se_reasonCode = ''INCIDENT'', se_reason = ''stop'', se_activatedBy = ''op1'', se_updatedAt = 5 \<rparr>"

definition base_fill :: switch_target where
  "base_fill = \<lparr> tg_chain = Some ''base'', tg_token = None, tg_operation = KO_fill \<rparr>"

theorem evaluation_fail_closed_witness:
  "\<exists>e. dc_matched (evaluate [sample_switch SC_operation (Some KO_fill) False, sample_switch SC_chain None True] base_fill) = Some e
     \<and> se_scope e = SC_chain"
proof -
  let ?es = "[sample_switch SC_operation (Some KO_fill) False, sample_switch SC_chain None True]"
  have "dc_paused (evaluate ?es base_fill)" by code_simp
  then obtain e where "dc_matched (evaluate ?es base_fill) = Some e" "e \<in> set ?es" "se_active e"
    using evaluation_fail_closed[of ?es base_fill] by blast
  then show ?thesis by (auto simp: sample_switch_def)
qed

section \<open>A pause holds until two operators lift it\<close>

definition repo_sound :: "ks_repo \<Rightarrow> bool" where
  "repo_sound r \<longleftrightarrow> wf_map r \<and> (\<forall>k v. map_of r k = Some v \<longrightarrow> kr_id v = ''ks_'' @ k)"

lemma find_switch_some:
  assumes "repo_sound r" and "find_switch r sid = Some (k, v)"
  shows "map_of r k = Some v \<and> sid = ''ks_'' @ k"
proof -
  have "(k, v) \<in> set r \<and> kr_id v = sid" using assms(2) unfolding find_switch_def by (auto simp: find_Some_iff in_set_conv_nth)
  then show ?thesis using assms(1) by (auto simp: repo_sound_def)
qed

lemma update_sound: "repo_sound r \<Longrightarrow> kr_id v = ''ks_'' @ k \<Longrightarrow> repo_sound (AList.update k v r)"
  by (simp add: repo_sound_def update_conv')

lemma activate_sound: "repo_sound r \<Longrightarrow> repo_sound (fst (activate r i))"
proof (cases "map_of r (input_key i)")
  case (Some v)
  moreover assume "repo_sound r"
  moreover from calculation have "kr_id v = ''ks_'' @ input_key i" by (simp add: repo_sound_def)
  ultimately show ?thesis by (simp add: activate_def Let_def update_sound)
qed (simp add: activate_def Let_def update_sound)

lemma resume_sound: "repo_sound r \<Longrightarrow> repo_sound (fst (resumeIfApproved r sid a n now))"
proof -
  assume r: "repo_sound r"
  have "kr_id v = ''ks_'' @ k" if "find_switch r sid = Some (k, v)" for k v
    using find_switch_some[OF r that] r by (simp add: repo_sound_def)
  then show ?thesis using r
    by (cases "find_switch r sid") (auto simp: resumeIfApproved_def Let_def update_sound simp del: append_Cons)
qed

text \<open>
  The operations on the service, the approvals being given by the one operator \<open>a\<close> and asking for
  at least two approvals, as the request validation demands. The guardian's state changes freely.
\<close>

inductive ks_step :: "string \<Rightarrow> ks_service \<Rightarrow> ks_service \<Rightarrow> bool" for a where
  kst_pause: "ks_step a s (fst (pause windows i s))"
| kst_approve: "2 \<le> required \<Longrightarrow> ks_step a s (fst (approveResume windows sid a required now s))"
| kst_refresh: "ks_step a s (fst (refresh windows s))"
| kst_poll: "ks_step a s (poll windows s)"
| kst_guardian: "ks_step a s (s\<lparr> ks_guardian := g \<rparr>)"

definition same_address :: "switch_entry \<Rightarrow> 'a switch_entry_scheme \<Rightarrow> bool" where
  "same_address e v \<longleftrightarrow> se_scope v = se_scope e \<and> se_chain v = se_chain e \<and> se_token v = se_token e \<and> se_operation v = se_operation e"

text \<open>The switch under key \<open>k\<close> is closed, approved by \<open>a\<close> at most, and the snapshot shows it closed.\<close>

definition closed_by :: "string \<Rightarrow> string \<Rightarrow> switch_entry \<Rightarrow> ks_service \<Rightarrow> bool" where
  "closed_by a k e s \<longleftrightarrow> repo_sound (ks_repo s)
     \<and> (\<exists>v. map_of (ks_repo s) k = Some v \<and> same_address e v \<and> se_active v \<and> kr_approvers v \<in> {[], [a]})
     \<and> (\<exists>x \<in> set (ks_snapshot s). same_address e x \<and> se_active x)"

lemma truncate_sel [simp]:
  "se_scope (switch_entry.truncate v) = se_scope v" "se_chain (switch_entry.truncate v) = se_chain v"
  "se_token (switch_entry.truncate v) = se_token v" "se_operation (switch_entry.truncate v) = se_operation v"
  "se_active (switch_entry.truncate v) = se_active v"
  by (simp_all add: switch_entry.truncate_def)

lemma refresh_closed:
  assumes "repo_sound (ks_repo s)" and "map_of (ks_repo s) k = Some v" and "same_address e v" and "se_active v"
    and "kr_approvers v \<in> {[], [a]}"
  shows "closed_by a k e (fst (refresh windows s))"
proof -
  have "v \<in> set (js_values (ks_repo s))" using assms(2) by (force dest: map_of_SomeD)
  then have "\<exists>x \<in> set (map switch_entry.truncate (listAll (ks_repo s))). same_address e x \<and> se_active x"
    using assms(3,4) by (auto simp: listAll_def same_address_def intro!: bexI[of _ v])
  then show ?thesis using assms by (auto simp: closed_by_def refresh_def Let_def split: sum.split)
qed

lemma closed_at:
  assumes "closed_by a k e s"
  shows "\<exists>v. map_of (ks_repo s) k = Some v \<and> same_address e v \<and> se_active v \<and> kr_approvers v \<in> {[], [a]}" "repo_sound (ks_repo s)"
  using assms by (auto simp: closed_by_def)

lemma activate_closed:
  assumes "map_of r k = Some v" and "same_address e v" and "se_active v" and "kr_approvers v \<in> {[], [a]}"
  shows "\<exists>v'. map_of (fst (activate r i)) k = Some v' \<and> same_address e v' \<and> se_active v' \<and> kr_approvers v' \<in> {[], [a]}"
  using assms by (auto simp: activate_def Let_def same_address_def split: option.splits)

lemma resume_closed:
  assumes "repo_sound r" and "map_of r k = Some v" and "same_address e v" and "se_active v" and "kr_approvers v \<in> {[], [a]}"
    and "2 \<le> required"
  shows "\<exists>v'. map_of (fst (resumeIfApproved r sid a required now)) k = Some v' \<and> same_address e v' \<and> se_active v'
    \<and> kr_approvers v' \<in> {[], [a]}"
proof (cases "find_switch r sid")
  case (Some kv)
  obtain k' v' where kv: "kv = (k', v')" by fastforce
  have "map_of r k' = Some v'" using find_switch_some[OF assms(1)] Some kv by blast
  then show ?thesis using assms Some kv
    by (cases "k' = k") (auto simp: resumeIfApproved_def Let_def same_address_def)
qed (use assms in \<open>simp add: resumeIfApproved_def\<close>)

lemma ks_step_closed: "ks_step a s s' \<Longrightarrow> closed_by a k e s \<Longrightarrow> closed_by a k e s'"
proof (induction rule: ks_step.induct)
  case (kst_pause s windows i)
  let ?r = "fst (activate (ks_repo s) i)"
  obtain v where v: "map_of ?r k = Some v" "same_address e v" "se_active v" "kr_approvers v \<in> {[], [a]}"
    using closed_at[OF kst_pause] activate_closed by blast
  have "closed_by a k e (fst (refresh windows (s\<lparr> ks_repo := ?r \<rparr>)))"
    by (rule refresh_closed[of _ k v]) (use v activate_sound closed_at(2)[OF kst_pause] in simp_all)
  moreover have "fst (pause windows i s) = (if normaliseScope i = None then fst (refresh windows (s\<lparr> ks_repo := ?r \<rparr>)) else s)"
    by (simp add: pause_def Let_def case_prod_unfold split: option.split sum.split)
  ultimately show ?case using kst_pause by simp
next
  case (kst_approve required s windows sid now)
  let ?res = "resumeIfApproved (ks_repo s) sid a required now"
  obtain v where v: "map_of (fst ?res) k = Some v" "same_address e v" "se_active v" "kr_approvers v \<in> {[], [a]}"
    using closed_at[OF kst_approve(2)] resume_closed kst_approve(1) by meson
  have "closed_by a k e (fst (refresh windows (s\<lparr> ks_repo := fst ?res \<rparr>)))"
    by (rule refresh_closed[of _ k v]) (use v resume_sound closed_at(2)[OF kst_approve(2)] in simp_all)
  moreover have "closed_by a k e (s\<lparr> ks_repo := fst ?res \<rparr>)"
    using v kst_approve(2) resume_sound by (auto simp: closed_by_def)
  moreover have "fst (approveResume windows sid a required now s) \<in>
      {s\<lparr> ks_repo := fst ?res \<rparr>, fst (refresh windows (s\<lparr> ks_repo := fst ?res \<rparr>))}"
    by (cases ?res) (simp add: approveResume_def Let_def case_prod_unfold split: sum.split)
  ultimately show ?case by auto
next
  case (kst_refresh s windows)
  then show ?case using closed_at[OF kst_refresh] refresh_closed by blast
next
  case (kst_poll s windows)
  then show ?case using closed_at[OF kst_poll] refresh_closed by (auto simp: poll_def)
qed (auto simp: closed_by_def)

interpretation ks_runs: inv_system "ks_step a" "closed_by a k e" for a k e
  by unfold_locales (rule ks_step_closed)

lemma governs_same: "same_address e x \<Longrightarrow> governs x t = governs e t"
  by (cases "se_scope e") (auto simp: governs_def same_address_def)

lemma pause_closed:
  assumes "repo_sound (ks_repo s)" and "pause windows i s = (s', Inr v)"
  shows "closed_by a (input_key i) (switch_entry.truncate v) s'"
proof -
  obtain repo where act: "activate (ks_repo s) i = (repo, v)" and ref: "fst (refresh windows (s\<lparr> ks_repo := repo \<rparr>)) = s'"
    using assms(2) by (auto simp: pause_def split: option.splits prod.splits sum.splits)
  have v: "map_of repo (input_key i) = Some v" "se_active v" "kr_approvers v = []"
    using act by (auto simp: activate_def Let_def split: option.splits)
  have "repo_sound repo" using activate_sound[OF assms(1), of i] act by simp
  then show ?thesis using v ref refresh_closed[of "s\<lparr> ks_repo := repo \<rparr>" "input_key i" v "switch_entry.truncate v" a windows]
    by (simp add: same_address_def)
qed


definition emptySwitches :: ks_service where
  "emptySwitches = \<lparr> ks_repo = [], ks_snapshot = [], ks_lastUpdatedAt = 0, ks_ready = True, ks_guardian = None \<rparr>"

definition pause_fill :: "string option \<Rightarrow> activate_input" where
  "pause_fill token = \<lparr> ai_scope = SC_operation, ai_chain = Some ''base'', ai_token = token, ai_operation = Some KO_fill,
     ai_reasonCode = ''INCIDENT'', ai_reason = ''stop'', ai_activatedBy = ''op1'', ai_now = 7 \<rparr>"


section \<open>Where the code falls short of its comments\<close>

text \<open>
  The reload fails after it has taken the snapshot when the repository has no such method, so the
  service never becomes ready, every write stays blocked and every pause is reported as failed.
\<close>

lemma missing_windows_never_ready:
  assumes "\<not> ks_ready s"
  shows "\<not> ks_ready (fst (refresh (Inl e) s)) \<and> \<not> ks_ready (poll (Inl e) s)
    \<and> \<not> ks_ready (fst (pause (Inl e) i s)) \<and> (\<exists>e'. snd (pause (Inl e) i s) = Inl e')
    \<and> \<not> ks_ready (fst (approveResume (Inl e) sid a n now s)) \<and> isBlocked s nowMs t"
  using assms by (simp add: refresh_def poll_def pause_def approveResume_def isBlocked_def Let_def case_prod_unfold split: option.split sum.split)

text \<open>
  An absent token and an empty one share a key, so a pause for every token that follows a pause for
  the empty token only refreshes the latter and blocks nothing else.
\<close>

lemma wildcard_pause_lost:
  "(let s1 = fst (pause (Inr ()) (pause_fill (Some [])) emptySwitches);
        s2 = pause (Inr ()) (pause_fill None) s1
    in (case snd s2 of Inr v \<Rightarrow> se_active v | Inl _ \<Rightarrow> False) \<and> \<not> isBlocked (fst s2) 8 base_fill)"
  by code_simp

text \<open>The operator's name is whatever the holder of the shared secret writes in a header.\<close>

lemma one_token_two_operators:
  "secret \<noteq> [] \<Longrightarrow> operator_canActivate secret (Some secret) (Some n) = Inr n"
  by (simp add: operator_canActivate_def truthy_str_def)

end
