(* ===== verification/Slashing_Pipeline.thy ===== *)
theory Slashing_Pipeline
  imports Intents_Service_Props Solvers Kill_Switch
begin

text \<open>
  The slashing saga: the pending-slash store of \<^verbatim>\<open>src/solvers/pending-slashes.repository.ts\<close>, the
  registry client's \<open>slashSolver\<close> of \<^verbatim>\<open>src/soroban/solver-registry.service.ts\<close> and the pipeline of
  \<^verbatim>\<open>src/intents/slashing-pipeline.service.ts\<close>. Instants are milliseconds. The answers of the chain
  (whether a fill landed, what the registry said, the status of a transaction) are a record of
  functions, and \<open>pl_calls\<close> keeps the calls made to the registry. One pass of the worker is one
  step, so its re-entrancy flag is never seen set; logging is left out.
\<close>

section \<open>The pending-slash store\<close>

datatype slash_state = SS_detected | SS_challenge_window | SS_submitted | SS_confirmed | SS_cancelled

fun slash_state_name :: "slash_state \<Rightarrow> string" where
  "slash_state_name SS_detected = ''detected''"
| "slash_state_name SS_challenge_window = ''challenge_window''"
| "slash_state_name SS_submitted = ''submitted''"
| "slash_state_name SS_confirmed = ''confirmed''"
| "slash_state_name SS_cancelled = ''cancelled''"

record pending_slash =
  ps_id :: string
  ps_intentId :: string
  ps_solverAddress :: string
  ps_reason :: string
  ps_state :: slash_state
  ps_fillDeadline :: int
  ps_detectedAt :: int
  ps_challengeEndsAt :: int
  ps_attempts :: nat
  ps_nextAttemptAt :: int
  ps_lockedUntil :: "int option"
  ps_txHash :: "string option"
  ps_simulated :: bool
  ps_submittedAt :: "int option"
  ps_confirmedAt :: "int option"
  ps_cancelledAt :: "int option"
  ps_cancelReason :: "string option"
  ps_cancelledBy :: "string option"
  ps_fillTxHash :: "string option"
  ps_lastError :: "string option"
  ps_createdAt :: int
  ps_updatedAt :: int

record new_slash =
  ns_intentId :: string
  ns_solverAddress :: string
  ns_reason :: string
  ns_fillDeadline :: int
  ns_detectedAt :: int
  ns_challengeEndsAt :: int

type_synonym slash_rows = "(string, pending_slash) jsmap"

definition createIfAbsent :: "int \<Rightarrow> string \<Rightarrow> new_slash \<Rightarrow> slash_rows \<Rightarrow> slash_rows \<times> pending_slash \<times> bool" where
  "createIfAbsent clk uuid n rows =
     (case map_of rows (ns_intentId n) of
        Some existing \<Rightarrow> (rows, existing, False)
      | None \<Rightarrow>
          (let row = \<lparr> ps_id = uuid, ps_intentId = ns_intentId n, ps_solverAddress = ns_solverAddress n, ps_reason = ns_reason n,
                 ps_state = SS_detected, ps_fillDeadline = ns_fillDeadline n, ps_detectedAt = ns_detectedAt n,
                 ps_challengeEndsAt = ns_challengeEndsAt n, ps_attempts = 0, ps_nextAttemptAt = clk, ps_lockedUntil = None,
                 ps_txHash = None, ps_simulated = False, ps_submittedAt = None, ps_confirmedAt = None, ps_cancelledAt = None,
                 ps_cancelReason = None, ps_cancelledBy = None, ps_fillTxHash = None, ps_lastError = None,
                 ps_createdAt = clk, ps_updatedAt = clk \<rparr>
           in (AList.update (ps_intentId row) row rows, row, True)))"

definition findByIntent :: "slash_rows \<Rightarrow> string \<Rightarrow> pending_slash option" where
  "findByIntent rows iid = map_of rows iid"

definition list_slashes :: "slash_rows \<Rightarrow> slash_state option \<Rightarrow> nat \<Rightarrow> pending_slash list" where
  "list_slashes rows st limit =
     take limit (sort_key (\<lambda>r. - ps_detectedAt r) (filter (\<lambda>r. case st of None \<Rightarrow> True | Some x \<Rightarrow> ps_state r = x) (js_values rows)))"

definition leased :: "int \<Rightarrow> pending_slash \<Rightarrow> bool" where
  "leased now r = (case ps_lockedUntil r of None \<Rightarrow> False | Some t \<Rightarrow> t \<ge> now)"

definition is_due :: "int \<Rightarrow> pending_slash \<Rightarrow> bool" where
  "is_due now r \<longleftrightarrow> ps_state r = SS_detected
     \<or> (ps_state r = SS_challenge_window \<and> ps_challengeEndsAt r \<le> now \<and> ps_nextAttemptAt r \<le> now)
     \<or> (ps_state r = SS_submitted \<and> \<not> ps_simulated r \<and> ps_nextAttemptAt r \<le> now)"

definition findDue :: "slash_rows \<Rightarrow> int \<Rightarrow> nat \<Rightarrow> pending_slash list" where
  "findDue rows now limit =
     take limit (sort_key ps_detectedAt (filter (is_due now) (filter (\<lambda>r. \<not> leased now r) (js_values rows))))"

definition claim :: "slash_rows \<Rightarrow> string \<Rightarrow> int \<Rightarrow> int \<Rightarrow> slash_rows \<times> bool" where
  "claim rows iid now leaseUntil =
     (case map_of rows iid of
        None \<Rightarrow> (rows, False)
      | Some row \<Rightarrow> if leased now row then (rows, False)
                    else (AList.update iid (row\<lparr> ps_lockedUntil := Some leaseUntil, ps_updatedAt := now \<rparr>) rows, True))"

definition held_at :: "int option \<Rightarrow> pending_slash \<Rightarrow> bool" where
  "held_at now row = (case now of None \<Rightarrow> False | Some t \<Rightarrow> leased t row)"

definition slash_transition :: "int \<Rightarrow> slash_rows \<Rightarrow> string \<Rightarrow> slash_state list \<Rightarrow> (pending_slash \<Rightarrow> pending_slash) \<Rightarrow> int option
    \<Rightarrow> slash_rows \<times> pending_slash option" where
  "slash_transition clk rows iid from_states patch now =
     (case map_of rows iid of
        None \<Rightarrow> (rows, None)
      | Some row \<Rightarrow>
          if ps_state row \<notin> set from_states then (rows, None)
          else if held_at now row then (rows, None)
          else (let row' = (patch row)\<lparr> ps_lockedUntil := None, ps_updatedAt := clk \<rparr> in (AList.update iid row' rows, Some row')))"

section \<open>The registry client\<close>

record slash_result =
  sx_submitted :: bool
  sx_simulated :: bool
  sx_failed :: bool
  sx_txHash :: "string option"
  sx_detail :: string
  sx_dryRun :: bool

datatype slash_outcome = SO_paused string | SO_thrown string | SO_result slash_result

datatype rpc_outcome = RPC_error string | RPC_simulation_error string | RPC_simulated

definition slashSolver :: "ks_service option \<Rightarrow> int \<Rightarrow> bool \<Rightarrow> bool \<Rightarrow> rpc_outcome \<Rightarrow> slash_outcome" where
  "slashSolver killSwitch nowMs dryRun configured rpc =
     (case Option.bind killSwitch (\<lambda>ks. assertNotPaused ks nowMs \<lparr> tg_chain = Some ''stellar'', tg_token = None, tg_operation = KO_slash \<rparr> None) of
        Some e \<Rightarrow> SO_paused (ke_reason e)
      | None \<Rightarrow>
          SO_result
            (if dryRun then \<lparr> sx_submitted = False, sx_simulated = False, sx_failed = False, sx_txHash = None,
                 sx_detail = ''ONCHAIN_DRY_RUN=true'', sx_dryRun = True \<rparr>
             else if \<not> configured then \<lparr> sx_submitted = False, sx_simulated = False, sx_failed = True, sx_txHash = None,
                 sx_detail = ''SOLVER_REGISTRY_CONTRACT_ID or SOROBAN_SIGNING_KEY not configured'', sx_dryRun = False \<rparr>
             else (case rpc of
                 RPC_error d \<Rightarrow> \<lparr> sx_submitted = False, sx_simulated = False, sx_failed = True, sx_txHash = None, sx_detail = d, sx_dryRun = False \<rparr>
               | RPC_simulation_error d \<Rightarrow> \<lparr> sx_submitted = False, sx_simulated = True, sx_failed = True, sx_txHash = None,
                   sx_detail = ''simulation failed: '' @ d, sx_dryRun = False \<rparr>
               | RPC_simulated \<Rightarrow> \<lparr> sx_submitted = False, sx_simulated = True, sx_failed = False, sx_txHash = None,
                   sx_detail = ''simulated only'', sx_dryRun = False \<rparr>)))"

section \<open>The pipeline\<close>

datatype cancel_reason = CR_fill_landed | CR_admin | CR_solver_not_found | CR_submit_failed

fun cancel_reason_name :: "cancel_reason \<Rightarrow> string" where
  "cancel_reason_name CR_fill_landed = ''fill_landed''"
| "cancel_reason_name CR_admin = ''admin''"
| "cancel_reason_name CR_solver_not_found = ''solver_not_found''"
| "cancel_reason_name CR_submit_failed = ''submit_failed''"

datatype tx_status = TX_success | TX_failed | TX_not_found

record slash_settings =
  challengeWindowSeconds :: int
  clockSkewToleranceSeconds :: int
  maxSubmitAttempts :: nat

record chain_answers =
  an_findLandedFill :: "string \<Rightarrow> int \<Rightarrow> int \<Rightarrow> int \<Rightarrow> string + string option"
  an_verifyFillProof :: "string \<Rightarrow> string \<Rightarrow> int \<Rightarrow> exn + string option"
  an_slashSolver :: "string \<Rightarrow> string \<Rightarrow> string \<Rightarrow> slash_outcome"
  an_check :: "string \<Rightarrow> string + tx_status"

record pl_env =
  pl_svcEnv :: svc_env
  pl_settings :: slash_settings
  pl_chain :: chain_answers

record pl_state =
  pl_rows :: slash_rows
  pl_svc :: svc
  pl_solvers :: solvers
  pl_cancelEvents :: "(string \<times> string \<times> cancel_reason) list"
  pl_metrics :: "(string \<times> string option) list"
  pl_calls :: "(string \<times> string \<times> string) list"

definition CANCELLABLE :: "slash_state list" where
  "CANCELLABLE = [SS_detected, SS_challenge_window]"

definition recordSlashTransition :: "string \<Rightarrow> string option \<Rightarrow> pl_state \<Rightarrow> pl_state" where
  "recordSlashTransition st detail s = s\<lparr> pl_metrics := pl_metrics s @ [(st, detail)] \<rparr>"

definition pl_audit :: "int \<Rightarrow> string \<Rightarrow> intent_state \<Rightarrow> string \<Rightarrow> string \<Rightarrow> (string, meta_value) jsmap \<Rightarrow> pl_state \<Rightarrow> pl_state" where
  "pl_audit clk iid st actor reason metadata s =
     s\<lparr> pl_svc := appendAuditEntry clk iid st actor reason (Some metadata) (pl_svc s) \<rparr>"

definition pl_transition :: "int \<Rightarrow> string \<Rightarrow> slash_state list \<Rightarrow> (pending_slash \<Rightarrow> pending_slash) \<Rightarrow> int option \<Rightarrow> pl_state
    \<Rightarrow> pl_state \<times> pending_slash option" where
  "pl_transition clk iid from_states patch now s =
     (let (rows, result) = slash_transition clk (pl_rows s) iid from_states patch now in (s\<lparr> pl_rows := rows \<rparr>, result))"

definition latestAcceptable :: "pl_env \<Rightarrow> pending_slash \<Rightarrow> int" where
  "latestAcceptable env slash = ps_fillDeadline slash + clockSkewToleranceSeconds (pl_settings env)"

definition backoff :: "nat \<Rightarrow> int \<Rightarrow> int" where
  "backoff attempts now = now + min (5000 * 2 ^ (attempts - 1)) 600000"

definition openChallengeWindow :: "int \<Rightarrow> pending_slash \<Rightarrow> pl_state \<Rightarrow> pl_state \<times> pending_slash option" where
  "openChallengeWindow clk slash s =
     (case pl_transition clk (ps_intentId slash) [SS_detected] (\<lambda>r. r\<lparr> ps_state := SS_challenge_window \<rparr>) None s of
        (s1, None) \<Rightarrow> (s1, None)
      | (s1, Some opened) \<Rightarrow>
          (pl_audit clk (ps_intentId slash) St_slashed ''system'' ''slash pending: challenge window open''
             [(''solver'', MStr (ps_solverAddress slash)), (''challengeEndsAt'', MInt (ps_challengeEndsAt opened))]
             (recordSlashTransition ''challenge_window'' None s1), Some opened))"

definition detect :: "pl_env \<Rightarrow> int \<Rightarrow> string \<Rightarrow> string \<Rightarrow> string \<Rightarrow> string \<Rightarrow> int \<Rightarrow> int \<Rightarrow> pl_state \<Rightarrow> pl_state \<times> pending_slash" where
  "detect env clk uuid iid solver reason fillDeadline detectedAt s =
     (let at_ms = detectedAt * 1000;
          (rows, slash, created) = createIfAbsent clk uuid \<lparr> ns_intentId = iid, ns_solverAddress = solver, ns_reason = reason,
            ns_fillDeadline = fillDeadline, ns_detectedAt = at_ms,
            ns_challengeEndsAt = at_ms + challengeWindowSeconds (pl_settings env) * 1000 \<rparr> (pl_rows s);
          s1 = s\<lparr> pl_rows := rows \<rparr>
      in if \<not> created then (s1, slash)
         else (case openChallengeWindow clk slash (recordSlashTransition ''detected'' None s1) of
                 (s2, opened) \<Rightarrow> (s2, coalesce opened slash)))"

text \<open>The compensating transaction; \<open>now\<close> is given by the cancellations asked for from outside.\<close>

definition cancel_patch :: "int \<Rightarrow> cancel_reason \<Rightarrow> string \<Rightarrow> string option \<Rightarrow> string option \<Rightarrow> string option \<Rightarrow> nat
    \<Rightarrow> pending_slash \<Rightarrow> pending_slash" where
  "cancel_patch clk reason actor fillTx note' lastError attempts r =
     r\<lparr> ps_state := SS_cancelled, ps_cancelledAt := Some clk,
        ps_cancelReason := Some (case note' of
            Some n \<Rightarrow> if n \<noteq> [] then cancel_reason_name reason @ '': '' @ n else cancel_reason_name reason
          | None \<Rightarrow> cancel_reason_name reason),
        ps_cancelledBy := Some actor, ps_fillTxHash := fillTx, ps_lastError := lastError, ps_attempts := attempts \<rparr>"

definition compensate :: "pl_env \<Rightarrow> int \<Rightarrow> pending_slash \<Rightarrow> cancel_reason \<Rightarrow> string \<Rightarrow> string option \<Rightarrow> string option \<Rightarrow> pl_state
    \<Rightarrow> pl_state \<times> unit result" where
  "compensate env clk slash reason actor fillTx note' s =
     (let s1 = s\<lparr> pl_solvers := fst (rollbackPenalty (ps_intentId slash) (Some (ps_solverAddress slash)) (pl_solvers s)) \<rparr>;
          toState = (if reason = CR_fill_landed then St_filled else St_expired);
          why = ''slash cancelled: '' @ cancel_reason_name reason;
          meta = [(''solver'', MStr (ps_solverAddress slash)), (''fillTxHash'', meta_opt fillTx), (''note'', meta_opt note')]
      in case compensateSlash (pl_svcEnv env) clk (ps_intentId slash) toState
                \<lparr> c_actor = actor, c_reason = Some why, c_metadata = Some meta, c_override = None, c_at = None \<rparr>
                (if reason = CR_fill_landed then Some fillTx else None) (clk div 1000) (pl_svc s1) of
           (sv, Inl e) \<Rightarrow> (s1\<lparr> pl_svc := sv \<rparr>, Inl e)
         | (sv, Inr compensated) \<Rightarrow>
             (let s2 = s1\<lparr> pl_svc := sv \<rparr>;
                  s3 = (if compensated = None then pl_audit clk (ps_intentId slash) toState actor why meta s2 else s2)
              in (recordSlashTransition ''cancelled'' (Some (cancel_reason_name reason))
                    (s3\<lparr> pl_cancelEvents := pl_cancelEvents s3 @ [(ps_intentId slash, ps_solverAddress slash, reason)] \<rparr>), Inr ())))"

definition pl_cancel :: "pl_env \<Rightarrow> int \<Rightarrow> pending_slash \<Rightarrow> cancel_reason \<Rightarrow> string \<Rightarrow> string option \<Rightarrow> string option \<Rightarrow> string option
    \<Rightarrow> int option \<Rightarrow> pl_state \<Rightarrow> pl_state \<times> pending_slash option result" where
  "pl_cancel env clk slash reason actor fillTx note' lastError now s =
     (case pl_transition clk (ps_intentId slash) (if reason = CR_submit_failed then [SS_challenge_window, SS_submitted] else CANCELLABLE)
             (cancel_patch clk reason actor fillTx note' lastError (ps_attempts slash)) now s of
        (s1, None) \<Rightarrow> (s1, Inr None)
      | (s1, Some cancelled) \<Rightarrow>
          (case compensate env clk slash reason actor fillTx note' s1 of
             (s2, Inl e) \<Rightarrow> (s2, Inl e)
           | (s2, Inr _) \<Rightarrow> (s2, Inr (Some cancelled))))"

definition retryOrGiveUp :: "pl_env \<Rightarrow> int \<Rightarrow> pending_slash \<Rightarrow> string \<Rightarrow> int \<Rightarrow> pl_state \<Rightarrow> pl_state \<times> unit result" where
  "retryOrGiveUp env clk slash error now s =
     (let attempts = ps_attempts slash + 1 in
      if attempts \<ge> maxSubmitAttempts (pl_settings env)
      then (case pl_cancel env clk (slash\<lparr> ps_attempts := attempts \<rparr>) CR_submit_failed ''system'' None None (Some error) None s of
              (s1, Inl e) \<Rightarrow> (s1, Inl e)
            | (s1, Inr _) \<Rightarrow> (s1, Inr ()))
      else (fst (pl_transition clk (ps_intentId slash) [ps_state slash]
                   (\<lambda>r. r\<lparr> ps_attempts := attempts, ps_nextAttemptAt := backoff attempts now, ps_lastError := Some error \<rparr>) None s), Inr ()))"

definition submit_slash :: "pl_env \<Rightarrow> int \<Rightarrow> pending_slash \<Rightarrow> solver_record \<Rightarrow> int \<Rightarrow> pl_state \<Rightarrow> pl_state \<times> unit result" where
  "submit_slash env clk slash solver now s =
     (let s1 = s\<lparr> pl_calls := pl_calls s @ [(ps_solverAddress slash, ps_intentId slash, ps_reason slash)] \<rparr> in
      case an_slashSolver (pl_chain env) (ps_solverAddress slash) (ps_intentId slash) (ps_reason slash) of
        SO_thrown m \<Rightarrow> (s1, Inl (PlainError m))
      | SO_paused m \<Rightarrow>
          (fst (pl_transition clk (ps_intentId slash) [SS_challenge_window]
                  (\<lambda>r. r\<lparr> ps_nextAttemptAt := now + 60000, ps_lastError := Some (''paused by kill-switch: '' @ m) \<rparr>) None s1), Inr ())
      | SO_result res \<Rightarrow>
          if sx_failed res then retryOrGiveUp env clk slash (sx_detail res) now s1
          else (case pl_transition clk (ps_intentId slash) [SS_challenge_window]
                       (\<lambda>r. r\<lparr> ps_state := SS_submitted, ps_txHash := sx_txHash res, ps_simulated := (\<not> sx_submitted res),
                               ps_submittedAt := Some now, ps_nextAttemptAt := now, ps_lastError := None \<rparr>) None s1 of
                  (s2, None) \<Rightarrow> (s2, Inr ())
                | (s2, Some _) \<Rightarrow>
                    (pl_audit clk (ps_intentId slash) St_slashed ''system'' ''slash submitted''
                       [(''solver'', MStr (ps_solverAddress slash)), (''txHash'', meta_opt (sx_txHash res)),
                        (''simulated'', MBool (\<not> sx_submitted res)), (''solverActive'', MBool (sr_isActive solver)),
                        (''detail'', MStr (sx_detail res))]
                       (recordSlashTransition ''submitted'' (Some (if sx_submitted res then ''broadcast'' else ''simulated'')) s2), Inr ())))"

definition verifyAndSubmit :: "pl_env \<Rightarrow> int \<Rightarrow> pending_slash \<Rightarrow> int \<Rightarrow> pl_state \<Rightarrow> pl_state \<times> unit result" where
  "verifyAndSubmit env clk slash now s =
     (case an_findLandedFill (pl_chain env) (ps_intentId slash) (ps_fillDeadline slash) (latestAcceptable env slash) (now div 1000) of
        Inl err \<Rightarrow> retryOrGiveUp env clk slash (''fill re-verification failed: '' @ err) now s
      | Inr (Some tx) \<Rightarrow>
          (case pl_cancel env clk slash CR_fill_landed ''system'' (Some tx) None None None s of
             (s1, Inl e) \<Rightarrow> (s1, Inl e)
           | (s1, Inr _) \<Rightarrow> (s1, Inr ()))
      | Inr None \<Rightarrow>
          (case findByAddress (pl_solvers s) (ps_solverAddress slash) of
             None \<Rightarrow>
               (case pl_cancel env clk slash CR_solver_not_found ''system'' None None None None s of
                  (s1, Inl e) \<Rightarrow> (s1, Inl e)
                | (s1, Inr _) \<Rightarrow> (s1, Inr ()))
           | Some solver \<Rightarrow> submit_slash env clk slash solver now s))"

definition overdue :: "pending_slash \<Rightarrow> int \<Rightarrow> bool" where
  "overdue slash now = (case ps_submittedAt slash of None \<Rightarrow> True | Some t \<Rightarrow> now - t > 120 * 1000)"

definition confirm :: "pl_env \<Rightarrow> int \<Rightarrow> pending_slash \<Rightarrow> int \<Rightarrow> pl_state \<Rightarrow> pl_state \<times> unit result" where
  "confirm env clk slash now s =
     (let iid = ps_intentId slash in
      if \<not> truthy_str (ps_txHash slash) then (fst (pl_transition clk iid [SS_submitted] (\<lambda>r. r) None s), Inr ())
      else (case an_check (pl_chain env) (the (ps_txHash slash)) of
              Inl err \<Rightarrow>
                (fst (pl_transition clk iid [SS_submitted]
                        (\<lambda>r. r\<lparr> ps_nextAttemptAt := backoff (ps_attempts slash) now,
                                ps_lastError := Some (''confirmation lookup failed: '' @ err) \<rparr>) None s), Inr ())
            | Inr TX_success \<Rightarrow>
                (case pl_transition clk iid [SS_submitted] (\<lambda>r. r\<lparr> ps_state := SS_confirmed, ps_confirmedAt := Some now \<rparr>) None s of
                   (s1, None) \<Rightarrow> (s1, Inr ())
                 | (s1, Some _) \<Rightarrow>
                     (pl_audit clk iid St_slashed ''system'' ''slash confirmed on-chain'' [(''txHash'', meta_opt (ps_txHash slash))]
                        (recordSlashTransition ''confirmed'' None s1), Inr ()))
            | Inr st \<Rightarrow>
                if st = TX_failed \<or> overdue slash now
                then (case pl_transition clk iid [SS_submitted] (\<lambda>r. r\<lparr> ps_state := SS_challenge_window, ps_txHash := None \<rparr>) None s of
                        (s1, None) \<Rightarrow> (s1, Inr ())
                      | (s1, Some reopened) \<Rightarrow>
                          retryOrGiveUp env clk reopened
                            (''slash tx '' @ the (ps_txHash slash) @ (if st = TX_failed then '' failed on-chain'' else '' not found'')) now s1)
                else (fst (pl_transition clk iid [SS_submitted] (\<lambda>r. r\<lparr> ps_nextAttemptAt := now + 5000 \<rparr>) None s), Inr ())))"

definition saga_step :: "pl_env \<Rightarrow> int \<Rightarrow> pending_slash \<Rightarrow> int \<Rightarrow> pl_state \<Rightarrow> pl_state \<times> unit result" where
  "saga_step env clk slash now s =
     (case ps_state slash of
        SS_detected \<Rightarrow> (fst (openChallengeWindow clk slash s), Inr ())
      | SS_challenge_window \<Rightarrow> verifyAndSubmit env clk slash now s
      | SS_submitted \<Rightarrow> confirm env clk slash now s
      | _ \<Rightarrow> (s, Inr ()))"

fun exn_message :: "exn \<Rightarrow> string" where
  "exn_message (PlainError m) = m"
| "exn_message (RangeError m) = m"
| "exn_message (HttpError c m) = m"
| "exn_message _ = []"

fun process_each :: "pl_env \<Rightarrow> int \<Rightarrow> int \<Rightarrow> pending_slash list \<Rightarrow> pl_state \<Rightarrow> pl_state \<times> unit result" where
  "process_each env clk now [] s = (s, Inr ())"
| "process_each env clk now (slash # rest) s =
     (case claim (pl_rows s) (ps_intentId slash) now (now + 120 * 1000) of
        (rows, False) \<Rightarrow> process_each env clk now rest (s\<lparr> pl_rows := rows \<rparr>)
      | (rows, True) \<Rightarrow>
          (case saga_step env clk slash now (s\<lparr> pl_rows := rows \<rparr>) of
             (s1, Inr _) \<Rightarrow> process_each env clk now rest s1
           | (s1, Inl e) \<Rightarrow>
               (case retryOrGiveUp env clk slash (''unexpected error: '' @ exn_message e) now s1 of
                  (s2, Inl e2) \<Rightarrow> (s2, Inl e2)
                | (s2, Inr _) \<Rightarrow> process_each env clk now rest s2)))"

definition processDue :: "pl_env \<Rightarrow> int \<Rightarrow> int \<Rightarrow> pl_state \<Rightarrow> pl_state \<times> unit result" where
  "processDue env clk now s = process_each env clk now (findDue (pl_rows s) now 25) s"

definition cancelByAdmin :: "pl_env \<Rightarrow> int \<Rightarrow> string \<Rightarrow> string \<Rightarrow> string \<Rightarrow> pl_state \<Rightarrow> pl_state \<times> pending_slash result" where
  "cancelByAdmin env clk iid actor note' s =
     (case findByIntent (pl_rows s) iid of
        None \<Rightarrow> (s, Inl (NotFound (''No slash recorded for intent '' @ iid)))
      | Some slash \<Rightarrow>
          (case pl_cancel env clk slash CR_admin actor None (Some note') None (Some clk) s of
             (s1, Inl e) \<Rightarrow> (s1, Inl e)
           | (s1, Inr None) \<Rightarrow>
               (s1, Inl (Conflict (''Slash for intent '' @ iid @ '' cannot be cancelled (state='' @ slash_state_name (ps_state slash)
                  @ (if ps_lockedUntil slash \<noteq> None then '', submission in progress'' else []) @ '')'')))
           | (s1, Inr (Some c)) \<Rightarrow> (s1, Inr c)))"

definition cancelByFillProof :: "pl_env \<Rightarrow> int \<Rightarrow> string \<Rightarrow> string \<Rightarrow> string \<Rightarrow> pl_state \<Rightarrow> pl_state \<times> pending_slash result" where
  "cancelByFillProof env clk iid solver txHash s =
     (case findByIntent (pl_rows s) iid of
        None \<Rightarrow> (s, Inl (NotFound (''No slash recorded for intent '' @ iid)))
      | Some slash \<Rightarrow>
          if ps_solverAddress slash \<noteq> solver then (s, Inl (Forbidden ''Only the slashed solver may submit a fill proof''))
          else if ps_state slash \<notin> set CANCELLABLE
          then (s, Inl (Conflict (''Slash for intent '' @ iid @ '' is '' @ slash_state_name (ps_state slash) @ ''; the challenge window is over'')))
          else (case an_verifyFillProof (pl_chain env) txHash iid (latestAcceptable env slash) of
                  Inl e \<Rightarrow> (s, Inl e)
                | Inr (Some why) \<Rightarrow> (s, Inl (Unprocessable (''Fill proof rejected: '' @ why)))
                | Inr None \<Rightarrow>
                    (case pl_cancel env clk slash CR_fill_landed solver (Some txHash) None None (Some clk) s of
                       (s1, Inl e) \<Rightarrow> (s1, Inl e)
                     | (s1, Inr None) \<Rightarrow> (s1, Inl (Conflict (''Slash for intent '' @ iid @ '' changed state while verifying; retry'')))
                     | (s1, Inr (Some c)) \<Rightarrow> (s1, Inr c))))"

section \<open>The saga's contract\<close>

inductive slash_edge :: "slash_state \<Rightarrow> slash_state \<Rightarrow> bool" where
  "slash_edge SS_detected SS_challenge_window"
| "slash_edge SS_detected SS_cancelled"
| "slash_edge SS_challenge_window SS_submitted"
| "slash_edge SS_challenge_window SS_cancelled"
| "slash_edge SS_submitted SS_challenge_window"
| "slash_edge SS_submitted SS_confirmed"
| "slash_edge SS_submitted SS_cancelled"

inductive_cases slash_edge_final: "slash_edge SS_confirmed b" "slash_edge SS_cancelled b"

definition slash_status :: "pl_state \<Rightarrow> string \<Rightarrow> slash_state option" where
  "slash_status s k = map_option ps_state (map_of (pl_rows s) k)"

definition cancellations :: "pl_state \<Rightarrow> string \<Rightarrow> nat" where
  "cancellations s k = length (filter (\<lambda>e. fst e = k) (pl_cancelEvents s))"

text \<open>Rows are stored under their intent, and only a cancelled slash has had its cancellation announced, once.\<close>

definition saga_inv :: "pl_state \<Rightarrow> bool" where
  "saga_inv s \<longleftrightarrow> (\<forall>k r. map_of (pl_rows s) k = Some r \<longrightarrow> ps_intentId r = k)
     \<and> (\<forall>k. cancellations s k \<le> (if slash_status s k = Some SS_cancelled then 1 else 0))"

lemma saga_invD:
  assumes "saga_inv s"
  shows "cancellations s k \<le> (if slash_status s k = Some SS_cancelled then 1 else 0)"
    and "map_of (pl_rows s) k = Some r \<Longrightarrow> ps_intentId r = k"
  using assms unfolding saga_inv_def by blast+

lemma saga_invI:
  assumes "\<And>k r. map_of (pl_rows s) k = Some r \<Longrightarrow> ps_intentId r = k"
    and "\<And>k. cancellations s k \<le> (if slash_status s k = Some SS_cancelled then 1 else 0)"
  shows "saga_inv s"
  using assms unfolding saga_inv_def by blast

definition saga_le :: "pl_state \<Rightarrow> pl_state \<Rightarrow> bool" where
  "saga_le s s' \<longleftrightarrow> (saga_inv s \<longrightarrow> saga_inv s')
     \<and> (\<forall>k a. slash_status s k = Some a \<longrightarrow> (\<exists>b. slash_status s' k = Some b \<and> slash_edge\<^sup>*\<^sup>* a b))"

lemma saga_le_refl [simp]: "saga_le s s"
  by (simp add: saga_le_def)

lemma saga_le_trans: "saga_le a b \<Longrightarrow> saga_le b c \<Longrightarrow> saga_le a c"
  unfolding saga_le_def by (meson rtranclp_trans)

lemma saga_le_frame:
  assumes "pl_rows s' = pl_rows s" and "pl_cancelEvents s' = pl_cancelEvents s"
  shows "saga_le a s \<Longrightarrow> saga_le a s'"
proof -
  have "slash_status s' = slash_status s" by (rule ext) (simp add: slash_status_def assms(1))
  moreover have "saga_inv s' = saga_inv s"
    unfolding saga_inv_def cancellations_def assms calculation by (rule refl)
  ultimately show "saga_le a s \<Longrightarrow> saga_le a s'" by (simp only: saga_le_def)
qed

lemma frame_rows [simp]:
  "pl_rows (recordSlashTransition st d s) = pl_rows s" "pl_cancelEvents (recordSlashTransition st d s) = pl_cancelEvents s"
  "pl_calls (recordSlashTransition st d s) = pl_calls s"
  "pl_rows (pl_audit clk iid st' a r m s) = pl_rows s" "pl_cancelEvents (pl_audit clk iid st' a r m s) = pl_cancelEvents s"
  "pl_calls (pl_audit clk iid st' a r m s) = pl_calls s"
  by (simp_all add: recordSlashTransition_def pl_audit_def)

lemma transition_frame [simp]:
  "pl_cancelEvents (fst (pl_transition clk iid fs p now s)) = pl_cancelEvents s"
  "pl_calls (fst (pl_transition clk iid fs p now s)) = pl_calls s"
  "pl_solvers (fst (pl_transition clk iid fs p now s)) = pl_solvers s"
  by (simp_all add: pl_transition_def case_prod_unfold Let_def)

lemma transition_rows:
  "map_of (pl_rows (fst (pl_transition clk iid fs p now s))) k =
     (case map_of (pl_rows s) k of
        None \<Rightarrow> None
      | Some r \<Rightarrow> Some (if k = iid \<and> ps_state r \<in> set fs \<and> \<not> held_at now r
                        then (p r)\<lparr> ps_lockedUntil := None, ps_updatedAt := clk \<rparr> else r))"
  by (cases "map_of (pl_rows s) iid"; cases "k = iid")
     (simp_all add: pl_transition_def slash_transition_def Let_def split: option.split)

lemma transition_won:
  "snd (pl_transition clk iid fs p now s) = Some r' \<longleftrightarrow>
     (\<exists>r. map_of (pl_rows s) iid = Some r \<and> ps_state r \<in> set fs \<and> \<not> held_at now r
        \<and> r' = (p r)\<lparr> ps_lockedUntil := None, ps_updatedAt := clk \<rparr>)"
  by (cases "map_of (pl_rows s) iid") (auto simp: pl_transition_def slash_transition_def Let_def)

lemma transition_le:
  assumes "\<And>r. ps_intentId (p r) = ps_intentId r" and "\<And>r. ps_state r \<in> set fs \<Longrightarrow> slash_edge\<^sup>*\<^sup>* (ps_state r) (ps_state (p r))"
    and "SS_cancelled \<notin> set fs"
  shows "saga_le s (fst (pl_transition clk iid fs p now s))"
proof -
  let ?s = "fst (pl_transition clk iid fs p now s)"
  have cn: "cancellations ?s k = cancellations s k" for k by (simp add: cancellations_def)
  have sink: "slash_status ?s k = Some SS_cancelled" if "slash_status s k = Some SS_cancelled" for k
    using that assms(3) by (auto simp: slash_status_def transition_rows)
  have "cancellations ?s k \<le> (if slash_status ?s k = Some SS_cancelled then 1 else 0)" if "saga_inv s" for k
    using saga_invD(1)[OF that, of k] sink[of k] unfolding cn by (cases "slash_status s k = Some SS_cancelled") simp_all
  moreover have "ps_intentId r = k" if "saga_inv s" "map_of (pl_rows ?s) k = Some r" for k r
    using that(2) saga_invD(2)[OF that(1)] by (auto simp: transition_rows assms(1) split: option.splits if_splits)
  ultimately have "saga_inv s \<longrightarrow> saga_inv ?s"
    by (intro impI saga_invI) blast+
  moreover have "\<exists>b. slash_status ?s k = Some b \<and> slash_edge\<^sup>*\<^sup>* a b" if "slash_status s k = Some a" for k a
    using that assms(2) by (auto simp: slash_status_def transition_rows)
  ultimately show ?thesis by (simp add: saga_le_def)
qed

lemma edge_steps [simp]:
  "slash_edge\<^sup>*\<^sup>* SS_detected SS_challenge_window" "slash_edge\<^sup>*\<^sup>* SS_challenge_window SS_submitted"
  "slash_edge\<^sup>*\<^sup>* SS_submitted SS_confirmed" "slash_edge\<^sup>*\<^sup>* SS_submitted SS_challenge_window"
  "slash_edge\<^sup>*\<^sup>* SS_detected SS_cancelled" "slash_edge\<^sup>*\<^sup>* SS_challenge_window SS_cancelled" "slash_edge\<^sup>*\<^sup>* SS_submitted SS_cancelled"
  by (auto intro: slash_edge.intros)

lemma open_le: "saga_le s (fst (openChallengeWindow clk slash s))"
proof -
  obtain s1 r where t: "pl_transition clk (ps_intentId slash) [SS_detected] (\<lambda>r. r\<lparr> ps_state := SS_challenge_window \<rparr>) None s = (s1, r)"
    by fastforce
  have "saga_le s s1" using transition_le[of "\<lambda>r. r\<lparr> ps_state := SS_challenge_window \<rparr>" "[SS_detected]" s clk "ps_intentId slash" None] t by simp
  then show ?thesis by (cases r) (auto simp: openChallengeWindow_def t intro: saga_le_frame[rotated 2])
qed

lemma compensate_frame:
  "pl_rows (fst (compensate env clk slash reason actor tx n s)) = pl_rows s"
  "pl_calls (fst (compensate env clk slash reason actor tx n s)) = pl_calls s"
  "pl_cancelEvents (fst (compensate env clk slash reason actor tx n s)) = pl_cancelEvents s @
     (case snd (compensate env clk slash reason actor tx n s) of Inl _ \<Rightarrow> [] | Inr _ \<Rightarrow> [(ps_intentId slash, ps_solverAddress slash, reason)])"
  by (simp_all add: compensate_def Let_def case_prod_unfold split: sum.split)

lemma cancel_from: "SS_cancelled \<notin> set (if reason = CR_submit_failed then [SS_challenge_window, SS_submitted] else CANCELLABLE)"
  "SS_confirmed \<notin> set (if reason = CR_submit_failed then [SS_challenge_window, SS_submitted] else CANCELLABLE)"
  by (simp_all add: CANCELLABLE_def)

lemma cancel_le: "saga_le s (fst (pl_cancel env clk slash reason actor tx n err now s))"
proof -
  let ?fs = "if reason = CR_submit_failed then [SS_challenge_window, SS_submitted] else CANCELLABLE"
  let ?p = "cancel_patch clk reason actor tx n err (ps_attempts slash)"
  let ?k = "ps_intentId slash"
  obtain s1 res where t: "pl_transition clk ?k ?fs ?p now s = (s1, res)" by fastforce
  have st: "slash_edge\<^sup>*\<^sup>* (ps_state r) (ps_state (?p r))" if "ps_state r \<in> set ?fs" for r
    using that by (auto simp: cancel_patch_def CANCELLABLE_def split: if_splits)
  have le: "saga_le s s1"
    using transition_le[of ?p ?fs s clk ?k now] st cancel_from(1) t by (simp add: cancel_patch_def)
  show ?thesis
  proof (cases res)
    case (Some c)
    obtain s2 r2 where c: "compensate env clk slash reason actor tx n s1 = (s2, r2)" by fastforce
    have fr: "pl_rows s2 = pl_rows s1" "pl_cancelEvents s2 = pl_cancelEvents s @ (case r2 of Inl _ \<Rightarrow> [] | Inr _ \<Rightarrow> [(?k, ps_solverAddress slash, reason)])"
      using compensate_frame(1,3)[of env clk slash reason actor tx n s1] c transition_frame(1)[of clk ?k ?fs ?p now s] t by simp_all
    obtain r where r: "map_of (pl_rows s) ?k = Some r" "ps_state r \<in> set ?fs" "\<not> held_at now r"
      using transition_won[of clk ?k ?fs ?p now s c] t Some by auto
    have canc: "slash_status s1 ?k = Some SS_cancelled"
      using transition_rows[of clk ?k ?fs ?p now s ?k] t r by (simp add: slash_status_def cancel_patch_def)
    have st2: "slash_status s2 = slash_status s1" by (rule ext) (simp add: slash_status_def fr(1))
    have "saga_inv s2" if inv: "saga_inv s"
    proof -
      have "slash_status s ?k = Some (ps_state r)" "ps_state r \<noteq> SS_cancelled"
        using r(1,2) cancel_from(1)[of reason] by (simp add: slash_status_def, metis)
      then have zero: "cancellations s ?k = 0" using saga_invD(1)[OF inv, of ?k] by simp
      have inv1: "saga_inv s1" using le inv by (simp add: saga_le_def)
      have "cancellations s2 k \<le> (if slash_status s2 k = Some SS_cancelled then 1 else 0)" for k
      proof (cases "k = ?k")
        case True
        then show ?thesis using zero canc st2 fr(2) by (cases r2) (simp_all add: cancellations_def)
      next
        case False
        then have "cancellations s2 k = cancellations s1 k"
          using fr(2) transition_frame(1)[of clk ?k ?fs ?p now s] t by (cases r2) (simp_all add: cancellations_def)
        then show ?thesis using saga_invD(1)[OF inv1, of k] st2 by simp
      qed
      then show ?thesis using saga_invD(2)[OF inv1] by (intro saga_invI) (simp_all only: fr(1))
    qed
    then have "saga_le s s2" using le by (simp add: saga_le_def st2)
    then show ?thesis using t Some c by (cases r2) (simp_all add: pl_cancel_def)
  qed (use t le in \<open>simp add: pl_cancel_def\<close>)
qed

lemma stay_le:
  assumes "\<And>r. ps_intentId (p r) = ps_intentId r" and "\<And>r. ps_state (p r) = ps_state r" and "SS_cancelled \<notin> set fs"
  shows "saga_le s (fst (pl_transition clk iid fs p now s))"
  by (rule transition_le) (simp_all add: assms)

lemma retry_le:
  assumes "ps_state slash \<noteq> SS_cancelled"
  shows "saga_le s (fst (retryOrGiveUp env clk slash err now s))"
proof -
  have "saga_le s s1" if "pl_cancel env clk (slash\<lparr> ps_attempts := a \<rparr>) CR_submit_failed ''system'' None None (Some err) None s = (s1, r)" for a s1 r
    using cancel_le[of s env clk "slash\<lparr> ps_attempts := a \<rparr>"] that by (metis fst_conv)
  then show ?thesis using assms
    by (auto simp: retryOrGiveUp_def Let_def intro: stay_le split: prod.split sum.split)
qed

lemma submit_le: "ps_state slash \<noteq> SS_cancelled \<Longrightarrow> saga_le s (fst (submit_slash env clk slash solver now s))"
proof -
  assume st: "ps_state slash \<noteq> SS_cancelled"
  let ?s = "s\<lparr> pl_calls := pl_calls s @ [(ps_solverAddress slash, ps_intentId slash, ps_reason slash)] \<rparr>"
  have base: "saga_le s ?s" by (rule saga_le_frame[OF _ _ saga_le_refl]) simp_all
  show ?thesis
  proof (cases "an_slashSolver (pl_chain env) (ps_solverAddress slash) (ps_intentId slash) (ps_reason slash)")
    case (SO_paused m)
    then show ?thesis by (auto simp: submit_slash_def Let_def intro!: saga_le_trans[OF base] stay_le)
  next
    case (SO_result res)
    show ?thesis
    proof (cases "sx_failed res")
      case True
      then show ?thesis using SO_result st by (simp add: submit_slash_def Let_def saga_le_trans[OF base retry_le])
    next
      case False
      let ?p = "\<lambda>r. r\<lparr> ps_state := SS_submitted, ps_txHash := sx_txHash res, ps_simulated := (\<not> sx_submitted res),
                               ps_submittedAt := Some now, ps_nextAttemptAt := now, ps_lastError := None \<rparr>"
      obtain s2 r where t: "pl_transition clk (ps_intentId slash) [SS_challenge_window] ?p None ?s = (s2, r)" by fastforce
      have "saga_le ?s s2" using transition_le[of ?p "[SS_challenge_window]" ?s clk "ps_intentId slash" None] t by simp
      then have "saga_le s s2" by (rule saga_le_trans[OF base])
      then show ?thesis using SO_result False t
        by (cases r) (auto simp: submit_slash_def Let_def intro: saga_le_frame[rotated 2])
    qed
  qed (use base in \<open>simp add: submit_slash_def Let_def\<close>)
qed

lemma verify_le: "ps_state slash \<noteq> SS_cancelled \<Longrightarrow> saga_le s (fst (verifyAndSubmit env clk slash now s))"
proof -
  assume st: "ps_state slash \<noteq> SS_cancelled"
  have "saga_le s s1" if "pl_cancel env clk slash reason ''system'' tx None None None s = (s1, r)" for reason tx s1 r
    using cancel_le[of s env clk slash reason "''system''" tx None None None] that by (metis fst_conv)
  then show ?thesis
    by (auto simp: verifyAndSubmit_def retry_le[OF st] submit_le[OF st] split: sum.split option.split prod.split)
qed

lemma confirm_le: "saga_le s (fst (confirm env clk slash now s))"
proof -
  let ?k = "ps_intentId slash"
  have ok: "saga_le s (fst (pl_transition clk ?k [SS_submitted] p None s))"
    if "\<And>r. ps_intentId (p r) = ps_intentId r" "\<And>r. ps_state (p r) = st" "st \<in> {SS_confirmed, SS_challenge_window}" for p st
    by (rule transition_le) (use that in auto)
  have done_: "saga_le s s1" if "pl_transition clk ?k [SS_submitted] (\<lambda>r. r\<lparr> ps_state := SS_confirmed, ps_confirmedAt := Some now \<rparr>) None s = (s1, r)" for s1 r
    using ok[of "\<lambda>r. r\<lparr> ps_state := SS_confirmed, ps_confirmedAt := Some now \<rparr>" SS_confirmed] that by simp
  have again: "saga_le s s1 \<and> (\<forall>x. r = Some x \<longrightarrow> ps_state x \<noteq> SS_cancelled)"
    if "pl_transition clk ?k [SS_submitted] (\<lambda>r. r\<lparr> ps_state := SS_challenge_window, ps_txHash := None \<rparr>) None s = (s1, r)" for s1 r
    using ok[of "\<lambda>r. r\<lparr> ps_state := SS_challenge_window, ps_txHash := None \<rparr>" SS_challenge_window]
      transition_won[of clk ?k "[SS_submitted]" "\<lambda>r. r\<lparr> ps_state := SS_challenge_window, ps_txHash := None \<rparr>" None s] that by auto
  have re: "saga_le s (fst (retryOrGiveUp env clk x e now s1))"
    if "pl_transition clk ?k [SS_submitted] (\<lambda>r. r\<lparr> ps_state := SS_challenge_window, ps_txHash := None \<rparr>) None s = (s1, Some x)" for s1 x e
    using again[OF that] retry_le saga_le_trans by blast
  show ?thesis
    using again by (auto simp: confirm_def Let_def intro!: stay_le re intro: saga_le_frame[rotated 2] dest: done_
        split: sum.split tx_status.split prod.split option.split)
qed

lemma step_le: "ps_state slash \<noteq> SS_cancelled \<Longrightarrow> saga_le s (fst (saga_step env clk slash now s))"
  by (simp add: saga_step_def open_le verify_le confirm_le split: slash_state.split)

lemma claim_le: "saga_le s (s\<lparr> pl_rows := fst (claim (pl_rows s) iid now until) \<rparr>)"
proof -
  let ?s = "s\<lparr> pl_rows := fst (claim (pl_rows s) iid now until) \<rparr>"
  have row: "map_of (pl_rows ?s) k = None \<longleftrightarrow> map_of (pl_rows s) k = None"
    "map_of (pl_rows ?s) k = Some r' \<Longrightarrow> \<exists>r. map_of (pl_rows s) k = Some r \<and> ps_intentId r' = ps_intentId r \<and> ps_state r' = ps_state r" for k r'
    by (auto simp: claim_def split: option.splits if_splits)
  have st: "slash_status ?s k = slash_status s k" for k
    by (cases "map_of (pl_rows ?s) k") (use row[of k] in \<open>force simp: slash_status_def\<close>)+
  have "saga_inv ?s" if inv: "saga_inv s"
  proof (rule saga_invI)
    show "ps_intentId r = k" if "map_of (pl_rows ?s) k = Some r" for k r
      using row(2)[OF that] saga_invD(2)[OF inv] by metis
    show "cancellations ?s k \<le> (if slash_status ?s k = Some SS_cancelled then 1 else 0)" for k
      using saga_invD(1)[OF inv, of k] unfolding st by (simp add: cancellations_def)
  qed
  then show ?thesis by (simp add: saga_le_def st)
qed

lemma process_le:
  "(\<And>x. x \<in> set xs \<Longrightarrow> ps_state x \<noteq> SS_cancelled) \<Longrightarrow> saga_le s (fst (process_each env clk now xs s))"
proof (induction xs arbitrary: s)
  case (Cons x xs)
  have x: "ps_state x \<noteq> SS_cancelled" using Cons.prems by simp
  have IH: "saga_le s (fst (process_each env clk now xs s'))" if "saga_le s s'" for s'
    using that Cons.IH[of s'] Cons.prems saga_le_trans by auto
  obtain rows ok where c: "claim (pl_rows s) (ps_intentId x) now (now + 120 * 1000) = (rows, ok)" by fastforce
  have le0: "saga_le s (s\<lparr> pl_rows := rows \<rparr>)" using claim_le[of s "ps_intentId x" now "now + 120 * 1000"] c by simp
  obtain s1 r1 where st: "saga_step env clk x now (s\<lparr> pl_rows := rows \<rparr>) = (s1, r1)" by fastforce
  have le1: "saga_le s s1" using saga_le_trans[OF le0 step_le[OF x]] st by (metis fst_conv)
  have le2: "saga_le s s2" if "retryOrGiveUp env clk x e now s1 = (s2, r2)" for e s2 r2
    using saga_le_trans[OF le1 retry_le[OF x]] that by (metis fst_conv)
  show ?case
  proof (cases ok)
    case True
    show ?thesis
    proof (cases r1)
      case (Inl e)
      obtain s2 r2 where r: "retryOrGiveUp env clk x (''unexpected error: '' @ exn_message e) now s1 = (s2, r2)" by fastforce
      then show ?thesis using True c st Inl le2[OF r] IH by (cases r2) simp_all
    qed (use True c st IH[OF le1] in simp)
  qed (use c IH[OF le0] in simp)
qed simp

lemma due_mem:
  "x \<in> set (findDue rows now n) \<Longrightarrow> x \<in> set (js_values rows) \<and> is_due now x \<and> \<not> leased now x"
  unfolding findDue_def by (drule in_set_takeD) simp

lemma due_live: "is_due now x \<Longrightarrow> ps_state x \<noteq> SS_cancelled"
  by (auto simp: is_due_def)

lemma processDue_le: "saga_le s (fst (processDue env clk now s))"
  unfolding processDue_def by (rule process_le) (use due_mem due_live in blast)

lemma detect_le: "saga_le s (fst (detect env clk uuid iid solver reason dl at_s s))"
proof -
  obtain rows slash created where c: "createIfAbsent clk uuid \<lparr> ns_intentId = iid, ns_solverAddress = solver, ns_reason = reason,
      ns_fillDeadline = dl, ns_detectedAt = at_s * 1000,
      ns_challengeEndsAt = at_s * 1000 + challengeWindowSeconds (pl_settings env) * 1000 \<rparr> (pl_rows s) = (rows, slash, created)"
    by (metis prod_cases3)
  let ?s = "s\<lparr> pl_rows := rows \<rparr>"
  have new: "map_of rows k = (if k = iid \<and> created then Some slash else map_of (pl_rows s) k)"
    "created \<Longrightarrow> map_of (pl_rows s) iid = None \<and> ps_intentId slash = iid \<and> ps_state slash = SS_detected" for k
    using c by (auto simp: createIfAbsent_def Let_def split: option.splits)
  have keep: "slash_status ?s k = Some a" if "slash_status s k = Some a" for k a
    using that new by (auto simp: slash_status_def)
  have "saga_inv ?s" if inv: "saga_inv s"
  proof (rule saga_invI)
    show "ps_intentId r = k" if "map_of (pl_rows ?s) k = Some r" for k r
      using that new saga_invD(2)[OF inv, of k r] by (auto split: if_splits)
    show "cancellations ?s k \<le> (if slash_status ?s k = Some SS_cancelled then 1 else 0)" for k
      using saga_invD(1)[OF inv, of k] keep[of k SS_cancelled] unfolding cancellations_def
      by (cases "slash_status s k = Some SS_cancelled") simp_all
  qed
  then have le: "saga_le s ?s" using keep by (auto simp: saga_le_def)
  let ?m = "recordSlashTransition ''detected'' None ?s"
  have "saga_le s ?m" by (rule saga_le_frame[OF _ _ le]) simp_all
  then have "saga_le s (fst (openChallengeWindow clk slash ?m))" using open_le saga_le_trans by blast
  then show ?thesis using c le by (simp add: detect_def Let_def case_prod_unfold)
qed

inductive pl_step :: "pl_state \<Rightarrow> pl_state \<Rightarrow> bool" where
  pls_detect: "pl_step s (fst (detect env clk uuid iid solver reason dl at_s s))"
| pls_process: "pl_step s (fst (processDue env clk now s))"
| pls_admin: "pl_step s (fst (cancelByAdmin env clk iid actor n s))"
| pls_proof: "pl_step s (fst (cancelByFillProof env clk iid solver tx s))"
| pls_other: "pl_rows s' = pl_rows s \<Longrightarrow> pl_cancelEvents s' = pl_cancelEvents s \<Longrightarrow> pl_step s s'"

lemma pl_step_le: "pl_step s s' \<Longrightarrow> saga_le s s'"
proof (induction rule: pl_step.induct)
  case (pls_admin s env clk iid actor n)
  have "saga_le s s1" if "pl_cancel env clk x CR_admin actor None (Some n) None (Some clk) s = (s1, r)" for x s1 r
    using cancel_le that by (metis fst_conv)
  then show ?case by (simp add: cancelByAdmin_def split: option.split prod.split sum.split)
next
  case (pls_proof s env clk iid solver tx)
  have "saga_le s s1" if "pl_cancel env clk x CR_fill_landed solver (Some tx) None None (Some clk) s = (s1, r)" for x s1 r
    using cancel_le that by (metis fst_conv)
  then show ?case by (simp add: cancelByFillProof_def split: option.split prod.split sum.split)
qed (simp_all add: detect_le processDue_le saga_le_frame)

interpretation saga_runs: status_system pl_step saga_inv slash_status slash_edge
proof
  show "saga_inv s'" if "pl_step s s'" "saga_inv s" for s s' using pl_step_le[OF that(1)] that(2) by (simp add: saga_le_def)
  show "\<exists>b. slash_status s' k = Some b \<and> slash_edge\<^sup>*\<^sup>* a b" if "pl_step s s'" "slash_status s k = Some a" for s s' k a
    using pl_step_le[OF that(1)] that(2) unfolding saga_le_def by blast
qed

text \<open>C8. A slash is settled at most once: over any sequence of detections, worker passes, admin
cancellations and fill proofs, interleaved with any change of the intents and the solver records,
a slash moves only along the edges of the saga, a confirmed or cancelled slash stays as it is, and
the compensation of a slash has run at most once, only for a slash that is cancelled.\<close>

theorem slash_saga_settles_once:
  assumes "pl_rows s0 = []" and "pl_cancelEvents s0 = []" and "pl_step\<^sup>*\<^sup>* s0 s" and "pl_step\<^sup>*\<^sup>* s s'"
    and "slash_status s k = Some a"
  shows "\<exists>b. slash_status s' k = Some b \<and> slash_edge\<^sup>*\<^sup>* a b \<and> (a = SS_confirmed \<or> a = SS_cancelled \<longrightarrow> b = a)
    \<and> cancellations s' k \<le> (if b = SS_cancelled then 1 else 0)"
proof -
  have "saga_inv s0" by (rule saga_invI) (simp_all add: assms(1,2) cancellations_def)
  then have inv: "saga_inv s" by (rule saga_runs.run_inv[OF assms(3)])
  then obtain b where b: "slash_status s' k = Some b" "slash_edge\<^sup>*\<^sup>* a b" using saga_runs.run_path[OF assms(4) inv assms(5)] by blast
  moreover have "b = a" if "a = SS_confirmed \<or> a = SS_cancelled"
    using b(2) that by (auto elim: converse_rtranclpE slash_edge_final)
  moreover have "cancellations s' k \<le> (if b = SS_cancelled then 1 else 0)"
    using saga_invD(1)[OF saga_runs.run_inv[OF assms(4) inv], of k] b(1) by simp
  ultimately show ?thesis by blast
qed

definition saga_env :: "slash_outcome \<Rightarrow> tx_status \<Rightarrow> pl_env" where
  "saga_env outcome st = \<lparr> pl_svcEnv = sample_env,
     pl_settings = \<lparr> challengeWindowSeconds = 6, clockSkewToleranceSeconds = 3, maxSubmitAttempts = 3 \<rparr>,
     pl_chain = \<lparr> an_findLandedFill = (\<lambda>_ _ _ _. Inr None), an_verifyFillProof = (\<lambda>_ _ _. Inr None),
       an_slashSolver = (\<lambda>_ _ _. outcome), an_check = (\<lambda>_. Inr st) \<rparr> \<rparr>"

definition broadcast_result :: slash_outcome where
  "broadcast_result = SO_result \<lparr> sx_submitted = True, sx_simulated = True, sx_failed = False, sx_txHash = Some ''tx'', sx_detail = [], sx_dryRun = False \<rparr>"

definition saga_start :: pl_state where
  "saga_start = \<lparr> pl_rows = [], pl_svc = emptySvc, pl_solvers = two_solvers, pl_cancelEvents = [], pl_metrics = [], pl_calls = [] \<rparr>"

definition saga_detected :: pl_state where
  "saga_detected = fst (detect (saga_env broadcast_result TX_success) 0 ''u1'' ''i1'' ''GA'' ''late'' 0 0 saga_start)"

definition saga_cancelled :: pl_state where
  "saga_cancelled = fst (cancelByAdmin (saga_env broadcast_result TX_success) 1 ''i1'' ''op'' ''ok'' saga_detected)"

theorem slash_saga_settles_once_witness:
  "slash_status (fst (processDue (saga_env broadcast_result TX_success) 9000 9000 saga_cancelled)) ''i1'' = Some SS_cancelled"
proof -
  have "pl_step saga_start saga_detected" unfolding saga_detected_def by (rule pls_detect)
  moreover have "pl_step saga_detected saga_cancelled" unfolding saga_cancelled_def by (rule pls_admin)
  ultimately have 1: "pl_step\<^sup>*\<^sup>* saga_start saga_cancelled" by simp
  have 2: "pl_step\<^sup>*\<^sup>* saga_cancelled (fst (processDue (saga_env broadcast_result TX_success) 9000 9000 saga_cancelled))"
    by (rule r_into_rtranclp[where r = pl_step, OF pls_process])
  have "slash_status saga_cancelled ''i1'' = Some SS_cancelled" by code_simp
  from slash_saga_settles_once[OF _ _ 1 2 this] show ?thesis by (auto simp: saga_start_def)
qed

section \<open>What reaches the registry\<close>

lemma cancel_calls [simp]: "pl_calls (fst (pl_cancel env clk slash reason actor tx n err now s)) = pl_calls s"
proof -
  let ?fs = "if reason = CR_submit_failed then [SS_challenge_window, SS_submitted] else CANCELLABLE"
  let ?p = "cancel_patch clk reason actor tx n err (ps_attempts slash)"
  obtain s1 r where t: "pl_transition clk (ps_intentId slash) ?fs ?p now s = (s1, r)" by fastforce
  have c: "pl_calls s1 = pl_calls s" using transition_frame(2)[of clk "ps_intentId slash" ?fs ?p now s] t by simp
  show ?thesis
  proof (cases r)
    case (Some x)
    obtain s2 r2 where "compensate env clk slash reason actor tx n s1 = (s2, r2)" by fastforce
    then show ?thesis using t c Some compensate_frame(2)[of env clk slash reason actor tx n s1]
      by (cases r2) (simp_all add: pl_cancel_def)
  qed (use t c in \<open>simp add: pl_cancel_def\<close>)
qed

lemma retry_calls [simp]: "pl_calls (fst (retryOrGiveUp env clk slash err now s)) = pl_calls s"
proof -
  have "pl_calls s1 = pl_calls s" if "pl_cancel env clk x reason a None None e None s = (s1, r)" for x reason a e s1 r
    using that cancel_calls by (metis fst_conv)
  then show ?thesis by (simp add: retryOrGiveUp_def Let_def split: prod.split sum.split)
qed

lemma trans_calls: "pl_transition clk k fs p now s = (s1, r) \<Longrightarrow> pl_calls s1 = pl_calls s"
  by (metis fst_conv transition_frame(2))

lemma open_calls [simp]: "pl_calls (fst (openChallengeWindow clk slash s)) = pl_calls s"
  by (auto simp: openChallengeWindow_def trans_calls split: prod.split option.split)

lemma confirm_calls [simp]: "pl_calls (fst (confirm env clk slash now s)) = pl_calls s"
  by (auto simp: confirm_def Let_def trans_calls split: sum.split tx_status.split prod.split option.split)

lemma submit_calls: "pl_calls (fst (submit_slash env clk slash solver now s)) = pl_calls s @ [(ps_solverAddress slash, ps_intentId slash, ps_reason slash)]"
  by (auto simp: submit_slash_def Let_def trans_calls split: slash_outcome.split prod.split option.split)

text \<open>The registry call that a worker pass may make for a slash, and when.\<close>

definition may_call :: "pl_env \<Rightarrow> int \<Rightarrow> pending_slash \<Rightarrow> bool" where
  "may_call env now slash \<longleftrightarrow> ps_state slash = SS_challenge_window
     \<and> an_findLandedFill (pl_chain env) (ps_intentId slash) (ps_fillDeadline slash) (latestAcceptable env slash) (now div 1000) = Inr None"

lemma verify_calls:
  "pl_calls (fst (verifyAndSubmit env clk slash now s)) \<in> {pl_calls s, pl_calls s @ [(ps_solverAddress slash, ps_intentId slash, ps_reason slash)]}
   \<and> (pl_calls (fst (verifyAndSubmit env clk slash now s)) \<noteq> pl_calls s \<longrightarrow>
        an_findLandedFill (pl_chain env) (ps_intentId slash) (ps_fillDeadline slash) (latestAcceptable env slash) (now div 1000) = Inr None)"
proof -
  have "pl_calls s1 = pl_calls s" if "pl_cancel env clk slash reason a tx None None None s = (s1, r)" for reason a tx s1 r
    using that cancel_calls by (metis fst_conv)
  then show ?thesis by (auto simp: verifyAndSubmit_def submit_calls split: sum.splits option.splits prod.splits)
qed

lemma step_calls:
  "pl_calls (fst (saga_step env clk slash now s)) =
     pl_calls s @ (if pl_calls (fst (saga_step env clk slash now s)) = pl_calls s then [] else [(ps_solverAddress slash, ps_intentId slash, ps_reason slash)])
   \<and> (pl_calls (fst (saga_step env clk slash now s)) \<noteq> pl_calls s \<longrightarrow> may_call env now slash)"
  using verify_calls[of env clk slash now s] by (auto simp: saga_step_def may_call_def split: slash_state.split)

lemma process_calls:
  "\<exists>new. pl_calls (fst (process_each env clk now xs s)) = pl_calls s @ new
     \<and> set new \<subseteq> {(ps_solverAddress x, ps_intentId x, ps_reason x) |x. x \<in> set xs \<and> may_call env now x}"
proof (induction xs arbitrary: s)
  case (Cons x xs)
  obtain rows ok where c: "claim (pl_rows s) (ps_intentId x) now (now + 120 * 1000) = (rows, ok)" by fastforce
  obtain s1 r1 where st: "saga_step env clk x now (s\<lparr> pl_rows := rows \<rparr>) = (s1, r1)" by fastforce
  obtain own where own: "pl_calls s1 = pl_calls s @ own" "set own \<subseteq> {(ps_solverAddress x, ps_intentId x, ps_reason x) |y. may_call env now x}"
    using step_calls[of env clk x now "s\<lparr> pl_rows := rows \<rparr>"] st by (auto split: if_splits)
  have rest: "\<exists>new. pl_calls (fst (process_each env clk now xs s')) = pl_calls s @ new
     \<and> set new \<subseteq> {(ps_solverAddress y, ps_intentId y, ps_reason y) |y. y \<in> set (x # xs) \<and> may_call env now y}"
    if "pl_calls s' = pl_calls s @ front" "front = [] \<or> front = own" for s' front
  proof -
    obtain new where new: "pl_calls (fst (process_each env clk now xs s')) = pl_calls s' @ new"
       "set new \<subseteq> {(ps_solverAddress y, ps_intentId y, ps_reason y) |y. y \<in> set xs \<and> may_call env now y}"
      using Cons.IH by blast
    have "set (front @ new) \<subseteq> {(ps_solverAddress y, ps_intentId y, ps_reason y) |y. y \<in> set (x # xs) \<and> may_call env now y}"
      using new(2) own(2) that(2) by fastforce
    then show ?thesis using new(1) that(1) by (intro exI[of _ "front @ new"]) simp
  qed
  show ?case
  proof (cases ok)
    case True
    show ?thesis
    proof (cases r1)
      case (Inl e)
      obtain s2 r2 where r: "retryOrGiveUp env clk x (''unexpected error: '' @ exn_message e) now s1 = (s2, r2)" by fastforce
      have c2: "pl_calls s2 = pl_calls s @ own" using retry_calls r own(1) by (metis fst_conv)
      show ?thesis
      proof (cases r2)
        case (Inl e2)
        then show ?thesis using True c st \<open>r1 = Inl e\<close> r c2 own(2) by (intro exI[of _ own]) auto
      qed (use True c st Inl r rest[OF c2] in simp)
    qed (use True c st rest[OF own(1)] in simp)
  qed (use c rest[of "s\<lparr> pl_rows := rows \<rparr>" "[]"] in simp)
qed simp

text \<open>C9. No slash reaches the registry early or blind: every registry call that a worker pass makes is
for a stored slash in its challenge window state, not leased to another worker, whose challenge
window has ended by the pass's instant and for which the chain, asked in that pass, answered that
no fill landed in time. A check that fails, or a fill that landed, leads to no call.\<close>

theorem no_early_or_blind_slash:
  "\<exists>new. pl_calls (fst (processDue env clk now s)) = pl_calls s @ new
     \<and> (\<forall>c \<in> set new. \<exists>x \<in> set (js_values (pl_rows s)). c = (ps_solverAddress x, ps_intentId x, ps_reason x)
          \<and> ps_state x = SS_challenge_window \<and> ps_challengeEndsAt x \<le> now \<and> \<not> leased now x
          \<and> an_findLandedFill (pl_chain env) (ps_intentId x) (ps_fillDeadline x)
               (ps_fillDeadline x + clockSkewToleranceSeconds (pl_settings env)) (now div 1000) = Inr None)"
proof -
  obtain new where new: "pl_calls (fst (processDue env clk now s)) = pl_calls s @ new"
    "set new \<subseteq> {(ps_solverAddress x, ps_intentId x, ps_reason x) |x. x \<in> set (findDue (pl_rows s) now 25) \<and> may_call env now x}"
    using process_calls unfolding processDue_def by blast
  have "\<exists>x \<in> set (js_values (pl_rows s)). c = (ps_solverAddress x, ps_intentId x, ps_reason x)
          \<and> ps_state x = SS_challenge_window \<and> ps_challengeEndsAt x \<le> now \<and> \<not> leased now x
          \<and> an_findLandedFill (pl_chain env) (ps_intentId x) (ps_fillDeadline x)
               (ps_fillDeadline x + clockSkewToleranceSeconds (pl_settings env)) (now div 1000) = Inr None" if c: "c \<in> set new" for c
  proof -
    obtain x where x: "c = (ps_solverAddress x, ps_intentId x, ps_reason x)" "x \<in> set (findDue (pl_rows s) now 25)" "may_call env now x"
      using new(2) c by blast
    then show ?thesis using due_mem[OF x(2)]
      by (intro bexI[of _ x]) (auto simp: may_call_def is_due_def latestAcceptable_def)
  qed
  then show ?thesis using new(1) by blast
qed

theorem no_early_or_blind_slash_witness:
  "pl_calls (fst (processDue (saga_env broadcast_result TX_success) 9000 9000 saga_detected)) = [(''GA'', ''i1'', ''late'')]
   \<and> (\<exists>x \<in> set (js_values (pl_rows saga_detected)). ps_challengeEndsAt x \<le> 9000)"
proof -
  have c: "pl_calls (fst (processDue (saga_env broadcast_result TX_success) 9000 9000 saga_detected)) = [(''GA'', ''i1'', ''late'')]" by code_simp
  have "pl_calls saga_detected = []" by code_simp
  with c no_early_or_blind_slash[of "saga_env broadcast_result TX_success" 9000 9000 saga_detected] show ?thesis by auto
qed

section \<open>Giving up\<close>

text \<open>The chain cannot be asked, or it knows of no fill and every submission fails.\<close>

definition stuck :: "pl_env \<Rightarrow> bool" where
  "stuck env \<longleftrightarrow> (\<forall>iid dl la t. (\<exists>e. an_findLandedFill (pl_chain env) iid dl la t = Inl e)
     \<or> (an_findLandedFill (pl_chain env) iid dl la t = Inr None
        \<and> (\<forall>a r. (\<exists>m. an_slashSolver (pl_chain env) a iid r = SO_thrown m)
             \<or> (\<exists>res. an_slashSolver (pl_chain env) a iid r = SO_result res \<and> sx_failed res))))"

definition lone :: "string \<Rightarrow> nat \<Rightarrow> int \<Rightarrow> pl_state \<Rightarrow> bool" where
  "lone k n b s \<longleftrightarrow> (\<exists>r. pl_rows s = [(k, r)] \<and> ps_intentId r = k \<and> ps_state r = SS_challenge_window \<and> ps_lockedUntil r = None
     \<and> ps_attempts r = n \<and> ps_challengeEndsAt r \<le> b \<and> ps_nextAttemptAt r \<le> b)"

lemma cancelled_stays: "saga_le s s' \<Longrightarrow> slash_status s k = Some SS_cancelled \<Longrightarrow> slash_status s' k = Some SS_cancelled"
  unfolding saga_le_def by (metis converse_rtranclpE slash_edge_final(2))

lemma cancel_lone:
  assumes "pl_rows s = [(k, r1)]" and "ps_state r1 = SS_challenge_window" and "ps_intentId slash = k"
  shows "slash_status (fst (pl_cancel env clk slash reason actor tx n err None s)) k = Some SS_cancelled"
proof -
  let ?fs = "if reason = CR_submit_failed then [SS_challenge_window, SS_submitted] else CANCELLABLE"
  let ?p = "cancel_patch clk reason actor tx n err (ps_attempts slash)"
  obtain s1 res where t: "pl_transition clk k ?fs ?p None s = (s1, res)" by fastforce
  have in_fs: "ps_state r1 \<in> set ?fs" using assms(2) by (simp add: CANCELLABLE_def)
  then obtain c where c: "res = Some c" using transition_won[of clk k ?fs ?p None s] t assms(1) by (auto simp: held_at_def)
  have st: "slash_status s1 k = Some SS_cancelled"
    using transition_rows[of clk k ?fs ?p None s k] t assms(1) in_fs by (simp add: slash_status_def held_at_def cancel_patch_def)
  obtain s2 r2 where p: "compensate env clk slash reason actor tx n s1 = (s2, r2)" by fastforce
  have "pl_rows s2 = pl_rows s1" using compensate_frame(1)[of env clk slash reason actor tx n s1] p by simp
  then have "slash_status s2 k = Some SS_cancelled" using st by (simp add: slash_status_def)
  then show ?thesis using t c p by (cases r2) (simp_all add: pl_cancel_def assms(3))
qed

lemma retry_lone:
  assumes "pl_rows s = [(k, r1)]" and "ps_intentId r1 = k" and "ps_state r1 = SS_challenge_window" and "ps_intentId slash = k"
    and "ps_state slash = SS_challenge_window" and "ps_challengeEndsAt r1 \<le> now + 600000"
    and "retryOrGiveUp env clk slash err now s = (s', res)"
  shows "slash_status s' k = Some SS_cancelled
    \<or> (res = Inr () \<and> ps_attempts slash + 1 < maxSubmitAttempts (pl_settings env) \<and> lone k (ps_attempts slash + 1) (now + 600000) s')"
proof (cases "ps_attempts slash + 1 \<ge> maxSubmitAttempts (pl_settings env)")
  case True
  let ?c = "pl_cancel env clk (slash\<lparr> ps_attempts := ps_attempts slash + 1 \<rparr>) CR_submit_failed ''system'' None None (Some err) None s"
  have "slash_status (fst ?c) k = Some SS_cancelled" by (rule cancel_lone[OF assms(1,3)]) (simp add: assms(4))
  moreover have "s' = fst ?c" using assms(7) True by (auto simp: retryOrGiveUp_def Let_def split: prod.splits sum.splits)
  ultimately show ?thesis by simp
next
  case False
  have "backoff (ps_attempts slash + 1) now \<le> now + 600000" by (simp add: backoff_def)
  then have "lone k (ps_attempts slash + 1) (now + 600000) s' \<and> res = Inr ()"
    using assms False by (auto simp: retryOrGiveUp_def Let_def lone_def pl_transition_def slash_transition_def held_at_def)
  then show ?thesis using False by simp
qed

lemma verify_lone:
  assumes "stuck env" and rows: "pl_rows s = [(k, r1)]" "ps_intentId r1 = k" "ps_state r1 = SS_challenge_window"
    and slash: "ps_intentId slash = k" "ps_state slash = SS_challenge_window" and late: "ps_challengeEndsAt r1 \<le> now + 600000"
    and v: "verifyAndSubmit env clk slash now s = (s', res)"
  shows "slash_status s' k = Some SS_cancelled
    \<or> (res = Inr () \<and> ps_attempts slash + 1 < maxSubmitAttempts (pl_settings env) \<and> lone k (ps_attempts slash + 1) (now + 600000) s')
    \<or> (\<exists>e. res = Inl e \<and> pl_rows s' = pl_rows s)"
proof -
  let ?f = "an_findLandedFill (pl_chain env) (ps_intentId slash) (ps_fillDeadline slash) (latestAcceptable env slash) (now div 1000)"
  have cases: "(\<exists>e. ?f = Inl e) \<or> (?f = Inr None \<and> (\<forall>a r. (\<exists>m. an_slashSolver (pl_chain env) a k r = SO_thrown m)
             \<or> (\<exists>x. an_slashSolver (pl_chain env) a k r = SO_result x \<and> sx_failed x)))"
    using assms(1) slash(1) unfolding stuck_def by blast
  note rt = retry_lone[OF _ rows(2,3) slash late]
  consider (err) e where "?f = Inl e" | (gone) "?f = Inr None" "findByAddress (pl_solvers s) (ps_solverAddress slash) = None"
    | (sub) x where "?f = Inr None" "findByAddress (pl_solvers s) (ps_solverAddress slash) = Some x"
    using cases by fastforce
  then show ?thesis
  proof cases
    case err
    then have "retryOrGiveUp env clk slash (''fill re-verification failed: '' @ e) now s = (s', res)"
      using v by (simp add: verifyAndSubmit_def)
    from rt[OF rows(1) this] show ?thesis by blast
  next
    case gone
    have "slash_status (fst (pl_cancel env clk slash CR_solver_not_found ''system'' None None None None s)) k = Some SS_cancelled"
      by (rule cancel_lone[OF rows(1,3) slash(1)])
    moreover have "s' = fst (pl_cancel env clk slash CR_solver_not_found ''system'' None None None None s)"
      using v gone by (auto simp: verifyAndSubmit_def split: prod.splits sum.splits)
    ultimately show ?thesis by simp
  next
    case sub
    let ?s = "s\<lparr> pl_calls := pl_calls s @ [(ps_solverAddress slash, ps_intentId slash, ps_reason slash)] \<rparr>"
    have sb: "submit_slash env clk slash x now s = (s', res)" using v sub by (simp add: verifyAndSubmit_def)
    from sub cases slash(1) consider m where "an_slashSolver (pl_chain env) (ps_solverAddress slash) (ps_intentId slash) (ps_reason slash) = SO_thrown m"
      | y where "an_slashSolver (pl_chain env) (ps_solverAddress slash) (ps_intentId slash) (ps_reason slash) = SO_result y" "sx_failed y"
      by fastforce
    then show ?thesis
    proof cases
      case 2
      then have "retryOrGiveUp env clk slash (sx_detail y) now ?s = (s', res)" using sb by (simp add: submit_slash_def Let_def)
      from rt[OF _ this] show ?thesis using rows(1) by auto
    qed (use sb in \<open>auto simp: submit_slash_def Let_def\<close>)
  qed
qed

lemma pass_lone:
  assumes "stuck env" and "lone k n b s" and "b \<le> t"
  shows "slash_status (fst (processDue env t t s)) k = Some SS_cancelled
    \<or> (n + 1 < maxSubmitAttempts (pl_settings env) \<and> lone k (n + 1) (t + 600000) (fst (processDue env t t s)))"
proof -
  obtain r where r: "pl_rows s = [(k, r)]" "ps_intentId r = k" "ps_state r = SS_challenge_window" "ps_lockedUntil r = None"
    "ps_attempts r = n" "ps_challengeEndsAt r \<le> t" "ps_nextAttemptAt r \<le> t"
    using assms(2,3) by (auto simp: lone_def)
  let ?r = "r\<lparr> ps_lockedUntil := Some (t + 120 * 1000), ps_updatedAt := t \<rparr>"
  let ?s = "s\<lparr> pl_rows := [(k, ?r)] \<rparr>"
  have due: "findDue (pl_rows s) t 25 = [r]" using r by (simp add: findDue_def is_due_def leased_def)
  have cl: "claim (pl_rows s) (ps_intentId r) t (t + 120 * 1000) = ([(k, ?r)], True)" using r by (simp add: claim_def leased_def)
  obtain s1 res where v: "verifyAndSubmit env t r t ?s = (s1, res)" by fastforce
  have vl: "slash_status s1 k = Some SS_cancelled
    \<or> (res = Inr () \<and> n + 1 < maxSubmitAttempts (pl_settings env) \<and> lone k (n + 1) (t + 600000) s1)
    \<or> (\<exists>e. res = Inl e \<and> pl_rows s1 = [(k, ?r)])"
    using verify_lone[OF assms(1), of ?s k ?r r t t s1 res] v r by auto
  have eq: "fst (processDue env t t s) = (case res of Inr _ \<Rightarrow> s1 | Inl e \<Rightarrow> fst (retryOrGiveUp env t r (''unexpected error: '' @ exn_message e) t s1))"
    using v cl r(3) by (auto simp: processDue_def due saga_step_def split: sum.split prod.split)
  show ?thesis
  proof (cases res)
    case (Inl e)
    obtain s2 r2 where rt: "retryOrGiveUp env t r (''unexpected error: '' @ exn_message e) t s1 = (s2, r2)" by fastforce
    have end_: "fst (processDue env t t s) = s2" using eq Inl rt by simp
    from vl Inl consider "slash_status s1 k = Some SS_cancelled" | "pl_rows s1 = [(k, ?r)]" by auto
    then show ?thesis
    proof cases
      case 1
      have "saga_le s1 s2" using retry_le[of r s1 env t "''unexpected error: '' @ exn_message e" t] rt r(3) by simp
      then show ?thesis using cancelled_stays 1 end_ by simp
    next
      case 2
      then show ?thesis using retry_lone[OF 2 _ _ r(2,3) _ rt] r end_ by auto
    qed
  qed (use vl eq in auto)
qed

fun spaced :: "int \<Rightarrow> int list \<Rightarrow> bool" where
  "spaced b [] = True"
| "spaced b (t # ts) = (b \<le> t \<and> spaced (t + 600000) ts)"

fun passes :: "pl_env \<Rightarrow> int list \<Rightarrow> pl_state \<Rightarrow> pl_state" where
  "passes env [] s = s"
| "passes env (t # ts) s = passes env ts (fst (processDue env t t s))"

lemma passes_cancelled: "slash_status s k = Some SS_cancelled \<Longrightarrow> slash_status (passes env ts s) k = Some SS_cancelled"
  by (induction ts arbitrary: s) (auto intro: cancelled_stays[OF processDue_le])

lemma passes_give_up:
  assumes "stuck env" and "lone k n b s" and "spaced b ts" and "ts \<noteq> []" and "maxSubmitAttempts (pl_settings env) \<le> n + length ts"
  shows "slash_status (passes env ts s) k = Some SS_cancelled"
  using assms
proof (induction ts arbitrary: n b s)
  case (Cons t ts)
  let ?s = "fst (processDue env t t s)"
  have "b \<le> t" using Cons.prems(3) by simp
  from pass_lone[OF Cons.prems(1,2) this] show ?case
  proof
    assume next_pass: "n + 1 < maxSubmitAttempts (pl_settings env) \<and> lone k (n + 1) (t + 600000) ?s"
    then have "ts \<noteq> []" using Cons.prems(5) by auto
    then have "slash_status (passes env ts ?s) k = Some SS_cancelled"
      by (intro Cons.IH[of "n + 1" "t + 600000"]) (use Cons.prems next_pass in auto)
    then show ?thesis by simp
  qed (simp add: passes_cancelled)
qed simp


definition failing_result :: slash_outcome where
  "failing_result = SO_result \<lparr> sx_submitted = False, sx_simulated = False, sx_failed = True, sx_txHash = None, sx_detail = ''no'', sx_dryRun = False \<rparr>"


section \<open>A slash that was broadcast can still be cancelled\<close>

text \<open>
  After two minutes without news of its transaction a submitted slash returns to the challenge
  window, where an administrator or a fill proof may cancel it, although the transaction may still
  be applied: cancellation is not confined to the time before the broadcast.
\<close>

definition saga_reopened :: pl_state where
  "saga_reopened = fst (processDue (saga_env broadcast_result TX_not_found) 200000 200000
     (fst (processDue (saga_env broadcast_result TX_not_found) 9000 9000 saga_detected)))"

lemma broadcast_slash_cancellable:
  "pl_calls saga_reopened = [(''GA'', ''i1'', ''late'')]
   \<and> slash_status (fst (processDue (saga_env broadcast_result TX_not_found) 9000 9000 saga_detected)) ''i1'' = Some SS_submitted
   \<and> (case cancelByAdmin (saga_env broadcast_result TX_not_found) 200001 ''i1'' ''op'' ''ok'' saga_reopened of
        (s', Inr c) \<Rightarrow> ps_state c = SS_cancelled | _ \<Rightarrow> False)"
  by (intro conjI; code_simp)

text \<open>The registry client never broadcasts, so a submission it accepts is recorded as simulated.\<close>

lemma slashSolver_never_broadcasts:
  "slashSolver ks nowMs dry conf rpc = SO_result res \<Longrightarrow> \<not> sx_submitted res \<and> sx_txHash res = None"
  by (auto simp: slashSolver_def split: option.splits if_splits rpc_outcome.splits)

end
