(* ===== verification/Sweeper.thy ===== *)
theory Sweeper
  imports Partial_Fill_Service Slashing_Pipeline
begin

text \<open>
  The deadline sweeper of \<^verbatim>\<open>src/intents/intents-sweeper.service.ts\<close>: the safety scan that expires open
  intents, slashes missed fills or extends them while fills are paused, and the two deadline jobs.
  It composes the intents service, the partial-fill service, the solver records, the griefing
  service, the kill switch and the registry client, whose answer is the argument \<open>se_registry\<close>.
  Leader election, timers and metrics are left out; one scan is one step.
\<close>

section \<open>The sweeper\<close>

datatype sweep_event = SE_intent_expired string | SE_intent_slashed string "string option" string

record sweep_env =
  sv_pf :: pf_env
  sv_partialFills :: bool
  sv_killSwitch :: ks_service
  sv_registry :: "string \<Rightarrow> string \<Rightarrow> string \<Rightarrow> slash_outcome"

record sweep_state =
  sw_pf :: pf_state
  sw_events :: "sweep_event list"

definition sweep_broadcast :: "sweep_event \<Rightarrow> sweep_state \<Rightarrow> sweep_state" where
  "sweep_broadcast ev s = s\<lparr> sw_events := sw_events s @ [ev] \<rparr>"

definition pausedFillDeadline :: "sweep_env \<Rightarrow> int \<Rightarrow> intent \<Rightarrow> int \<Rightarrow> int option" where
  "pausedFillDeadline env nowMs i now =
     (if \<not> dc_paused (evaluateTarget (sv_killSwitch env) nowMs
               \<lparr> tg_chain = Some (i_srcChain i), tg_token = Some (t_address (i_srcToken i)), tg_operation = KO_fill \<rparr>)
      then None else Some (now + Intents_Service.fill_window i))"

definition expireOpen :: "sweep_env \<Rightarrow> int \<Rightarrow> intent \<Rightarrow> int \<Rightarrow> sweep_state \<Rightarrow> sweep_state \<times> bool result" where
  "expireOpen env nowMs i now s =
     (case (if i_allowPartialFill i = Some True \<and> sv_partialFills env
            then slashExpiredReservations (sv_pf env) nowMs now (Some (i_intentId i)) (sw_pf s) else (sw_pf s, Inr 0)) of
        (pf, Inl e) \<Rightarrow> (s\<lparr> sw_pf := pf \<rparr>, Inl e)
      | (pf, Inr _) \<Rightarrow>
          (case svc_expireIfOpen (pe_svc (sv_pf env)) nowMs (i_intentId i)
                  (no_ctx\<lparr> pc_actor := Some ''system'', pc_reason := Some ''deadline passed'',
                     pc_metadata := Some [(''deadline'', MInt (i_deadline i)), (''sweepedAt'', MInt now)] \<rparr>) (pf_svc pf) of
             (sv, Inl e) \<Rightarrow> (s\<lparr> sw_pf := pf\<lparr> pf_svc := sv \<rparr> \<rparr>, Inl e)
           | (sv, Inr None) \<Rightarrow> (s\<lparr> sw_pf := pf\<lparr> pf_svc := sv \<rparr> \<rparr>, Inr False)
           | (sv, Inr (Some _)) \<Rightarrow>
               (sweep_broadcast (SE_intent_expired (i_intentId i)) (s\<lparr> sw_pf := pf\<lparr> pf_svc := sv \<rparr> \<rparr>), Inr True)))"

definition missed_reason :: string where
  "missed_reason = ''accepted intent not filled before deadline''"

definition blame_solver :: "sweep_env \<Rightarrow> int \<Rightarrow> string \<Rightarrow> string \<Rightarrow> int \<Rightarrow> pf_state \<Rightarrow> pf_state" where
  "blame_solver env nowMs iid solver now pf =
     (let v = fst (recordFailedFill (nowMs div 1000) solver iid (pf_solvers pf));
          pf1 = pf\<lparr> pf_solvers := fst (recordSlash solver iid missed_reason now v) \<rparr>;
          pf2 = (case pe_griefing (sv_pf env) of
                   None \<Rightarrow> pf1
                 | Some cfg \<Rightarrow> pf1\<lparr> pf_griefing := recordUnfilled cfg solver iid now (pf_griefing pf1) \<rparr>)
      in pf2\<lparr> pf_slashCalls := pf_slashCalls pf2 @ [(solver, iid, missed_reason)] \<rparr>)"

definition slashMissedFill :: "sweep_env \<Rightarrow> int \<Rightarrow> string \<Rightarrow> string option \<Rightarrow> int \<Rightarrow> sweep_state \<Rightarrow> sweep_state \<times> bool result" where
  "slashMissedFill env nowMs iid solver now s =
     (case svc_slashIfAccepted (pe_svc (sv_pf env)) nowMs iid now missed_reason
             (no_ctx\<lparr> pc_actor := Some ''system'', pc_reason := Some missed_reason,
                pc_metadata := Some [(''solver'', meta_opt solver), (''slashedAt'', MInt now)] \<rparr>) (pf_svc (sw_pf s)) of
        (sv, Inl e) \<Rightarrow> (s\<lparr> sw_pf := (sw_pf s)\<lparr> pf_svc := sv \<rparr> \<rparr>, Inl e)
      | (sv, Inr None) \<Rightarrow> (s\<lparr> sw_pf := (sw_pf s)\<lparr> pf_svc := sv \<rparr> \<rparr>, Inr False)
      | (sv, Inr (Some _)) \<Rightarrow>
          (let s1 = sweep_broadcast (SE_intent_slashed iid solver missed_reason) (s\<lparr> sw_pf := (sw_pf s)\<lparr> pf_svc := sv \<rparr> \<rparr>) in
           if \<not> truthy_str solver then (s1, Inr True)
           else (let s2 = s1\<lparr> sw_pf := blame_solver env nowMs iid (the solver) now (sw_pf s1) \<rparr> in
                 case sv_registry env (the solver) iid missed_reason of
                   SO_result _ \<Rightarrow> (s2, Inr True)
                 | SO_paused m \<Rightarrow> (s2, Inl (ServiceUnavailable m))
                 | SO_thrown m \<Rightarrow> (s2, Inl (PlainError m)))))"

datatype settle_outcome = OC_slashed | OC_extended | OC_skipped

definition settleAccepted :: "sweep_env \<Rightarrow> int \<Rightarrow> intent \<Rightarrow> int \<Rightarrow> sweep_state \<Rightarrow> sweep_state \<times> settle_outcome result" where
  "settleAccepted env nowMs i now s =
     (case pausedFillDeadline env nowMs i now of
        Some deadline \<Rightarrow>
          (case svc_extendDeadlineIfAccepted (i_intentId i) deadline (pf_svc (sw_pf s)) of
             (sv, None) \<Rightarrow> (s\<lparr> sw_pf := (sw_pf s)\<lparr> pf_svc := sv \<rparr> \<rparr>, Inr OC_skipped)
           | (sv, Some _) \<Rightarrow> (s\<lparr> sw_pf := (sw_pf s)\<lparr> pf_svc := sv \<rparr> \<rparr>, Inr OC_extended))
      | None \<Rightarrow>
          (case slashMissedFill env nowMs (i_intentId i) (i_solver i) now s of
             (s1, Inl e) \<Rightarrow> (s1, Inl e)
           | (s1, Inr b) \<Rightarrow> (s1, Inr (if b then OC_slashed else OC_skipped))))"

fun expire_each :: "sweep_env \<Rightarrow> int \<Rightarrow> int \<Rightarrow> intent list \<Rightarrow> nat \<Rightarrow> sweep_state \<Rightarrow> sweep_state \<times> nat result" where
  "expire_each env nowMs now [] n s = (s, Inr n)"
| "expire_each env nowMs now (i # is) n s =
     (if i_deadline i \<le> now
      then (case expireOpen env nowMs i now s of
              (s1, Inl e) \<Rightarrow> (s1, Inl e)
            | (s1, Inr b) \<Rightarrow> expire_each env nowMs now is (if b then n + 1 else n) s1)
      else expire_each env nowMs now is n s)"

fun settle_each :: "sweep_env \<Rightarrow> int \<Rightarrow> int \<Rightarrow> intent list \<Rightarrow> nat \<Rightarrow> nat \<Rightarrow> sweep_state \<Rightarrow> sweep_state \<times> (nat \<times> nat) result" where
  "settle_each env nowMs now [] sl ex s = (s, Inr (sl, ex))"
| "settle_each env nowMs now (i # is) sl ex s =
     (case settleAccepted env nowMs i now s of
        (s1, Inl e) \<Rightarrow> (s1, Inl e)
      | (s1, Inr oc) \<Rightarrow>
          settle_each env nowMs now is (if oc = OC_slashed then sl + 1 else sl) (if oc = OC_extended then ex + 1 else ex) s1)"

record sweep_result =
  expiredCount :: nat
  slashedCount :: nat
  extendedDeadlines :: nat

definition sweep :: "sweep_env \<Rightarrow> int \<Rightarrow> sweep_state \<Rightarrow> sweep_state \<times> sweep_result result" where
  "sweep env nowMs s =
     (let now = nowMs div 1000;
          (pf, tranches) = (if sv_partialFills env then slashExpiredReservations (sv_pf env) nowMs now None (sw_pf s) else (sw_pf s, Inr 0));
          slashed0 = (case tranches of Inl _ \<Rightarrow> 0 | Inr n \<Rightarrow> n);
          s1 = s\<lparr> sw_pf := pf \<rparr>
      in case expire_each env nowMs now (findByState (s_repo (pf_svc (sw_pf s1))) St_open) 0 s1 of
           (s2, Inl e) \<Rightarrow> (s2, Inl e)
         | (s2, Inr expired) \<Rightarrow>
             (case settle_each env nowMs now (filter (\<lambda>i. i_deadline i \<le> now) (findByState (s_repo (pf_svc (sw_pf s2))) St_accepted)) slashed0 0 s2 of
                (s3, Inl e) \<Rightarrow> (s3, Inl e)
              | (s3, Inr (sl, ex)) \<Rightarrow> (s3, Inr \<lparr> expiredCount = expired, slashedCount = sl, extendedDeadlines = ex \<rparr>)))"

definition handleExpireJob :: "sweep_env \<Rightarrow> int \<Rightarrow> string \<Rightarrow> int \<Rightarrow> sweep_state \<Rightarrow> sweep_state \<times> unit result" where
  "handleExpireJob env nowMs iid deadline s =
     (case findById (s_repo (pf_svc (sw_pf s))) iid of
        None \<Rightarrow> (s, Inr ())
      | Some i \<Rightarrow>
          if i_state i \<noteq> St_open \<or> i_deadline i \<noteq> deadline then (s, Inr ())
          else if i_deadline i > nowMs div 1000 then (s, Inr ())
          else (case expireOpen env nowMs i (nowMs div 1000) s of (s1, Inl e) \<Rightarrow> (s1, Inl e) | (s1, Inr _) \<Rightarrow> (s1, Inr ())))"

definition handleFillWindowJob :: "sweep_env \<Rightarrow> int \<Rightarrow> string \<Rightarrow> int \<Rightarrow> sweep_state \<Rightarrow> sweep_state \<times> unit result" where
  "handleFillWindowJob env nowMs iid deadline s =
     (case findById (s_repo (pf_svc (sw_pf s))) iid of
        None \<Rightarrow> (s, Inr ())
      | Some i \<Rightarrow>
          if i_state i \<noteq> St_accepted \<or> i_deadline i \<noteq> deadline then (s, Inr ())
          else if i_deadline i > nowMs div 1000 then (s, Inr ())
          else (case settleAccepted env nowMs i (nowMs div 1000) s of (s1, Inl e) \<Rightarrow> (s1, Inl e) | (s1, Inr _) \<Rightarrow> (s1, Inr ())))"

section \<open>What each operation does to the stored intents\<close>

abbreviation row_of :: "sweep_state \<Rightarrow> string \<Rightarrow> intent option" where
  "row_of s k \<equiv> findById (s_repo (pf_svc (sw_pf s))) k"

lemma expired_planned: "\<exists>p. transition nowMs iid St_open St_expired c = Inr p"
  by (simp add: transition_def findRule_find table_simps requiresOverride_def)

lemma slashed_planned: "\<exists>p. transition nowMs iid St_accepted St_slashed c = Inr p"
  by (simp add: transition_def findRule_find table_simps requiresOverride_def)

lemma svc_expire_effect:
  "snd (svc_expireIfOpen env nowMs iid ctx sv) = Inr (written (snd (expireIfOpen (s_repo sv) iid None)))
   \<and> s_repo (fst (svc_expireIfOpen env nowMs iid ctx sv)) = fst (expireIfOpen (s_repo sv) iid None)"
proof -
  obtain p where "transition nowMs iid St_open St_expired (with_ctx ''system'' None ctx) = Inr p" using expired_planned by blast
  then show ?thesis
    by (simp add: svc_expireIfOpen_def unfold_call commit_plan_def recordTransition_def writeAudit_def countTransition_def changed_def split: option.split)
qed

lemma svc_slash_effect:
  "snd (svc_slashIfAccepted env nowMs iid t rsn ctx sv) = Inr (written (snd (slashIfAccepted (s_repo sv) iid t rsn None)))
   \<and> s_repo (fst (svc_slashIfAccepted env nowMs iid t rsn ctx sv)) = fst (slashIfAccepted (s_repo sv) iid t rsn None)"
proof -
  obtain p where "transition nowMs iid St_accepted St_slashed (with_ctx ''system'' (Some rsn) ctx) = Inr p" using slashed_planned by blast
  then show ?thesis
    by (simp add: svc_slashIfAccepted_def unfold_call withFillRecord_frames commit_plan_def recordTransition_def writeAudit_def
        countTransition_def changed_def split: option.split)
qed

lemma svc_extend_effect:
  "s_repo (fst (svc_extendDeadlineIfAccepted iid dl sv)) = fst (extendDeadlineIfAccepted (s_repo sv) iid dl None)"
  by (simp add: svc_extendDeadlineIfAccepted_def unfold_call scheduleFillWindow_def split: option.split)

text \<open>
  The tranche store is in its invariant, rows are stored under their identifier and have a readable
  source amount: then no slashing of tranches fails.
\<close>

definition sweepable :: "(string \<Rightarrow> int) \<Rightarrow> (string \<Rightarrow> int) \<Rightarrow> pf_state \<Rightarrow> bool" where
  "sweepable T M pf \<longleftrightarrow> fills_inv T M (pf_fills pf) \<and> repo_ok (s_repo (pf_svc pf))
     \<and> (\<forall>k i. findById (s_repo (pf_svc pf)) k = Some i \<longrightarrow> BigInt (i_srcAmount i) \<noteq> None)"

lemma slash_each_returns:
  assumes "fills_inv T M (pf_fills s)" and "\<And>k i. findById (s_repo (pf_svc s)) k = Some i \<Longrightarrow> BigInt (i_srcAmount i) \<noteq> None"
  shows "\<exists>s' m. slash_each env nowMs now cs n s = (s', Inr m) \<and> fills_inv T M (pf_fills s') \<and> s_repo (pf_svc s') = s_repo (pf_svc s)"
  using assms
proof (induction cs arbitrary: n s)
  case (Cons c cs)
  obtain fr res where m: "markSlashed (pf_fills s) (f_fillId c) now = (fr, res)" by fastforce
  have inv: "fills_inv T M fr"
    using fills_step_inv[OF fs_slashed[of T M "pf_fills s" "f_fillId c" now] Cons.prems(1)] m by simp
  show ?case
  proof (cases res)
    case None
    then show ?thesis using Cons.IH[of "s\<lparr> pf_fills := fr \<rparr>" n] inv Cons.prems(2) m by simp
  next
    case (Some f)
    obtain s1 where p: "penalise env nowMs f now (s\<lparr> pf_fills := fr \<rparr>) = (s1, Inr ())"
      using penalise_returns[of T M "s\<lparr> pf_fills := fr \<rparr>" f env nowMs now] inv Cons.prems(2) by auto
    have "pf_fills s1 = fr" "s_repo (pf_svc s1) = s_repo (pf_svc s)"
      using penalise_fills[of env nowMs f now "s\<lparr> pf_fills := fr \<rparr>"] p by simp_all
    then show ?thesis using Cons.IH[of s1 "n + 1"] inv Cons.prems(2) m Some p by simp
  qed
qed simp

lemma slash_sweep_returns:
  assumes "sweepable T M pf"
  shows "\<exists>pf' m. slashExpiredReservations env nowMs now iid pf = (pf', Inr m) \<and> sweepable T M pf' \<and> s_repo (pf_svc pf') = s_repo (pf_svc pf)"
proof -
  have a: "fills_inv T M (pf_fills pf)" "\<And>k i. findById (s_repo (pf_svc pf)) k = Some i \<Longrightarrow> BigInt (i_srcAmount i) \<noteq> None"
    using assms by (auto simp: sweepable_def)
  let ?due = "case iid of
            Some k \<Rightarrow> if k \<noteq> [] then filter (\<lambda>f. f_status f = FS_reserved \<and> f_deadline f \<le> now) (listSync (pf_fills pf) k)
                      else findExpiredReservations (pf_fills pf) now 500
          | None \<Rightarrow> findExpiredReservations (pf_fills pf) now 500"
  obtain pf' m where r: "slash_each env nowMs now ?due 0 pf = (pf', Inr m)" "fills_inv T M (pf_fills pf')"
      "s_repo (pf_svc pf') = s_repo (pf_svc pf)"
    using slash_each_returns[OF a(1), of env nowMs now ?due 0] a(2) by blast
  then have "sweepable T M pf'" using assms unfolding sweepable_def r(3) by blast
  then show ?thesis using r unfolding slashExpiredReservations_def Let_def by blast
qed

lemma mutate_sweepable:
  assumes "sweepable T M pf" and "pf_fills pf' = pf_fills pf" and "s_repo (pf_svc pf') = fst (mutate (s_repo (pf_svc pf)) iid None g p)"
    and "\<And>i. i_srcAmount (p i) = i_srcAmount i"
  shows "sweepable T M pf'"
proof -
  have "BigInt (i_srcAmount i) \<noteq> None" if "findById (s_repo (pf_svc pf')) k = Some i" for k i
    using that assms(1,4) unfolding assms(3) findById_mutate sweepable_def
    by (auto simp: stamped_def split: if_splits option.splits)
  then show ?thesis using assms mutate_ok by (auto simp: sweepable_def)
qed

definition expired_row :: "string \<Rightarrow> intent \<Rightarrow> intent" where
  "expired_row k = stamped k (\<lambda>i. i\<lparr> i_state := St_expired \<rparr>)"

lemma expireOpen_effect:
  assumes "sweepable T M (sw_pf s)"
  shows "\<exists>s' b. expireOpen env nowMs i now s = (s', Inr b) \<and> sweepable T M (sw_pf s')
    \<and> (\<forall>k. row_of s' k = map_option (\<lambda>r. if k = i_intentId i \<and> i_state r = St_open then expired_row k r else r) (row_of s k))"
proof -
  let ?t = "if i_allowPartialFill i = Some True \<and> sv_partialFills env
            then slashExpiredReservations (sv_pf env) nowMs now (Some (i_intentId i)) (sw_pf s) else (sw_pf s, Inr 0)"
  obtain pf m where t: "?t = (pf, Inr m)" "sweepable T M pf" "s_repo (pf_svc pf) = s_repo (pf_svc (sw_pf s))"
    using slash_sweep_returns[OF assms, of "sv_pf env" nowMs now "Some (i_intentId i)"] assms by (cases "i_allowPartialFill i = Some True \<and> sv_partialFills env") auto
  let ?ctx = "no_ctx\<lparr> pc_actor := Some ''system'', pc_reason := Some ''deadline passed'',
                     pc_metadata := Some [(''deadline'', MInt (i_deadline i)), (''sweepedAt'', MInt now)] \<rparr>"
  obtain sv r where e: "svc_expireIfOpen (pe_svc (sv_pf env)) nowMs (i_intentId i) ?ctx (pf_svc pf) = (sv, r)" by fastforce
  let ?w = "written (snd (expireIfOpen (s_repo (pf_svc pf)) (i_intentId i) None))"
  have r: "r = Inr ?w" and repo: "s_repo sv = fst (expireIfOpen (s_repo (pf_svc pf)) (i_intentId i) None)"
    using svc_expire_effect[of "pe_svc (sv_pf env)" nowMs "i_intentId i" ?ctx "pf_svc pf"] e by simp_all
  let ?s = "s\<lparr> sw_pf := pf\<lparr> pf_svc := sv \<rparr> \<rparr>"
  have eq: "expireOpen env nowMs i now s =
      (case ?w of None \<Rightarrow> (?s, Inr False) | Some _ \<Rightarrow> (sweep_broadcast (SE_intent_expired (i_intentId i)) ?s, Inr True))"
    unfolding expireOpen_def t(1) by (simp only: prod.case sum.case e r)
  obtain s' b where out: "expireOpen env nowMs i now s = (s', Inr b)" "sw_pf s' = pf\<lparr> pf_svc := sv \<rparr>"
    using eq by (cases ?w) (auto simp: sweep_broadcast_def)
  have "sweepable T M (pf\<lparr> pf_svc := sv \<rparr>)"
    by (rule mutate_sweepable[OF t(2), where iid = "i_intentId i" and g = "\<lambda>i. i_state i = St_open" and p = "\<lambda>i. i\<lparr> i_state := St_expired \<rparr>"])
       (simp_all add: repo expireIfOpen_def)
  moreover have "row_of s' k = map_option (\<lambda>r. if k = i_intentId i \<and> i_state r = St_open then expired_row k r else r) (row_of s k)" for k
    unfolding out(2) t(3)[symmetric]
    by (cases "findById (s_repo (pf_svc pf)) k"; cases "k = i_intentId i")
       (simp_all add: repo expireIfOpen_def findById_mutate version_guard_def expired_row_def)
  ultimately show ?thesis using out by simp
qed

lemma expire_each_effect:
  assumes "sweepable T M (sw_pf s)"
  shows "\<exists>s' m. expire_each env nowMs now xs n s = (s', Inr m) \<and> sweepable T M (sw_pf s')
    \<and> (\<forall>k. row_of s' k = map_option (\<lambda>r. if (\<exists>x \<in> set xs. i_intentId x = k \<and> i_deadline x \<le> now) \<and> i_state r = St_open
          then expired_row k r else r) (row_of s k))"
  using assms
proof (induction xs arbitrary: n s)
  case (Cons x xs)
  show ?case
  proof (cases "i_deadline x \<le> now")
    case True
    obtain s1 b where s1: "expireOpen env nowMs x now s = (s1, Inr b)" "sweepable T M (sw_pf s1)"
      "\<And>k. row_of s1 k = map_option (\<lambda>r. if k = i_intentId x \<and> i_state r = St_open then expired_row k r else r) (row_of s k)"
      using expireOpen_effect[OF Cons.prems] by blast
    obtain s2 m where s2: "expire_each env nowMs now xs (if b then n + 1 else n) s1 = (s2, Inr m)" "sweepable T M (sw_pf s2)"
      "\<And>k. row_of s2 k = map_option (\<lambda>r. if (\<exists>x \<in> set xs. i_intentId x = k \<and> i_deadline x \<le> now) \<and> i_state r = St_open
          then expired_row k r else r) (row_of s1 k)"
      using Cons.IH[OF s1(2)] by blast
    have "row_of s2 k = map_option (\<lambda>r. if (\<exists>y \<in> set (x # xs). i_intentId y = k \<and> i_deadline y \<le> now) \<and> i_state r = St_open
          then expired_row k r else r) (row_of s k)" for k
      unfolding s2(3) s1(3) using True by (cases "row_of s k") (auto simp: expired_row_def)
    then show ?thesis using True s1(1) s2(1,2) by simp
  qed (use Cons in auto)
qed (simp add: option.map_ident)

definition paused_for :: "sweep_env \<Rightarrow> int \<Rightarrow> intent \<Rightarrow> bool" where
  "paused_for env nowMs i \<longleftrightarrow> dc_paused (evaluateTarget (sv_killSwitch env) nowMs
     \<lparr> tg_chain = Some (i_srcChain i), tg_token = Some (t_address (i_srcToken i)), tg_operation = KO_fill \<rparr>)"

definition settled_row :: "sweep_env \<Rightarrow> int \<Rightarrow> int \<Rightarrow> string \<Rightarrow> intent \<Rightarrow> intent" where
  "settled_row env nowMs now k i =
     (if paused_for env nowMs i then stamped k (\<lambda>i. i\<lparr> i_deadline := now + Intents_Service.fill_window i \<rparr>) i
      else stamped k (\<lambda>i. i\<lparr> i_slashedAt := Some now, i_slashReason := Some missed_reason, i_state := St_slashed \<rparr>) i)"

lemma window_positive: "0 < Intents_Service.fill_window i"
proof -
  have "\<forall>w \<in> snd ` set CHAIN_FILL_WINDOW_DEFAULTS. 0 < w" by (simp add: CHAIN_FILL_WINDOW_DEFAULTS_def)
  then show ?thesis
    by (force simp: fill_window_def coalesce_def DEFAULT_FILL_WINDOW_SECONDS_def split: option.split dest: map_of_SomeD)
qed

lemma slashMissedFill_effect:
  assumes "\<And>a b c. \<exists>r. sv_registry env a b c = SO_result r"
  shows "\<exists>s' b. slashMissedFill env nowMs iid solver now s = (s', Inr b)
    \<and> s_repo (pf_svc (sw_pf s')) = fst (slashIfAccepted (s_repo (pf_svc (sw_pf s))) iid now missed_reason None)"
proof -
  let ?ctx = "no_ctx\<lparr> pc_actor := Some ''system'', pc_reason := Some missed_reason,
                pc_metadata := Some [(''solver'', meta_opt solver), (''slashedAt'', MInt now)] \<rparr>"
  let ?w = "written (snd (slashIfAccepted (s_repo (pf_svc (sw_pf s))) iid now missed_reason None))"
  obtain sv r where e: "svc_slashIfAccepted (pe_svc (sv_pf env)) nowMs iid now missed_reason ?ctx (pf_svc (sw_pf s)) = (sv, r)" by fastforce
  have r: "r = Inr ?w" and repo: "s_repo sv = fst (slashIfAccepted (s_repo (pf_svc (sw_pf s))) iid now missed_reason None)"
    using svc_slash_effect[of "pe_svc (sv_pf env)" nowMs iid now missed_reason ?ctx "pf_svc (sw_pf s)"] e by simp_all
  have blame: "pf_svc (blame_solver env nowMs iid sl now pf) = pf_svc pf" for sl pf
    by (simp add: blame_solver_def Let_def split: option.split)
  obtain x where x: "sv_registry env (the solver) iid missed_reason = SO_result x" using assms by blast
  show ?thesis
    unfolding slashMissedFill_def e r prod.case sum.case
    by (cases ?w) (auto simp: Let_def x blame repo sweep_broadcast_def)
qed

lemma settleAccepted_effect:
  assumes "\<And>a b c. \<exists>r. sv_registry env a b c = SO_result r"
    and "row_of s (i_intentId i) = Some i" and "i_state i = St_accepted" and "i_deadline i \<le> now"
  shows "\<exists>s' oc. settleAccepted env nowMs i now s = (s', Inr oc)
    \<and> (\<forall>k. row_of s' k = (if k = i_intentId i then Some (settled_row env nowMs now k i) else row_of s k))"
proof (cases "paused_for env nowMs i")
  case True
  let ?dl = "now + Intents_Service.fill_window i"
  obtain sv r where x: "svc_extendDeadlineIfAccepted (i_intentId i) ?dl (pf_svc (sw_pf s)) = (sv, r)" by fastforce
  have repo: "s_repo sv = fst (extendDeadlineIfAccepted (s_repo (pf_svc (sw_pf s))) (i_intentId i) ?dl None)"
    using svc_extend_effect[of "i_intentId i" ?dl "pf_svc (sw_pf s)"] x by simp
  have p: "pausedFillDeadline env nowMs i now = Some ?dl" using True by (simp add: pausedFillDeadline_def paused_for_def)
  have "findById (s_repo sv) k = (if k = i_intentId i then Some (settled_row env nowMs now k i) else row_of s k)" for k
    unfolding repo extendDeadlineIfAccepted_def findById_mutate
    using assms True window_positive[of i] by (simp add: version_guard_def settled_row_def stamped_def)
  then show ?thesis unfolding settleAccepted_def p option.case x prod.case by (cases r) auto
next
  case False
  have p: "pausedFillDeadline env nowMs i now = None" using False by (simp add: pausedFillDeadline_def paused_for_def)
  obtain s' b where x: "slashMissedFill env nowMs (i_intentId i) (i_solver i) now s = (s', Inr b)"
    "s_repo (pf_svc (sw_pf s')) = fst (slashIfAccepted (s_repo (pf_svc (sw_pf s))) (i_intentId i) now missed_reason None)"
    using slashMissedFill_effect[OF assms(1)] by blast
  have "row_of s' k = (if k = i_intentId i then Some (settled_row env nowMs now k i) else row_of s k)" for k
    unfolding x(2) slashIfAccepted_def findById_mutate
    using assms False by (simp add: version_guard_def settled_row_def)
  then show ?thesis unfolding settleAccepted_def p option.case x(1) prod.case by auto
qed

lemma settle_each_effect:
  assumes "\<And>a b c. \<exists>r. sv_registry env a b c = SO_result r" and "distinct (map i_intentId xs)"
    and "\<And>x. x \<in> set xs \<Longrightarrow> row_of s (i_intentId x) = Some x \<and> i_state x = St_accepted \<and> i_deadline x \<le> now"
  shows "\<exists>s' c. settle_each env nowMs now xs sl ex s = (s', Inr c)
    \<and> (\<forall>k. row_of s' k = (if k \<in> i_intentId ` set xs then map_option (settled_row env nowMs now k) (row_of s k) else row_of s k))"
  using assms(2,3)
proof (induction xs arbitrary: sl ex s)
  case (Cons x xs)
  have x: "row_of s (i_intentId x) = Some x" "i_state x = St_accepted" "i_deadline x \<le> now" using Cons.prems(2) by auto
  obtain s1 oc where s1: "settleAccepted env nowMs x now s = (s1, Inr oc)"
    "\<And>k. row_of s1 k = (if k = i_intentId x then Some (settled_row env nowMs now k x) else row_of s k)"
    using settleAccepted_effect[OF assms(1) x] by blast
  have d: "distinct (map i_intentId xs)" using Cons.prems(1) by simp
  have "row_of s1 (i_intentId y) = Some y \<and> i_state y = St_accepted \<and> i_deadline y \<le> now" if "y \<in> set xs" for y
    unfolding s1(2) using that Cons.prems by (auto simp: image_iff)
  then obtain s2 c where s2: "settle_each env nowMs now xs (if oc = OC_slashed then sl + 1 else sl) (if oc = OC_extended then ex + 1 else ex) s1 = (s2, Inr c)"
    "\<And>k. row_of s2 k = (if k \<in> i_intentId ` set xs then map_option (settled_row env nowMs now k) (row_of s1 k) else row_of s1 k)"
    using Cons.IH[OF d, of s1 "if oc = OC_slashed then sl + 1 else sl" "if oc = OC_extended then ex + 1 else ex"] by blast
  have "row_of s2 k = (if k \<in> i_intentId ` set (x # xs) then map_option (settled_row env nowMs now k) (row_of s k) else row_of s k)" for k
    unfolding s2(2) s1(2) using Cons.prems(1) x(1) by auto
  then show ?case using s1(1) s2(1) by simp
qed simp

lemma findByState_mem: "x \<in> set (findByState r st) \<longleftrightarrow> x \<in> set (js_values (store r)) \<and> i_state x = st"
  by (auto simp: findByState_def findAll_def)

lemma repo_ok_mem: "repo_ok r \<Longrightarrow> x \<in> set (js_values (store r)) \<longleftrightarrow> findById r (i_intentId x) = Some x"
proof -
  assume ok: "repo_ok r"
  have get: "(k, x) \<in> set (store r) \<longleftrightarrow> findById r k = Some x" for k
    using wf_map_mem[OF ok[unfolded repo_ok_def, THEN conjunct1]] by (simp only: findById_def)
  have key: "i_intentId x = k" if "findById r k = Some x" for k
    using ok that unfolding repo_ok_def by blast
  have "x \<in> set (js_values (store r)) \<longleftrightarrow> (\<exists>k. (k, x) \<in> set (store r))" by force
  then show ?thesis unfolding get using key by blast
qed

lemma findByState_iff: "repo_ok r \<Longrightarrow> x \<in> set (findByState r st) \<longleftrightarrow> findById r (i_intentId x) = Some x \<and> i_state x = st"
  using repo_ok_mem[of r x] by (simp only: findByState_mem)

lemma findByState_distinct: "repo_ok r \<Longrightarrow> distinct (map i_intentId (findByState r st))"
proof -
  assume ok: "repo_ok r"
  have "i_intentId (snd p) = fst p" if "p \<in> set (store r)" for p
    using ok that unfolding repo_ok_def findById_def by (metis eq_fst_iff eq_snd_iff map_of_is_SomeI)
  then have "map i_intentId (js_values (store r)) = map fst (store r)" by simp
  then have "distinct (map i_intentId (js_values (store r)))"
    using ok[unfolded repo_ok_def, THEN conjunct1] by (simp only:)
  then have "distinct (map i_intentId (findAll r))"
    by (simp only: findAll_def distinct_map set_sort distinct_sort)
  then show ?thesis by (simp add: findByState_def distinct_map_filter)
qed

section \<open>The scan is exact\<close>

definition swept_row :: "sweep_env \<Rightarrow> int \<Rightarrow> int \<Rightarrow> string \<Rightarrow> intent \<Rightarrow> intent" where
  "swept_row env nowMs now k i =
     (if i_deadline i > now then i
      else if i_state i = St_open then expired_row k i
      else if i_state i = St_accepted then settled_row env nowMs now k i
      else i)"

lemma due_accepted:
  assumes "repo_ok r"
  shows "k \<in> i_intentId ` set (filter (\<lambda>i. i_deadline i \<le> now) (findByState r St_accepted)) \<longleftrightarrow>
     (\<exists>i. findById r k = Some i \<and> i_state i = St_accepted \<and> i_deadline i \<le> now)"
proof
  assume "\<exists>i. findById r k = Some i \<and> i_state i = St_accepted \<and> i_deadline i \<le> now"
  then obtain i where i: "findById r k = Some i" "i_state i = St_accepted" "i_deadline i \<le> now" by blast
  then have "i_intentId i = k" using assms unfolding repo_ok_def by blast
  then show "k \<in> i_intentId ` set (filter (\<lambda>i. i_deadline i \<le> now) (findByState r St_accepted))"
    using i findByState_iff[OF assms] by force
qed (use findByState_iff[OF assms] in auto)

lemma sweep_rows:
  assumes sw: "sweepable T M (sw_pf s)" and reg: "\<And>a b c. \<exists>r. sv_registry env a b c = SO_result r"
  shows "\<exists>s' res. sweep env nowMs s = (s', Inr res)
    \<and> (\<forall>k. row_of s' k = map_option (swept_row env nowMs (nowMs div 1000) k) (row_of s k))"
proof -
  let ?now = "nowMs div 1000"
  obtain pf tr where pf: "(if sv_partialFills env then slashExpiredReservations (sv_pf env) nowMs ?now None (sw_pf s) else (sw_pf s, Inr 0)) = (pf, tr)"
    "sweepable T M pf" "s_repo (pf_svc pf) = s_repo (pf_svc (sw_pf s))"
    using slash_sweep_returns[OF sw, of "sv_pf env" nowMs ?now None] sw by (cases "sv_partialFills env") auto
  let ?s1 = "s\<lparr> sw_pf := pf \<rparr>"
  let ?repo = "s_repo (pf_svc pf)"
  have ok: "repo_ok ?repo" using pf(2) by (simp add: sweepable_def)
  obtain s2 m where s2: "expire_each env nowMs ?now (findByState ?repo St_open) 0 ?s1 = (s2, Inr m)" "sweepable T M (sw_pf s2)"
    "\<And>k. row_of s2 k = map_option (\<lambda>r. if (\<exists>x \<in> set (findByState ?repo St_open). i_intentId x = k \<and> i_deadline x \<le> ?now) \<and> i_state r = St_open
          then expired_row k r else r) (findById ?repo k)"
    using expire_each_effect[of T M ?s1 env nowMs ?now "findByState ?repo St_open" 0] pf(2) by auto
  have row2: "row_of s2 k = map_option (\<lambda>r. if i_deadline r \<le> ?now \<and> i_state r = St_open then expired_row k r else r) (row_of s k)" for k
  proof (cases "findById ?repo k")
    case (Some r)
    have "i_intentId r = k" using ok Some unfolding repo_ok_def by blast
    then have "(\<exists>x \<in> set (findByState ?repo St_open). i_intentId x = k \<and> i_deadline x \<le> ?now) \<and> i_state r = St_open
        \<longleftrightarrow> i_deadline r \<le> ?now \<and> i_state r = St_open"
      using Some findByState_iff[OF ok] by auto
    then show ?thesis using Some pf(3) s2(3)[of k] by simp
  qed (use s2(3)[of k] pf(3) in simp)
  have ok2: "repo_ok (s_repo (pf_svc (sw_pf s2)))" using s2(2) by (simp add: sweepable_def)
  let ?xs = "filter (\<lambda>i. i_deadline i \<le> ?now) (findByState (s_repo (pf_svc (sw_pf s2))) St_accepted)"
  have d: "distinct (map i_intentId ?xs)" using findByState_distinct[OF ok2] by (rule distinct_map_filter)
  have "row_of s2 (i_intentId x) = Some x \<and> i_state x = St_accepted \<and> i_deadline x \<le> ?now" if "x \<in> set ?xs" for x
    using that findByState_iff[OF ok2, of x St_accepted] by simp
  then obtain s3 c where s3: "settle_each env nowMs ?now ?xs (case tr of Inl _ \<Rightarrow> 0 | Inr n \<Rightarrow> n) 0 s2 = (s3, Inr c)"
    "\<And>k. row_of s3 k = (if k \<in> i_intentId ` set ?xs then map_option (settled_row env nowMs ?now k) (row_of s2 k) else row_of s2 k)"
    using settle_each_effect[OF reg d, of s2 ?now nowMs "case tr of Inl _ \<Rightarrow> 0 | Inr n \<Rightarrow> n" 0] by blast
  have "row_of s3 k = map_option (swept_row env nowMs ?now k) (row_of s k)" for k
    unfolding s3(2) due_accepted[OF ok2] row2
    by (cases "row_of s k") (auto simp: swept_row_def expired_row_def)
  moreover obtain sl ex where "c = (sl, ex)" by fastforce
  then have "\<exists>res. sweep env nowMs s = (s3, Inr res)"
    using pf(1) s2(1) s3(1) by (simp add: sweep_def Let_def)
  ultimately show ?thesis by blast
qed


definition sweep_sample :: sweep_state where
  "sweep_sample = \<lparr> sw_pf = one_reserved, sw_events = [] \<rparr>"

definition sweep_sample_env :: "slash_outcome \<Rightarrow> sweep_env" where
  "sweep_sample_env oc = \<lparr> sv_pf = \<lparr> pe_svc = sample_env, pe_onchainEnabled = False, pe_solverRegistry = False, pe_griefing = None \<rparr>,
     sv_partialFills = True, sv_killSwitch = emptySwitches, sv_registry = (\<lambda>_ _ _. oc) \<rparr>"


section \<open>A paused registry stops the scan\<close>

text \<open>
  When slashing alone is paused, the registry client throws after the intent has been slashed; the
  exception ends the scan, so the missed fills after it wait for a later one.
\<close>

lemma paused_registry_stops_scan:
  assumes "pausedFillDeadline env nowMs i now = None" and "sv_registry env solver (i_intentId i) missed_reason = SO_paused m"
    and "row_of s (i_intentId i) = Some i" and "i_state i = St_accepted" and "i_solver i = Some solver" and "solver \<noteq> []"
  shows "\<exists>s'. settle_each env nowMs now (i # is) sl ex s = (s', Inl (ServiceUnavailable m))
    \<and> map_option i_state (row_of s' (i_intentId i)) = Some St_slashed"
proof -
  let ?ctx = "no_ctx\<lparr> pc_actor := Some ''system'', pc_reason := Some missed_reason,
                pc_metadata := Some [(''solver'', meta_opt (i_solver i)), (''slashedAt'', MInt now)] \<rparr>"
  obtain sv r where e: "svc_slashIfAccepted (pe_svc (sv_pf env)) nowMs (i_intentId i) now missed_reason ?ctx (pf_svc (sw_pf s)) = (sv, r)" by fastforce
  have fx: "r = Inr (written (snd (slashIfAccepted (s_repo (pf_svc (sw_pf s))) (i_intentId i) now missed_reason None)))"
    "s_repo sv = fst (slashIfAccepted (s_repo (pf_svc (sw_pf s))) (i_intentId i) now missed_reason None)"
    using svc_slash_effect[of "pe_svc (sv_pf env)" nowMs "i_intentId i" now missed_reason ?ctx "pf_svc (sw_pf s)"] e by simp_all
  obtain u where u: "r = Inr (Some u)"
    using assms(3,4) fx(1) by (auto simp: slashIfAccepted_def mutate_def findById_def Let_def)
  have blame: "pf_svc (blame_solver env nowMs k sl now pf) = pf_svc pf" for k sl pf
    by (simp add: blame_solver_def Let_def split: option.split)
  have "map_option i_state (findById (s_repo sv) (i_intentId i)) = Some St_slashed"
    unfolding fx(2) slashIfAccepted_def findById_mutate using assms(3,4) by (simp add: version_guard_def)
  moreover have "\<exists>s'. slashMissedFill env nowMs (i_intentId i) (i_solver i) now s = (s', Inl (ServiceUnavailable m)) \<and> pf_svc (sw_pf s') = sv"
    unfolding slashMissedFill_def e u prod.case sum.case option.case
    using assms(2,5,6) by (simp add: Let_def truthy_str_def blame sweep_broadcast_def)
  ultimately show ?thesis using assms(1) by (auto simp: settleAccepted_def)
qed

end
