(* ===== verification/Lifecycle_Spec.thy ===== *)
theory Lifecycle_Spec
  imports Sweeper
begin

text \<open>
  The repository publishes a TLA+ specification of the intent lifecycle
  (\<open>formal/IntentLifecycle.tla\<close>), checked there for two intents and three ticks only. This
  theory states the specification for arbitrary constants and proves its invariants by
  induction, shows that its actions move between exactly the states the lifecycle rows of
  the transition table join, and that the guarded repository writes and the safety scan
  refine it. The one liveness property it announces does not follow from its fairness
  assumption; the last section gives the behaviour.

  A function over the intents is a HOL function of the intent id; the constant \<open>window\<close> is
  the fill window an acceptance grants, 1 in the specification.
\<close>

section \<open>The specification\<close>

record lifecycle =
  lc_state :: "string \<Rightarrow> intent_state"
  lc_solver :: "string \<Rightarrow> string option"
  lc_deadline :: "string \<Rightarrow> int"
  lc_minDst :: "string \<Rightarrow> int"
  lc_fillAmt :: "string \<Rightarrow> int"
  lc_pendingTx :: "string \<Rightarrow> nat"
  lc_clock :: int

record lifecycle_constants =
  Intents :: "string set"
  SolverSet :: "string set"
  MaxDeadline :: int
  MaxAmount :: int
  window :: "string \<Rightarrow> int"

definition spec_states :: "intent_state set" where
  "spec_states = {St_open, St_accepted, St_filled, St_cancelled, St_expired, St_slashed}"

definition TypeOK :: "lifecycle_constants \<Rightarrow> lifecycle \<Rightarrow> bool" where
  "TypeOK C s \<longleftrightarrow> (\<forall>i \<in> Intents C. lc_state s i \<in> spec_states)
     \<and> (\<forall>i \<in> Intents C. lc_pendingTx s i \<in> {0, 1})
     \<and> lc_clock s \<in> {0 .. MaxDeadline C + 1}"

definition Init :: "lifecycle_constants \<Rightarrow> lifecycle \<Rightarrow> bool" where
  "Init C s \<longleftrightarrow> lc_state s = (\<lambda>_. St_open) \<and> lc_solver s = (\<lambda>_. None)
     \<and> lc_deadline s = (\<lambda>_. MaxDeadline C) \<and> lc_minDst s = (\<lambda>_. 1)
     \<and> lc_fillAmt s = (\<lambda>_. 0) \<and> lc_pendingTx s = (\<lambda>_. 0) \<and> lc_clock s = 0"

definition Terminal :: "intent_state \<Rightarrow> bool" where
  "Terminal x \<longleftrightarrow> x \<in> {St_filled, St_cancelled, St_expired, St_slashed}"

definition Accept :: "lifecycle_constants \<Rightarrow> string \<Rightarrow> string \<Rightarrow> lifecycle \<Rightarrow> lifecycle \<Rightarrow> bool" where
  "Accept C i sv s s' \<longleftrightarrow> lc_state s i = St_open \<and> lc_deadline s i > lc_clock s \<and> sv \<in> SolverSet C
     \<and> s' = s\<lparr> lc_state := (lc_state s)(i := St_accepted), lc_solver := (lc_solver s)(i := Some sv),
               lc_deadline := (lc_deadline s)(i := lc_clock s + window C i) \<rparr>"

definition Cancel :: "string \<Rightarrow> lifecycle \<Rightarrow> lifecycle \<Rightarrow> bool" where
  "Cancel i s s' \<longleftrightarrow> lc_state s i = St_open \<and> s' = s\<lparr> lc_state := (lc_state s)(i := St_cancelled) \<rparr>"

definition SweeperExpire :: "string \<Rightarrow> lifecycle \<Rightarrow> lifecycle \<Rightarrow> bool" where
  "SweeperExpire i s s' \<longleftrightarrow> lc_state s i = St_open \<and> lc_deadline s i \<le> lc_clock s
     \<and> s' = s\<lparr> lc_state := (lc_state s)(i := St_expired) \<rparr>"

definition SubmitFill :: "lifecycle_constants \<Rightarrow> string \<Rightarrow> int \<Rightarrow> lifecycle \<Rightarrow> lifecycle \<Rightarrow> bool" where
  "SubmitFill C i amt s s' \<longleftrightarrow> lc_state s i = St_accepted \<and> lc_deadline s i > lc_clock s
     \<and> lc_pendingTx s i = 0 \<and> amt \<in> {0 .. MaxAmount C} \<and> amt \<ge> lc_minDst s i
     \<and> s' = s\<lparr> lc_pendingTx := (lc_pendingTx s)(i := 1), lc_fillAmt := (lc_fillAmt s)(i := amt) \<rparr>"

definition ConfirmFill :: "string \<Rightarrow> lifecycle \<Rightarrow> lifecycle \<Rightarrow> bool" where
  "ConfirmFill i s s' \<longleftrightarrow> lc_state s i = St_accepted \<and> lc_pendingTx s i = 1
     \<and> lc_fillAmt s i \<ge> lc_minDst s i
     \<and> s' = s\<lparr> lc_state := (lc_state s)(i := St_filled), lc_pendingTx := (lc_pendingTx s)(i := 0) \<rparr>"

definition FailTx :: "string \<Rightarrow> lifecycle \<Rightarrow> lifecycle \<Rightarrow> bool" where
  "FailTx i s s' \<longleftrightarrow> lc_pendingTx s i = 1 \<and> lc_state s i = St_accepted
     \<and> s' = s\<lparr> lc_pendingTx := (lc_pendingTx s)(i := 0) \<rparr>"

definition SweeperSlash :: "string \<Rightarrow> lifecycle \<Rightarrow> lifecycle \<Rightarrow> bool" where
  "SweeperSlash i s s' \<longleftrightarrow> lc_state s i = St_accepted \<and> lc_deadline s i \<le> lc_clock s
     \<and> lc_pendingTx s i = 0 \<and> s' = s\<lparr> lc_state := (lc_state s)(i := St_slashed) \<rparr>"

definition Tick :: "lifecycle_constants \<Rightarrow> lifecycle \<Rightarrow> lifecycle \<Rightarrow> bool" where
  "Tick C s s' \<longleftrightarrow> lc_clock s < MaxDeadline C + 1 \<and> s' = s\<lparr> lc_clock := lc_clock s + 1 \<rparr>"

inductive lc_next :: "lifecycle_constants \<Rightarrow> lifecycle \<Rightarrow> lifecycle \<Rightarrow> bool" for C where
  n_accept: "i \<in> Intents C \<Longrightarrow> sv \<in> SolverSet C \<Longrightarrow> Accept C i sv s s' \<Longrightarrow> lc_next C s s'"
| n_cancel: "i \<in> Intents C \<Longrightarrow> Cancel i s s' \<Longrightarrow> lc_next C s s'"
| n_expire: "i \<in> Intents C \<Longrightarrow> SweeperExpire i s s' \<Longrightarrow> lc_next C s s'"
| n_submit: "i \<in> Intents C \<Longrightarrow> amt \<in> {0 .. MaxAmount C} \<Longrightarrow> SubmitFill C i amt s s' \<Longrightarrow> lc_next C s s'"
| n_confirm: "i \<in> Intents C \<Longrightarrow> ConfirmFill i s s' \<Longrightarrow> lc_next C s s'"
| n_fail: "i \<in> Intents C \<Longrightarrow> FailTx i s s' \<Longrightarrow> lc_next C s s'"
| n_slash: "i \<in> Intents C \<Longrightarrow> SweeperSlash i s s' \<Longrightarrow> lc_next C s s'"
| n_tick: "Tick C s s' \<Longrightarrow> lc_next C s s'"

definition FillGteMinDst :: "lifecycle_constants \<Rightarrow> lifecycle \<Rightarrow> bool" where
  "FillGteMinDst C s \<longleftrightarrow> (\<forall>i \<in> Intents C. lc_state s i = St_filled \<longrightarrow> lc_fillAmt s i \<ge> lc_minDst s i)"

definition PendingOnlyWhenAccepted :: "lifecycle_constants \<Rightarrow> lifecycle \<Rightarrow> bool" where
  "PendingOnlyWhenAccepted C s \<longleftrightarrow> (\<forall>i \<in> Intents C. lc_pendingTx s i = 1 \<longrightarrow> lc_state s i = St_accepted)"

lemmas lc_actions = Accept_def Cancel_def SweeperExpire_def SubmitFill_def ConfirmFill_def FailTx_def
  SweeperSlash_def Tick_def

section \<open>Invariants\<close>

text \<open>The announced invariants, with the one they rest on: a fill in flight covers the
  minimum.\<close>

definition spec_inv :: "lifecycle_constants \<Rightarrow> lifecycle \<Rightarrow> bool" where
  "spec_inv C s \<longleftrightarrow> TypeOK C s \<and> FillGteMinDst C s \<and> PendingOnlyWhenAccepted C s
     \<and> (\<forall>i \<in> Intents C. lc_pendingTx s i = 1 \<longrightarrow> lc_fillAmt s i \<ge> lc_minDst s i)"

lemma spec_inv_Init: "0 \<le> MaxDeadline C + 1 \<Longrightarrow> Init C s \<Longrightarrow> spec_inv C s"
  by (simp add: spec_inv_def TypeOK_def Init_def FillGteMinDst_def PendingOnlyWhenAccepted_def spec_states_def)

lemma spec_inv_step: "lc_next C s s' \<Longrightarrow> spec_inv C s \<Longrightarrow> spec_inv C s'"
  by (induction rule: lc_next.induct)
     (auto simp: lc_actions spec_inv_def TypeOK_def FillGteMinDst_def PendingOnlyWhenAccepted_def spec_states_def)

interpretation lc_runs: inv_system "lc_next C" "spec_inv C" for C
  by unfold_locales (rule spec_inv_step)

text \<open>A terminal intent never moves again.\<close>

lemma terminal_step:
  "lc_next C s s' \<Longrightarrow> Terminal (lc_state s i) \<Longrightarrow> lc_state s' i = lc_state s i"
  by (induction rule: lc_next.induct) (auto simp: lc_actions Terminal_def)

lemma terminal_run:
  "(lc_next C)\<^sup>*\<^sup>* s s' \<Longrightarrow> Terminal (lc_state s i) \<Longrightarrow> lc_state s' i = lc_state s i"
  by (induction rule: rtranclp_induct) (metis terminal_step)+


definition two_intents :: lifecycle_constants where
  "two_intents = \<lparr> Intents = {''i1'', ''i2''}, SolverSet = {''s1'', ''s2''}, MaxDeadline = 3, MaxAmount = 2,
     window = (\<lambda>_. 1) \<rparr>"

definition init_state :: "lifecycle_constants \<Rightarrow> lifecycle" where
  "init_state C = \<lparr> lc_state = (\<lambda>_. St_open), lc_solver = (\<lambda>_. None), lc_deadline = (\<lambda>_. MaxDeadline C),
     lc_minDst = (\<lambda>_. 1), lc_fillAmt = (\<lambda>_. 0), lc_pendingTx = (\<lambda>_. 0), lc_clock = 0 \<rparr>"

lemma Init_init_state: "Init C (init_state C)"
  by (simp add: Init_def init_state_def)



section \<open>The actions and the transition table\<close>

text \<open>The pairs of states an action can join for some intent.\<close>

definition spec_edge :: "intent_state \<Rightarrow> intent_state \<Rightarrow> bool" where
  "spec_edge a b \<longleftrightarrow> a \<noteq> b \<and> (\<exists>C s s' i. lc_next C s s' \<and> lc_state s i = a \<and> lc_state s' i = b)"

lemma spec_edge_sound:
  "lc_next C s s' \<Longrightarrow> lc_state s' i \<noteq> lc_state s i \<Longrightarrow>
     (lc_state s i, lc_state s' i) \<in> {(St_open, St_accepted), (St_open, St_cancelled), (St_open, St_expired),
        (St_accepted, St_filled), (St_accepted, St_slashed)}"
  by (induction rule: lc_next.induct) (auto simp: lc_actions split: if_splits)

definition at_state :: "intent_state \<Rightarrow> int \<Rightarrow> nat \<Rightarrow> lifecycle" where
  "at_state a clock tx = (init_state two_intents)\<lparr> lc_state := (\<lambda>_. a), lc_clock := clock, lc_pendingTx := (\<lambda>_. tx),
     lc_fillAmt := (\<lambda>_. 2) \<rparr>"

lemma spec_edges:
  "spec_edge St_open St_accepted" "spec_edge St_open St_cancelled" "spec_edge St_open St_expired"
  "spec_edge St_accepted St_filled" "spec_edge St_accepted St_slashed"
proof -
  have e: "spec_edge a b" if "a \<noteq> b" "lc_next two_intents s s'" "lc_state s ''i1'' = a" "lc_state s' ''i1'' = b" for a b s s'
    using that unfolding spec_edge_def by blast
  note f = at_state_def init_state_def two_intents_def
  show "spec_edge St_open St_accepted"
    by (rule e[OF _ n_accept[of "''i1''" _ "''s1''" "at_state St_open 0 0"]]) (auto simp: Accept_def f)
  show "spec_edge St_open St_cancelled"
    by (rule e[OF _ n_cancel[of "''i1''" _ "at_state St_open 0 0"]]) (auto simp: Cancel_def f)
  show "spec_edge St_open St_expired"
    by (rule e[OF _ n_expire[of "''i1''" _ "at_state St_open 3 0"]]) (auto simp: SweeperExpire_def f)
  show "spec_edge St_accepted St_filled"
    by (rule e[OF _ n_confirm[of "''i1''" _ "at_state St_accepted 0 1"]]) (auto simp: ConfirmFill_def f)
  show "spec_edge St_accepted St_slashed"
    by (rule e[OF _ n_slash[of "''i1''" _ "at_state St_accepted 3 0"]]) (auto simp: SweeperSlash_def f)
qed

definition lifecycle_edge :: "intent_state \<Rightarrow> intent_state \<Rightarrow> bool" where
  "lifecycle_edge a b \<longleftrightarrow> (\<exists>r \<in> set TRANSITION_TABLE. r_kind r = K_lifecycle \<and> r_from r = a \<and> r_to r = b)"

text \<open>The published specification mirrors the lifecycle rows of the transition table: its
  actions move an intent between two states exactly when the table has a lifecycle row for
  that pair.\<close>

theorem spec_mirrors_table: "spec_edge a b \<longleftrightarrow> lifecycle_edge a b"
proof
  assume "spec_edge a b"
  then obtain C s s' i where "lc_next C s s'" "lc_state s i = a" "lc_state s' i = b" "a \<noteq> b"
    unfolding spec_edge_def by blast
  then show "lifecycle_edge a b"
    using spec_edge_sound[of C s s' i] by (auto simp: lifecycle_edge_def TRANSITION_TABLE_def rule_of_def)
next
  assume "lifecycle_edge a b"
  then show "spec_edge a b"
    using spec_edges by (auto simp: lifecycle_edge_def TRANSITION_TABLE_def rule_of_def)
qed


section \<open>The code refines the specification\<close>

text \<open>The specification's view of a repository at a time: no transaction is in flight between
  two calls.\<close>

definition spec_view :: "intents_repo \<Rightarrow> int \<Rightarrow> lifecycle" where
  "spec_view r now = (let row = findById r in
     \<lparr> lc_state = (\<lambda>k. case row k of None \<Rightarrow> St_open | Some i \<Rightarrow> i_state i),
       lc_solver = (\<lambda>k. case row k of None \<Rightarrow> None | Some i \<Rightarrow> i_solver i),
       lc_deadline = (\<lambda>k. case row k of None \<Rightarrow> 0 | Some i \<Rightarrow> i_deadline i),
       lc_minDst = (\<lambda>k. case row k of None \<Rightarrow> 0 | Some i \<Rightarrow> the (BigInt (i_minDstAmount i))),
       lc_fillAmt = (\<lambda>k. case row k of None \<Rightarrow> 0 | Some i \<Rightarrow> (case i_fillAmount i of None \<Rightarrow> 0 | Some a \<Rightarrow> the (BigInt a))),
       lc_pendingTx = (\<lambda>_. 0), lc_clock = now \<rparr>)"

text \<open>
  One call of the program as the specification knows it: the guarded writes behind the accept,
  cancel and fill endpoints, a fill carrying an amount that covers the minimum, the passing
  of time, and a whole safety scan with fills not paused.
\<close>

inductive code_step :: "lifecycle_constants \<Rightarrow> intents_repo \<times> int \<Rightarrow> intents_repo \<times> int \<Rightarrow> bool" for C where
  c_accept: "code_step C (r, now) (fst (acceptIfOpen r k sv (now + window C k) now ev), now)"
| c_cancel: "code_step C (r, now) (fst (cancelIfOpen r k ev), now)"
| c_fill: "findById r k = Some i \<Longrightarrow> fpatch_fillAmount p = Some (Some amt) \<Longrightarrow> BigInt amt = Some a
    \<Longrightarrow> the (BigInt (i_minDstAmount i)) \<le> a \<Longrightarrow> a \<in> {0 .. MaxAmount C}
    \<Longrightarrow> code_step C (r, now) (fst (fillIfAccepted r k sv p now ev), now)"
| c_time: "now \<le> MaxDeadline C \<Longrightarrow> code_step C (r, now) (r, now + 1)"
| c_sweep: "sweepable T M (sw_pf s) \<Longrightarrow> (\<And>a b c. \<exists>x. sv_registry env a b c = SO_result x)
    \<Longrightarrow> (\<And>k i. row_of s k = Some i \<Longrightarrow> i_state i = St_accepted \<Longrightarrow> \<not> paused_for env nowMs i)
    \<Longrightarrow> code_step C (s_repo (pf_svc (sw_pf s)), nowMs div 1000)
          (s_repo (pf_svc (sw_pf (fst (sweep env nowMs s)))), nowMs div 1000)"

lemma spec_view_write:
  assumes "findById r k = Some i" and "\<And>k'. findById r' k' = (if k' = k then Some j else findById r k')"
  shows "spec_view r' now = (spec_view r now)\<lparr>
      lc_state := (lc_state (spec_view r now))(k := i_state j),
      lc_solver := (lc_solver (spec_view r now))(k := i_solver j),
      lc_deadline := (lc_deadline (spec_view r now))(k := i_deadline j),
      lc_minDst := (lc_minDst (spec_view r now))(k := the (BigInt (i_minDstAmount j))),
      lc_fillAmt := (lc_fillAmt (spec_view r now))(k := (case i_fillAmount j of None \<Rightarrow> 0 | Some a \<Rightarrow> the (BigInt a))) \<rparr>"
  by (simp add: spec_view_def Let_def assms(2) fun_eq_iff)

lemma spec_view_row:
  "findById r k = Some i \<Longrightarrow> lc_state (spec_view r now) k = i_state i \<and> lc_solver (spec_view r now) k = i_solver i
     \<and> lc_deadline (spec_view r now) k = i_deadline i \<and> lc_minDst (spec_view r now) k = the (BigInt (i_minDstAmount i))
     \<and> lc_fillAmt (spec_view r now) k = (case i_fillAmount i of None \<Rightarrow> 0 | Some a \<Rightarrow> the (BigInt a))"
  by (simp add: spec_view_def Let_def)

lemma spec_view_simps [simp]: "lc_pendingTx (spec_view r now) k = 0" "lc_clock (spec_view r now) = now"
  by (simp_all add: spec_view_def Let_def)

text \<open>A guarded write either does nothing or replaces one row.\<close>

lemma mutate_cases:
  obtains (lost) "fst (mutate r k ev g p) = r"
  | (won) i where "findById r k = Some i" "g i"
      "\<And>k'. findById (fst (mutate r k ev g p)) k' = (if k' = k then Some (stamped k p i) else findById r k')"
proof (cases "\<exists>i. snd (mutate r k ev g p) = MR_intent i")
  case True
  then obtain i where i: "findById r k = Some i" "ev = None \<or> ev = Some (row_version i)" "g i"
    using mutate_intent[of r k ev g p] by blast
  then show thesis using won[of i] by (simp add: findById_mutate version_guard_def)
next
  case False
  then show thesis using lost mutate_lost by blast
qed

lemma accept_refines:
  assumes "Intents C = UNIV" and "SolverSet C = UNIV"
  shows "(lc_next C)\<^sup>*\<^sup>* (spec_view r now) (spec_view (fst (acceptIfOpen r k sv (now + window C k) now ev)) now)"
proof (cases rule: mutate_cases[of r k ev "\<lambda>i. i_state i = St_open \<and> i_deadline i > now"
      "\<lambda>i. i\<lparr> i_state := St_accepted, i_solver := Some sv, i_deadline := now + window C k \<rparr>"])
  case lost
  then show ?thesis by (simp add: acceptIfOpen_def)
next
  case (won i)
  have "Accept C k sv (spec_view r now) (spec_view (fst (acceptIfOpen r k sv (now + window C k) now ev)) now)"
    unfolding acceptIfOpen_def spec_view_write[OF won(1,3)] Accept_def
    using won(2) spec_view_row[OF won(1), of now] assms(2) by (simp add: stamped_def fun_upd_idem)
  then show ?thesis using n_accept[of k C sv] assms by blast
qed

lemma cancel_refines:
  assumes "Intents C = UNIV"
  shows "(lc_next C)\<^sup>*\<^sup>* (spec_view r now) (spec_view (fst (cancelIfOpen r k ev)) now)"
proof (cases rule: mutate_cases[of r k ev "\<lambda>i. i_state i = St_open" "\<lambda>i. i\<lparr> i_state := St_cancelled \<rparr>"])
  case lost
  then show ?thesis by (simp add: cancelIfOpen_def)
next
  case (won i)
  have "Cancel k (spec_view r now) (spec_view (fst (cancelIfOpen r k ev)) now)"
    unfolding cancelIfOpen_def spec_view_write[OF won(1,3)] Cancel_def
    using won(2) spec_view_row[OF won(1), of now] by (simp add: stamped_def fun_upd_idem)
  then show ?thesis using n_cancel[of k C] assms by blast
qed


text \<open>A recorded fill is a submission followed by its confirmation.\<close>

lemma fill_refines:
  assumes "Intents C = UNIV" and "findById r k = Some i0" and "fpatch_fillAmount p = Some (Some amt)"
    and "BigInt amt = Some a" and "the (BigInt (i_minDstAmount i0)) \<le> a" and "a \<in> {0 .. MaxAmount C}"
  shows "(lc_next C)\<^sup>*\<^sup>* (spec_view r now) (spec_view (fst (fillIfAccepted r k sv p now ev)) now)"
proof (cases rule: mutate_cases[of r k ev "\<lambda>i. i_state i = St_accepted \<and> i_solver i = Some sv \<and> i_deadline i > now"
      "\<lambda>i. (apply_fill_patch p i)\<lparr> i_state := St_filled \<rparr>"])
  case lost
  then show ?thesis by (simp add: fillIfAccepted_def)
next
  case (won i)
  let ?s = "spec_view r now"
  let ?m = "?s\<lparr> lc_pendingTx := (lc_pendingTx ?s)(k := 1), lc_fillAmt := (lc_fillAmt ?s)(k := a) \<rparr>"
  have i: "i0 = i" using assms(2) won(1) by simp
  have "SubmitFill C k a ?s ?m"
    unfolding SubmitFill_def using won(2) spec_view_row[OF won(1), of now] assms(5,6) i by simp
  then have sub: "lc_next C ?s ?m" using n_submit[of k C a] assms(1,6) by blast
  have "spec_view (fst (fillIfAccepted r k sv p now ev)) now
      = ?m\<lparr> lc_state := (lc_state ?m)(k := St_filled), lc_pendingTx := (lc_pendingTx ?m)(k := 0) \<rparr>"
    unfolding fillIfAccepted_def spec_view_write[OF won(1,3)]
    using won(2) spec_view_row[OF won(1), of now] assms(3,4)
    by (simp add: stamped_def apply_fill_patch_def fun_upd_idem)
  then have "ConfirmFill k ?m (spec_view (fst (fillIfAccepted r k sv p now ev)) now)"
    unfolding ConfirmFill_def using won(2) spec_view_row[OF won(1), of now] assms(5) i by simp
  then have "lc_next C ?m (spec_view (fst (fillIfAccepted r k sv p now ev)) now)"
    using n_confirm[of k C] assms(1) by blast
  with sub show ?thesis by (meson converse_rtranclp_into_rtranclp r_into_rtranclp)
qed

text \<open>A scan is one expiry or slash per due intent, in any order.\<close>

definition due_in :: "lifecycle \<Rightarrow> string \<Rightarrow> bool" where
  "due_in s k \<longleftrightarrow> lc_state s k \<in> {St_open, St_accepted} \<and> lc_deadline s k \<le> lc_clock s \<and> lc_pendingTx s k = 0"

definition swept_states :: "string set \<Rightarrow> lifecycle \<Rightarrow> lifecycle" where
  "swept_states D s = s\<lparr> lc_state := (\<lambda>k. if k \<in> D then (if lc_state s k = St_open then St_expired else St_slashed)
     else lc_state s k) \<rparr>"

lemma due_steps:
  assumes "finite D" and "Intents C = UNIV" and "\<forall>k \<in> D. due_in s k"
  shows "(lc_next C)\<^sup>*\<^sup>* s (swept_states D s)"
  using assms(1,3)
proof (induction D)
  case empty
  then show ?case by (simp add: swept_states_def)
next
  case (insert k D)
  let ?t = "swept_states D s" and ?u = "swept_states (insert k D) s"
  have k: "due_in s k" "lc_state ?t k = lc_state s k" using insert by (simp_all add: swept_states_def)
  have upd: "?u = ?t\<lparr> lc_state := (lc_state ?t)(k := if lc_state s k = St_open then St_expired else St_slashed) \<rparr>"
    using insert.hyps(2) by (auto simp: swept_states_def fun_eq_iff)
  have "lc_next C ?t ?u"
  proof (cases "lc_state s k = St_open")
    case True
    then have "SweeperExpire k ?t ?u" using k upd by (simp add: SweeperExpire_def due_in_def swept_states_def)
    then show ?thesis using n_expire[of k C] assms(2) by blast
  next
    case False
    then have "SweeperSlash k ?t ?u" using k upd by (simp add: SweeperSlash_def due_in_def swept_states_def)
    then show ?thesis using n_slash[of k C] assms(2) by blast
  qed
  then show ?case using insert by (meson insertCI rtranclp.rtrancl_into_rtrancl)
qed

lemma findById_finite: "finite {k. findById r k \<noteq> None}"
  unfolding findById_def using finite_dom_map_of[of "store r"] by (simp add: dom_def)

lemma sweep_refines:
  assumes "Intents C = UNIV" and "sweepable T M (sw_pf s)" and "\<And>a b c. \<exists>x. sv_registry env a b c = SO_result x"
    and "\<And>k i. row_of s k = Some i \<Longrightarrow> i_state i = St_accepted \<Longrightarrow> \<not> paused_for env nowMs i"
  defines "now \<equiv> nowMs div 1000"
  shows "(lc_next C)\<^sup>*\<^sup>* (spec_view (s_repo (pf_svc (sw_pf s))) now)
           (spec_view (s_repo (pf_svc (sw_pf (fst (sweep env nowMs s))))) now)"
proof -
  let ?r = "s_repo (pf_svc (sw_pf s))"
  let ?v = "spec_view ?r now"
  obtain s' res where sw: "sweep env nowMs s = (s', Inr res)"
    and rows: "\<And>k. row_of s' k = map_option (swept_row env nowMs now k) (row_of s k)"
    using sweep_rows[OF assms(2,3)] unfolding now_def by blast
  define D where "D = {k. findById ?r k \<noteq> None \<and> due_in ?v k}"
  have "finite D" unfolding D_def using findById_finite[of ?r] by (rule rev_finite_subset) blast
  have "spec_view (s_repo (pf_svc (sw_pf s'))) now = swept_states D ?v"
  proof -
    have eq: "findById (s_repo (pf_svc (sw_pf s'))) = (\<lambda>k. map_option (swept_row env nowMs now k) (row_of s k))"
      using rows by auto
    have row: "i_state (swept_row env nowMs now k i) = (if k \<in> D then (if i_state i = St_open then St_expired else St_slashed) else i_state i)
        \<and> i_solver (swept_row env nowMs now k i) = i_solver i \<and> i_deadline (swept_row env nowMs now k i) = i_deadline i
        \<and> i_minDstAmount (swept_row env nowMs now k i) = i_minDstAmount i \<and> i_fillAmount (swept_row env nowMs now k i) = i_fillAmount i"
      if "row_of s k = Some i" for k i
      using assms(4)[OF that] that
      by (auto simp: swept_row_def expired_row_def settled_row_def stamped_def D_def due_in_def spec_view_row[OF that])
    show ?thesis
      unfolding swept_states_def spec_view_def Let_def eq
      by (auto simp: fun_eq_iff D_def row split: option.splits)
  qed
  then show ?thesis using due_steps[OF \<open>finite D\<close> assms(1), of ?v] sw by (simp add: D_def)
qed



definition all_intents :: lifecycle_constants where
  "all_intents = \<lparr> Intents = UNIV, SolverSet = UNIV, MaxDeadline = 500, MaxAmount = 2000, window = (\<lambda>_. 300) \<rparr>"


section \<open>The announced liveness property\<close>

text \<open>
  \<open>Spec\<close> assumes weak fairness of \<open>Next\<close> as a whole, and the README announces that every intent
  then ends in a terminal state. It need not: a fill may be submitted and fail for ever at
  one instant, and every one of these steps is a \<open>Next\<close> step.
\<close>

definition Spec :: "lifecycle_constants \<Rightarrow> (nat \<Rightarrow> lifecycle) \<Rightarrow> bool" where
  "Spec C \<sigma> \<longleftrightarrow> Init C (\<sigma> 0) \<and> (\<forall>n. lc_next C (\<sigma> n) (\<sigma> (Suc n)) \<or> \<sigma> (Suc n) = \<sigma> n)
     \<and> (\<forall>n. \<exists>m \<ge> n. (lc_next C (\<sigma> m) (\<sigma> (Suc m)) \<and> \<sigma> (Suc m) \<noteq> \<sigma> m)
                    \<or> \<not> (\<exists>t. lc_next C (\<sigma> m) t \<and> t \<noteq> \<sigma> m))"

definition EventuallyTerminal :: "lifecycle_constants \<Rightarrow> (nat \<Rightarrow> lifecycle) \<Rightarrow> bool" where
  "EventuallyTerminal C \<sigma> \<longleftrightarrow> (\<forall>i \<in> Intents C. \<exists>n. Terminal (lc_state (\<sigma> n) i))"

definition retrying :: "string \<Rightarrow> string \<Rightarrow> nat \<Rightarrow> lifecycle" where
  "retrying i sv n =
     (let s0 = init_state two_intents;
          s1 = s0\<lparr> lc_state := (lc_state s0)(i := St_accepted), lc_solver := (lc_solver s0)(i := Some sv),
                   lc_deadline := (lc_deadline s0)(i := 1) \<rparr>;
          s2 = s1\<lparr> lc_pendingTx := (lc_pendingTx s1)(i := 1), lc_fillAmt := (lc_fillAmt s1)(i := 1) \<rparr>;
          s3 = s2\<lparr> lc_pendingTx := (lc_pendingTx s2)(i := 0) \<rparr>
      in if n = 0 then s0 else if n = 1 then s1 else if even n then s2 else s3)"

lemma retrying_next: "lc_next two_intents (retrying ''i1'' ''s1'' n) (retrying ''i1'' ''s1'' (Suc n))"
proof -
  let ?f = "retrying ''i1'' ''s1''"
  note f = retrying_def init_state_def two_intents_def Let_def
  consider "n = 0" | "n = 1" | "1 < n" "even n" | "1 < n" "odd n" by (cases n; cases "n = 1") auto
  then show ?thesis
  proof cases
    case 1
    then have "Accept two_intents ''i1'' ''s1'' (?f n) (?f (Suc n))" by (simp add: Accept_def f)
    then show ?thesis by (rule n_accept[rotated 2]) (simp_all add: two_intents_def)
  next
    case 2
    then have "SubmitFill two_intents ''i1'' 1 (?f n) (?f (Suc n))" by (simp add: SubmitFill_def f)
    then show ?thesis by (rule n_submit[rotated 2]) (simp_all add: two_intents_def)
  next
    case 3
    then have "FailTx ''i1'' (?f n) (?f (Suc n))" by (auto simp: FailTx_def f)
    then show ?thesis by (rule n_fail[rotated]) (simp add: two_intents_def)
  next
    case 4
    then have "SubmitFill two_intents ''i1'' 1 (?f n) (?f (Suc n))" by (auto simp: SubmitFill_def f)
    then show ?thesis by (rule n_submit[rotated 2]) (simp_all add: two_intents_def)
  qed
qed

lemma retrying_moves: "retrying ''i1'' ''s1'' (Suc n) \<noteq> retrying ''i1'' ''s1'' n"
proof -
  have "lc_pendingTx (retrying ''i1'' ''s1'' (Suc n)) ''i1'' \<noteq> lc_pendingTx (retrying ''i1'' ''s1'' n) ''i1'' \<or> n = 0"
    by (auto simp: retrying_def Let_def init_state_def)
  moreover have "lc_state (retrying ''i1'' ''s1'' 1) ''i1'' \<noteq> lc_state (retrying ''i1'' ''s1'' 0) ''i1''"
    by (simp add: retrying_def Let_def init_state_def)
  ultimately show ?thesis by (metis One_nat_def)
qed

text \<open>The bounded model of \<open>IntentLifecycle.cfg\<close> has a fair behaviour in which an accepted intent is
  never settled.\<close>

lemma fairness_too_weak: "\<exists>\<sigma>. Spec two_intents \<sigma> \<and> \<not> EventuallyTerminal two_intents \<sigma>"
proof (intro exI conjI)
  show "Spec two_intents (retrying ''i1'' ''s1'')"
    unfolding Spec_def using retrying_next retrying_moves
    by (auto simp: Init_def retrying_def init_state_def Let_def)
  have "\<not> Terminal (lc_state (retrying ''i1'' ''s1'' n) ''i1'')" for n
    by (simp add: retrying_def init_state_def Let_def Terminal_def)
  then show "\<not> EventuallyTerminal two_intents (retrying ''i1'' ''s1'')"
    unfolding EventuallyTerminal_def by (auto simp: two_intents_def)
qed

end
