(* ===== verification/Circuit_Breaker.thy ===== *)
theory Circuit_Breaker
  imports Js_Prelude
begin

text \<open>
  The circuit breakers of outgoing HTTP (\<open>common/http-egress/circuit-breaker.ts\<close>): one breaker
  per destination with its counters and lazy half-open transition, and the registry that
  creates them on first use. \<open>now\<close> is the clock reading of the call. The lemmas show that
  a breaker opens exactly after the configured number of consecutive failures, that an open
  one refuses every request until its cool-down has passed, and what closes it again.
\<close>

section \<open>One breaker\<close>

datatype CircuitState = CS_closed | CS_open | CS_half_open

fun circuit_name :: "CircuitState \<Rightarrow> string" where
  "circuit_name CS_closed = ''closed''"
| "circuit_name CS_open = ''open''"
| "circuit_name CS_half_open = ''half-open''"

record CircuitBreakerOptions =
  failureThreshold :: nat
  successThreshold :: nat
  cooldownMs :: int

definition DEFAULT_CIRCUIT_BREAKER_OPTIONS :: CircuitBreakerOptions where
  "DEFAULT_CIRCUIT_BREAKER_OPTIONS = \<lparr> failureThreshold = 5, successThreshold = 2, cooldownMs = 30000 \<rparr>"

record CircuitBreaker =
  cb_purpose :: string
  cb_hostname :: string
  cb_state :: CircuitState
  cb_failureCount :: nat
  cb_successCount :: nat
  cb_lastTransitionAt :: int
  cb_lastFailureAt :: "int option"
  cb_lastSuccessAt :: "int option"

definition new_breaker :: "string \<Rightarrow> string \<Rightarrow> int \<Rightarrow> CircuitBreaker" where
  "new_breaker purpose hostname now =
     \<lparr> cb_purpose = purpose, cb_hostname = hostname, cb_state = CS_closed, cb_failureCount = 0,
       cb_successCount = 0, cb_lastTransitionAt = now, cb_lastFailureAt = None, cb_lastSuccessAt = None \<rparr>"

definition transitionTo :: "CircuitState \<Rightarrow> int \<Rightarrow> CircuitBreaker \<Rightarrow> CircuitBreaker" where
  "transitionTo next now b =
     (if cb_state b = next then b else b\<lparr> cb_state := next, cb_lastTransitionAt := now \<rparr>)"

definition getState :: "CircuitBreakerOptions \<Rightarrow> int \<Rightarrow> CircuitBreaker \<Rightarrow> CircuitBreaker" where
  "getState opts now b =
     (if cb_state b = CS_open \<and> now - cb_lastTransitionAt b \<ge> cooldownMs opts
      then transitionTo CS_half_open now b else b)"

definition circuit_open_error :: "CircuitBreaker \<Rightarrow> exn" where
  "circuit_open_error b = PlainError (''Circuit breaker is '' @ circuit_name (cb_state b) @ '' for '' @ cb_purpose b
     @ '' destination '' @ cb_hostname b @ ''; request not attempted'')"

definition assertRequestAllowed :: "CircuitBreakerOptions \<Rightarrow> int \<Rightarrow> CircuitBreaker
    \<Rightarrow> CircuitBreaker \<times> unit result" where
  "assertRequestAllowed opts now b =
     (let b' = getState opts now b
      in if cb_state b' = CS_open then (b', Inl (circuit_open_error b')) else (b', Inr ()))"

definition recordSuccess :: "CircuitBreakerOptions \<Rightarrow> int \<Rightarrow> CircuitBreaker \<Rightarrow> CircuitBreaker" where
  "recordSuccess opts now b0 =
     (let b = b0\<lparr> cb_lastSuccessAt := Some now \<rparr>
      in if cb_state b = CS_half_open
         then (let b = b\<lparr> cb_successCount := cb_successCount b + 1 \<rparr>
               in if cb_successCount b \<ge> successThreshold opts
                  then transitionTo CS_closed now (b\<lparr> cb_failureCount := 0, cb_successCount := 0 \<rparr>) else b)
         else b\<lparr> cb_failureCount := 0, cb_successCount := 0 \<rparr>)"

definition recordFailure :: "CircuitBreakerOptions \<Rightarrow> int \<Rightarrow> CircuitBreaker \<Rightarrow> CircuitBreaker" where
  "recordFailure opts now b0 =
     (let b = b0\<lparr> cb_lastFailureAt := Some now \<rparr>
      in if cb_state b = CS_half_open then transitionTo CS_open now (b\<lparr> cb_successCount := 0 \<rparr>)
         else (let b = b\<lparr> cb_failureCount := cb_failureCount b + 1 \<rparr>
               in if cb_failureCount b \<ge> failureThreshold opts then transitionTo CS_open now b else b))"

section \<open>The registry\<close>

record CircuitBreakerRegistry =
  reg_breakers :: "(string, CircuitBreaker) jsmap"
  reg_options :: CircuitBreakerOptions

definition keyFor :: "string \<Rightarrow> string \<Rightarrow> string" where
  "keyFor purpose hostname = purpose @ ''::'' @ toLowerCase hostname"

definition getBreaker :: "string \<Rightarrow> string \<Rightarrow> int \<Rightarrow> CircuitBreakerRegistry \<Rightarrow> CircuitBreakerRegistry \<times> CircuitBreaker" where
  "getBreaker purpose hostname now r =
     (let key = keyFor purpose hostname
      in case map_of (reg_breakers r) key of
           Some b \<Rightarrow> (r, b)
         | None \<Rightarrow> let b = new_breaker purpose hostname now
                   in (r\<lparr> reg_breakers := AList.update key b (reg_breakers r) \<rparr>, b))"

text \<open>A call on a breaker object obtained from the registry under \<open>key\<close> changes it in place.\<close>

definition put_breaker :: "string \<Rightarrow> CircuitBreaker \<Rightarrow> CircuitBreakerRegistry \<Rightarrow> CircuitBreakerRegistry" where
  "put_breaker key b r = r\<lparr> reg_breakers := AList.update key b (reg_breakers r) \<rparr>"

definition reg_assertRequestAllowed :: "string \<Rightarrow> string \<Rightarrow> int \<Rightarrow> CircuitBreakerRegistry
    \<Rightarrow> CircuitBreakerRegistry \<times> unit result" where
  "reg_assertRequestAllowed purpose hostname now r =
     (let (r1, b) = getBreaker purpose hostname now r; (b', res) = assertRequestAllowed (reg_options r1) now b
      in (put_breaker (keyFor purpose hostname) b' r1, res))"

definition reg_recordSuccess :: "string \<Rightarrow> string \<Rightarrow> int \<Rightarrow> CircuitBreakerRegistry \<Rightarrow> CircuitBreakerRegistry" where
  "reg_recordSuccess purpose hostname now r =
     (let (r1, b) = getBreaker purpose hostname now r
      in put_breaker (keyFor purpose hostname) (recordSuccess (reg_options r1) now b) r1)"

definition reg_recordFailure :: "string \<Rightarrow> string \<Rightarrow> int \<Rightarrow> CircuitBreakerRegistry \<Rightarrow> CircuitBreakerRegistry" where
  "reg_recordFailure purpose hostname now r =
     (let (r1, b) = getBreaker purpose hostname now r
      in put_breaker (keyFor purpose hostname) (recordFailure (reg_options r1) now b) r1)"

text \<open>A snapshot is the breaker itself after \<open>getState\<close>; the list is sorted by purpose, then host.\<close>

definition snapshot_before :: "CircuitBreaker \<Rightarrow> CircuitBreaker \<Rightarrow> bool" where
  "snapshot_before a b \<longleftrightarrow> (if cb_purpose a \<noteq> cb_purpose b then js_str_less (cb_purpose a) (cb_purpose b)
     else js_str_less (cb_hostname a) (cb_hostname b))"

fun insert_snapshot :: "CircuitBreaker \<Rightarrow> CircuitBreaker list \<Rightarrow> CircuitBreaker list" where
  "insert_snapshot x [] = [x]"
| "insert_snapshot x (y # ys) = (if snapshot_before x y then x # y # ys else y # insert_snapshot x ys)"

definition snapshots :: "int \<Rightarrow> CircuitBreakerRegistry \<Rightarrow> CircuitBreakerRegistry \<times> CircuitBreaker list" where
  "snapshots now r =
     (let bs = map (\<lambda>(k, b). (k, getState (reg_options r) now b)) (reg_breakers r)
      in (r\<lparr> reg_breakers := bs \<rparr>, fold insert_snapshot (js_values bs) []))"


section \<open>When a breaker opens\<close>

definition record_outcome :: "CircuitBreakerOptions \<Rightarrow> bool \<times> int \<Rightarrow> CircuitBreaker \<Rightarrow> CircuitBreaker" where
  "record_outcome opts x b = (if fst x then recordSuccess opts (snd x) b else recordFailure opts (snd x) b)"

abbreviation outcomes :: "CircuitBreakerOptions \<Rightarrow> (bool \<times> int) list \<Rightarrow> CircuitBreaker \<Rightarrow> CircuitBreaker" where
  "outcomes opts xs \<equiv> fold (record_outcome opts) xs"

definition failed_in_a_row :: "nat \<Rightarrow> bool list \<Rightarrow> bool" where
  "failed_in_a_row n os \<longleftrightarrow> (\<exists>xs ys. os = xs @ replicate n False @ ys)"

definition streak :: "bool list \<Rightarrow> nat" where
  "streak os = length (takeWhile Not (rev os))"

lemma streak_simps [simp]: "streak [] = 0" "streak (os @ [True]) = 0" "streak (os @ [False]) = Suc (streak os)"
  by (simp_all add: streak_def)

lemma streak_replicate: "n \<le> streak os \<longleftrightarrow> (\<exists>xs. os = xs @ replicate n False)"
proof (induction os arbitrary: n rule: rev_induct)
  case (snoc x os)
  show ?case
  proof (cases n)
    case (Suc m)
    have r: "xs @ replicate (Suc m) False = (xs @ replicate m False) @ [False]" for xs
      by (simp add: replicate_append_same)
    show ?thesis using snoc[of m] unfolding Suc r by (cases x) auto
  qed simp
qed auto

lemma failed_snoc:
  assumes "0 < n"
  shows "failed_in_a_row n (os @ [x]) \<longleftrightarrow> failed_in_a_row n os \<or> n \<le> streak (os @ [x])"
proof
  assume "failed_in_a_row n (os @ [x])"
  then obtain xs ys where e: "os @ [x] = xs @ replicate n False @ ys" by (auto simp: failed_in_a_row_def)
  show "failed_in_a_row n os \<or> n \<le> streak (os @ [x])"
  proof (cases ys rule: rev_cases)
    case Nil
    then show ?thesis using e streak_replicate by auto
  next
    case (snoc zs z)
    then have "os = xs @ replicate n False @ zs" using e by (metis append.assoc butlast_snoc)
    then show ?thesis by (auto simp: failed_in_a_row_def)
  qed
next
  assume "failed_in_a_row n os \<or> n \<le> streak (os @ [x])"
  then show "failed_in_a_row n (os @ [x])"
    unfolding failed_in_a_row_def streak_replicate by (metis append.assoc append_Nil2)
qed

text \<open>While only outcomes are recorded, a fresh breaker counts its streak of failures and is open
  once the streak has reached the threshold.\<close>

lemma outcomes_state:
  fixes p h :: string and t :: int
  assumes "0 < failureThreshold opts"
  defines "final os \<equiv> outcomes opts os (new_breaker p h t)"
  shows "cb_state (final os) = (if failed_in_a_row (failureThreshold opts) (map fst os) then CS_open else CS_closed)
       \<and> (cb_state (final os) = CS_closed \<longrightarrow> cb_failureCount (final os) = streak (map fst os))"
proof (induction os rule: rev_induct)
  case Nil
  then show ?case using assms(1) by (simp add: final_def new_breaker_def failed_in_a_row_def)
next
  case (snoc x os)
  have n: "final (os @ [x]) = record_outcome opts x (final os)" by (simp add: final_def)
  have s: "\<not> failed_in_a_row (failureThreshold opts) (map fst os) \<Longrightarrow> streak (map fst os) < failureThreshold opts"
    using streak_replicate[of "failureThreshold opts" "map fst os"]
    unfolding failed_in_a_row_def by (metis append_Nil2 linorder_not_le)
  show ?case unfolding n using snoc assms(1) s
    by (cases "fst x")
       (auto simp: record_outcome_def recordSuccess_def recordFailure_def transitionTo_def Let_def failed_snoc)
qed

section \<open>An open breaker\<close>

datatype breaker_op = Ask int | Outcome bool int

fun op_time :: "breaker_op \<Rightarrow> int" where
  "op_time (Ask t) = t" | "op_time (Outcome ok t) = t"

text \<open>How many of the calls let a request through.\<close>

fun admitted :: "CircuitBreakerOptions \<Rightarrow> breaker_op list \<Rightarrow> CircuitBreaker \<Rightarrow> nat" where
  "admitted opts [] b = 0"
| "admitted opts (Ask t # ops) b =
     (case assertRequestAllowed opts t b of (b', Inl _) \<Rightarrow> admitted opts ops b'
      | (b', Inr _) \<Rightarrow> Suc (admitted opts ops b'))"
| "admitted opts (Outcome ok t # ops) b = admitted opts ops (record_outcome opts (ok, t) b)"

lemma open_outcome:
  "cb_state b = CS_open \<Longrightarrow> cb_state (record_outcome opts x b) = CS_open
     \<and> cb_lastTransitionAt (record_outcome opts x b) = cb_lastTransitionAt b"
  by (simp add: record_outcome_def recordSuccess_def recordFailure_def transitionTo_def Let_def)

lemma open_refuses:
  "cb_state b = CS_open \<Longrightarrow> t < cb_lastTransitionAt b + cooldownMs opts
     \<Longrightarrow> assertRequestAllowed opts t b = (b, Inl (circuit_open_error b))"
  by (simp add: assertRequestAllowed_def getState_def)

lemma open_admits_none:
  "cb_state b = CS_open \<Longrightarrow> (\<forall>op \<in> set ops. op_time op < cb_lastTransitionAt b + cooldownMs opts)
     \<Longrightarrow> admitted opts ops b = 0"
proof (induction opts ops b rule: admitted.induct)
  case (2 opts t ops b)
  then show ?case by (simp add: open_refuses)
next
  case (3 opts ok t ops b)
  then show ?case using open_outcome by (auto simp: op_time.simps)
qed simp



section \<open>A half-open breaker\<close>

text \<open>Consecutive successes of probes close it, one failure opens it again.\<close>

lemma probes_close:
  assumes "cb_state b = CS_half_open" and "length ts < successThreshold opts - cb_successCount b"
  shows "cb_state (outcomes opts (map (Pair True) ts) b) = CS_half_open
       \<and> cb_successCount (outcomes opts (map (Pair True) ts) b) = cb_successCount b + length ts
       \<and> (length ts + 1 = successThreshold opts - cb_successCount b \<longrightarrow>
            cb_state (recordSuccess opts t (outcomes opts (map (Pair True) ts) b)) = CS_closed)
       \<and> cb_state (recordFailure opts t (outcomes opts (map (Pair True) ts) b)) = CS_open"
  using assms
proof (induction ts rule: rev_induct)
  case Nil
  then show ?case by (auto simp: recordSuccess_def recordFailure_def transitionTo_def Let_def)
next
  case (snoc u ts)
  then show ?case by (auto simp: record_outcome_def recordSuccess_def recordFailure_def transitionTo_def Let_def)
qed

text \<open>The comment on \<open>assertRequestAllowed\<close> says a half-open breaker allows exactly one probe at a
  time. Nothing counts the probes: every request is let through until an outcome arrives.\<close>

lemma half_open_admits_all:
  "cb_state b = CS_half_open \<Longrightarrow> admitted opts (map Ask ts) b = length ts"
  by (induction ts) (auto simp: assertRequestAllowed_def getState_def)

section \<open>The registry\<close>

lemma getBreaker_get:
  "snd (getBreaker p h now r) = (case map_of (reg_breakers r) (keyFor p h) of Some b \<Rightarrow> b | None \<Rightarrow> new_breaker p h now)"
  by (simp add: getBreaker_def Let_def split: option.splits)

text \<open>Destinations are independent: what is recorded for one leaves every other breaker alone.\<close>

lemma registry_independent:
  assumes "keyFor p' h' \<noteq> keyFor p h"
  shows "map_of (reg_breakers (reg_recordFailure p h now r)) (keyFor p' h') = map_of (reg_breakers r) (keyFor p' h')"
    and "map_of (reg_breakers (reg_recordSuccess p h now r)) (keyFor p' h') = map_of (reg_breakers r) (keyFor p' h')"
    and "map_of (reg_breakers (fst (reg_assertRequestAllowed p h now r))) (keyFor p' h') = map_of (reg_breakers r) (keyFor p' h')"
  using assms
  by (auto simp: reg_recordFailure_def reg_recordSuccess_def reg_assertRequestAllowed_def getBreaker_def put_breaker_def
      Let_def case_prod_unfold split: option.splits)

lemma mset_insert_snapshot: "mset (insert_snapshot x ys) = add_mset x (mset ys)"
  by (induction ys) auto

lemma mset_snapshots: "mset (snd (snapshots now r)) = mset (map (getState (reg_options r) now) (js_values (reg_breakers r)))"
proof -
  have "mset (fold insert_snapshot xs acc) = mset xs + mset acc" for xs acc
    by (induction xs arbitrary: acc) (simp_all add: mset_insert_snapshot)
  then show ?thesis by (simp add: snapshots_def Let_def comp_def case_prod_unfold)
qed

end
