(* ===== verification/Js_Text.thy ===== *)
theory Js_Text
  imports Js_Prelude
begin

text \<open>
  More of the string library: searching, prefixes and suffixes, hexadecimal output and the
  lenient \<open>parseInt\<close>, with the lemmas that relate a decimal text to its value.
\<close>

section \<open>Searching\<close>

text \<open>\<open>text.indexOf(sub)\<close>, \<open>None\<close> for the result -1, and \<open>text.indexOf(sub, from)\<close>.\<close>

fun js_indexOf :: "string \<Rightarrow> string \<Rightarrow> nat option" where
  "js_indexOf sub [] = (if sub = [] then Some 0 else None)"
| "js_indexOf sub (c # cs) =
     (if take (length sub) (c # cs) = sub then Some 0 else map_option Suc (js_indexOf sub cs))"

definition js_indexOf_from :: "string \<Rightarrow> nat \<Rightarrow> string \<Rightarrow> nat option" where
  "js_indexOf_from sub k s = map_option ((+) k) (js_indexOf sub (drop k s))"

text \<open>\<open>text.slice(text.lastIndexOf(c) + 1)\<close>.\<close>

definition after_last :: "char \<Rightarrow> string \<Rightarrow> string" where
  "after_last c s = rev (takeWhile (\<lambda>x. x \<noteq> c) (rev s))"

definition startsWith :: "string \<Rightarrow> string \<Rightarrow> bool" where
  "startsWith p s \<longleftrightarrow> take (length p) s = p"

definition endsWith :: "string \<Rightarrow> string \<Rightarrow> bool" where
  "endsWith suffix s \<longleftrightarrow> startsWith (rev suffix) (rev s)"

section \<open>Numbers in text\<close>

text \<open>\<open>n.toString(16)\<close>.\<close>

definition hex_char :: "nat \<Rightarrow> char" where
  "hex_char d = (if d < 10 then char_of (48 + d) else char_of (87 + d))"

fun nat_to_hex :: "nat \<Rightarrow> string" where
  "nat_to_hex n =
     (if n < 16 then [hex_char n] else nat_to_hex (n div 16) @ [hex_char (n mod 16)])"

declare nat_to_hex.simps [simp del]

definition is_hex :: "char \<Rightarrow> bool" where
  "is_hex c \<longleftrightarrow> digit_value 16 c \<noteq> None"

text \<open>\<open>parseInt(text, 10)\<close>: leading white space and a sign, then the longest run of digits;
  \<open>None\<close> is \<open>NaN\<close>.\<close>

definition parseInt10 :: "string \<Rightarrow> int option" where
  "parseInt10 s =
     (let t = dropWhile is_js_space s;
          neg = (t \<noteq> [] \<and> hd t = CHR ''-'');
          u = (if t \<noteq> [] \<and> hd t \<in> {CHR ''-'', CHR ''+''} then tl t else t);
          ds = takeWhile is_digit u
      in if ds = [] then None
         else (let v = int (the (parse_digits 10 0 ds)) in Some (if neg then - v else v)))"

section \<open>Canonical decimal text\<close>

lemma js_join_split: "js_join [c] (js_split c s) = s"
proof (induction s)
  case (Cons x s)
  then show ?case by (cases "js_split c s"; cases "tl (js_split c s)") auto
qed simp

lemma digit_char_value: "is_digit c \<Longrightarrow> digit_char (of_char c - 48) = c"
  by (auto simp: is_digit_def digit_char_def Let_def)

lemma digit_value_known: "is_digit c \<Longrightarrow> digit_value 10 c = Some (of_char c - 48)"
  by (auto simp: is_digit_def digit_value_def Let_def)

lemma digit_below: "is_digit c \<Longrightarrow> of_char c - 48 < (10 :: nat)"
  by (auto simp: is_digit_def Let_def)

lemma canonical_positive:
  assumes "all_digits s" and "hd s \<noteq> CHR ''0''" and "parse_digits 10 0 s = Some n"
  shows "0 < n \<and> nat_to_string n = s"
  using assms
proof (induction s arbitrary: n rule: rev_induct)
  case (snoc c s)
  have c: "is_digit c" using snoc.prems(1) by (simp add: all_digits_def)
  show ?case
  proof (cases "s = []")
    case True
    with snoc.prems c have n: "n = of_char c - 48" "n < 10"
      by (auto simp: digit_value_known digit_below)
    moreover have "n \<noteq> 0"
      using n(1) snoc.prems(2) digit_char_value[OF c] True by (metis append_Nil digit_char_eval(1) list.sel(1))
    ultimately show ?thesis using digit_char_value[OF c] True by (subst nat_to_string.simps) simp
  next
    case False
    then have d: "all_digits s" "hd s \<noteq> CHR ''0''" using snoc.prems(1,2) by (auto simp: all_digits_def)
    obtain m where m: "parse_digits 10 0 s = Some m"
      using parse_digits_digits[of s 0] d(1) by (auto simp: all_digits_def)
    have n: "n = m * 10 + (of_char c - 48)"
      using snoc.prems(3) m c by (simp add: parse_digits_append digit_value_known)
    have "0 < m" "nat_to_string m = s" using snoc.IH[OF d m] by auto
    then show ?thesis using n digit_below[OF c] digit_char_value[OF c]
      by (subst nat_to_string.simps) simp
  qed
qed (simp add: all_digits_def)

lemma hd_nat_to_string: "0 < n \<Longrightarrow> hd (nat_to_string n) \<noteq> CHR ''0''"
proof (induction n rule: nat_to_string.induct)
  case (1 n)
  show ?case
  proof (cases "n < 10")
    case True
    then have "of_char (digit_char n) \<noteq> (48 :: nat)" using 1(2) by simp
    then have "digit_char n \<noteq> CHR ''0''" by auto
    then show ?thesis using True by (subst nat_to_string.simps) simp
  next
    case False
    then show ?thesis using 1 by (subst nat_to_string.simps) simp
  qed
qed

lemma nat_to_string_inject [simp]: "nat_to_string m = nat_to_string n \<longleftrightarrow> m = n"
  by (metis parse_digits_nat_to_string option.inject)

lemma parseInt10_digits [simp]: "parseInt10 (nat_to_string n) = Some (int n)"
proof -
  have d: "list_all is_digit (nat_to_string n)" by (rule nat_to_string_digits)
  then have t: "takeWhile is_digit (nat_to_string n) = nat_to_string n"
    by (simp add: list_all_iff takeWhile_eq_all_conv)
  obtain c cs where c: "nat_to_string n = c # cs" by (cases "nat_to_string n") auto
  have "is_digit c" using d c by simp
  then have "\<not> is_js_space c" "c \<notin> {CHR ''-'', CHR ''+''}" by (auto simp: digit_no_space is_digit_def)
  then show ?thesis
    using t parse_digits_nat_to_string[of n] unfolding parseInt10_def c by (auto simp: Let_def)
qed

end
