(* ===== verification/Ip_Allowlist.thy ===== *)
theory Ip_Allowlist
  imports Js_Text
begin

text \<open>
  Source addresses of solver credentials (\<open>auth/solver-credentials/ip-allowlist.ts\<close>):
  the two address parsers, the entry parser and the match. A JavaScript number that went
  through \<open>>>> 0\<close> is a 32-bit word, a bigint is an integer. The lemmas show that the
  dotted-quad parser accepts exactly the canonical text of an address, that a mask test is
  membership of the CIDR block, and that an allowlist admits an IPv4 peer, in its plain or
  its mapped form, exactly when an entry names it.
\<close>

unbundle bit_operations_syntax

section \<open>Entries and parsers\<close>

datatype AllowlistEntry =
    Any
  | Ipv4 "32 word" nat
  | Ipv6 int
  | Ipv6Cidr int nat
  | Invalid string

text \<open>The regular expression \<open>/^(0|[1-9][0-9]{0,2})$/\<close>.\<close>

definition octet_text :: "string \<Rightarrow> bool" where
  "octet_text s \<longleftrightarrow> s = ''0'' \<or> (all_digits s \<and> hd s \<noteq> CHR ''0'' \<and> length s \<le> 3)"

fun octets :: "32 word \<Rightarrow> string list \<Rightarrow> 32 word option" where
  "octets address [] = Some address"
| "octets address (part # parts) =
     (if \<not> octet_text part then None
      else (let octet = the (parse_digits 10 0 part)
        in if octet > 255 then None else octets (push_bit 8 address OR of_nat octet) parts))"

definition parseIpv4 :: "string \<Rightarrow> 32 word option" where
  "parseIpv4 value = (let parts = js_split (CHR ''.'') value
     in if length parts \<noteq> 4 then None else octets 0 parts)"

text \<open>The regular expression \<open>/^[0-9a-fA-F]{1,4}$/\<close>.\<close>

definition group_text :: "string \<Rightarrow> bool" where
  "group_text g \<longleftrightarrow> 1 \<le> length g \<and> length g \<le> 4 \<and> list_all is_hex g"

fun groupsToBigInt :: "int \<Rightarrow> string list \<Rightarrow> int option" where
  "groupsToBigInt acc [] = Some acc"
| "groupsToBigInt acc (g # gs) =
     (if \<not> group_text g then None
      else groupsToBigInt (push_bit 16 acc OR int (the (parse_digits 16 0 g))) gs)"

text \<open>A trailing dotted quad becomes two hexadecimal groups; \<open>None\<close> where it is malformed.\<close>

definition unfold_tail :: "string \<Rightarrow> string option" where
  "unfold_tail value = (let tail = after_last (CHR '':'') value
     in if CHR ''.'' \<in> set tail
        then (case parseIpv4 tail of None \<Rightarrow> None
              | Some v4 \<Rightarrow>
                  let high = nat_to_hex (unat (drop_bit 16 v4 AND 0xffff));
                      low = nat_to_hex (unat (v4 AND 0xffff))
                  in Some (take (length value - length tail) value @ high @ '':'' @ low))
        else Some value)"

definition strip_colon :: "string \<Rightarrow> string" where
  "strip_colon s = (if s \<noteq> [] \<and> last s = CHR '':'' then butlast s else s)"

definition colon_groups :: "string \<Rightarrow> string list" where
  "colon_groups s = (if s = [] then [] else js_split (CHR '':'') s)"

definition joinGroups :: "bool \<Rightarrow> string list \<Rightarrow> string list \<Rightarrow> int option" where
  "joinGroups compressed head rear =
     (case (groupsToBigInt 0 head, groupsToBigInt 0 rear) of
        (Some headValue, Some rearValue) \<Rightarrow>
          let explicitGroups = length head + length rear
          in if \<not> compressed then (if explicitGroups = 8 then Some headValue else None)
             else if explicitGroups \<ge> 8 then None
             else (let missingGroups = 8 - explicitGroups;
                       headShift = 16 * (missingGroups + length rear)
               in Some (push_bit headShift headValue OR rearValue))
      | _ \<Rightarrow> None)"

definition parseIpv6 :: "string \<Rightarrow> int option" where
  "parseIpv6 value =
     (if CHR '':'' \<notin> set value then None
      else case unfold_tail value of None \<Rightarrow> None
      | Some t \<Rightarrow>
          (case js_indexOf ''::'' t of
             None \<Rightarrow> joinGroups False (js_split (CHR '':'') t) []
           | Some doubleColon \<Rightarrow>
               if js_indexOf_from ''::'' (doubleColon + 1) t \<noteq> None then None
               else joinGroups True (colon_groups (strip_colon (take doubleColon t)))
                      (colon_groups (drop (doubleColon + 2) t))))"

text \<open>The regular expression \<open>/^[0-9]{1,3}$/\<close>.\<close>

definition prefix_text :: "string \<Rightarrow> bool" where
  "prefix_text s \<longleftrightarrow> all_digits s \<and> length s \<le> 3"

definition parseCidr :: "string \<Rightarrow> string \<Rightarrow> AllowlistEntry" where
  "parseCidr addr prefixText =
     (if \<not> prefix_text prefixText then Invalid ''malformed CIDR prefix''
      else let prefix = the (parse_digits 10 0 prefixText)
        in case parseIpv4 addr of
             Some v4 \<Rightarrow> if prefix > 32 then Invalid ''IPv4 prefix must be 0-32'' else Ipv4 v4 prefix
           | None \<Rightarrow>
               (case parseIpv6 addr of
                  Some v6 \<Rightarrow> if prefix > 128 then Invalid ''IPv6 prefix must be 0-128''
                             else Ipv6Cidr v6 prefix
                | None \<Rightarrow> Invalid ''not an IP address''))"

definition parseAllowlistEntry :: "string \<Rightarrow> AllowlistEntry" where
  "parseAllowlistEntry entry =
     (let trimmed = js_trim entry
      in if trimmed = ''*'' then Any
         else if CHR ''/'' \<in> set trimmed
         then (case js_split (CHR ''/'') trimmed of
                 [addr, prefixText] \<Rightarrow> parseCidr addr prefixText
               | _ \<Rightarrow> Invalid ''malformed CIDR'')
         else (case parseIpv4 trimmed of
                 Some v4 \<Rightarrow> Ipv4 v4 32
               | None \<Rightarrow>
                   (case parseIpv6 trimmed of
                      Some v6 \<Rightarrow> Ipv6 v6
                    | None \<Rightarrow> Invalid ''not an IP address or CIDR block'')))"

section \<open>Matching\<close>

text \<open>\<open>(0xffffn << 32n) | BigInt(ip.address >>> 0)\<close>.\<close>

definition mapped :: "32 word \<Rightarrow> int" where
  "mapped a = push_bit 32 0xffff OR uint a"

definition ipv4_mask :: "nat \<Rightarrow> 32 word" where
  "ipv4_mask prefix = push_bit ((32 - prefix) mod 32) 0xffffffff"

definition ipv6_mask :: "nat \<Rightarrow> int" where
  "ipv6_mask prefix = 2 ^ 128 - 2 ^ (128 - prefix)"

fun entryMatches :: "AllowlistEntry \<Rightarrow> AllowlistEntry \<Rightarrow> bool" where
  "entryMatches Any ip = True"
| "entryMatches (Invalid r) ip = False"
| "entryMatches (Ipv4 address prefix) ip =
     (case ip of
        Ipv4 a _ \<Rightarrow> prefix = 0 \<or> a AND ipv4_mask prefix = address AND ipv4_mask prefix
      | _ \<Rightarrow> False)"
| "entryMatches (Ipv6Cidr address prefix) ip =
     (case (case ip of Ipv4 a _ \<Rightarrow> Some (mapped a) | Ipv6 a \<Rightarrow> Some a | _ \<Rightarrow> None) of
        None \<Rightarrow> False
      | Some candidate \<Rightarrow>
          prefix = 0 \<or> candidate AND ipv6_mask prefix = address AND ipv6_mask prefix)"
| "entryMatches (Ipv6 address) ip =
     (case ip of Ipv4 a _ \<Rightarrow> address = 0 \<or> address = mapped a
      | Ipv6 a \<Rightarrow> a = address
      | _ \<Rightarrow> False)"

definition tail_address :: "string \<Rightarrow> 32 word option" where
  "tail_address tail =
     (case parseIpv4 tail of Some v4 \<Rightarrow> Some v4
      | None \<Rightarrow> (case parseIpv6 tail of
                    Some v6 \<Rightarrow> if v6 \<le> 0xffff then Some (of_int v6) else None
                  | None \<Rightarrow> None))"

definition parsePeer :: "string \<Rightarrow> AllowlistEntry" where
  "parsePeer normalized =
     (case parseIpv4 normalized of
        Some v4 \<Rightarrow> Ipv4 v4 32
      | None \<Rightarrow>
          (case (if startsWith ''::ffff:'' normalized then tail_address (drop 7 normalized) else None) of
             Some a \<Rightarrow> Ipv4 a 32
           | None \<Rightarrow>
               (case parseIpv6 normalized of Some v6 \<Rightarrow> Ipv6 v6
                | None \<Rightarrow> Invalid ''not an IP address'')))"

definition normalizePeer :: "string \<Rightarrow> string" where
  "normalizePeer ip =
     (if startsWith ''::ffff:'' ip \<and> CHR ''.'' \<notin> set ip then drop 7 ip else ip)"

definition ipMatchesAllowlist :: "string option \<Rightarrow> string list option \<Rightarrow> bool" where
  "ipMatchesAllowlist ip allowlist =
     (case allowlist of None \<Rightarrow> True | Some [] \<Rightarrow> True
      | Some entries \<Rightarrow>
          (case ip of None \<Rightarrow> False | Some [] \<Rightarrow> False
           | Some text \<Rightarrow>
               (case parsePeer (normalizePeer text) of
                  Invalid _ \<Rightarrow> False
                | peer \<Rightarrow> list_ex (\<lambda>entry. entryMatches (parseAllowlistEntry entry) peer) entries)))"

definition describeAllowlistEntry :: "string \<Rightarrow> string" where
  "describeAllowlistEntry entry =
     (case parseAllowlistEntry entry of
        Any \<Rightarrow> ''wildcard (any source address)''
      | Ipv4 _ prefix \<Rightarrow> ''IPv4 '' @ (if prefix = 32 then ''address'' else ''CIDR /'' @ nat_to_string prefix)
      | Ipv6 _ \<Rightarrow> ''IPv6 address''
      | Ipv6Cidr _ prefix \<Rightarrow> ''IPv6 CIDR /'' @ nat_to_string prefix
      | Invalid reason \<Rightarrow> ''invalid: '' @ reason)"


section \<open>The canonical text of an IPv4 address\<close>

text \<open>The reference definition: four decimal octets, most significant first.\<close>

definition quad :: "nat \<Rightarrow> nat list" where
  "quad n = [n div 256 div 256 div 256, n div 256 div 256 mod 256, n div 256 mod 256, n mod 256]"

definition ipv4_text :: "32 word \<Rightarrow> string" where
  "ipv4_text a = js_join ''.'' (map nat_to_string (quad (unat a)))"

lemma octet_canonical:
  "octet_text s \<Longrightarrow> parse_digits 10 0 s = Some n \<Longrightarrow> s = nat_to_string n"
  using canonical_positive[of s n]
  by (auto simp: octet_text_def digit_value_def nat_to_string.simps[of 0])

lemma octet_text_nat: "n < 256 \<Longrightarrow> octet_text (nat_to_string n)"
  using length_nat_to_string[of n 2] hd_nat_to_string[of n]
  by (cases "n = 0") (auto simp: octet_text_def nat_to_string.simps[of 0])

lemma octet_word:
  fixes w :: "32 word"
  assumes "unat w < 2 ^ 24" and "n < 256"
  shows "unat (push_bit 8 w OR of_nat n) = unat w * 256 + n"
proof -
  have self: "take_bit 8 n = n" using assms(2) by (simp add: take_bit_nat_eq_self_iff)
  have low: "\<not> bit n k" if "8 \<le> k" for k
    using that by (subst self[symmetric]) (simp add: bit_take_bit_iff)
  have "push_bit 8 w AND of_nat n = 0"
    by (rule bit_eqI) (use low in \<open>auto simp: bit_simps\<close>)
  then have "push_bit 8 w OR of_nat n = push_bit 8 w + of_nat n"
    by (simp add: disjunctive_add_eq_or)
  then show ?thesis using assms
    by (simp add: push_bit_eq_mult unat_word_ariths unat_of_nat)
qed


lemma octets_step:
  "octets w (p # ps) = Some a \<longleftrightarrow>
     (\<exists>n < 256. p = nat_to_string n \<and> octets (push_bit 8 w OR of_nat n) ps = Some a)"
proof
  assume a: "octets w (p # ps) = Some a"
  then have p: "octet_text p" by (auto split: if_splits)
  then obtain n where n: "parse_digits 10 0 p = Some n"
    using parse_digits_digits[of p 0] by (auto simp: octet_text_def all_digits_def digit_value_def)
  from a n p have "n < 256" "octets (push_bit 8 w OR of_nat n) ps = Some a"
    by (auto simp: Let_def split: if_splits)
  with octet_canonical[OF p n] show "\<exists>n < 256. p = nat_to_string n \<and> octets (push_bit 8 w OR of_nat n) ps = Some a"
    by blast
qed (auto simp: octet_text_nat parse_digits_nat_to_string)

lemma quad_unat:
  assumes "a < 256" "b < 256" "c < 256" "d < 256"
  shows "quad (((a * 256 + b) * 256 + c) * 256 + d) = [a, b, c, d]"
proof -
  have "(x * 256 + y) div 256 = x" "(x * 256 + y) mod 256 = y" if "y < 256" for x y :: nat
    using that by auto
  then show ?thesis using assms by (simp only: quad_def mod_less)
qed

lemma quad_word:
  assumes "a < 256" "b < 256" "c < 256" "d < 256"
  shows "unat (push_bit 8 (push_bit 8 (push_bit 8 (push_bit 8 0 OR of_nat a) OR of_nat b) OR of_nat c)
           OR of_nat d :: 32 word) = ((a * 256 + b) * 256 + c) * 256 + d"
proof -
  have a: "unat (push_bit 8 0 OR of_nat a :: 32 word) = a" using octet_word[of 0 a] assms by simp
  have b: "unat (push_bit 8 (push_bit 8 0 OR of_nat a) OR of_nat b :: 32 word) = a * 256 + b"
    by (subst octet_word) (use a assms in auto)
  have c: "unat (push_bit 8 (push_bit 8 (push_bit 8 0 OR of_nat a) OR of_nat b) OR of_nat c :: 32 word)
             = (a * 256 + b) * 256 + c"
    by (subst octet_word) (use b assms in auto)
  show ?thesis by (subst octet_word) (use c assms in auto)
qed

lemma length_four: "length xs = 4 \<longleftrightarrow> (\<exists>a b c d. xs = [a, b, c, d])"
  by (auto simp: length_Suc_conv eval_nat_numeral)

lemma split_quad:
  "js_split (CHR ''.'') s = map nat_to_string ns \<longleftrightarrow> s = js_join ''.'' (map nat_to_string ns)"
  if "ns \<noteq> []"
proof -
  have "CHR ''.'' \<notin> set (nat_to_string n)" for n
    using digits_chars[OF nat_to_string_digits] by (simp add: is_digit_def)
  then have "js_split (CHR ''.'') (js_join ''.'' (map nat_to_string ns)) = map nat_to_string ns"
    using that by (intro js_split_join) auto
  then show ?thesis using js_join_split[of "CHR ''.''" s] by auto
qed

lemma unat_quad:
  "\<exists>a < 256. \<exists>b < 256. \<exists>c < 256. \<exists>d < 256. unat (x :: 32 word) = ((a * 256 + b) * 256 + c) * 256 + d"
proof -
  have "unat x < 256 * 256 * 256 * 256" using unsigned_less[of x] by simp
  then have "unat x div 256 div 256 div 256 < 256" by (simp add: div_less_iff_less_mult)
  moreover have "unat x = ((unat x div 256 div 256 div 256 * 256 + unat x div 256 div 256 mod 256) * 256
      + unat x div 256 mod 256) * 256 + unat x mod 256"
    by (simp only: div_mult_mod_eq)
  ultimately show ?thesis using mod_less_divisor[of 256] by (metis zero_less_numeral)
qed

lemma parseIpv4_quad:
  "parseIpv4 s = Some x \<longleftrightarrow>
     (\<exists>a < 256. \<exists>b < 256. \<exists>c < 256. \<exists>d < 256.
        js_split (CHR ''.'') s = map nat_to_string [a, b, c, d]
        \<and> unat x = ((a * 256 + b) * 256 + c) * 256 + d)"
proof -
  have "parseIpv4 s = Some x \<longleftrightarrow>
      (\<exists>a < 256. \<exists>b < 256. \<exists>c < 256. \<exists>d < 256.
        js_split (CHR ''.'') s = map nat_to_string [a, b, c, d]
        \<and> push_bit 8 (push_bit 8 (push_bit 8 (push_bit 8 0 OR of_nat a) OR of_nat b) OR of_nat c)
           OR of_nat d = x)"
    by (auto simp: parseIpv4_def Let_def length_four octets_step simp del: octets.simps(2))
  also have "\<dots> \<longleftrightarrow> (\<exists>a < 256. \<exists>b < 256. \<exists>c < 256. \<exists>d < 256.
        js_split (CHR ''.'') s = map nat_to_string [a, b, c, d]
        \<and> unat x = ((a * 256 + b) * 256 + c) * 256 + d)"
    using quad_word by (metis (no_types, lifting) word_unat_eq_iff)
  finally show ?thesis .
qed

text \<open>The parser accepts exactly one text for every address: no leading zero, no missing or
  extra octet, no octet above 255 and no white space parses.\<close>

lemma parseIpv4_iff: "parseIpv4 s = Some a \<longleftrightarrow> s = ipv4_text a"
proof -
  obtain p q r t where small: "p < 256" "q < 256" "r < 256" "t < 256"
    and a: "unat a = ((p * 256 + q) * 256 + r) * 256 + t" using unat_quad[of a] by blast
  have canon: "ipv4_text a = js_join ''.'' (map nat_to_string [p, q, r, t])"
    unfolding ipv4_text_def a quad_unat[OF small] ..
  have "parseIpv4 s = Some a \<longleftrightarrow> js_split (CHR ''.'') s = map nat_to_string [p, q, r, t]"
    unfolding parseIpv4_quad a using small quad_unat by (metis list.inject)
  then show ?thesis unfolding canon by (subst (asm) split_quad) simp_all
qed


section \<open>Blocks\<close>

lemma drop_bit_agree:
  "drop_bit k a = drop_bit k b \<longleftrightarrow> (\<forall>n \<ge> k. bit a n = bit b n)"
  for a :: "'a :: semiring_bit_operations"
proof
  assume "drop_bit k a = drop_bit k b"
  then have "bit (drop_bit k a) (n - k) = bit (drop_bit k b) (n - k)" for n by simp
  then show "\<forall>n \<ge> k. bit a n = bit b n"
    unfolding bit_drop_bit_eq comp_def by (metis le_add_diff_inverse)
qed (auto simp: bit_eq_iff bit_drop_bit_eq)

lemma ipv4_block:
  assumes "1 \<le> p" and "p \<le> 32"
  shows "a AND ipv4_mask p = b AND ipv4_mask p \<longleftrightarrow> uint a div 2 ^ (32 - p) = uint b div 2 ^ (32 - p)"
proof -
  have word32: "take_bit 32 (uint w) = uint w" for w :: "32 word"
    using unsigned_less[of w] by (intro take_bit_int_eq_self) auto
  have ones: "(0xffffffff :: 32 word) = - 1" by simp
  have shift: "(32 - p) mod 32 = 32 - p" using assms by simp
  have m: "ipv4_mask p = push_bit (32 - p) (- 1)" unfolding ipv4_mask_def ones shift ..
  have bits: "bit (ipv4_mask p) n \<longleftrightarrow> 32 - p \<le> n \<and> n < 32" for n
    unfolding m by (auto simp: bit_simps)
  have high: "\<not> bit w n" if "32 \<le> n" for w :: "32 word" and n
    using that bit_imp_le_length[of w n] by auto
  have "a AND ipv4_mask p = b AND ipv4_mask p \<longleftrightarrow> (\<forall>n. 32 - p \<le> n \<and> n < 32 \<longrightarrow> bit a n = bit b n)"
    unfolding bit_eq_iff[of "a AND _"] bit_and_iff bits by (auto simp: possible_bit_word)
  also have "\<dots> \<longleftrightarrow> (\<forall>n \<ge> 32 - p. bit a n = bit b n)"
    using high by (meson linorder_not_le)
  also have "\<dots> \<longleftrightarrow> drop_bit (32 - p) a = drop_bit (32 - p) b"
    by (rule drop_bit_agree[symmetric])
  also have "\<dots> \<longleftrightarrow> drop_bit (32 - p) (uint a) = drop_bit (32 - p) (uint b)"
    by (simp add: word_uint_eq_iff unsigned_drop_bit_eq word32)
  finally show ?thesis by (simp add: drop_bit_eq_div)
qed

lemma ipv6_block:
  assumes "p \<le> 128" and "0 \<le> a" "a < 2 ^ 128" and "0 \<le> b" "b < 2 ^ 128"
  shows "a AND ipv6_mask p = b AND ipv6_mask p \<longleftrightarrow> a div 2 ^ (128 - p) = b div 2 ^ (128 - p)"
proof -
  have "ipv6_mask p = push_bit (128 - p) (mask p)"
    using assms(1) by (simp add: ipv6_mask_def mask_eq_exp_minus_1 push_bit_eq_mult algebra_simps
        power_add[symmetric])
  then have m: "bit (ipv6_mask p) n \<longleftrightarrow> 128 - p \<le> n \<and> n < 128" for n
    using assms(1) by (auto simp: bit_simps)
  have self: "take_bit 128 a = a" "take_bit 128 b = b"
    using assms by (simp_all add: take_bit_int_eq_self)
  have high: "\<not> bit a n" "\<not> bit b n" if "128 \<le> n" for n
    using that by (subst self[symmetric], simp add: bit_take_bit_iff)+
  have "drop_bit (128 - p) a = drop_bit (128 - p) b \<longleftrightarrow> (\<forall>n \<ge> 128 - p. bit a n = bit b n)"
    by (rule drop_bit_agree)
  also have "\<dots> \<longleftrightarrow> (\<forall>n. 128 - p \<le> n \<and> n < 128 \<longrightarrow> bit a n = bit b n)"
    using high by (meson linorder_not_le)
  also have "\<dots> \<longleftrightarrow> a AND ipv6_mask p = b AND ipv6_mask p"
    unfolding bit_eq_iff[of "a AND _"] bit_and_iff m by auto
  finally show ?thesis by (simp add: drop_bit_eq_div)
qed


text \<open>Every parsed IPv6 value fits into 128 bits.\<close>

lemma parse_hex_bound: "parse_digits 16 acc g = Some n \<Longrightarrow> n < (acc + 1) * 16 ^ length g"
proof (induction g arbitrary: acc)
  case (Cons c g)
  then obtain d where d: "digit_value 16 c = Some d" "parse_digits 16 (acc * 16 + d) g = Some n"
    by (auto split: option.splits)
  have "n < (acc * 16 + d + 1) * 16 ^ length g" using Cons.IH[OF d(2)] .
  also have "\<dots> \<le> ((acc + 1) * 16) * 16 ^ length g"
    using d(1) by (intro mult_right_mono) (auto simp: digit_value_def Let_def split: if_splits)
  finally show ?case by (simp add: algebra_simps)
qed simp

lemma parse_hex: "list_all is_hex g \<Longrightarrow> \<exists>n. parse_digits 16 acc g = Some n"
  by (induction g arbitrary: acc) (auto simp: is_hex_def)

lemma group_bound: "group_text g \<Longrightarrow> the (parse_digits 16 0 g) < 2 ^ 16"
proof -
  assume g: "group_text g"
  then obtain n where n: "parse_digits 16 0 g = Some n" using parse_hex[of g 0] by (auto simp: group_text_def)
  have "n < 16 ^ length g" using parse_hex_bound[OF n] by simp
  also have "\<dots> \<le> 16 ^ 4" using g by (intro power_increasing) (auto simp: group_text_def)
  finally show ?thesis using n by simp
qed

lemma or_bound: "0 \<le> (x :: int) \<Longrightarrow> x < 2 ^ n \<Longrightarrow> 0 \<le> y \<Longrightarrow> y < 2 ^ n \<Longrightarrow> 0 \<le> x OR y \<and> x OR y < 2 ^ n"
  by (simp add: OR_upper)

lemma groups_bound:
  "groupsToBigInt acc gs = Some v \<Longrightarrow> 0 \<le> acc \<Longrightarrow> acc < 2 ^ k \<Longrightarrow>
     0 \<le> v \<and> v < 2 ^ (k + 16 * length gs)"
proof (induction gs arbitrary: acc k)
  case (Cons g gs)
  then have g: "group_text g"
    and v: "groupsToBigInt (push_bit 16 acc OR int (the (parse_digits 16 0 g))) gs = Some v"
    by (auto split: if_splits)
  have "int (the (parse_digits 16 0 g)) < 2 ^ 16" using group_bound[OF g] by simp
  also have "\<dots> \<le> (2 :: int) ^ (k + 16)" by (rule power_increasing) auto
  finally have "0 \<le> push_bit 16 acc OR int (the (parse_digits 16 0 g)) \<and>
      push_bit 16 acc OR int (the (parse_digits 16 0 g)) < 2 ^ (k + 16)"
    using Cons.prems by (intro or_bound) (auto simp: push_bit_eq_mult power_add)
  then show ?case using Cons.IH[OF v, of "k + 16"] by (simp add: algebra_simps)
qed simp

lemma joinGroups_bound: "joinGroups c hs rs = Some v \<Longrightarrow> 0 \<le> v \<and> v < 2 ^ 128"
proof -
  assume j: "joinGroups c hs rs = Some v"
  then obtain h r where h: "groupsToBigInt 0 hs = Some h" and r: "groupsToBigInt 0 rs = Some r"
    by (auto simp: joinGroups_def split: option.splits)
  note hb = groups_bound[OF h, of 0] and rb = groups_bound[OF r, of 0]
  show ?thesis
  proof (cases c)
    case False
    then have "length hs \<le> 8" "v = h" using j h r by (auto simp: joinGroups_def Let_def split: if_splits)
    moreover have "(2 :: int) ^ (16 * length hs) \<le> 2 ^ 128"
      using calculation(1) by (intro power_increasing) auto
    ultimately show ?thesis using hb by auto
  next
    case True
    define k where "k = 16 * (8 - (length hs + length rs) + length rs)"
    have l: "length hs + length rs < 8" and v: "v = push_bit k h OR r"
      using j h r True by (auto simp: joinGroups_def Let_def k_def split: if_splits)
    have k: "k + 16 * length hs = 128" using l by (simp add: k_def)
    have "h * 2 ^ k < 2 ^ (16 * length hs) * 2 ^ k" using hb by simp
    also have "\<dots> = 2 ^ 128" unfolding power_add[symmetric] using k by (simp add: add.commute)
    finally have "push_bit k h < 2 ^ 128" by (simp add: push_bit_eq_mult)
    moreover have "(2 :: int) ^ (16 * length rs) \<le> 2 ^ 128" using l by (intro power_increasing) auto
    ultimately show ?thesis unfolding v using hb rb by (intro or_bound) auto
  qed
qed

lemma parseIpv6_bound: "parseIpv6 s = Some v \<Longrightarrow> 0 \<le> v \<and> v < 2 ^ 128"
  by (auto simp: parseIpv6_def split: if_splits option.splits dest: joinGroups_bound)

lemma mapped_bound: "0 \<le> mapped a \<and> mapped a < 2 ^ 128"
proof -
  have "uint a < 2 ^ 32" using unsigned_less[of a] by simp
  then show ?thesis unfolding mapped_def by (intro or_bound) (auto simp: push_bit_eq_mult)
qed


section \<open>What an allowlist admits\<close>

text \<open>The reference definition: an entry names an IPv4 address directly, by its block, or by
  the block of its image under \<open>::ffff:0:0/96\<close>; the unspecified address \<open>::\<close> names them all.\<close>

fun names_ipv4 :: "AllowlistEntry \<Rightarrow> 32 word \<Rightarrow> bool" where
  "names_ipv4 Any a \<longleftrightarrow> True"
| "names_ipv4 (Ipv4 b p) a \<longleftrightarrow> uint a div 2 ^ (32 - p) = uint b div 2 ^ (32 - p)"
| "names_ipv4 (Ipv6Cidr b p) a \<longleftrightarrow> mapped a div 2 ^ (128 - p) = b div 2 ^ (128 - p)"
| "names_ipv4 (Ipv6 b) a \<longleftrightarrow> b = 0 \<or> b = mapped a"
| "names_ipv4 (Invalid r) a \<longleftrightarrow> False"

definition entry_ok :: "AllowlistEntry \<Rightarrow> bool" where
  "entry_ok e \<longleftrightarrow> (case e of Ipv4 b p \<Rightarrow> p \<le> 32
     | Ipv6Cidr b p \<Rightarrow> p \<le> 128 \<and> 0 \<le> b \<and> b < 2 ^ 128
     | Ipv6 b \<Rightarrow> 0 \<le> b \<and> b < 2 ^ 128 | _ \<Rightarrow> True)"

lemma parse_entry_ok: "entry_ok (parseAllowlistEntry t)"
proof -
  have "entry_ok (parseCidr a q)" for a q
    by (auto simp: parseCidr_def entry_ok_def Let_def dest: parseIpv6_bound split: option.splits)
  then show ?thesis
    by (auto simp: parseAllowlistEntry_def Let_def split: option.splits list.splits dest: parseIpv6_bound)
       (auto simp: entry_ok_def dest: parseIpv6_bound)
qed

lemma uint_below: "uint (a :: 32 word) < 2 ^ 32"
  using unsigned_less[of a] by simp

lemma entry_names: "entry_ok e \<Longrightarrow> entryMatches e (Ipv4 a q) \<longleftrightarrow> names_ipv4 e a"
proof (cases e)
  case (Ipv4 b p)
  assume "entry_ok e"
  then show ?thesis
    using Ipv4 ipv4_block[of p a b] uint_below[of a] uint_below[of b]
    by (cases "p = 0") (auto simp: entry_ok_def)
next
  case (Ipv6Cidr b p)
  assume "entry_ok e"
  then show ?thesis
    using Ipv6Cidr ipv6_block[of p "mapped a" b] mapped_bound[of a]
    by (cases "p = 0") (auto simp: entry_ok_def)
qed (auto simp: entry_ok_def)

lemma canonical_dot: "CHR ''.'' \<in> set (ipv4_text a)"
  by (simp add: ipv4_text_def quad_def)

lemma mapped_not_quad: "parseIpv4 (''::ffff:'' @ ipv4_text a) = None"
proof -
  have "hd (ipv4_text b) \<noteq> CHR '':''" for b
    using nat_to_string_digits[of "hd (quad (unat b))"]
    by (cases "nat_to_string (hd (quad (unat b)))") (auto simp: ipv4_text_def quad_def is_digit_def)
  then have "''::ffff:'' @ ipv4_text a \<noteq> ipv4_text b" for b
    by (metis append_Cons list.sel(1))
  then show ?thesis using parseIpv4_iff by (cases "parseIpv4 (''::ffff:'' @ ipv4_text a)") auto
qed


lemma parsePeer_quad:
  "t = ipv4_text a \<or> t = ''::ffff:'' @ ipv4_text a \<Longrightarrow> parsePeer (normalizePeer t) = Ipv4 a 32"
  using canonical_dot[of a] mapped_not_quad[of a]
  by (auto simp: normalizePeer_def parsePeer_def startsWith_def tail_address_def parseIpv4_iff[THEN iffD2])

lemma text_nonempty: "ipv4_text a \<noteq> []"
  using canonical_dot[of a] by auto




lemma quad_chars: "c \<in> set (ipv4_text a) \<Longrightarrow> is_digit c \<or> c = CHR ''.''"
  using nat_to_string_digits
  by (auto simp: ipv4_text_def quad_def list_all_iff)

lemma entry_char_no_space: "is_digit c \<or> c = CHR ''.'' \<or> c = CHR ''/'' \<Longrightarrow> \<not> is_js_space c"
  by (auto simp: digit_no_space) (auto simp: is_js_space_def)

lemma prefix_chars: "c \<in> set (nat_to_string p) \<Longrightarrow> is_digit c"
  using nat_to_string_digits[of p] by (auto simp: list_all_iff)

text \<open>The entry an operator writes in canonical text means exactly the block it shows: an
  address with a prefix length up to 32 parses to that address and prefix, and one without
  a prefix to the single address.\<close>

theorem entry_text_round_trip:
  assumes "p \<le> 32"
  shows "parseAllowlistEntry (ipv4_text a @ ''/'' @ nat_to_string p) = Ipv4 a p
       \<and> parseAllowlistEntry (ipv4_text a) = Ipv4 a 32"
proof -
  have space: "js_trim t = t" if "\<forall>c \<in> set t. is_digit c \<or> c = CHR ''.'' \<or> c = CHR ''/''" for t
    using that entry_char_no_space by (intro js_trim_no_space) (auto simp: list_all_iff)
  have noslash: "CHR ''/'' \<notin> set (ipv4_text a)" "CHR ''/'' \<notin> set (nat_to_string p)"
    using quad_chars[of "CHR ''/''" a] prefix_chars[of "CHR ''/''" p] by (auto simp: is_digit_def)
  have star: "ipv4_text a \<noteq> ''*''" "ipv4_text a @ ''/'' @ nat_to_string p \<noteq> ''*''"
    using canonical_dot[of a] by (cases "ipv4_text a"; auto)+
  have parts: "js_split (CHR ''/'') (ipv4_text a @ ''/'' @ nat_to_string p) = [ipv4_text a, nat_to_string p]"
    using js_split_append[OF noslash(1), of "nat_to_string p"] js_split_no_sep[OF noslash(2)] by simp
  have "prefix_text (nat_to_string p)" using assms length_nat_to_string[of p 1] by (simp add: prefix_text_def)
  then have "parseCidr (ipv4_text a) (nat_to_string p) = Ipv4 a p"
    using assms by (simp add: parseCidr_def parseIpv4_iff[THEN iffD2] parse_digits_nat_to_string)
  moreover have "js_trim (ipv4_text a) = ipv4_text a"
    "js_trim (ipv4_text a @ ''/'' @ nat_to_string p) = ipv4_text a @ ''/'' @ nat_to_string p"
    using quad_chars prefix_chars by (intro space; auto)+
  ultimately show ?thesis using star noslash parts
    by (simp add: parseAllowlistEntry_def Let_def parseIpv4_iff[THEN iffD2])
qed

theorem entry_text_round_trip_witness:
  "parseAllowlistEntry (ipv4_text 0x0A000000 @ ''/'' @ nat_to_string 24) = Ipv4 0x0A000000 24"
  using entry_text_round_trip[of 24 "0x0A000000"] by simp

section \<open>Two forms that do not behave as announced\<close>

text \<open>The comment in \<open>ipMatchesAllowlist\<close> says the three forms of an IPv4 peer compare
  equal. The hexadecimal mapped form does not: the prefix is cut off first, and what is
  left is no address.\<close>

lemma hex_mapped_rejected:
  "ipMatchesAllowlist (Some ''::ffff:0a00:0001'') (Some [''10.0.0.1'', ''10.0.0.0/24''])
     = False
   \<and> ipMatchesAllowlist (Some ''::ffff:10.0.0.1'') (Some [''10.0.0.1'', ''10.0.0.0/24''])"
  by code_simp

text \<open>The unspecified address as an entry admits every IPv4 peer, as the reference
  definition above records; no comment announces it.\<close>

lemma unspecified_admits_ipv4: "ipMatchesAllowlist (Some ''10.0.0.1'') (Some [''::''])"
  by code_simp

end
