(* ===== verification/Http_Egress.thy ===== *)
theory Http_Egress
  imports Circuit_Breaker Ip_Allowlist
begin

text \<open>
  Outgoing HTTP (\<open>common/http-egress/http-egress.service.ts\<close>): the host allowlist, address
  resolution with the rebinding check, the private-range filter and the redirect loop with
  the breakers. URL parsing, DNS answers, the responses and the IPv6 test of \<open>node:net\<close> come
  from outside and are parameters; \<open>sent\<close> records the requests handed to the HTTP client.
  The lemmas show which IPv4 addresses the filter lets pass, although it compares them as
  signed 32-bit numbers, and that a call sends a bounded number of requests, each of them
  after a successful check of its destination.
\<close>

section \<open>Environment and configuration\<close>

datatype EgressPurpose = EP_webhook | EP_rpc | EP_horizon | EP_oracle | EP_archival | EP_generic

fun purpose_name :: "EgressPurpose \<Rightarrow> string" where
  "purpose_name EP_webhook = ''webhook''"
| "purpose_name EP_rpc = ''rpc''"
| "purpose_name EP_horizon = ''horizon''"
| "purpose_name EP_oracle = ''oracle''"
| "purpose_name EP_archival = ''archival''"
| "purpose_name EP_generic = ''generic''"

record EgressConfig =
  maxRedirects :: nat
  maxBodySizeBytes :: nat
  hostAllowlist :: "string list option"
  blockPrivateRanges :: bool

record egress_url =
  u_hostname :: string
  u_port :: string
  u_path :: string

text \<open>The first value of the \<open>location\<close> header, and the body.\<close>

record egress_reply =
  rp_status :: nat
  rp_location :: "string option"
  rp_body :: string

text \<open>
  \<open>ee_lookup k b h\<close> is the answer to the two parallel lookups of host \<open>h\<close> made before request
  \<open>k\<close>; \<open>ee_before k\<close> and \<open>ee_after k\<close> are the clock around request \<open>k\<close>.
\<close>

record egress_env =
  ee_url :: "string \<Rightarrow> egress_url option"
  ee_join :: "string \<Rightarrow> egress_url \<Rightarrow> egress_url option"
  ee_isIPv6 :: "string \<Rightarrow> bool"
  ee_lookup :: "nat \<Rightarrow> bool \<Rightarrow> string \<Rightarrow> string result"
  ee_request :: "nat \<Rightarrow> egress_url \<Rightarrow> egress_reply result"
  ee_before :: "nat \<Rightarrow> int"
  ee_after :: "nat \<Rightarrow> int"

record egress_state =
  es_breakers :: CircuitBreakerRegistry
  es_sent :: "egress_url list"

section \<open>The address filter\<close>

definition LOOPBACK_IPS :: "string list" where
  "LOOPBACK_IPS = [''127.0.0.0'', ''127.0.0.1'', ''::1'']"

definition METADATA_IPS :: "string list" where
  "METADATA_IPS = [''169.254.169.254'', ''169.254.169.253'', ''fd00:ec2::254'']"

definition PRIVATE_IPV4_RANGES :: "(string \<times> string) list" where
  "PRIVATE_IPV4_RANGES = [(''10.0.0.0'', ''10.255.255.255''), (''172.16.0.0'', ''172.31.255.255''),
     (''192.168.0.0'', ''192.168.255.255'')]"

definition part_ok :: "string \<Rightarrow> bool" where
  "part_ok part \<longleftrightarrow> \<not> (length part > 1 \<and> startsWith ''0'' part) \<and> \<not> length part > 3
     \<and> (case parseInt10 part of None \<Rightarrow> False | Some num \<Rightarrow> \<not> (num < 0 \<or> num > 255))"

definition normalizeIpAddress :: "string \<Rightarrow> string option" where
  "normalizeIpAddress ip =
     (let parts = js_split (CHR ''.'') ip
      in if length parts \<noteq> 4 then None else if list_all part_ok parts then Some ip else None)"

text \<open>\<open>x << k\<close> on a number: the low 32 bits, shifted, read as a signed integer.\<close>

definition js_shl :: "nat \<Rightarrow> int \<Rightarrow> int" where
  "js_shl k x = sint (push_bit k (of_int x :: 32 word))"

definition ipToNumber :: "string \<Rightarrow> int" where
  "ipToNumber ip =
     (let parts = map (\<lambda>p. the (parseInt10 p)) (js_split (CHR ''.'') ip)
      in js_shl 24 (parts ! 0) + js_shl 16 (parts ! 1) + js_shl 8 (parts ! 2) + parts ! 3)"

definition in_range :: "int \<Rightarrow> string \<times> string \<Rightarrow> bool" where
  "in_range ipNum bounds \<longleftrightarrow> ipNum \<ge> ipToNumber (fst bounds) \<and> ipNum \<le> ipToNumber (snd bounds)"

definition validateIpv4Range :: "string \<Rightarrow> unit result" where
  "validateIpv4Range ip =
     (case normalizeIpAddress ip of
        None \<Rightarrow> Inl (PlainError (''Invalid IPv4 address: '' @ ip))
      | Some normalized \<Rightarrow>
          let ipNum = ipToNumber normalized
          in if list_ex (in_range ipNum) PRIVATE_IPV4_RANGES
             then Inl (PlainError (''Private IPv4 range blocked: '' @ ip))
             else if in_range ipNum (''169.254.0.0'', ''169.254.255.255'')
             then Inl (PlainError (''Link-local IPv4 blocked: '' @ ip))
             else Inr ())"

text \<open>\<open>isIPv4\<close> of \<open>node:net\<close>: four octets without leading zeros.\<close>

definition isIPv4 :: "string \<Rightarrow> bool" where
  "isIPv4 s \<longleftrightarrow> parseIpv4 s \<noteq> None"

definition validateIpAddress :: "egress_env \<Rightarrow> string \<Rightarrow> unit result" where
  "validateIpAddress env ip =
     (if ip \<in> set LOOPBACK_IPS \<or> startsWith ''127.'' ip
      then Inl (PlainError (''Loopback address blocked: '' @ ip))
      else if ip \<in> set METADATA_IPS
      then Inl (PlainError (''Cloud metadata endpoint blocked: '' @ ip))
      else if ip = ''::1'' \<or> startsWith ''::ffff:127.'' ip
      then Inl (PlainError (''IPv6 loopback blocked: '' @ ip))
      else if startsWith ''::ffff:'' ip then validateIpv4Range (drop 7 ip)
      else if isIPv4 ip then validateIpv4Range ip
      else if ee_isIPv6 env ip
      then (if startsWith ''fc'' ip \<or> startsWith ''fd'' ip
            then Inl (PlainError (''IPv6 private range blocked: '' @ ip))
            else if startsWith ''fe80:'' ip \<or> startsWith ''fe8'' ip
            then Inl (PlainError (''IPv6 link-local blocked: '' @ ip))
            else Inr ())
      else Inr ())"

section \<open>Requests\<close>

definition checkAllowlist :: "string \<Rightarrow> string list \<Rightarrow> unit result" where
  "checkAllowlist hostname allowlist =
     (if list_ex (\<lambda>allowed. hostname = allowed
                     \<or> (startsWith ''*.'' allowed \<and> endsWith (drop 1 allowed) hostname)) allowlist
      then Inr () else Inl (PlainError (''Hostname '' @ hostname @ '' not in allowlist'')))"

definition resolveAndValidateIp :: "egress_env \<Rightarrow> nat \<Rightarrow> string \<Rightarrow> string result" where
  "resolveAndValidateIp env k hostname =
     (if isIPv4 hostname \<or> ee_isIPv6 env hostname then Inr hostname
      else case (ee_lookup env k False hostname, ee_lookup env k True hostname) of
             (Inl e, _) \<Rightarrow> Inl e
           | (_, Inl e) \<Rightarrow> Inl e
           | (Inr first, Inr second) \<Rightarrow>
               if first \<noteq> second
               then Inl (PlainError ''DNS rebinding detected: IP changed between resolutions'')
               else Inr first)"

definition check_ip :: "egress_env \<Rightarrow> EgressConfig \<Rightarrow> string \<Rightarrow> unit result" where
  "check_ip env cfg ip = (if blockPrivateRanges cfg then validateIpAddress env ip else Inr ())"

definition error_message :: "exn \<Rightarrow> string" where
  "error_message e = (case e of PlainError m \<Rightarrow> m | RangeError m \<Rightarrow> m | HttpError _ m \<Rightarrow> m | _ \<Rightarrow> ''error'')"

text \<open>Calls on the breaker of \<open>(purpose, host)\<close>.\<close>

definition on_breaker :: "(CircuitBreakerRegistry \<Rightarrow> CircuitBreakerRegistry) \<Rightarrow> egress_state \<Rightarrow> egress_state" where
  "on_breaker f s = s\<lparr> es_breakers := f (es_breakers s) \<rparr>"

definition assert_closed :: "string \<Rightarrow> string \<Rightarrow> int \<Rightarrow> egress_state \<Rightarrow> egress_state \<times> unit result" where
  "assert_closed p h now s =
     (let (r, res) = reg_assertRequestAllowed p h now (es_breakers s) in (s\<lparr> es_breakers := r \<rparr>, res))"

definition send :: "egress_url \<Rightarrow> egress_state \<Rightarrow> egress_state" where
  "send u s = s\<lparr> es_sent := es_sent s @ [u] \<rparr>"

definition is_redirect :: "nat \<Rightarrow> bool" where
  "is_redirect status \<longleftrightarrow> status \<in> {301, 302, 303, 307, 308}"

record egress_response =
  er_reply :: egress_reply
  er_finalUrl :: egress_url
  er_ipUsed :: string

text \<open>The target of a redirect: resolved and checked before the next round.\<close>

definition follow :: "egress_env \<Rightarrow> EgressConfig \<Rightarrow> nat \<Rightarrow> string \<Rightarrow> egress_url \<Rightarrow> (egress_url \<times> string) result" where
  "follow env cfg k location base =
     (case ee_join env location base of
        None \<Rightarrow> Inl (PlainError ''Invalid redirect URL: Invalid URL'')
      | Some target \<Rightarrow>
          (case resolveAndValidateIp env k (u_hostname target) of
             Inl e \<Rightarrow> Inl (PlainError (''Invalid redirect URL: '' @ error_message e))
           | Inr ip \<Rightarrow>
               (case check_ip env cfg ip of
                  Inl e \<Rightarrow> Inl (PlainError (''Invalid redirect URL: '' @ error_message e))
                | Inr _ \<Rightarrow> Inr (target, ip))))"

function makeRequest :: "egress_env \<Rightarrow> EgressConfig \<Rightarrow> string \<Rightarrow> egress_url \<Rightarrow> nat \<Rightarrow> egress_url \<Rightarrow> string \<Rightarrow> string
    \<Rightarrow> egress_state \<Rightarrow> egress_state \<times> egress_response result" where
  "makeRequest env cfg purpose url redirects currentUrl lastIp host s =
     (if redirects \<le> maxRedirects cfg
      then (case assert_closed purpose host (ee_before env redirects) s of
              (s1, Inl e) \<Rightarrow> (s1, Inl e)
            | (s1, Inr _) \<Rightarrow>
                let s2 = send currentUrl s1;
                    fail = on_breaker (reg_recordFailure purpose host (ee_after env redirects)) s2
                in case ee_request env redirects currentUrl of
                     Inl e \<Rightarrow> (fail, Inl e)
                   | Inr reply \<Rightarrow>
                       if is_redirect (rp_status reply)
                       then (case rp_location reply of
                               None \<Rightarrow> (fail, Inl (PlainError ''Redirect without Location header''))
                             | Some [] \<Rightarrow> (fail, Inl (PlainError ''Redirect without Location header''))
                             | Some location \<Rightarrow>
                                 (case follow env cfg (redirects + 1) location url of
                                    Inl e \<Rightarrow> (fail, Inl e)
                                  | Inr (target, ip) \<Rightarrow>
                                      makeRequest env cfg purpose url (redirects + 1) target ip (u_hostname target) s2))
                       else (on_breaker (reg_recordSuccess purpose host (ee_after env redirects)) s2,
                             Inr \<lparr> er_reply = reply, er_finalUrl = currentUrl, er_ipUsed = lastIp \<rparr>))
      else (on_breaker (reg_recordFailure purpose host (ee_before env redirects)) s,
            Inl (PlainError (''Too many redirects ('' @ nat_to_string redirects @ '')''))))"
  by pat_completeness auto
termination
  by (relation "measure (\<lambda>(env, cfg, purpose, url, redirects, rest). Suc (maxRedirects cfg) - redirects)") auto

declare makeRequest.simps [simp del]

definition egress_fetch :: "egress_env \<Rightarrow> EgressConfig \<Rightarrow> string \<Rightarrow> EgressPurpose option \<Rightarrow> egress_state
    \<Rightarrow> egress_state \<times> egress_response result" where
  "egress_fetch env cfg url purposeOpt s =
     (let purpose = purpose_name (coalesce purposeOpt EP_generic)
      in case ee_url env url of
           None \<Rightarrow> (s, Inl (PlainError ''Invalid URL: Invalid URL''))
         | Some parsed \<Rightarrow>
             (case (case hostAllowlist cfg of None \<Rightarrow> Inr () | Some [] \<Rightarrow> Inr ()
                    | Some hosts \<Rightarrow> checkAllowlist (u_hostname parsed) hosts) of
                Inl e \<Rightarrow> (s, Inl e)
              | Inr _ \<Rightarrow>
                  (case resolveAndValidateIp env 0 (u_hostname parsed) of
                     Inl e \<Rightarrow> (s, Inl e)
                   | Inr ip \<Rightarrow>
                       (case check_ip env cfg ip of
                          Inl e \<Rightarrow> (s, Inl e)
                        | Inr _ \<Rightarrow>
                            (case assert_closed purpose (u_hostname parsed) (ee_before env 0) s of
                               (s1, Inl e) \<Rightarrow> (s1, Inl e)
                             | (s1, Inr _) \<Rightarrow>
                                 let requestUrl = parsed\<lparr> u_hostname := ip \<rparr>
                                 in case makeRequest env cfg purpose requestUrl 0 requestUrl ip (u_hostname parsed) s1 of
                                      (s2, Inl e) \<Rightarrow> (s2, Inl e)
                                    | (s2, Inr r) \<Rightarrow>
                                        if length (rp_body (er_reply r)) > maxBodySizeBytes cfg
                                        then (s2, Inl (PlainError (''Response body size '' @ nat_to_string (length (rp_body (er_reply r)))
                                               @ '' exceeds limit '' @ nat_to_string (maxBodySizeBytes cfg))))
                                        else (s2, Inr r))))))"


section \<open>Which IPv4 addresses pass\<close>

lemma sint_uint32: "sint (w :: 32 word) = (if uint w < 2 ^ 31 then uint w else uint w - 2 ^ 32)"
proof -
  have "sint w = take_bit 32 (uint w + 2 ^ 31) - 2 ^ 31"
    by (simp add: sint_uint signed_take_bit_eq_take_bit_shift)
  also have "take_bit 32 (uint w + 2 ^ 31) = (if uint w < 2 ^ 31 then uint w + 2 ^ 31 else uint w - 2 ^ 31)"
    using uint_below[of w] unsigned_greater_eq[of w] by (auto simp: take_bit_eq_mod mod_pos_geq mod_pos_pos_trivial)
  finally show ?thesis by simp
qed

lemma js_shl_octet:
  assumes "p < 256"
  shows "js_shl 24 (int p) = (if p < 128 then int p * 2 ^ 24 else int p * 2 ^ 24 - 2 ^ 32)"
    and "js_shl 16 (int p) = int p * 2 ^ 16" and "js_shl 8 (int p) = int p * 2 ^ 8"
proof -
  have u: "uint (push_bit k (of_int (int p)) :: 32 word) = int p * 2 ^ k" if "k \<le> 24" for k
  proof -
    have "int p * 2 ^ k < 2 ^ 8 * 2 ^ k" using assms by simp
    also have "\<dots> \<le> 2 ^ 8 * 2 ^ 24" using that by (intro mult_left_mono power_increasing) auto
    finally have "int p * 2 ^ k < 2 ^ 32" by simp
    moreover have "uint (of_int (int p) :: 32 word) = int p"
      using assms by (simp add: unsigned_of_nat take_bit_eq_mod)
    ultimately show ?thesis
      by (subst unsigned_push_bit_eq) (simp add: push_bit_eq_mult take_bit_eq_mod mod_pos_pos_trivial)
  qed
  show "js_shl 24 (int p) = (if p < 128 then int p * 2 ^ 24 else int p * 2 ^ 24 - 2 ^ 32)"
    unfolding js_shl_def sint_uint32 using u[of 24] by auto
  show "js_shl 16 (int p) = int p * 2 ^ 16"
    unfolding js_shl_def sint_uint32 using assms by (subst u, simp)+ simp
  show "js_shl 8 (int p) = int p * 2 ^ 8"
    unfolding js_shl_def sint_uint32 using assms by (subst u, simp)+ simp
qed

lemma ipv4_text_parts:
  obtains p q r t where "p < 256" "q < 256" "r < 256" "t < 256"
    "unat a = ((p * 256 + q) * 256 + r) * 256 + t"
    "ipv4_text a = js_join ''.'' (map nat_to_string [p, q, r, t])"
    "js_split (CHR ''.'') (ipv4_text a) = map nat_to_string [p, q, r, t]"
proof -
  have "parseIpv4 (ipv4_text a) = Some a" by (simp add: parseIpv4_iff)
  then obtain p q r t where small: "p < 256" "q < 256" "r < 256" "t < 256"
    "js_split (CHR ''.'') (ipv4_text a) = map nat_to_string [p, q, r, t]"
    "unat a = ((p * 256 + q) * 256 + r) * 256 + t"
    unfolding parseIpv4_quad by blast
  moreover have "ipv4_text a = js_join ''.'' (map nat_to_string [p, q, r, t])"
    using small(5) js_join_split[of "CHR ''.''" "ipv4_text a"] by simp
  ultimately show thesis using that by blast
qed

lemma ipToNumber_text: "ipToNumber (ipv4_text a) = sint a"
proof -
  obtain p q r t where small: "p < 256" "q < 256" "r < 256" "t < 256"
    "unat a = ((p * 256 + q) * 256 + r) * 256 + t" "js_split (CHR ''.'') (ipv4_text a) = map nat_to_string [p, q, r, t]"
    by (rule ipv4_text_parts)
  have "uint a = ((int p * 256 + int q) * 256 + int r) * 256 + int t"
    using small(5) by (simp add: uint_nat)
  moreover have "ipToNumber (ipv4_text a) = js_shl 24 (int p) + js_shl 16 (int q) + js_shl 8 (int r) + int t"
    using small(6) by (simp add: ipToNumber_def)
  ultimately show ?thesis unfolding js_shl_octet(1)[OF small(1)] js_shl_octet(2)[OF small(2)] js_shl_octet(3)[OF small(3)] sint_uint32
    using small(1-4) by auto
qed


lemma normalize_text: "normalizeIpAddress (ipv4_text a) = Some (ipv4_text a)"
proof -
  obtain p q r t where small: "p < 256" "q < 256" "r < 256" "t < 256"
    "js_split (CHR ''.'') (ipv4_text a) = map nat_to_string [p, q, r, t]"
    by (rule ipv4_text_parts)
  have "part_ok (nat_to_string n)" if "n < 256" for n
    using octet_text_nat[OF that] that
    by (auto simp: part_ok_def octet_text_def startsWith_def) (cases "nat_to_string n"; simp)
  then show ?thesis using small by (simp add: normalizeIpAddress_def)
qed

lemma div_block: "(0 :: int) < n \<Longrightarrow> x div n = c \<longleftrightarrow> c * n \<le> x \<and> x < c * n + n"
proof
  assume n: "0 < n" and c: "x div n = c"
  have "x = c * n + x mod n" using c div_mult_mod_eq[of x n] by simp
  then show "c * n \<le> x \<and> x < c * n + n" using pos_mod_bound[OF n, of x] pos_mod_sign[OF n, of x] by linarith
next
  assume "0 < n" and "c * n \<le> x \<and> x < c * n + n"
  then show "x div n = c" by (intro int_div_pos_eq[of x n c "x - c * n"]) (auto simp: mult.commute)
qed

lemma loopback_text: "startsWith ''127.'' (ipv4_text a) \<longleftrightarrow> uint a div 2 ^ 24 = 127"
proof -
  obtain p q r t where small: "p < 256" "q < 256" "r < 256" "t < 256"
    "unat a = ((p * 256 + q) * 256 + r) * 256 + t" "ipv4_text a = js_join ''.'' (map nat_to_string [p, q, r, t])"
    by (rule ipv4_text_parts)
  define rest where "rest = js_join ''.'' (map nat_to_string [q, r, t])"
  have x: "ipv4_text a = nat_to_string p @ CHR ''.'' # rest" using small(6) by (simp add: rest_def)
  have nodot: "CHR ''.'' \<notin> set (nat_to_string p)"
    using digits_chars[OF nat_to_string_digits] by (simp add: is_digit_def)
  have "startsWith ''127.'' (ipv4_text a) \<longleftrightarrow> (\<exists>y. ipv4_text a = ''127'' @ CHR ''.'' # y)"
    unfolding startsWith_def by (auto, metis append_Cons append_Nil append_take_drop_id)
  also have "\<dots> \<longleftrightarrow> nat_to_string p = ''127''"
    unfolding x using nodot by (subst separated_unique) auto
  also have "\<dots> \<longleftrightarrow> p = 127"
    using nat_to_string_inject[of p 127] by (simp add: nat_to_string.simps)
  finally have "startsWith ''127.'' (ipv4_text a) \<longleftrightarrow> p = 127" .
  moreover have "uint a = ((int p * 256 + int q) * 256 + int r) * 256 + int t"
    using small(5) by (simp add: uint_nat)
  ultimately show ?thesis using small(1-4) by (simp add: div_block) linarith
qed


text \<open>The reference definition: the private blocks 10/8, 172.16/12 and 192.168/16, link-local
  169.254/16 and loopback 127/8.\<close>

definition internal_ipv4 :: "32 word \<Rightarrow> bool" where
  "internal_ipv4 a \<longleftrightarrow> uint a div 2 ^ 24 \<in> {10, 127} \<or> uint a div 2 ^ 20 = 0xAC1
     \<or> uint a div 2 ^ 16 \<in> {0xC0A8, 0xA9FE}"

lemma range_bounds:
  "ipToNumber ''10.0.0.0'' = 167772160" "ipToNumber ''10.255.255.255'' = 184549375"
  "ipToNumber ''172.16.0.0'' = 2886729728 - 2 ^ 32" "ipToNumber ''172.31.255.255'' = 2887778303 - 2 ^ 32"
  "ipToNumber ''192.168.0.0'' = 3232235520 - 2 ^ 32" "ipToNumber ''192.168.255.255'' = 3232301055 - 2 ^ 32"
  "ipToNumber ''169.254.0.0'' = 2851995648 - 2 ^ 32" "ipToNumber ''169.254.255.255'' = 2852061183 - 2 ^ 32"
  by code_simp+

lemma uint_nonneg: "0 \<le> uint (a :: 32 word)"
  by simp

lemma range_filter:
  "validateIpv4Range (ipv4_text a) = Inr () \<longleftrightarrow> \<not> (uint a div 2 ^ 24 = 10 \<or> uint a div 2 ^ 20 = 0xAC1
     \<or> uint a div 2 ^ 16 \<in> {0xC0A8, 0xA9FE})"
  using uint_below[of a]
  by (auto simp: validateIpv4Range_def normalize_text ipToNumber_text Let_def PRIVATE_IPV4_RANGES_def in_range_def
      range_bounds sint_uint32 div_block) (use uint_nonneg[of a] in linarith)+

lemma text_not_colon: "CHR '':'' \<notin> set (ipv4_text a)"
  using quad_chars[of "CHR '':''" a] by (auto simp: is_digit_def)

lemma fixed_texts:
  "''127.0.0.0'' = ipv4_text 0x7F000000" "''127.0.0.1'' = ipv4_text 0x7F000001"
  "''169.254.169.254'' = ipv4_text 0xA9FEA9FE" "''169.254.169.253'' = ipv4_text 0xA9FEA9FD"
  by (simp_all add: parseIpv4_iff[symmetric]) code_simp+

lemma ipv4_text_inject: "ipv4_text a = ipv4_text b \<longleftrightarrow> a = b"
  by (metis parseIpv4_iff option.inject)

text \<open>With private ranges blocked, an IPv4 address passes the filter exactly when it lies in none
  of the private, link-local and loopback blocks; comparing addresses as signed 32-bit
  numbers, half of them negative, makes no difference.\<close>

theorem ipv4_filter_exact:
  "validateIpAddress env (ipv4_text a) = Inr () \<longleftrightarrow> \<not> internal_ipv4 a"
proof -
  have colon: "CHR '':'' \<in> set (''::ffff:'' @ x)" for x by simp
  have no: "ipv4_text a \<noteq> ''::1''" "ipv4_text a \<noteq> ''fd00:ec2::254''" "\<not> startsWith ''::ffff:'' (ipv4_text a)"
    "\<not> startsWith ''::ffff:127.'' (ipv4_text a)"
    using text_not_colon[of a] by (auto simp: startsWith_def) (cases "ipv4_text a"; simp)+
  have v4: "isIPv4 (ipv4_text a)" by (simp add: isIPv4_def parseIpv4_iff[THEN iffD2])
  have fixed: "ipv4_text a \<in> set LOOPBACK_IPS \<Longrightarrow> uint a div 2 ^ 24 = 127"
    "ipv4_text a \<in> set METADATA_IPS \<Longrightarrow> uint a div 2 ^ 16 = 0xA9FE"
    using no unfolding LOOPBACK_IPS_def METADATA_IPS_def fixed_texts by (auto simp: ipv4_text_inject)
  show ?thesis
    using fixed no v4 range_filter[of a] loopback_text[of a]
    by (auto simp: validateIpAddress_def internal_ipv4_def)
qed


section \<open>What a call sends\<close>

definition passed :: "egress_env \<Rightarrow> EgressConfig \<Rightarrow> nat \<Rightarrow> string \<Rightarrow> bool" where
  "passed env cfg k host \<longleftrightarrow>
     (\<exists>ip. resolveAndValidateIp env k host = Inr ip \<and> check_ip env cfg ip = Inr ())"

lemma follow_passed:
  "follow env cfg k location base = Inr (target, ip) \<Longrightarrow> passed env cfg k (u_hostname target)"
  by (auto simp: follow_def passed_def split: option.splits sum.splits)

lemma assert_closed_sent: "es_sent (fst (assert_closed p h now s)) = es_sent s"
  by (simp add: assert_closed_def case_prod_unfold Let_def)

lemma on_breaker_sent [simp]: "es_sent (on_breaker f s) = es_sent s"
  by (simp add: on_breaker_def)

lemma send_sent [simp]: "es_sent (send u s) = es_sent s @ [u]"
  by (simp add: send_def)

text \<open>One round either ends with at most one request, or goes on with a checked target.\<close>

lemma makeRequest_round:
  obtains (stop) us where "es_sent (fst (makeRequest env cfg p url n cur ip h s)) = es_sent s @ us"
      "us = [] \<or> (us = [cur] \<and> n \<le> maxRedirects cfg)"
  | (go) s2 target ip' where "n \<le> maxRedirects cfg" "es_sent s2 = es_sent s @ [cur]"
      "passed env cfg (n + 1) (u_hostname target)"
      "makeRequest env cfg p url n cur ip h s = makeRequest env cfg p url (n + 1) target ip' (u_hostname target) s2"
proof (cases "n \<le> maxRedirects cfg")
  case False
  then show thesis by (intro stop[of "[]"]) (simp_all add: makeRequest.simps[of env cfg p url n])
next
  case True
  obtain s1 r where a: "assert_closed p h (ee_before env n) s = (s1, r)" by fastforce
  have s1: "es_sent s1 = es_sent s" using assert_closed_sent[of p h "ee_before env n" s] a by simp
  show thesis
  proof (cases r)
    case (Inl e)
    then show thesis using True a s1 by (intro stop[of "[]"]) (simp_all add: makeRequest.simps[of env cfg p url n])
  next
    case (Inr u)
    note m = makeRequest.simps[of env cfg p url n cur ip h s, unfolded a Inr]
    show thesis
    proof (cases "\<exists>reply loc target ip'. ee_request env n cur = Inr reply \<and> is_redirect (rp_status reply)
        \<and> rp_location reply = Some loc \<and> loc \<noteq> [] \<and> follow env cfg (n + 1) loc url = Inr (target, ip')")
      case True
      then obtain reply c cs target ip' where r: "ee_request env n cur = Inr reply" "is_redirect (rp_status reply)"
        "rp_location reply = Some (c # cs)" "follow env cfg (n + 1) (c # cs) url = Inr (target, ip')"
        by (metis neq_Nil_conv)
      show thesis
        by (rule go[of "send cur s1" target ip'])
           (use \<open>n \<le> maxRedirects cfg\<close> s1 follow_passed[OF r(4)] m r in \<open>simp_all add: Let_def\<close>)
    next
      case False
      show thesis
        by (rule stop[of "[cur]"])
           (use \<open>n \<le> maxRedirects cfg\<close> s1 m False in \<open>auto simp: Let_def split: sum.splits option.splits list.splits if_splits\<close>)
    qed
  qed
qed


lemma makeRequest_sent:
  "\<exists>us. es_sent (fst (makeRequest env cfg p url n cur ip h s)) = es_sent s @ us
     \<and> length us \<le> Suc (maxRedirects cfg) - n \<and> (us \<noteq> [] \<longrightarrow> hd us = cur)
     \<and> (\<forall>k < length us. 0 < k \<longrightarrow> passed env cfg (n + k) (u_hostname (us ! k)))"
proof (induction "Suc (maxRedirects cfg) - n" arbitrary: n cur ip h s)
  case 0
  show ?case
  proof (cases rule: makeRequest_round[of env cfg p url n cur ip h s])
    case (stop us)
    then show ?thesis using 0 by (intro exI[of _ us]) auto
  next
    case (go s2 target ip')
    then show ?thesis using 0 by simp
  qed
next
  case (Suc m)
  show ?case
  proof (cases rule: makeRequest_round[of env cfg p url n cur ip h s])
    case (stop us)
    then show ?thesis using Suc.hyps(2) by (intro exI[of _ us]) auto
  next
    case (go s2 target ip')
    have "m = Suc (maxRedirects cfg) - (n + 1)" using Suc.hyps(2) by simp
    from Suc.hyps(1)[OF this, of target ip' "u_hostname target" s2] obtain us where
      us: "es_sent (fst (makeRequest env cfg p url (n + 1) target ip' (u_hostname target) s2)) = es_sent s2 @ us"
        "length us \<le> Suc (maxRedirects cfg) - (n + 1)" "us \<noteq> [] \<longrightarrow> hd us = target"
        "\<forall>k < length us. 0 < k \<longrightarrow> passed env cfg (n + 1 + k) (u_hostname (us ! k))"
      by blast
    have "passed env cfg (n + k) (u_hostname ((cur # us) ! k))" if k: "k < length (cur # us)" "0 < k" for k
    proof (cases k)
      case (Suc j)
      then show ?thesis using us(3,4) go(3) k by (cases j) (auto simp: hd_conv_nth)
    qed (use k in simp)
    then show ?thesis using us(1,2) go by (intro exI[of _ "cur # us"]) auto
  qed
qed

text \<open>C22. A call always returns, having sent at most one request more than the configured number of
  redirects. The first goes to the very address that resolved and passed the filter, for a
  host the allowlist names; before each later one the host of its target was resolved, with
  two agreeing answers, and its address passed the filter.\<close>

theorem egress_checked:
  assumes "ee_url env url = Some parsed" and "egress_fetch env cfg url purpose s = result"
  shows "\<exists>us. es_sent (fst result) = es_sent s @ us \<and> length us \<le> maxRedirects cfg + 1
    \<and> (us \<noteq> [] \<longrightarrow> resolveAndValidateIp env 0 (u_hostname parsed) = Inr (u_hostname (hd us))
          \<and> check_ip env cfg (u_hostname (hd us)) = Inr ()
          \<and> (\<forall>hosts. hostAllowlist cfg = Some hosts \<and> hosts \<noteq> [] \<longrightarrow> checkAllowlist (u_hostname parsed) hosts = Inr ()))
    \<and> (\<forall>k < length us. 0 < k \<longrightarrow> passed env cfg k (u_hostname (us ! k)))"
proof -
  let ?p = "purpose_name (coalesce purpose EP_generic)" and ?h = "u_hostname parsed"
  let ?allow = "case hostAllowlist cfg of None \<Rightarrow> Inr () | Some [] \<Rightarrow> Inr () | Some hosts \<Rightarrow> checkAllowlist ?h hosts"
  obtain s1 r where a: "assert_closed ?p ?h (ee_before env 0) s = (s1, r)" by fastforce
  have s1: "es_sent s1 = es_sent s" using assert_closed_sent[of ?p ?h "ee_before env 0" s] a by simp
  show ?thesis
  proof (cases "\<exists>ip. ?allow = Inr () \<and> resolveAndValidateIp env 0 ?h = Inr ip \<and> check_ip env cfg ip = Inr () \<and> r = Inr ()")
    case False
    have "es_sent (fst result) = es_sent s"
      using assms(1) a s1 False unfolding assms(2)[symmetric] egress_fetch_def Let_def
      by (auto split: sum.splits)
    then show ?thesis by (intro exI[of _ "[]"]) auto
  next
    case True
    then obtain ip where t: "?allow = Inr ()" "resolveAndValidateIp env 0 ?h = Inr ip" "check_ip env cfg ip = Inr ()" "r = Inr ()"
      by blast
    let ?u = "parsed\<lparr> u_hostname := ip \<rparr>"
    have "es_sent (fst result) = es_sent (fst (makeRequest env cfg ?p ?u 0 ?u ip ?h s1))"
      using assms(1) a t unfolding assms(2)[symmetric] egress_fetch_def Let_def by (simp split: sum.splits prod.splits)
    then obtain us where us: "es_sent (fst result) = es_sent s @ us" "length us \<le> maxRedirects cfg + 1"
      "us \<noteq> [] \<longrightarrow> hd us = ?u" "\<forall>k < length us. 0 < k \<longrightarrow> passed env cfg k (u_hostname (us ! k))"
      using makeRequest_sent[of env cfg ?p ?u 0 ?u ip ?h s1] s1 by auto
    have "checkAllowlist ?h hosts = Inr ()" if "hostAllowlist cfg = Some hosts" "hosts \<noteq> []" for hosts
      using t(1) that by (auto simp: neq_Nil_conv)
    then show ?thesis using us t(2,3) by (intro exI[of _ us]) auto
  qed
qed


definition hop_env :: egress_env where
  "hop_env = \<lparr> ee_url = (\<lambda>_. Some \<lparr> u_hostname = ''api'', u_port = [], u_path = ''/a'' \<rparr>),
     ee_join = (\<lambda>location base. Some \<lparr> u_hostname = ''other'', u_port = [], u_path = location \<rparr>),
     ee_isIPv6 = (\<lambda>_. False), ee_lookup = (\<lambda>k second host. Inr ''8.8.8.8''),
     ee_request = (\<lambda>k u. Inr \<lparr> rp_status = (if k = 0 then 302 else 200), rp_location = Some ''/b'', rp_body = ''ok'' \<rparr>),
     ee_before = int, ee_after = int \<rparr>"

definition hop_config :: EgressConfig where
  "hop_config = \<lparr> maxRedirects = 1, maxBodySizeBytes = 3, hostAllowlist = Some [''api''], blockPrivateRanges = True \<rparr>"

definition hop_state :: egress_state where
  "hop_state = \<lparr> es_breakers = \<lparr> reg_breakers = [], reg_options = DEFAULT_CIRCUIT_BREAKER_OPTIONS \<rparr>, es_sent = [] \<rparr>"

lemma hop_sent:
  "map u_hostname (es_sent (fst (egress_fetch hop_env hop_config ''http://api/a'' None hop_state))) = [''8.8.8.8'', ''other'']"
  by code_simp

theorem egress_checked_witness:
  "\<exists>us. es_sent (fst (egress_fetch hop_env hop_config ''http://api/a'' None hop_state)) = us \<and> length us = 2
     \<and> passed hop_env hop_config 1 (u_hostname (us ! 1))"
proof -
  have "ee_url hop_env ''http://api/a'' = Some \<lparr> u_hostname = ''api'', u_port = [], u_path = ''/a'' \<rparr>"
    by (simp add: hop_env_def)
  from egress_checked[OF this refl, of hop_config None hop_state] obtain us where
    us: "es_sent (fst (egress_fetch hop_env hop_config ''http://api/a'' None hop_state)) = us"
      "\<forall>k < length us. 0 < k \<longrightarrow> passed hop_env hop_config k (u_hostname (us ! k))"
    by (auto simp: hop_state_def)
  moreover have "length us = 2" using hop_sent us(1) by (metis length_Cons length_map list.size(3) numeral_2_eq_2)
  ultimately show ?thesis by auto
qed

section \<open>Two announced checks\<close>

text \<open>\<open>SECURITY.md\<close> says redirect targets are re-validated against the allowlist. They are not: here
  the only allowed host redirects to another one, which is requested and answers.\<close>

lemma redirect_leaves_allowlist:
  "hostAllowlist hop_config = Some [''api'']
     \<and> map u_hostname (es_sent (fst (egress_fetch hop_env hop_config ''http://api/a'' None hop_state))) = [''8.8.8.8'', ''other'']
     \<and> checkAllowlist ''other'' [''api''] \<noteq> Inr ()"
  using hop_sent by (simp add: hop_config_def checkAllowlist_def startsWith_def)

text \<open>It also says IPv6 link-local addresses, \<open>fe80::/10\<close>, are blocked. The filter tests a textual
  prefix of twelve bits, so the blocks from \<open>fe90::\<close> to \<open>febf::\<close> pass.\<close>

lemma link_local_gap: "ee_isIPv6 env ''fe90::1'' \<Longrightarrow> validateIpAddress env ''fe90::1'' = Inr ()"
proof -
  have "parseIpv4 ''fe90::1'' = None" by code_simp
  then show ?thesis
    by (simp add: validateIpAddress_def LOOPBACK_IPS_def METADATA_IPS_def startsWith_def isIPv4_def)
qed

end
