(* ===== verification/Tx_Confirmation.thy ===== *)
theory Tx_Confirmation
  imports Js_Text
begin

text \<open>
  Following submitted transactions to their end: the durable rows and the poll batch of
  \<open>soroban/tx-confirmation.service.ts\<close>, the fee-escalation policy it consults
  (\<open>soroban/fee-escalation-policy.ts\<close>) and the blocking wait of the live submit path. The
  table of pending transactions is a map from row id to row; what the network, the signer
  and the fee statistics answer are parameters. The lemmas show that fee bumps are bounded in
  number and in price, that a settled row is never touched again, that every tracked
  row is settled once its time is up, and that the blocking wait returns.
\<close>

section \<open>Rows and environment\<close>

datatype tx_status = TX_pending | TX_confirmed | TX_failed | TX_expired

record pending_tx =
  pt_txHash :: string
  pt_txXdr :: string
  pt_intentId :: "string option"
  pt_channelKey :: "string option"
  pt_status :: tx_status
  pt_maxTrackUntil :: int
  pt_attempts :: nat
  pt_nextPollAt :: int
  pt_lastFeeStroops :: "string option"
  pt_feeBumpCount :: nat
  pt_createdAt :: int

datatype tx_event =
    TxConfirmed string "string option" int int
  | TxFailed string "string option" string int
  | TxExpired string "string option" int

record tx_table =
  tt_rows :: "(nat, pending_tx) jsmap"
  tt_nextId :: nat
  tt_events :: "tx_event list"

datatype rpc_tx = Rpc_success int int | Rpc_failed int int "string option" | Rpc_not_found

datatype send_status = Sent_PENDING | Sent_DUPLICATE | Sent_TRY_AGAIN_LATER | Sent_ERROR

text \<open>
  What the network, the signer and the Stellar SDK answer. \<open>te_getTransaction\<close> is the lookup at a
  time in milliseconds, with the ledger and its close time; the text of a failure is the name of its result code, absent when it
  cannot be decoded. \<open>te_feeStats\<close> is the inclusion fee at a percentile, \<open>te_bump xdr fee\<close> the hash
  of the fee-bump envelope around \<open>xdr\<close> at that fee (building throws on unreadable XDR).
\<close>

record tx_env =
  te_getTransaction :: "string \<Rightarrow> int \<Rightarrow> rpc_tx result"
  te_signerConfigured :: bool
  te_feeSource :: bool
  te_feeStats :: "string \<Rightarrow> string result"
  te_BASE_FEE :: string
  te_maxFeeStroops :: int
  te_bump :: "string \<Rightarrow> string \<Rightarrow> string result"
  te_submit :: "string \<Rightarrow> send_status result"

definition POLL_BATCH_SIZE :: nat where "POLL_BATCH_SIZE = 50"
definition RETRY_BASE_DELAY_S :: int where "RETRY_BASE_DELAY_S = 5"
definition RETRY_MAX_DELAY_S :: int where "RETRY_MAX_DELAY_S = 300"

section \<open>Fee escalation\<close>

definition ESCALATION_LADDER :: "string list" where
  "ESCALATION_LADDER = [''p50'', ''p90'', ''p99'']"

definition shouldEscalate :: "int \<Rightarrow> string option \<Rightarrow> nat \<Rightarrow> int \<Rightarrow> bool" where
  "shouldEscalate now errorResultCode feeBumpCount maxTrackUntil =
     (if feeBumpCount \<ge> length ESCALATION_LADDER then False
      else if errorResultCode = Some ''tx_insufficient_fee'' then True
      else let secsLeft = maxTrackUntil - now in secsLeft \<le> 60 \<and> secsLeft > 0)"

definition newFeePerOp :: "tx_env \<Rightarrow> nat \<Rightarrow> string" where
  "newFeePerOp env feeBumpCount =
     (let step = min feeBumpCount (length ESCALATION_LADDER - 1);
          percentile = ESCALATION_LADDER ! step
      in case te_feeStats env percentile of
           Inl e \<Rightarrow> te_BASE_FEE env
         | Inr raw \<Rightarrow> if raw \<noteq> [] \<and> raw \<noteq> ''0'' then raw else te_BASE_FEE env)"

text \<open>A fee text that is no number compares as \<open>NaN\<close>, so it is not above the ceiling.\<close>

definition above_ceiling :: "tx_env \<Rightarrow> string \<Rightarrow> bool" where
  "above_ceiling env fee = (case parseInt10 fee of None \<Rightarrow> False | Some f \<Rightarrow> f > te_maxFeeStroops env)"

text \<open>The result is the hash of the envelope and its fee; \<open>None\<close> is the refusal above the ceiling.\<close>

definition buildFeeBump :: "tx_env \<Rightarrow> string \<Rightarrow> nat \<Rightarrow> (string \<times> string) option result" where
  "buildFeeBump env innerTxXdr feeBumpCount =
     (let fee = newFeePerOp env feeBumpCount
      in if above_ceiling env fee then Inr None
         else (case te_bump env innerTxXdr fee of
                 Inl e \<Rightarrow> Inl e
               | Inr hash \<Rightarrow> Inr (Some (hash, fee))))"

section \<open>Durable tracking\<close>

text \<open>An \<open>update\<close> of the row with the given id.\<close>

definition upd_row :: "nat \<Rightarrow> (pending_tx \<Rightarrow> pending_tx) \<Rightarrow> tx_table \<Rightarrow> tx_table" where
  "upd_row k f t = t\<lparr> tt_rows := map (\<lambda>(k', r). (k', if k' = k then f r else r)) (tt_rows t) \<rparr>"

definition hash_row :: "string \<Rightarrow> tx_table \<Rightarrow> nat option" where
  "hash_row h t = map_option fst (find (\<lambda>(k, r). pt_txHash r = h) (tt_rows t))"

definition emit :: "tx_event \<Rightarrow> tx_table \<Rightarrow> tx_table" where
  "emit e t = t\<lparr> tt_events := tt_events t @ [e] \<rparr>"

definition track :: "int \<Rightarrow> string \<Rightarrow> string \<Rightarrow> string option \<Rightarrow> string option \<Rightarrow> int \<Rightarrow> tx_table \<Rightarrow> tx_table" where
  "track nowMs txHash txXdr intentId channelKey maxTrackUntil t =
     (let now = nowMs div 1000
      in case hash_row txHash t of
           Some k \<Rightarrow>
             upd_row k (\<lambda>r. r\<lparr> pt_txXdr := txXdr, pt_intentId := intentId, pt_channelKey := channelKey,
               pt_status := TX_pending, pt_maxTrackUntil := maxTrackUntil, pt_attempts := 0, pt_nextPollAt := now \<rparr>) t
         | None \<Rightarrow>
             t\<lparr> tt_rows := tt_rows t @ [(tt_nextId t,
                  \<lparr> pt_txHash = txHash, pt_txXdr = txXdr, pt_intentId = intentId, pt_channelKey = channelKey,
                    pt_status = TX_pending, pt_maxTrackUntil = maxTrackUntil, pt_attempts = 0, pt_nextPollAt = now,
                    pt_lastFeeStroops = None, pt_feeBumpCount = 0, pt_createdAt = nowMs \<rparr>)],
                tt_nextId := tt_nextId t + 1 \<rparr>)"

text \<open>
  The hash column is unique: pointing the row at a hash another row already has makes the update
  throw, after the envelope was submitted. The time is read once for a row.
\<close>

definition maybeFeeBump :: "tx_env \<Rightarrow> int \<Rightarrow> nat \<Rightarrow> pending_tx \<Rightarrow> tx_table \<Rightarrow> tx_table \<times> bool result" where
  "maybeFeeBump env now k row t =
     (if \<not> shouldEscalate now None (pt_feeBumpCount row) (pt_maxTrackUntil row) then (t, Inr False)
      else if \<not> te_signerConfigured env then (t, Inr False)
      else if \<not> te_feeSource env then (t, Inr False)
      else case buildFeeBump env (pt_txXdr row) (pt_feeBumpCount row) of
             Inl e \<Rightarrow> (t, Inl e)
           | Inr None \<Rightarrow> (t, Inr False)
           | Inr (Some (bumpedHash, fee)) \<Rightarrow>
               (case te_submit env bumpedHash of
                  Inl e \<Rightarrow> (t, Inl e)
                | Inr sent \<Rightarrow>
                    if sent = Sent_ERROR then (t, Inr False)
                    else if hash_row bumpedHash t \<notin> {None, Some k} then (t, Inl (PlainError ''P2002''))
                    else (upd_row k (\<lambda>r. r\<lparr> pt_txHash := bumpedHash, pt_feeBumpCount := pt_feeBumpCount row + 1,
                            pt_lastFeeStroops := Some fee, pt_attempts := pt_attempts row + 1,
                            pt_nextPollAt := now + RETRY_BASE_DELAY_S \<rparr>) t, Inr True)))"

definition retry_delay :: "nat \<Rightarrow> int" where
  "retry_delay attempts = min (RETRY_BASE_DELAY_S * 2 ^ min attempts 8) RETRY_MAX_DELAY_S"

definition set_status :: "tx_status \<Rightarrow> pending_tx \<Rightarrow> pending_tx" where
  "set_status s r = r\<lparr> pt_status := s \<rparr>"

definition fail_code :: "string option \<Rightarrow> string" where
  "fail_code name = (if name = None \<or> name = Some [] then ''tx_failed'' else the name)"

definition processRow :: "tx_env \<Rightarrow> int \<Rightarrow> nat \<Rightarrow> pending_tx \<Rightarrow> tx_table \<Rightarrow> tx_table \<times> unit result" where
  "processRow env nowMs k row t =
     (let now = nowMs div 1000; latencyMs = max 0 (nowMs - pt_createdAt row)
      in if pt_maxTrackUntil row \<le> now
         then (emit (TxExpired (pt_txHash row) (pt_intentId row) latencyMs) (upd_row k (set_status TX_expired) t), Inr ())
         else case te_getTransaction env (pt_txHash row) nowMs of
             Inl e \<Rightarrow> (t, Inl e)
           | Inr (Rpc_success ledger _) \<Rightarrow>
               (emit (TxConfirmed (pt_txHash row) (pt_intentId row) ledger latencyMs)
                  (upd_row k (set_status TX_confirmed) t), Inr ())
           | Inr (Rpc_failed _ _ code) \<Rightarrow>
               (case maybeFeeBump env now k row t of
                  (t1, Inl e) \<Rightarrow> (t1, Inl e)
                | (t1, Inr bumped) \<Rightarrow>
                    if bumped then (t1, Inr ())
                    else (emit (TxFailed (pt_txHash row) (pt_intentId row) (fail_code code) latencyMs)
                            (upd_row k (set_status TX_failed) t1), Inr ()))
           | Inr Rpc_not_found \<Rightarrow>
               (case maybeFeeBump env now k row t of
                  (t1, Inl e) \<Rightarrow> (t1, Inl e)
                | (t1, Inr bumped) \<Rightarrow>
                    if bumped then (t1, Inr ())
                    else (upd_row k (\<lambda>r. r\<lparr> pt_attempts := pt_attempts row + 1,
                            pt_nextPollAt := now + retry_delay (pt_attempts row) \<rparr>) t1, Inr ())))"

text \<open>\<open>EXTRACT(EPOCH FROM NOW())::bigint\<close> rounds to the nearest second.\<close>

definition db_epoch :: "int \<Rightarrow> int" where
  "db_epoch nowMs = (nowMs + 500) div 1000"

definition due :: "int \<Rightarrow> pending_tx \<Rightarrow> bool" where
  "due nowMs r \<longleftrightarrow> pt_status r = TX_pending \<and> pt_nextPollAt r \<le> db_epoch nowMs"

definition due_rows :: "int \<Rightarrow> tx_table \<Rightarrow> (nat \<times> pending_tx) list" where
  "due_rows nowMs t = take POLL_BATCH_SIZE (sort_key fst (filter (\<lambda>(k, r). due nowMs r) (tt_rows t)))"

text \<open>
  The batch starts at \<open>nowMs\<close> and reaches row \<open>k\<close> at \<open>clk k\<close>. A row that throws is logged and left as
  it is.
\<close>

definition pollBatch :: "tx_env \<Rightarrow> int \<Rightarrow> (nat \<Rightarrow> int) \<Rightarrow> tx_table \<Rightarrow> tx_table" where
  "pollBatch env nowMs clk t = fold (\<lambda>(k, r) t. fst (processRow env (clk k) k r t)) (due_rows nowMs t) t"

datatype TxConfirmation = TC_success int int | TC_failed int int | TC_not_found

definition check :: "tx_env \<Rightarrow> int \<Rightarrow> string \<Rightarrow> TxConfirmation result" where
  "check env nowMs hash =
     (case te_getTransaction env hash nowMs of
        Inl e \<Rightarrow> Inl e
      | Inr (Rpc_success ledger createdAt) \<Rightarrow> Inr (TC_success ledger createdAt)
      | Inr (Rpc_failed ledger createdAt _) \<Rightarrow> Inr (TC_failed ledger createdAt)
      | Inr Rpc_not_found \<Rightarrow> Inr TC_not_found)"

section \<open>The blocking wait\<close>

datatype wait_status = WS_SUCCESS | WS_FAILED string | WS_TIMEOUT

text \<open>
  \<open>lat n\<close> is the time the \<open>n\<close>-th lookup takes. An interval of zero with lookups that take no time
  would never end, so the loop is a partial function; \<open>None\<close> is not returning.
\<close>

partial_function (option) wait_loop :: "(string \<Rightarrow> int \<Rightarrow> rpc_tx result) \<Rightarrow> (nat \<Rightarrow> int) \<Rightarrow> string \<Rightarrow> int \<Rightarrow> int \<Rightarrow> nat \<Rightarrow> int
    \<Rightarrow> (wait_status \<times> int) option" where
  "wait_loop rpc lat hash pollIntervalMs deadline n now =
     (if now < deadline
      then (let t = now + lat n
            in case rpc hash now of
                 Inl e \<Rightarrow> wait_loop rpc lat hash pollIntervalMs deadline (n + 1) (t + pollIntervalMs)
               | Inr Rpc_not_found \<Rightarrow> wait_loop rpc lat hash pollIntervalMs deadline (n + 1) (t + pollIntervalMs)
               | Inr (Rpc_success _ _) \<Rightarrow> Some (WS_SUCCESS, t)
               | Inr (Rpc_failed _ _ code) \<Rightarrow> Some (WS_FAILED (coalesce code ''unknown''), t))
      else Some (WS_TIMEOUT, now))"

declare wait_loop.simps [code]

definition waitForConfirmation :: "(string \<Rightarrow> int \<Rightarrow> rpc_tx result) \<Rightarrow> (nat \<Rightarrow> int) \<Rightarrow> string \<Rightarrow> int \<Rightarrow> int \<Rightarrow> int \<Rightarrow> int
    \<Rightarrow> (wait_status \<times> int) option" where
  "waitForConfirmation rpc lat hash submittedAt pollIntervalMs timeoutMs now =
     map_option (\<lambda>(st, t). (st, t - submittedAt)) (wait_loop rpc lat hash pollIntervalMs (now + timeoutMs) 0 now)"

section \<open>One row\<close>

lemma map_of_map_row: "map_of (map (\<lambda>(k', r). (k', if k' = k then f r else r)) m) k2
    = (if k2 = k then map_option f (map_of m k2) else map_of m k2)"
  by (induction m) auto

lemma upd_row_simps [simp]:
  "map_of (tt_rows (upd_row k f t)) k2 = (if k2 = k then map_option f (map_of (tt_rows t) k2) else map_of (tt_rows t) k2)"
  "map fst (tt_rows (upd_row k f t)) = map fst (tt_rows t)"
  "tt_nextId (upd_row k f t) = tt_nextId t" "tt_events (upd_row k f t) = tt_events t"
  by (auto simp: upd_row_def map_of_map_row split: if_splits)

lemma upd_row_keys [simp]: "fst ` set (tt_rows (upd_row k f t)) = fst ` set (tt_rows t)"
  by (metis upd_row_simps(2) list.set_map)

lemma emit_simps [simp]:
  "tt_rows (emit e t) = tt_rows t" "tt_nextId (emit e t) = tt_nextId t" "tt_events (emit e t) = tt_events t @ [e]"
  by (simp_all add: emit_def)

lemma hash_row_None: "hash_row h t = None \<longleftrightarrow> (\<forall>(k, r) \<in> set (tt_rows t). pt_txHash r \<noteq> h)"
  by (auto simp: hash_row_def find_None_iff)

lemma hash_row_Some: "hash_row h t = Some k \<Longrightarrow> \<exists>r. (k, r) \<in> set (tt_rows t) \<and> pt_txHash r = h"
  by (auto simp: hash_row_def find_Some_iff) (metis nth_mem)

lemma shouldEscalate_iff: "shouldEscalate now None c m \<longleftrightarrow> c < 3 \<and> now < m \<and> m \<le> now + 60"
  by (auto simp: shouldEscalate_def ESCALATION_LADDER_def Let_def)

lemma retry_delay_le: "0 < retry_delay n \<and> retry_delay n \<le> 300"
  by (simp add: retry_delay_def RETRY_BASE_DELAY_S_def RETRY_MAX_DELAY_S_def)

text \<open>
  Whether a fee bump goes out is decided without the table: it is refused, it throws, or it is
  submitted under a new hash and fee.
\<close>

definition bump_plan :: "tx_env \<Rightarrow> int \<Rightarrow> pending_tx \<Rightarrow> (string \<times> string) option result" where
  "bump_plan env now row =
     (if \<not> shouldEscalate now None (pt_feeBumpCount row) (pt_maxTrackUntil row)
         \<or> \<not> te_signerConfigured env \<or> \<not> te_feeSource env then Inr None
      else case buildFeeBump env (pt_txXdr row) (pt_feeBumpCount row) of
             Inl e \<Rightarrow> Inl e
           | Inr None \<Rightarrow> Inr None
           | Inr (Some (h, fee)) \<Rightarrow>
               (case te_submit env h of Inl e \<Rightarrow> Inl e | Inr sent \<Rightarrow> Inr (if sent = Sent_ERROR then None else Some (h, fee))))"

definition bumped_row :: "int \<Rightarrow> pending_tx \<Rightarrow> string \<Rightarrow> string \<Rightarrow> pending_tx \<Rightarrow> pending_tx" where
  "bumped_row now row h fee r =
     r\<lparr> pt_txHash := h, pt_feeBumpCount := pt_feeBumpCount row + 1, pt_lastFeeStroops := Some fee,
       pt_attempts := pt_attempts row + 1, pt_nextPollAt := now + RETRY_BASE_DELAY_S \<rparr>"

lemma maybeFeeBump_plan:
  "maybeFeeBump env now k row t =
     (case bump_plan env now row of
        Inl e \<Rightarrow> (t, Inl e)
      | Inr None \<Rightarrow> (t, Inr False)
      | Inr (Some (h, fee)) \<Rightarrow>
          if hash_row h t \<notin> {None, Some k} then (t, Inl (PlainError ''P2002''))
          else (upd_row k (bumped_row now row h fee) t, Inr True))"
  unfolding maybeFeeBump_def bump_plan_def bumped_row_def[abs_def]
  by (simp split: sum.split option.split)

lemma bump_plan_ok:
  assumes "bump_plan env now row = Inr (Some (h, fee))"
  shows "pt_feeBumpCount row < 3 \<and> now < pt_maxTrackUntil row \<and> \<not> above_ceiling env fee"
  using assms unfolding bump_plan_def buildFeeBump_def
  by (auto simp: shouldEscalate_iff Let_def split: if_splits sum.splits option.splits)

text \<open>The verdict on a row that a poll at \<open>nowMs\<close> settles: its final status and the event.\<close>

definition verdict :: "tx_env \<Rightarrow> int \<Rightarrow> pending_tx \<Rightarrow> (tx_status \<times> tx_event) option" where
  "verdict env nowMs row =
     (let lat = max 0 (nowMs - pt_createdAt row); h = pt_txHash row; i = pt_intentId row
      in if pt_maxTrackUntil row \<le> nowMs div 1000 then Some (TX_expired, TxExpired h i lat)
         else case te_getTransaction env h nowMs of
                Inr (Rpc_success ledger _) \<Rightarrow> Some (TX_confirmed, TxConfirmed h i ledger lat)
              | Inr (Rpc_failed _ _ code) \<Rightarrow>
                  if bump_plan env (nowMs div 1000) row = Inr None then Some (TX_failed, TxFailed h i (fail_code code) lat) else None
              | _ \<Rightarrow> None)"

lemma verdict_final: "verdict env nowMs row = Some (s, e) \<Longrightarrow> s \<noteq> TX_pending"
  by (auto simp: verdict_def Let_def split: if_splits sum.splits rpc_tx.splits)

definition row_retry :: "int \<Rightarrow> pending_tx \<Rightarrow> pending_tx \<Rightarrow> pending_tx" where
  "row_retry now row r = r\<lparr> pt_attempts := pt_attempts row + 1, pt_nextPollAt := now + retry_delay (pt_attempts row) \<rparr>"

text \<open>All a poll does to the table: settle the row, postpone it, point it at a bumped envelope, or nothing.\<close>

lemma processRow_effect:
  "(\<exists>s e. verdict env nowMs row = Some (s, e)
      \<and> fst (processRow env nowMs k row t) = emit e (upd_row k (set_status s) t))
   \<or> verdict env nowMs row = None
     \<and> (fst (processRow env nowMs k row t) = t
        \<or> fst (processRow env nowMs k row t) = upd_row k (row_retry (nowMs div 1000) row) t
            \<and> nowMs div 1000 < pt_maxTrackUntil row
        \<or> (\<exists>h fee. fst (processRow env nowMs k row t) = upd_row k (bumped_row (nowMs div 1000) row h fee) t
            \<and> bump_plan env (nowMs div 1000) row = Inr (Some (h, fee)) \<and> hash_row h t \<in> {None, Some k}))"
proof (cases "pt_maxTrackUntil row \<le> nowMs div 1000")
  case True
  then show ?thesis by (simp add: processRow_def verdict_def Let_def)
next
  case False
  note d = processRow_def verdict_def Let_def maybeFeeBump_plan row_retry_def[abs_def]
  consider (err) e where "te_getTransaction env (pt_txHash row) nowMs = Inl e"
    | (ok) l c where "te_getTransaction env (pt_txHash row) nowMs = Inr (Rpc_success l c)"
    | (bad) l c n where "te_getTransaction env (pt_txHash row) nowMs = Inr (Rpc_failed l c n)"
    | (none) "te_getTransaction env (pt_txHash row) nowMs = Inr Rpc_not_found"
    by (metis sumE rpc_tx.exhaust)
  then show ?thesis
  proof cases
    case bad
    with False show ?thesis
      by (cases "bump_plan env (nowMs div 1000) row") (auto simp: d split: option.splits)
  next
    case none
    with False show ?thesis
      by (cases "bump_plan env (nowMs div 1000) row") (auto simp: d split: option.splits)
  qed (use False in \<open>auto simp: d\<close>)
qed

section \<open>A poll batch\<close>

definition poll_rows :: "tx_env \<Rightarrow> (nat \<Rightarrow> int) \<Rightarrow> (nat \<times> pending_tx) list \<Rightarrow> tx_table \<Rightarrow> tx_table" where
  "poll_rows env clk xs t = fold (\<lambda>(k, r) t. fst (processRow env (clk k) k r t)) xs t"

lemma poll_rows_simps [simp]:
  "poll_rows env clk [] t = t"
  "poll_rows env clk ((k, r) # xs) t = poll_rows env clk xs (fst (processRow env (clk k) k r t))"
  by (simp_all add: poll_rows_def)

lemma pollBatch_rows: "pollBatch env nowMs clk t = poll_rows env clk (due_rows nowMs t) t"
  by (simp add: pollBatch_def poll_rows_def)

lemma processRow_other: "k' \<noteq> k \<Longrightarrow> map_of (tt_rows (fst (processRow env nowMs k row t))) k' = map_of (tt_rows t) k'"
  using processRow_effect[of env nowMs row k t] by auto

lemma processRow_status:
  "map_option pt_status (map_of (tt_rows (fst (processRow env nowMs k row t))) k)
   = (case verdict env nowMs row of
        Some (s, e) \<Rightarrow> map_option (\<lambda>_. s) (map_of (tt_rows t) k)
      | None \<Rightarrow> map_option pt_status (map_of (tt_rows t) k))"
  using processRow_effect[of env nowMs row k t]
  by (elim disjE exE conjE) (simp_all add: set_status_def row_retry_def bumped_row_def option.map_comp o_def)

lemma processRow_events:
  "tt_events (fst (processRow env nowMs k row t))
   = tt_events t @ (case verdict env nowMs row of Some (s, e) \<Rightarrow> [e] | None \<Rightarrow> [])"
  using processRow_effect[of env nowMs row k t] by auto

text \<open>
  The rows of a batch are read once; each is still what was read when its turn comes, because the
  earlier ones only touch themselves.
\<close>

definition fresh_rows :: "(nat \<times> pending_tx) list \<Rightarrow> tx_table \<Rightarrow> bool" where
  "fresh_rows xs t \<longleftrightarrow> distinct (map fst xs) \<and> (\<forall>(k, r) \<in> set xs. map_of (tt_rows t) k = Some r)"

lemma fresh_rows_step:
  assumes "fresh_rows ((k, r) # xs) t"
  shows "fresh_rows xs (fst (processRow env nowMs k r t)) \<and> map_of (tt_rows t) k = Some r"
proof -
  have "map_of (tt_rows (fst (processRow env nowMs k r t))) k' = Some r'" if m: "(k', r') \<in> set xs" for k' r'
  proof -
    have "k' \<noteq> k" "map_of (tt_rows t) k' = Some r'"
      using assms m unfolding fresh_rows_def by (auto simp: image_iff)
    then show ?thesis by (simp add: processRow_other)
  qed
  then show ?thesis using assms unfolding fresh_rows_def by auto
qed

lemma due_rows_fresh: "wf_map (tt_rows t) \<Longrightarrow> fresh_rows (due_rows nowMs t) t"
proof -
  assume wf: "wf_map (tt_rows t)"
  have "distinct (map fst (due_rows nowMs t))"
    using wf by (auto simp: due_rows_def take_map[symmetric] distinct_map_filter intro!: distinct_take)
  moreover have "set (due_rows nowMs t) \<subseteq> set (tt_rows t)"
    unfolding due_rows_def using set_take_subset by fastforce
  moreover from this have "\<forall>(k, r) \<in> set (due_rows nowMs t). map_of (tt_rows t) k = Some r"
    using map_of_is_SomeI[OF wf] by blast
  ultimately show ?thesis unfolding fresh_rows_def by blast
qed

lemma due_rows_due: "(k, r) \<in> set (due_rows nowMs t) \<Longrightarrow> due nowMs r"
  unfolding due_rows_def using in_set_takeD by fastforce

lemma poll_rows_induct:
  assumes "fresh_rows xs t" and "I t"
    and "\<And>k r t. (k, r) \<in> set xs \<Longrightarrow> map_of (tt_rows t) k = Some r \<Longrightarrow> I t \<Longrightarrow> I (fst (processRow env (clk k) k r t))"
  shows "I (poll_rows env clk xs t)"
  using assms
proof (induction xs arbitrary: t)
  case (Cons x xs)
  obtain k r where x: "x = (k, r)" by force
  with Cons.prems(1) have f: "fresh_rows xs (fst (processRow env (clk k) k r t))" "map_of (tt_rows t) k = Some r"
    using fresh_rows_step by blast+
  show ?case unfolding x poll_rows_simps
    by (rule Cons.IH[OF f(1)]) (use Cons.prems x f(2) in auto)
qed simp

lemma poll_rows_events:
  "tt_events (poll_rows env clk xs t)
   = tt_events t @ List.map_filter (\<lambda>(k, r). map_option snd (verdict env (clk k) r)) xs"
proof (induction xs arbitrary: t)
  case (Cons x xs)
  then show ?case
    by (cases x; cases "verdict env (clk (fst x)) (snd x)") (auto simp: processRow_events map_filter_simps)
qed (simp add: map_filter_simps)

lemma poll_rows_outside: "k \<notin> fst ` set xs \<Longrightarrow> map_of (tt_rows (poll_rows env clk xs t)) k = map_of (tt_rows t) k"
  by (induction xs arbitrary: t) (auto simp: processRow_other)

lemma poll_rows_inside:
  assumes "fresh_rows xs t" and "(k, r) \<in> set xs"
  shows "map_option pt_status (map_of (tt_rows (poll_rows env clk xs t)) k)
         = Some (case verdict env (clk k) r of Some (s, e) \<Rightarrow> s | None \<Rightarrow> pt_status r)"
  using assms
proof (induction xs arbitrary: t)
  case (Cons x xs)
  obtain k1 r1 where x: "x = (k1, r1)" by force
  have f: "fresh_rows xs (fst (processRow env (clk k1) k1 r1 t))" "map_of (tt_rows t) k1 = Some r1"
    using fresh_rows_step Cons.prems(1) x by blast+
  show ?case
  proof (cases "(k, r) \<in> set xs")
    case True
    then show ?thesis using Cons.IH[OF f(1)] x by simp
  next
    case False
    then have "k1 = k" "r1 = r" using Cons.prems(2) x by auto
    moreover from this have "k \<notin> fst ` set xs" using Cons.prems(1) x by (auto simp: fresh_rows_def)
    ultimately show ?thesis
      using x f(2) processRow_status[of env "clk k" k r t]
      by (simp add: poll_rows_outside split: option.splits prod.splits)
  qed
qed simp

section \<open>Runs\<close>

definition uniq_hash :: "tx_table \<Rightarrow> bool" where
  "uniq_hash t \<longleftrightarrow> (\<forall>k k' r r'. map_of (tt_rows t) k = Some r \<longrightarrow> map_of (tt_rows t) k' = Some r'
      \<longrightarrow> pt_txHash r = pt_txHash r' \<longrightarrow> k = k')"

definition row_ok :: "int \<Rightarrow> int \<Rightarrow> pending_tx \<Rightarrow> bool" where
  "row_ok M c r \<longleftrightarrow> pt_feeBumpCount r \<le> 3
     \<and> (\<forall>fee v. pt_lastFeeStroops r = Some fee \<longrightarrow> parseInt10 fee = Some v \<longrightarrow> v \<le> M)
     \<and> pt_nextPollAt r \<le> max (pt_maxTrackUntil r + 300) (c div 1000)"

definition tx_inv :: "int \<Rightarrow> int \<times> tx_table \<Rightarrow> bool" where
  "tx_inv M st = (case st of (c, t) \<Rightarrow>
     wf_map (tt_rows t) \<and> (\<forall>k \<ge> tt_nextId t. map_of (tt_rows t) k = None) \<and> uniq_hash t
     \<and> (\<forall>k r. map_of (tt_rows t) k = Some r \<longrightarrow> row_ok M c r))"

text \<open>
  The table at a time: submissions are tracked and batches polled in any order, under any answers
  of the network, with the fee ceiling \<open>M\<close>.
\<close>

inductive tx_step :: "int \<Rightarrow> int \<times> tx_table \<Rightarrow> int \<times> tx_table \<Rightarrow> bool" for M where
  step_track: "c \<le> now \<Longrightarrow> tx_step M (c, t) (now, track now h xdr i ch bnd t)"
| step_poll: "c \<le> now \<Longrightarrow> te_maxFeeStroops env = M \<Longrightarrow> (\<And>k. now \<le> clk k \<and> clk k \<le> c')
    \<Longrightarrow> tx_step M (c, t) (c', pollBatch env now clk t)"

inductive_cases tx_stepE: "tx_step M st st'"

definition no_txs :: tx_table where
  "no_txs = \<lparr> tt_rows = [], tt_nextId = 1, tt_events = [] \<rparr>"

lemma row_ok_later: "row_ok M c r \<Longrightarrow> c \<le> c' \<Longrightarrow> row_ok M c' r"
  using zdiv_mono1[of c c' 1000] by (auto simp: row_ok_def)

lemma uniq_hash_upd:
  assumes "uniq_hash t" and "wf_map (tt_rows t)"
    and "\<And>r. pt_txHash (f r) = pt_txHash r \<or> hash_row (pt_txHash (f r)) t \<in> {None, Some k}"
  shows "uniq_hash (upd_row k f t)"
proof -
  have out: False if r: "map_of (tt_rows t) k = Some r" and r': "map_of (tt_rows t) k' = Some r'"
    and eq: "pt_txHash (f r) = pt_txHash r'" and ne: "k' \<noteq> k" for k' r r'
  proof (cases "pt_txHash (f r) = pt_txHash r")
    case True
    then show False using assms(1) r r' eq ne unfolding uniq_hash_def by metis
  next
    case False
    then have "hash_row (pt_txHash r') t \<in> {None, Some k}" using assms(3)[of r] eq by auto
    moreover have "(k', r') \<in> set (tt_rows t)" using r' by (rule map_of_SomeD)
    ultimately have "hash_row (pt_txHash r') t = Some k" by (auto simp: hash_row_None)
    then obtain r2 where "(k, r2) \<in> set (tt_rows t)" "pt_txHash r2 = pt_txHash r'" using hash_row_Some by blast
    then show False using assms(1,2) r' ne unfolding uniq_hash_def by (metis wf_map_mem)
  qed
  then show ?thesis using assms(1) unfolding uniq_hash_def
    by (auto split: if_splits) metis+
qed

lemma tx_inv_upd:
  assumes "tx_inv M (c, t)" and "map_of (tt_rows t) k = Some r" and "row_ok M c (f r)"
    and "\<And>r. pt_txHash (f r) = pt_txHash r \<or> hash_row (pt_txHash (f r)) t \<in> {None, Some k}"
  shows "tx_inv M (c, upd_row k f t)"
proof -
  have "uniq_hash (upd_row k f t)" by (rule uniq_hash_upd) (use assms(1,4) in \<open>auto simp: tx_inv_def\<close>)
  moreover have "row_ok M c r'" if "map_of (tt_rows (upd_row k f t)) k' = Some r'" for k' r'
    using that assms(1-3) by (auto simp: tx_inv_def split: if_splits)
  ultimately show ?thesis using assms(1) by (simp add: tx_inv_def)
qed

lemma tx_inv_emit [simp]: "tx_inv M (c, emit e t) = tx_inv M (c, t)"
  by (simp add: tx_inv_def uniq_hash_def)

lemma processRow_inv:
  assumes inv: "tx_inv M (c, t)" and r: "map_of (tt_rows t) k = Some r" and M: "te_maxFeeStroops env = M"
  shows "tx_inv M (c, fst (processRow env nowMs k r t))"
proof -
  have ok: "row_ok M c r" using inv r by (auto simp: tx_inv_def)
  have d: "retry_delay (pt_attempts r) \<le> 300" using retry_delay_le by blast
  have settle: "tx_inv M (c, upd_row k (set_status st) t)" for st
    by (rule tx_inv_upd[OF inv r]) (use ok in \<open>auto simp: row_ok_def set_status_def\<close>)
  have later: "tx_inv M (c, upd_row k (row_retry (nowMs div 1000) r) t)" if "nowMs div 1000 < pt_maxTrackUntil r"
    by (rule tx_inv_upd[OF inv r]) (use ok d that in \<open>auto simp: row_ok_def row_retry_def max_def\<close>)
  have bump: "tx_inv M (c, upd_row k (bumped_row (nowMs div 1000) r h fee) t)"
    if b: "bump_plan env (nowMs div 1000) r = Inr (Some (h, fee))" and h: "hash_row h t \<in> {None, Some k}" for h fee
  proof (rule tx_inv_upd[OF inv r])
    show "row_ok M c (bumped_row (nowMs div 1000) r h fee r)"
      using bump_plan_ok[OF b] M
      by (auto simp: row_ok_def bumped_row_def above_ceiling_def RETRY_BASE_DELAY_S_def max_def)
  qed (use h in \<open>simp add: bumped_row_def\<close>)
  show ?thesis using processRow_effect[of env nowMs r k t] settle later bump inv by auto
qed

lemma tx_inv_later: "tx_inv M (c, t) \<Longrightarrow> c \<le> c' \<Longrightarrow> tx_inv M (c', t)"
  unfolding tx_inv_def prod.case using row_ok_later by blast

lemma track_inv:
  assumes inv: "tx_inv M (c, t)" and le: "c \<le> now"
  shows "tx_inv M (now, track now h xdr i ch bnd t)"
proof (cases "hash_row h t")
  case None
  let ?n = "tt_nextId t"
  have fresh: "map_of (tt_rows t) ?n = None" using inv by (simp add: tx_inv_def)
  have new: "pt_txHash r \<noteq> h" if "map_of (tt_rows t) k = Some r" for k r
    using None map_of_SomeD[OF that] by (auto simp: hash_row_None)
  have rows: "map_of (tt_rows (track now h xdr i ch bnd t)) = (map_of (tt_rows t))(?n \<mapsto>
      \<lparr> pt_txHash = h, pt_txXdr = xdr, pt_intentId = i, pt_channelKey = ch, pt_status = TX_pending,
        pt_maxTrackUntil = bnd, pt_attempts = 0, pt_nextPollAt = now div 1000, pt_lastFeeStroops = None,
        pt_feeBumpCount = 0, pt_createdAt = now \<rparr>)"
    using fresh None by (auto simp: track_def Let_def map_add_def fun_eq_iff split: option.splits)
  have "uniq_hash (track now h xdr i ch bnd t)"
    using inv new unfolding tx_inv_def uniq_hash_def rows by (auto split: if_splits)
  moreover have "row_ok M now r" if "map_of (tt_rows (track now h xdr i ch bnd t)) k = Some r" for k r
  proof (cases "k = ?n")
    case True
    then show ?thesis using that unfolding rows by (auto simp: row_ok_def)
  next
    case False
    then show ?thesis using that inv row_ok_later[OF _ le] unfolding rows tx_inv_def by auto
  qed
  moreover have "wf_map (tt_rows (track now h xdr i ch bnd t))" "tt_nextId (track now h xdr i ch bnd t) = ?n + 1"
    using inv None fresh by (auto simp: track_def Let_def tx_inv_def map_of_eq_None_iff)
  ultimately show ?thesis using inv rows by (auto simp: tx_inv_def)
next
  case (Some k)
  have inv': "tx_inv M (now, t)" using tx_inv_later[OF inv le] .
  obtain r where "(k, r) \<in> set (tt_rows t)" using hash_row_Some[OF Some] by blast
  then have r: "map_of (tt_rows t) k = Some r" using inv map_of_is_SomeI unfolding tx_inv_def by fast
  then have "row_ok M now r" using inv' by (auto simp: tx_inv_def)
  then show ?thesis unfolding track_def Let_def Some option.case
    by (intro tx_inv_upd[OF inv' r]) (auto simp: row_ok_def)
qed

lemma pollBatch_inv:
  assumes "tx_inv M (c, t)" and "te_maxFeeStroops env = M"
  shows "tx_inv M (c, pollBatch env nowMs clk t)"
  unfolding pollBatch_rows
proof (rule poll_rows_induct[where I = "\<lambda>t. tx_inv M (c, t)"])
  show "fresh_rows (due_rows nowMs t) t" by (rule due_rows_fresh) (use assms(1) in \<open>simp add: tx_inv_def\<close>)
qed (use assms processRow_inv in blast)+

interpretation tx_runs: inv_system "tx_step M" "tx_inv M" for M
proof unfold_locales
  show "tx_inv M st'" if "tx_step M st st'" "tx_inv M st" for st st'
    using that
  proof cases
    case (step_poll c now env clk c' t)
    then have "c \<le> c'" by (meson order_trans)
    then show ?thesis using step_poll that(2) pollBatch_inv tx_inv_later by blast
  qed (use that(2) track_inv in blast)
qed

lemma no_txs_inv: "tx_inv M (c, no_txs)"
  by (simp add: tx_inv_def no_txs_def uniq_hash_def)

section \<open>The wait returns\<close>

definition answered :: "(string \<Rightarrow> int \<Rightarrow> rpc_tx result) \<Rightarrow> string \<Rightarrow> int \<Rightarrow> bool" where
  "answered rpc hash t \<longleftrightarrow> (\<exists>x. rpc hash t = Inr x \<and> x \<noteq> Rpc_not_found)"

lemma wait_loop_over: "deadline \<le> now \<Longrightarrow> wait_loop rpc lat hash p deadline n now = Some (WS_TIMEOUT, now)"
  by (subst wait_loop.simps) simp

lemma wait_loop_again:
  "now < deadline \<Longrightarrow> \<not> answered rpc hash now
   \<Longrightarrow> wait_loop rpc lat hash p deadline n now = wait_loop rpc lat hash p deadline (n + 1) (now + lat n + p)"
  by (subst wait_loop.simps) (auto simp: answered_def Let_def split: sum.split rpc_tx.split)

lemma wait_loop_answer:
  "now < deadline \<Longrightarrow> answered rpc hash now
   \<Longrightarrow> \<exists>st. wait_loop rpc lat hash p deadline n now = Some (st, now + lat n) \<and> st \<noteq> WS_TIMEOUT
         \<and> (st = WS_SUCCESS \<longleftrightarrow> (\<exists>l c. rpc hash now = Inr (Rpc_success l c)))"
  by (subst wait_loop.simps) (auto simp: answered_def Let_def split: sum.split rpc_tx.split)

lemma wait_loop_returns:
  assumes p: "p > 0" and lat: "\<And>n. 0 \<le> lat n \<and> lat n \<le> L"
  shows "\<exists>st t. wait_loop rpc lat hash p deadline n now = Some (st, t) \<and> t \<le> max now (deadline + L + p)
     \<and> (st = WS_SUCCESS \<longrightarrow> (\<exists>u l c. now \<le> u \<and> u < deadline \<and> rpc hash u = Inr (Rpc_success l c)))
     \<and> (st = WS_TIMEOUT \<longrightarrow> deadline \<le> t)"
proof (induction "nat (deadline - now)" arbitrary: n now rule: less_induct)
  case less
  note l = lat[of n]
  show ?case
  proof (cases "now < deadline")
    case False
    then show ?thesis by (simp add: wait_loop_over)
  next
    case True
    show ?thesis
    proof (cases "answered rpc hash now")
      case ans: True
      then show ?thesis using wait_loop_answer[OF True, of rpc hash lat p n] l p True by force
    next
      case ans: False
      have "nat (deadline - (now + lat n + p)) < nat (deadline - now)" using l p True by linarith
      from less[OF this, of "n + 1"] obtain st t where st: "st = WS_TIMEOUT \<longrightarrow> deadline \<le> t"
        "wait_loop rpc lat hash p deadline (n + 1) (now + lat n + p) = Some (st, t)"
        "t \<le> max (now + lat n + p) (deadline + L + p)"
        "st = WS_SUCCESS \<longrightarrow> (\<exists>u l c. now + lat n + p \<le> u \<and> u < deadline \<and> rpc hash u = Inr (Rpc_success l c))"
        by blast
      moreover have "now \<le> u" if "now + lat n + p \<le> u" for u using that l p by linarith
      moreover have "t \<le> max now (deadline + L + p)" using st(3) l p True by linarith
      ultimately show ?thesis unfolding wait_loop_again[OF True ans] by blast
    qed
  qed
qed

lemma wait_loop_catches:
  assumes p: "p > 0" and lat: "\<And>n. 0 \<le> lat n \<and> lat n \<le> L"
    and ans: "\<And>u. s \<le> u \<Longrightarrow> u < deadline \<Longrightarrow> answered rpc hash u"
    and d: "s + L + p \<le> deadline"
  shows "now < s + L + p \<Longrightarrow> wait_loop rpc lat hash p deadline n now = Some (st, t) \<Longrightarrow> st \<noteq> WS_TIMEOUT"
proof (induction "nat (deadline - now)" arbitrary: n now rule: less_induct)
  case less
  note l = lat[of n]
  have now: "now < deadline" using less.prems(1) d by linarith
  show ?case
  proof (cases "answered rpc hash now")
    case True
    then show ?thesis using wait_loop_answer[OF now True, of lat p n] less.prems(2) by auto
  next
    case False
    then have "now < s" using ans[of now] now by linarith
    then have step: "now + lat n + p < s + L + p" using l by linarith
    moreover have "nat (deadline - (now + lat n + p)) < nat (deadline - now)" using l p now by linarith
    ultimately show ?thesis using less(1)[of "now + lat n + p" "n + 1"] less.prems(2) wait_loop_again[OF now False, of lat p n] by metis
  qed
qed

section \<open>Tracking ends\<close>

definition open_ids :: "tx_table \<Rightarrow> nat set" where
  "open_ids t = {k. \<exists>r. map_of (tt_rows t) k = Some r \<and> pt_status r = TX_pending}"

definition overdue :: "int \<Rightarrow> tx_table \<Rightarrow> bool" where
  "overdue T t \<longleftrightarrow> (\<forall>k r. map_of (tt_rows t) k = Some r \<longrightarrow> pt_status r = TX_pending
      \<longrightarrow> pt_maxTrackUntil r \<le> T \<and> pt_nextPollAt r \<le> T)"

lemma open_ids_alt: "open_ids t = {k. map_option pt_status (map_of (tt_rows t) k) = Some TX_pending}"
  by (auto simp: open_ids_def)

lemma finite_open_ids [simp]: "finite (open_ids t)"
  by (rule finite_subset[OF _ finite_dom_map_of[of "tt_rows t"]]) (auto simp: open_ids_def)

lemma late_verdict: "1000 * T \<le> nowMs \<Longrightarrow> pt_maxTrackUntil r \<le> T
    \<Longrightarrow> \<exists>e. verdict env nowMs r = Some (TX_expired, e)"
  by (auto simp: verdict_def Let_def intro: order_trans)

lemma late_due: "1000 * T \<le> nowMs \<Longrightarrow> pt_nextPollAt r \<le> T \<Longrightarrow> pt_nextPollAt r \<le> db_epoch nowMs"
  by (auto simp: db_epoch_def)

lemma overdue_batch:
  assumes wf: "wf_map (tt_rows t)" and od: "overdue T t" and now: "1000 * T \<le> nowMs" and clk: "\<And>k. 1000 * T \<le> clk k"
  shows "open_ids (pollBatch env nowMs clk t) = open_ids t - fst ` set (due_rows nowMs t)
    \<and> fst ` set (due_rows nowMs t) \<subseteq> open_ids t
    \<and> card (fst ` set (due_rows nowMs t)) = min POLL_BATCH_SIZE (card (open_ids t))
    \<and> overdue T (pollBatch env nowMs clk t)"
proof -
  let ?d = "due_rows nowMs t" let ?t = "pollBatch env nowMs clk t"
  have fr: "fresh_rows ?d t" using due_rows_fresh[OF wf] .
  have mem: "map_of (tt_rows t) k = Some r \<and> pt_status r = TX_pending" if "(k, r) \<in> set ?d" for k r
    using fr due_rows_due[OF that] that by (auto simp: fresh_rows_def due_def)
  have inn: "map_option pt_status (map_of (tt_rows ?t) k) = Some TX_expired" if "(k, r) \<in> set ?d" for k r
  proof -
    have "pt_maxTrackUntil r \<le> T" using mem[OF that] od unfolding overdue_def by blast
    then obtain e where "verdict env (clk k) r = Some (TX_expired, e)" using late_verdict[OF clk] by blast
    then show ?thesis using poll_rows_inside[OF fr that, of env clk] by (simp add: pollBatch_rows)
  qed
  have out: "map_of (tt_rows ?t) k = map_of (tt_rows t) k" if "k \<notin> fst ` set ?d" for k
    using poll_rows_outside[OF that] by (simp add: pollBatch_rows)
  have opn: "open_ids ?t = open_ids t - fst ` set ?d"
  proof (rule set_eqI)
    show "k \<in> open_ids ?t \<longleftrightarrow> k \<in> open_ids t - fst ` set ?d" for k
      using inn[of k] out[of k] by (cases "k \<in> fst ` set ?d") (auto simp: open_ids_alt)
  qed
  have all: "filter (\<lambda>(k, r). due nowMs r) (tt_rows t) = filter (\<lambda>(k, r). pt_status r = TX_pending) (tt_rows t)"
  proof (rule filter_cong[OF refl], clarify)
    fix k r assume "(k, r) \<in> set (tt_rows t)"
    then have "pt_status r = TX_pending \<Longrightarrow> pt_nextPollAt r \<le> T"
      using od map_of_is_SomeI[OF wf] unfolding overdue_def by blast
    then show "due nowMs r \<longleftrightarrow> pt_status r = TX_pending" using late_due[OF now] by (auto simp: due_def)
  qed
  have ids: "open_ids t = fst ` set (filter (\<lambda>(k, r). pt_status r = TX_pending) (tt_rows t))"
  proof (rule set_eqI)
    fix k
    have "map_of (tt_rows t) k = Some r \<longleftrightarrow> (k, r) \<in> set (tt_rows t)" for r using wf_map_mem[OF wf] by metis
    then show "k \<in> open_ids t \<longleftrightarrow> k \<in> fst ` set (filter (\<lambda>(k, r). pt_status r = TX_pending) (tt_rows t))"
      unfolding open_ids_def by (auto simp: image_iff)
  qed
  have "card (open_ids t) = length (filter (\<lambda>(k, r). pt_status r = TX_pending) (tt_rows t))"
    unfolding ids list.set_map[symmetric] by (subst distinct_card) (use wf in \<open>auto simp: distinct_map_filter\<close>)
  moreover have "card (fst ` set ?d) = length ?d"
    unfolding list.set_map[symmetric] by (subst distinct_card) (use fr in \<open>auto simp: fresh_rows_def\<close>)
  moreover have "length ?d = min POLL_BATCH_SIZE (length (filter (\<lambda>(k, r). pt_status r = TX_pending) (tt_rows t)))"
    unfolding due_rows_def all by (simp add: min.commute)
  moreover have "overdue T ?t"
    using od out opn unfolding overdue_def open_ids_def by (metis (mono_tags, lifting) DiffE mem_Collect_eq)
  moreover have "fst ` set ?d \<subseteq> open_ids t" using mem by (force simp: open_ids_def)
  ultimately show ?thesis using opn by simp
qed

definition batches :: "(tx_env \<times> int \<times> (nat \<Rightarrow> int)) list \<Rightarrow> tx_table \<Rightarrow> tx_table" where
  "batches bs t = fold (\<lambda>(env, now, clk) t. pollBatch env now clk t) bs t"

lemma pollBatch_wf: "wf_map (tt_rows t) \<Longrightarrow> wf_map (tt_rows (pollBatch env now clk t))"
  unfolding pollBatch_rows
proof (rule poll_rows_induct[where I = "\<lambda>t. wf_map (tt_rows t)"])
  show "wf_map (tt_rows (fst (processRow env (clk k) k r t)))" if "wf_map (tt_rows t)" for k r t
    using processRow_effect[of env "clk k" r k t] that by auto
qed (auto simp: due_rows_fresh)

lemma overdue_batches:
  "wf_map (tt_rows t) \<Longrightarrow> overdue T t \<Longrightarrow> \<forall>(env, now, clk) \<in> set bs. 1000 * T \<le> now \<and> (\<forall>k. 1000 * T \<le> clk k)
   \<Longrightarrow> card (open_ids (batches bs t)) = card (open_ids t) - POLL_BATCH_SIZE * length bs"
proof (induction bs arbitrary: t)
  case (Cons b bs)
  obtain env now clk where b: "b = (env, now, clk)" by (metis prod.exhaust)
  let ?t = "pollBatch env now clk t"
  have o: "open_ids ?t = open_ids t - fst ` set (due_rows now t)" "fst ` set (due_rows now t) \<subseteq> open_ids t"
    "card (fst ` set (due_rows now t)) = min POLL_BATCH_SIZE (card (open_ids t))" "overdue T ?t"
    using overdue_batch[OF Cons.prems(1,2), of now clk env] Cons.prems(3) b by auto
  then have "card (open_ids ?t) = card (open_ids t) - min POLL_BATCH_SIZE (card (open_ids t))"
    by (metis card_Diff_subset finite_open_ids finite_subset)
  moreover have "card (open_ids (batches bs ?t)) = card (open_ids ?t) - POLL_BATCH_SIZE * length bs"
    by (rule Cons.IH) (use Cons.prems b o pollBatch_wf in auto)
  ultimately show ?case by (simp add: b batches_def algebra_simps)
qed (simp add: batches_def)

section \<open>Properties\<close>

text \<open>C23. The blocking wait always returns: with a positive poll interval and lookups that take at
  most \<open>L\<close> milliseconds it ends at most \<open>L\<close> plus one interval after its deadline, whatever the node
  answers. \<open>SUCCESS\<close> is only reported for a lookup before the deadline that the node answered so,
  and when the node has had an answer since \<open>s\<close>, early enough for one more poll, the wait does not
  time out.
\<close>

theorem wait_returns:
  assumes "pollIntervalMs > 0" and "timeoutMs \<ge> 0" and "\<And>n. 0 \<le> lat n \<and> lat n \<le> L"
  shows "\<exists>st d. waitForConfirmation rpc lat hash submittedAt pollIntervalMs timeoutMs now = Some (st, d)
     \<and> d \<le> (now - submittedAt) + timeoutMs + L + pollIntervalMs
     \<and> (st = WS_SUCCESS \<longrightarrow> (\<exists>u l c. now \<le> u \<and> u < now + timeoutMs \<and> rpc hash u = Inr (Rpc_success l c)))
     \<and> (\<forall>s. now \<le> s \<and> s + L + pollIntervalMs \<le> now + timeoutMs
          \<and> (\<forall>u. s \<le> u \<and> u < now + timeoutMs \<longrightarrow> answered rpc hash u) \<longrightarrow> st \<noteq> WS_TIMEOUT)"
proof -
  have L: "0 \<le> L" using assms(3)[of 0] by linarith
  obtain st t where w: "wait_loop rpc lat hash pollIntervalMs (now + timeoutMs) 0 now = Some (st, t)"
    "t \<le> max now (now + timeoutMs + L + pollIntervalMs)"
    "st = WS_SUCCESS \<longrightarrow> (\<exists>u l c. now \<le> u \<and> u < now + timeoutMs \<and> rpc hash u = Inr (Rpc_success l c))"
    using wait_loop_returns[of pollIntervalMs lat L rpc hash "now + timeoutMs" 0 now] assms(1,3) by blast
  have "st \<noteq> WS_TIMEOUT" if "now \<le> s" "s + L + pollIntervalMs \<le> now + timeoutMs"
    "\<forall>u. s \<le> u \<and> u < now + timeoutMs \<longrightarrow> answered rpc hash u" for s
    using wait_loop_catches[of pollIntervalMs lat L s "now + timeoutMs" rpc hash now 0 st t] assms(1,3) that w(1) L by force
  with w L show ?thesis using assms(1,2) unfolding waitForConfirmation_def by auto
qed

theorem wait_returns_witness:
  "\<exists>st d. waitForConfirmation (\<lambda>h t. if t < 7000 then Inr Rpc_not_found else Inr (Rpc_success 41 7)) (\<lambda>_. 250)
       ''AB'' 0 3000 120000 0 = Some (st, d)
     \<and> d \<le> (0 - 0) + 120000 + 250 + 3000 \<and> st \<noteq> WS_TIMEOUT"
  using wait_returns[of 3000 120000 "\<lambda>_. 250" 250
      "\<lambda>h t. if t < 7000 then Inr Rpc_not_found else Inr (Rpc_success 41 7)" "''AB''" 0 0]
  by (auto simp: answered_def dest!: spec[where x = 7000])


definition quiet_env :: "int \<Rightarrow> tx_env" where
  "quiet_env cap = \<lparr> te_getTransaction = (\<lambda>h t. Inr Rpc_not_found), te_signerConfigured = True, te_feeSource = True,
     te_feeStats = (\<lambda>p. Inr ''700''), te_BASE_FEE = ''100'', te_maxFeeStroops = cap,
     te_bump = (\<lambda>x fee. Inr (x @ fee)), te_submit = (\<lambda>h. Inr Sent_PENDING) \<rparr>"


text \<open>C20. One poll batch does exactly what the network says about the rows it takes. It takes the due
  pending rows, at most fifty, oldest first; a row past its bound expires without a lookup, a row
  found applied is confirmed, a row found failed is failed unless a fee bump went out for it, and
  all others stay pending. Each row settled that way produces its one event, in the order of the
  rows, and no other row of the table changes at all.
\<close>

theorem batch_exact:
  assumes "wf_map (tt_rows t)"
  shows "tt_events (pollBatch env nowMs clk t)
           = tt_events t @ List.map_filter (\<lambda>(k, r). map_option snd (verdict env (clk k) r)) (due_rows nowMs t)
    \<and> (\<forall>k r. (k, r) \<in> set (due_rows nowMs t) \<longrightarrow>
         map_of (tt_rows t) k = Some r \<and> due nowMs r \<and>
         (\<exists>r'. map_of (tt_rows (pollBatch env nowMs clk t)) k = Some r'
            \<and> pt_status r' = (case verdict env (clk k) r of Some (s, e) \<Rightarrow> s | None \<Rightarrow> TX_pending)))
    \<and> (\<forall>k. k \<notin> fst ` set (due_rows nowMs t) \<longrightarrow>
         map_of (tt_rows (pollBatch env nowMs clk t)) k = map_of (tt_rows t) k)"
proof (intro conjI allI impI)
  have fr: "fresh_rows (due_rows nowMs t) t" using due_rows_fresh[OF assms] .
  show "tt_events (pollBatch env nowMs clk t)
      = tt_events t @ List.map_filter (\<lambda>(k, r). map_option snd (verdict env (clk k) r)) (due_rows nowMs t)"
    by (simp add: pollBatch_rows poll_rows_events)
  fix k
  show "map_of (tt_rows (pollBatch env nowMs clk t)) k = map_of (tt_rows t) k" if "k \<notin> fst ` set (due_rows nowMs t)"
    using poll_rows_outside[OF that] by (simp add: pollBatch_rows)
  fix r assume m: "(k, r) \<in> set (due_rows nowMs t)"
  show d: "due nowMs r" using due_rows_due[OF m] .
  show "map_of (tt_rows t) k = Some r" using fr m by (auto simp: fresh_rows_def)
  show "\<exists>r'. map_of (tt_rows (pollBatch env nowMs clk t)) k = Some r'
      \<and> pt_status r' = (case verdict env (clk k) r of Some (s, e) \<Rightarrow> s | None \<Rightarrow> TX_pending)"
    using poll_rows_inside[OF fr m, of env clk] d by (auto simp: pollBatch_rows due_def cong: option.case_cong)
qed

theorem batch_exact_witness:
  "tt_events (pollBatch (quiet_env 1000) 121000 (\<lambda>_. 121000) (track 0 ''h1'' ''x1'' None None 120 no_txs))
     = [TxExpired ''h1'' None 121000]"
proof -
  have "wf_map (tt_rows (track 0 ''h1'' ''x1'' None None 120 no_txs))" by code_simp
  note conjunct1[OF batch_exact[OF this, of "quiet_env 1000" 121000 "\<lambda>_. 121000"]]
  also have "tt_events (track 0 ''h1'' ''x1'' None None 120 no_txs)
      @ List.map_filter (\<lambda>(k, r). map_option snd (verdict (quiet_env 1000) 121000 r))
          (due_rows 121000 (track 0 ''h1'' ''x1'' None None 120 no_txs)) = [TxExpired ''h1'' None 121000]"
    by (simp add: track_def no_txs_def hash_row_def due_rows_def due_def db_epoch_def POLL_BATCH_SIZE_def map_filter_simps
        verdict_def Let_def)
  finally show ?thesis .
qed

text \<open>C33. Fee escalation is bounded. Whatever is tracked, polled and answered, under the ceiling \<open>M\<close>: a
  row is bumped at most three times, the fee of its latest bump is not above \<open>M\<close>, its next poll is never
  scheduled more than five minutes past its time bound, and no two rows follow the same hash.
\<close>

theorem fee_bumps_bounded:
  assumes "(tx_step M)\<^sup>*\<^sup>* (c0, no_txs) (c, t)" and "map_of (tt_rows t) k = Some r"
  shows "pt_feeBumpCount r \<le> 3
    \<and> (\<forall>fee v. pt_lastFeeStroops r = Some fee \<longrightarrow> parseInt10 fee = Some v \<longrightarrow> v \<le> M)
    \<and> pt_nextPollAt r \<le> max (pt_maxTrackUntil r + 300) (c div 1000)
    \<and> (\<forall>k' r'. map_of (tt_rows t) k' = Some r' \<and> pt_txHash r' = pt_txHash r \<longrightarrow> k' = k)"
proof -
  have inv: "tx_inv M (c, t)" using tx_runs.run_inv[OF assms(1) no_txs_inv] .
  then have "row_ok M c r" using assms(2) unfolding tx_inv_def by blast
  moreover have "k' = k" if "map_of (tt_rows t) k' = Some r'" "pt_txHash r' = pt_txHash r" for k' r'
    using inv that assms(2) unfolding tx_inv_def uniq_hash_def by blast
  ultimately show ?thesis unfolding row_ok_def by blast
qed

theorem fee_bumps_bounded_witness:
  "\<exists>r. map_of (tt_rows (pollBatch (quiet_env 1000) 70000 (\<lambda>_. 70000) (track 0 ''h1'' ''x1'' None None 120 no_txs))) 1 = Some r
     \<and> pt_lastFeeStroops r = Some ''700'' \<and> pt_feeBumpCount r = 1 \<and> (\<forall>v. parseInt10 ''700'' = Some v \<longrightarrow> v \<le> 1000)"
proof -
  let ?t = "track 0 ''h1'' ''x1'' None None 120 no_txs" let ?t2 = "pollBatch (quiet_env 1000) 70000 (\<lambda>_. 70000) ?t"
  have "tx_step 1000 (0, no_txs) (0, ?t)" by (rule step_track) simp
  moreover have "tx_step 1000 (0, ?t) (70000, ?t2)" by (rule step_poll) (simp_all add: quiet_env_def)
  ultimately have run: "(tx_step 1000)\<^sup>*\<^sup>* (0, no_txs) (70000, ?t2)" by auto
  have "map_option (\<lambda>r. (pt_lastFeeStroops r, pt_feeBumpCount r)) (map_of (tt_rows ?t2) 1) = Some (Some ''700'', 1)"
    by code_simp
  then obtain r where r: "map_of (tt_rows ?t2) 1 = Some r" "pt_lastFeeStroops r = Some ''700''" "pt_feeBumpCount r = 1"
    by auto
  show ?thesis using fee_bumps_bounded[OF run r(1)] r by blast
qed

section \<open>A bump forgets the envelope it wraps\<close>

text \<open>
  After a fee bump the row follows the new hash only. If the network then applies the original
  envelope, the poll never looks it up and the row expires: a transaction that succeeded is reported
  as expired.
\<close>

lemma bump_loses_original:
  "tt_events (batches
     [(quiet_env 1000, 70000, \<lambda>_. 70000),
      ((quiet_env 1000)\<lparr> te_getTransaction := (\<lambda>h t. if h = ''h1'' then Inr (Rpc_success 41 71) else Inr Rpc_not_found),
         te_feeSource := False \<rparr>, 76000, \<lambda>_. 76000),
      (quiet_env 1000, 121000, \<lambda>_. 121000)]
     (track 0 ''h1'' ''x1'' None None 120 no_txs)) = [TxExpired ''x1700'' None 121000]"
  by code_simp

end
