(* ===== verification/Js_Number.thy ===== *)
theory Js_Number
  imports Js_Text Amounts
begin

text \<open>
  Reading JavaScript numbers from text: \<open>Number(text)\<close> and \<open>parseFloat(text)\<close>. A finite result is the
  double nearest to the decimal written (\<open>to_double\<close>, exact in the normal range).
\<close>

datatype js_number = Num rat | Pos_Infinity | Neg_Infinity | NaN

definition isFinite :: "js_number \<Rightarrow> bool" where
  "isFinite x = (case x of Num _ \<Rightarrow> True | _ \<Rightarrow> False)"

definition to_number :: "rat \<Rightarrow> js_number" where
  "to_number x =
     (if x \<ge> 2 ^ 1024 - 2 ^ 970 then Pos_Infinity
      else if x \<le> - (2 ^ 1024 - 2 ^ 970) then Neg_Infinity else Num (to_double x))"

text \<open>The longest prefix that is an unsigned decimal literal: its value and the rest of the text.\<close>

definition scan_exponent :: "string \<Rightarrow> int \<times> string" where
  "scan_exponent s =
     (let body = (if s \<noteq> [] \<and> hd s \<in> set ''eE'' then tl s else []);
          neg = (body \<noteq> [] \<and> hd body = CHR ''-'');
          ds = (if body \<noteq> [] \<and> hd body \<in> set ''+-'' then tl body else body);
          digits = takeWhile is_digit ds
      in if digits = [] then (0, s)
         else (let v = int (the (parse_digits 10 0 digits)) in (if neg then - v else v, dropWhile is_digit ds)))"

definition scan_decimal :: "string \<Rightarrow> (rat \<times> string) option" where
  "scan_decimal s =
     (let whole = takeWhile is_digit s;
          r = dropWhile is_digit s;
          dot = (r \<noteq> [] \<and> hd r = CHR ''.'');
          frac = (if dot then takeWhile is_digit (tl r) else []);
          r2 = (if dot then dropWhile is_digit (tl r) else r);
          (e, r3) = scan_exponent r2
      in if whole = [] \<and> frac = [] then None
         else Some (of_nat (the (parse_digits 10 0 (whole @ frac))) / 10 ^ length frac * 10 powi e, r3))"

definition signed_text :: "string \<Rightarrow> bool \<times> string" where
  "signed_text s = (s \<noteq> [] \<and> hd s = CHR ''-'', if s \<noteq> [] \<and> hd s \<in> set ''+-'' then tl s else s)"

definition parseFloat :: "string \<Rightarrow> js_number" where
  "parseFloat s =
     (let (neg, t) = signed_text (dropWhile is_js_space s)
      in if startsWith ''Infinity'' t then (if neg then Neg_Infinity else Pos_Infinity)
         else case scan_decimal t of
                None \<Rightarrow> NaN
              | Some (v, _) \<Rightarrow> to_number (if neg then - v else v))"

definition js_Number :: "string \<Rightarrow> js_number" where
  "js_Number s =
     (let t = js_trim s; (neg, u) = signed_text t
      in if t = [] then Num 0
         else if hd t = CHR ''0'' \<and> tl t \<noteq> [] \<and> hd (tl t) \<in> set ''xXoObB''
         then (case BigInt t of None \<Rightarrow> NaN | Some n \<Rightarrow> to_number (of_int n))
         else if u = ''Infinity'' then (if neg then Neg_Infinity else Pos_Infinity)
         else (case scan_decimal u of
                 Some (v, []) \<Rightarrow> to_number (if neg then - v else v)
               | _ \<Rightarrow> NaN))"

end
