(* ===== verification/Chain_Sync.thy ===== *)
theory Chain_Sync
  imports Intents_Service_Props Solvers Js_Number
begin

text \<open>
  Keeping the backend in step with the chain: the reconciliation worker
  (\<^verbatim>\<open>src/soroban/reconciler.service.ts\<close>) over the intents service, the batched contract reads of
  \<^verbatim>\<open>src/soroban/contracts/settlement.client.ts\<close>, and the event ingestion loop
  (\<^verbatim>\<open>src/soroban/event-ingestion.service.ts\<close>) over the solver records. What the contract reports for an
  intent and the events the node returns are parameters. The lemmas show that a reconciliation cycle
  is a sequence of ordinary service transitions, that it changes a row only towards what the chain
  reports, that a dry run changes nothing, and that a redelivered event is skipped.
\<close>

section \<open>What the contract reports\<close>

datatype OnChainIntentState =
  OC_open | OC_accepted | OC_filled | OC_cancelled | OC_expired | OC_slashed | OC_unknown

fun oc_name :: "OnChainIntentState \<Rightarrow> string" where
  "oc_name OC_open = ''open''"
| "oc_name OC_accepted = ''accepted''"
| "oc_name OC_filled = ''filled''"
| "oc_name OC_cancelled = ''cancelled''"
| "oc_name OC_expired = ''expired''"
| "oc_name OC_slashed = ''slashed''"
| "oc_name OC_unknown = ''unknown''"

definition mapContractState :: "string \<Rightarrow> OnChainIntentState" where
  "mapContractState raw =
     (let s = toLowerCase raw
      in if s = ''open'' then OC_open
         else if s = ''accepted'' then OC_accepted
         else if s = ''filled'' then OC_filled
         else if s = ''cancelled'' then OC_cancelled
         else if s = ''expired'' then OC_expired
         else if s = ''slashed'' then OC_slashed
         else OC_unknown)"

record OnChainIntent =
  oc_intentId :: string
  oc_user :: string
  oc_solver :: "string option"
  oc_state :: OnChainIntentState
  oc_srcAmount :: int
  oc_minDstAmount :: int
  oc_fillAmount :: "int option"
  oc_deadline :: int

text \<open>
  The batched read. A batch of size zero or less removes nothing from the queue, so the loop is a
  partial function; \<open>None\<close> is not returning.
\<close>

partial_function (option) read_batches :: "(string \<Rightarrow> string + OnChainIntent) \<Rightarrow> int \<Rightarrow> string list
    \<Rightarrow> (string, string + OnChainIntent) jsmap \<Rightarrow> (string, string + OnChainIntent) jsmap option" where
  "read_batches getIntent concurrency queue results =
     (if queue = [] then Some results
      else let batch = take (nat concurrency) queue
           in read_batches getIntent concurrency (drop (nat concurrency) queue)
                (fold (\<lambda>k m. AList.update k (getIntent k) m) batch results))"

declare read_batches.simps [code]

definition getManyIntents :: "(string \<Rightarrow> string + OnChainIntent) \<Rightarrow> string list \<Rightarrow> int
    \<Rightarrow> (string, string + OnChainIntent) jsmap option" where
  "getManyIntents getIntent intentIds concurrency = read_batches getIntent concurrency intentIds []"

section \<open>The reconciler\<close>

datatype DivergenceClass = Dv_missing_locally | Dv_state_mismatch | Dv_solver_mismatch | Dv_amount_mismatch

record DivergenceReport =
  dr_intentId :: string
  dr_class :: DivergenceClass
  dr_localState :: intent_state
  dr_onChainState :: OnChainIntentState
  dr_localSolver :: "string option"
  dr_onChainSolver :: "string option"
  dr_localFillAmount :: "string option"
  dr_onChainFillAmount :: "string option"
  dr_repairedAt :: "int option"
  dr_dryRun :: bool

record ReconcileResult =
  rr_checkedCount :: nat
  rr_divergences :: "DivergenceReport list"
  rr_repairedCount :: nat
  rr_skippedCount :: nat
  rr_dryRun :: bool

definition DEFAULT_STALE_SECONDS :: int where "DEFAULT_STALE_SECONDS = 300"

text \<open>\<open>None\<close> is the \<open>NaN\<close> of an unreadable setting; no age is above it.\<close>

definition staleSeconds :: "string option \<Rightarrow> int option" where
  "staleSeconds setting = parseInt10 (coalesce setting (toString DEFAULT_STALE_SECONDS))"

record reconciler =
  rk_configured :: bool
  rk_staleSeconds :: "int option"
  rk_dryRun :: bool
  rk_lastIntentUpdateById :: "(string, int) jsmap"

definition markIntentUpdated :: "int \<Rightarrow> string \<Rightarrow> reconciler \<Rightarrow> reconciler" where
  "markIntentUpdated nowMs iid rk =
     rk\<lparr> rk_lastIntentUpdateById := AList.update iid (nowMs div 1000) (rk_lastIntentUpdateById rk) \<rparr>"

text \<open>An absent fill amount of a stored intent is \<open>undefined\<close>, which differs from \<open>null\<close>.\<close>

definition classifyDivergence :: "intent option \<Rightarrow> OnChainIntent \<Rightarrow> DivergenceClass option" where
  "classifyDivergence loc onChain =
     (case loc of
        None \<Rightarrow> Some Dv_missing_locally
      | Some i \<Rightarrow>
          if truthy (oc_solver onChain) \<and> truthy (i_solver i)
             \<and> toLowerCase (the (i_solver i)) \<noteq> toLowerCase (the (oc_solver onChain)) then Some Dv_solver_mismatch
          else if state_name (i_state i) \<noteq> oc_name (oc_state onChain) \<and> oc_state onChain \<noteq> OC_unknown then Some Dv_state_mismatch
          else if oc_fillAmount onChain \<noteq> None \<and> i_fillAmount i \<noteq> map_option toString (oc_fillAmount onChain)
          then Some Dv_amount_mismatch
          else None)"

definition repair_ctx :: "string \<Rightarrow> (string, meta_value) jsmap \<Rightarrow> partial_ctx" where
  "repair_ctx reason metadata =
     no_ctx\<lparr> pc_actor := Some ''reconciler'', pc_reason := Some reason, pc_metadata := Some metadata \<rparr>"

definition repair_patch :: "int \<Rightarrow> OnChainIntent \<Rightarrow> fill_patch" where
  "repair_patch nowSec onChain =
     \<lparr> fpatch_filledAt = Some (Some nowSec),
       fpatch_fillAmount = Some (Some (coalesce (map_option toString (oc_fillAmount onChain)) ''0'')),
       fpatch_feeAmount = None, fpatch_txHash = None \<rparr>"

definition won :: "svc \<times> intent option result \<Rightarrow> svc \<times> bool result" where
  "won r = (fst r, case snd r of Inl e \<Rightarrow> Inl e | Inr x \<Rightarrow> Inr (x \<noteq> None))"

definition applyRepair :: "svc_env \<Rightarrow> int \<Rightarrow> DivergenceClass \<Rightarrow> string \<Rightarrow> OnChainIntent \<Rightarrow> svc \<Rightarrow> svc \<times> bool result" where
  "applyRepair env nowMs cls iid onChain s =
     (let now = nowMs div 1000
      in case cls of
           Dv_state_mismatch \<Rightarrow>
             (case oc_state onChain of
                OC_filled \<Rightarrow>
                  won (svc_fillIfAccepted env iid (coalesce (oc_solver onChain) []) (repair_patch now onChain) now
                    (repair_ctx ''reconciler: state_mismatch repair''
                       [(''onChainState'', MStr (oc_name (oc_state onChain))), (''onChainSolver'', meta_opt (oc_solver onChain))]) s)
              | OC_cancelled \<Rightarrow>
                  won (svc_cancelIfOpen env nowMs iid
                    (repair_ctx ''reconciler: state_mismatch repair'' [(''onChainState'', MStr (oc_name (oc_state onChain)))]) s)
              | _ \<Rightarrow> (s, Inr False))
         | Dv_solver_mismatch \<Rightarrow>
             won (svc_acceptIfOpen env iid (coalesce (oc_solver onChain) []) now
               (repair_ctx ''reconciler: solver_mismatch repair'' [(''onChainSolver'', meta_opt (oc_solver onChain))]) s)
         | Dv_missing_locally \<Rightarrow> (s, Inr False)
         | Dv_amount_mismatch \<Rightarrow> (s, Inr False))"

definition report :: "bool \<Rightarrow> intent \<Rightarrow> OnChainIntent \<Rightarrow> DivergenceClass \<Rightarrow> DivergenceReport" where
  "report dry i onChain cls =
     \<lparr> dr_intentId = i_intentId i, dr_class = cls, dr_localState = i_state i, dr_onChainState = oc_state onChain,
       dr_localSolver = i_solver i, dr_onChainSolver = oc_solver onChain, dr_localFillAmount = i_fillAmount i,
       dr_onChainFillAmount = map_option toString (oc_fillAmount onChain), dr_repairedAt = None, dr_dryRun = dry \<rparr>"

text \<open>The body of the cycle. A service call that throws ends the cycle with that error.\<close>

fun reconcile_each :: "svc_env \<Rightarrow> int \<Rightarrow> bool \<Rightarrow> (string \<Rightarrow> OnChainIntent option) \<Rightarrow> intent list \<Rightarrow> ReconcileResult \<Rightarrow> svc
    \<Rightarrow> svc \<times> ReconcileResult result" where
  "reconcile_each env nowMs dry chain [] acc s = (s, Inr acc)"
| "reconcile_each env nowMs dry chain (i # is) acc s =
     (case chain (i_intentId i) of
        None \<Rightarrow> reconcile_each env nowMs dry chain is (acc\<lparr> rr_skippedCount := rr_skippedCount acc + 1 \<rparr>) s
      | Some onChain \<Rightarrow>
          (case classifyDivergence (Some i) onChain of
             None \<Rightarrow> reconcile_each env nowMs dry chain is acc s
           | Some cls \<Rightarrow>
               (let rep = report dry i onChain cls;
                    acc1 = acc\<lparr> rr_divergences := rr_divergences acc @ [rep] \<rparr>
                in if dry \<or> cls = Dv_amount_mismatch then reconcile_each env nowMs dry chain is acc1 s
                   else (case applyRepair env nowMs cls (i_intentId i) onChain s of
                           (s1, Inl e) \<Rightarrow> (s1, Inl e)
                         | (s1, Inr repaired) \<Rightarrow>
                             reconcile_each env nowMs dry chain is
                               (if repaired
                                then acc\<lparr> rr_divergences := rr_divergences acc @ [rep\<lparr> dr_repairedAt := Some nowMs \<rparr>],
                                          rr_repairedCount := rr_repairedCount acc + 1 \<rparr>
                                else acc1) s1))))"

definition stale :: "reconciler \<Rightarrow> int \<Rightarrow> intent \<Rightarrow> bool" where
  "stale rk now i =
     (case rk_staleSeconds rk of
        None \<Rightarrow> False
      | Some n \<Rightarrow> now - coalesce (map_of (rk_lastIntentUpdateById rk) (i_intentId i)) (i_createdAt i) > n)"

definition candidates :: "reconciler \<Rightarrow> int \<Rightarrow> svc \<Rightarrow> intent list" where
  "candidates rk now s =
     filter (stale rk now) (findByState (s_repo s) St_open @ findByState (s_repo s) St_accepted)"

definition chain_reads :: "(string, string + OnChainIntent) jsmap \<Rightarrow> string \<Rightarrow> OnChainIntent option" where
  "chain_reads m k = (case map_of m k of Some (Inr c) \<Rightarrow> Some c | _ \<Rightarrow> None)"

text \<open>One cycle at one time; \<open>None\<close> when the batched read never returns.\<close>

definition reconcile :: "svc_env \<Rightarrow> reconciler \<Rightarrow> (string \<Rightarrow> string + OnChainIntent) \<Rightarrow> bool option \<Rightarrow> int option \<Rightarrow> int \<Rightarrow> svc
    \<Rightarrow> (svc \<times> ReconcileResult result) option" where
  "reconcile env rk getIntent dryRun concurrency nowMs s =
     (let dry = coalesce dryRun (rk_dryRun rk);
          cs = candidates rk (nowMs div 1000) s;
          none = \<lparr> rr_checkedCount = 0, rr_divergences = [], rr_repairedCount = 0, rr_skippedCount = 0, rr_dryRun = dry \<rparr>
      in if \<not> rk_configured rk \<or> cs = [] then Some (s, Inr none)
         else map_option (\<lambda>m. reconcile_each env nowMs dry (chain_reads m) cs (none\<lparr> rr_checkedCount := length cs \<rparr>) s)
                (getManyIntents getIntent (map i_intentId cs) (coalesce concurrency 5)))"

section \<open>Event ingestion\<close>

definition MAX_TRACKED_KEYS :: nat where "MAX_TRACKED_KEYS = 10000"
definition STALE_INTENT_THRESHOLD_SECONDS :: int where "STALE_INTENT_THRESHOLD_SECONDS = 300"

text \<open>A topic after \<open>scValToNative\<close>: text, a bigint, or anything else (also an undecodable value).\<close>

datatype topic_value = TV_string string | TV_bigint int | TV_other

record chain_event =
  ev_ledger :: int
  ev_id :: string
  ev_topic :: "topic_value list"

definition parseEventIndex :: "string \<Rightarrow> rat" where
  "parseEventIndex eventId = (case js_Number (last (js_split CHR ''-'' eventId)) of Num n \<Rightarrow> n | _ \<Rightarrow> 0)"

text \<open>
  The key is the text \<open>ledger:index\<close>. Printing is injective on finite numbers, so the pair stands for
  it.
\<close>

definition buildDedupeKey :: "chain_event \<Rightarrow> int \<times> rat" where
  "buildDedupeKey e = (ev_ledger e, parseEventIndex (ev_id e))"

record ingestion =
  in_seenKeys :: "(int \<times> rat) list"
  in_lastIntentUpdateById :: "(string, int) jsmap"
  in_nextStartLedger :: "int option"
  in_processedCount :: nat
  in_duplicateCount :: nat
  in_newestIngestedLedger :: "int option"
  in_solvers :: solvers

definition topic_string :: "topic_value list \<Rightarrow> nat \<Rightarrow> string option" where
  "topic_string ts k = (if k < length ts then (case ts ! k of TV_string x \<Rightarrow> Some x | _ \<Rightarrow> None) else None)"

definition topic_amount :: "topic_value list \<Rightarrow> nat \<Rightarrow> string option" where
  "topic_amount ts k =
     (if k < length ts then (case ts ! k of TV_bigint n \<Rightarrow> Some (toString n) | TV_string x \<Rightarrow> Some x | TV_other \<Rightarrow> None) else None)"

text \<open>A failing confirmation is logged; the records are as \<open>confirmPenalty\<close> left them.\<close>

definition handleSolverSlashed :: "topic_value list \<Rightarrow> solvers \<Rightarrow> solvers" where
  "handleSolverSlashed topic v =
     (let solverAddress = topic_string topic 1; intentId = topic_string topic 2; slashAmount = topic_amount topic 3
      in if \<not> truthy solverAddress \<or> \<not> truthy intentId \<or> \<not> truthy slashAmount then v
         else fst (confirmPenalty (the intentId) (the slashAmount) v))"

text \<open>The timing metric of a confirmed fill changes no state and is left out.\<close>

definition processEvent :: "int \<Rightarrow> chain_event \<Rightarrow> ingestion \<Rightarrow> ingestion" where
  "processEvent nowMs e g =
     (let eventName = topic_string (ev_topic e) 0;
          g1 = (if eventName = Some ''solver_slashed''
                then g\<lparr> in_solvers := handleSolverSlashed (ev_topic e) (in_solvers g) \<rparr> else g);
          intentId = topic_string (ev_topic e) 1
      in if truthy intentId
         then g1\<lparr> in_lastIntentUpdateById := AList.update (the intentId) (nowMs div 1000) (in_lastIntentUpdateById g1) \<rparr>
         else g1)"

definition markSeen :: "int \<times> rat \<Rightarrow> ingestion \<Rightarrow> ingestion" where
  "markSeen k g =
     (let ks = (if k \<in> set (in_seenKeys g) then in_seenKeys g else in_seenKeys g @ [k])
      in g\<lparr> in_seenKeys := (if length ks > MAX_TRACKED_KEYS then tl ks else ks) \<rparr>)"

definition ingest :: "int \<Rightarrow> chain_event \<Rightarrow> ingestion \<Rightarrow> ingestion \<times> bool" where
  "ingest nowMs e g =
     (let k = buildDedupeKey e
      in if k \<in> set (in_seenKeys g) then (g\<lparr> in_duplicateCount := in_duplicateCount g + 1 \<rparr>, False)
         else (let g1 = processEvent nowMs e (markSeen k g)
               in (g1\<lparr> in_processedCount := in_processedCount g1 + 1,
                       in_newestIngestedLedger :=
                         (case in_newestIngestedLedger g1 of
                            None \<Rightarrow> Some (ev_ledger e)
                          | Some n \<Rightarrow> if ev_ledger e > n then Some (ev_ledger e) else Some n) \<rparr>, True)))"

definition ingest_all :: "int \<Rightarrow> chain_event list \<Rightarrow> ingestion \<Rightarrow> ingestion" where
  "ingest_all nowMs es g = fold (\<lambda>e g. fst (ingest nowMs e g)) es g"

text \<open>
  \<open>latest\<close> is the node's latest ledger and \<open>getEvents from\<close> the page of events it returns with its
  own latest ledger. An RPC error leaves the state alone.
\<close>

definition poll :: "bool \<Rightarrow> int result \<Rightarrow> (int \<Rightarrow> (chain_event list \<times> int) result) \<Rightarrow> int \<Rightarrow> ingestion \<Rightarrow> ingestion" where
  "poll configured latest getEvents nowMs g =
     (if \<not> configured then g
      else case (case in_nextStartLedger g of Some n \<Rightarrow> Inr n | None \<Rightarrow> latest) of
             Inl e \<Rightarrow> g
           | Inr startLedger \<Rightarrow>
               (case getEvents startLedger of
                  Inl e \<Rightarrow> g
                | Inr (events, latestLedger) \<Rightarrow>
                    (ingest_all nowMs events g)\<lparr> in_nextStartLedger := Some (latestLedger + 1) \<rparr>))"

text \<open>
  The periodic check, when the node answers: it asks for events, drops the answer and restamps the
  intent.
\<close>

definition reconcileStaleIntents :: "bool \<Rightarrow> int \<Rightarrow> ingestion \<Rightarrow> ingestion" where
  "reconcileStaleIntents configured nowMs g =
     (let now = nowMs div 1000
      in if \<not> configured then g
         else g\<lparr> in_lastIntentUpdateById :=
                map (\<lambda>(k, t). (k, if now - t \<le> STALE_INTENT_THRESHOLD_SECONDS then t else now)) (in_lastIntentUpdateById g) \<rparr>)"

section \<open>The batched read returns\<close>

lemma read_batches_done: "read_batches get c [] m = Some m"
  by (subst read_batches.simps) simp

lemma read_batches_step:
  "q \<noteq> [] \<Longrightarrow> read_batches get c q m
     = read_batches get c (drop (nat c) q) (fold (\<lambda>k m. AList.update k (get k) m) (take (nat c) q) m)"
  by (subst read_batches.simps) (simp add: Let_def)

lemma fold_update_reads:
  "map_of (fold (\<lambda>k m. AList.update k (get k) m) ks m) k = (if k \<in> set ks then Some (get k) else map_of m k)"
  by (induction ks arbitrary: m) auto

lemma read_batches_all:
  assumes "c > 0"
  shows "\<exists>m'. read_batches get c q m = Some m' \<and> (\<forall>k. map_of m' k = (if k \<in> set q then Some (get k) else map_of m k))"
proof (induction q arbitrary: m rule: length_induct)
  case (1 q)
  show ?case
  proof (cases "q = []")
    case False
    let ?m = "fold (\<lambda>k m. AList.update k (get k) m) (take (nat c) q) m"
    have "length (drop (nat c) q) < length q" using False assms by (cases q) auto
    then obtain m' where "read_batches get c (drop (nat c) q) ?m = Some m'"
      "\<forall>k. map_of m' k = (if k \<in> set (drop (nat c) q) then Some (get k) else map_of ?m k)"
      using 1 by blast
    moreover have "set q = set (take (nat c) q) \<union> set (drop (nat c) q)" by (metis append_take_drop_id set_append)
    ultimately show ?thesis using read_batches_step[OF False, of get c m] by (auto simp: fold_update_reads)
  qed (simp add: read_batches_done)
qed

lemma getManyIntents_reads:
  assumes "c > 0"
  shows "\<exists>m. getManyIntents get ids c = Some m \<and> (\<forall>k. map_of m k = (if k \<in> set ids then Some (get k) else None))"
  using read_batches_all[OF assms, of get ids "[]"] unfolding getManyIntents_def by auto

section \<open>What a repair does to the rows\<close>

lemma filled_planned: "\<exists>p. transition nowMs iid St_accepted St_filled c = Inr p"
  by (simp add: transition_def findRule_find table_simps requiresOverride_def)

lemma cancelled_planned: "\<exists>p. transition nowMs iid St_open St_cancelled c = Inr p"
  by (simp add: transition_def findRule_find table_simps requiresOverride_def)

lemma accepted_planned: "\<exists>p. transition nowMs iid St_open St_accepted c = Inr p"
  by (simp add: transition_def findRule_find table_simps requiresOverride_def)

text \<open>A parked row keeps everything but its state, the pending fields and the version.\<close>

definition parked_from :: "pending_op \<Rightarrow> intent \<Rightarrow> intent \<Rightarrow> bool" where
  "parked_from op i i' \<longleftrightarrow> i_state i' = PENDING_STATE_BY_OP op \<and> i_solver i' = i_solver i \<and> i_fillAmount i' = i_fillAmount i"

lemma park_row:
  "findById (s_repo (fst (transitionToOnChainPending now iid op h ctx s))) k = findById (s_repo s) k
   \<or> k = iid \<and> (\<exists>i i'. findById (s_repo s) k = Some i \<and> parked_from op i i'
        \<and> findById (s_repo (fst (transitionToOnChainPending now iid op h ctx s))) k = Some i')"
proof (cases "findById (s_repo s) iid")
  case (Some i)
  show ?thesis
  proof (cases "transition now (i_intentId i) (i_state i) (PENDING_STATE_BY_OP op) (with_ctx ''system'' None ctx)")
    case (Inr plan)
    have to: "p_to plan = PENDING_STATE_BY_OP op" using plan_entry(3)[OF Inr] .
    show ?thesis
      unfolding transitionToOnChainPending_def Some option.case Inr sum.case
      by (auto simp: unfold_call transitionIf_def findById_mutate Some to parked_from_def stamped_def split: if_splits)
  qed (simp add: transitionToOnChainPending_def Some)
qed (simp add: transitionToOnChainPending_def)

text \<open>
  The common shape of the three repairs: a conditional write on one row, followed by parking it
  when the intent is written on chain. \<open>g\<close> is the guard and \<open>p\<close> the patch of the write.
\<close>

definition adopted :: "(intent \<Rightarrow> bool) \<Rightarrow> (intent \<Rightarrow> intent) \<Rightarrow> pending_op \<Rightarrow> string \<Rightarrow> svc \<Rightarrow> svc \<Rightarrow> bool" where
  "adopted g p op iid s s' \<longleftrightarrow> (\<forall>k. findById (s_repo s') k = findById (s_repo s) k
     \<or> k = iid \<and> (\<exists>i i'. findById (s_repo s) k = Some i \<and> findById (s_repo s') k = Some i' \<and> g i
          \<and> (i' = stamped k p i \<or> parked_from op (stamped k p i) i')))"

lemma adopted_park:
  assumes "s_repo s1 = fst (mutate (s_repo s) iid None g p)" and "snd (mutate (s_repo s) iid None g p) = MR_intent u"
  shows "adopted g p op iid s (fst (parkWithBroadcast env now u op s1))"
proof -
  obtain i where i: "findById (s_repo s) iid = Some i" "g i" "u = stamped iid p i"
    using assms(2) by (auto simp: mutate_intent)
  then have u: "i_intentId u = iid" by simp
  have row: "findById (s_repo s1) k = (if k = iid then Some u else findById (s_repo s) k)" for k
    using i by (simp add: assms(1) findById_mutate version_guard_def)
  let ?h = "if e_settlementContractId env = [] then None else e_invoke env (ONCHAIN_METHOD_BY_OP op) u"
  have f: "fst (parkWithBroadcast env now u op s1) = fst (transitionToOnChainPending now iid op ?h no_ctx s1)"
    unfolding parkWithBroadcast_def Let_def u by (simp split: prod.split sum.split)
  show ?thesis unfolding adopted_def f
  proof
    fix k
    show "findById (s_repo (fst (transitionToOnChainPending now iid op ?h no_ctx s1))) k = findById (s_repo s) k
      \<or> k = iid \<and> (\<exists>i i'. findById (s_repo s) k = Some i
            \<and> findById (s_repo (fst (transitionToOnChainPending now iid op ?h no_ctx s1))) k = Some i' \<and> g i
            \<and> (i' = stamped k p i \<or> parked_from op (stamped k p i) i'))"
      using park_row[of now iid op ?h no_ctx s1 k] row[of k] i by (cases "k = iid") auto
  qed
qed

lemma adopted_write:
  assumes "s_repo s1 = fst (mutate (s_repo s) iid None g p)"
  shows "adopted g p op iid s s1"
  unfolding adopted_def assms by (auto simp: findById_mutate version_guard_def split: option.splits)

lemma adopted_both:
  assumes "s_repo s1 = fst (mutate (s_repo s) iid None g p)" and "snd (mutate (s_repo s) iid None g p) = MR_intent u"
  shows "adopted g p op iid s (fst (if b then parkWithBroadcast env now u op s1 else (s1, r)))"
  using adopted_park[OF assms] adopted_write[OF assms(1)] by simp

lemma fill_adopted:
  "adopted (\<lambda>i. i_state i = St_accepted \<and> i_solver i = Some solver \<and> i_deadline i > now)
     (\<lambda>i. (apply_fill_patch patch i)\<lparr> i_state := St_filled \<rparr>) Op_fill iid s
     (fst (svc_fillIfAccepted env iid solver patch now ctx s))"
proof -
  obtain plan where pl: "transition (now * 1000) iid St_accepted St_filled (with_ctx solver None ctx) = Inr plan"
    using filled_planned by blast
  show ?thesis
  proof (cases "written (snd (fillIfAccepted (s_repo s) iid solver patch now None))")
    case None
    then show ?thesis
      by (intro adopted_write) (simp add: svc_fillIfAccepted_def pl unfold_call withFillRecord_frames fillIfAccepted_def)
  next
    case (Some u)
    show ?thesis
      unfolding svc_fillIfAccepted_def pl sum.case unfold_call withFillRecord_frames Some option.case
      by (rule adopted_both) (use Some in \<open>simp_all add: fillIfAccepted_def\<close>)
  qed
qed

lemma cancel_adopted:
  "adopted (\<lambda>i. i_state i = St_open) (\<lambda>i. i\<lparr> i_state := St_cancelled \<rparr>) Op_cancel iid s
     (fst (svc_cancelIfOpen env nowMs iid ctx s))"
proof -
  obtain plan where pl: "transition nowMs iid St_open St_cancelled (with_ctx ''system'' None ctx) = Inr plan"
    using cancelled_planned by blast
  show ?thesis
  proof (cases "written (snd (cancelIfOpen (s_repo s) iid None))")
    case None
    then show ?thesis by (intro adopted_write) (simp add: svc_cancelIfOpen_def pl unfold_call cancelIfOpen_def)
  next
    case (Some u)
    show ?thesis
      unfolding svc_cancelIfOpen_def pl sum.case unfold_call Some option.case
      by (rule adopted_both) (use Some in \<open>simp_all add: cancelIfOpen_def\<close>)
  qed
qed

lemma accept_adopted:
  "adopted (\<lambda>i. i_state i = St_open \<and> i_deadline i > now)
     (\<lambda>i. i\<lparr> i_state := St_accepted, i_solver := Some solver,
          i_deadline := now + Intents_Service.fill_window (the (findById (s_repo s) iid)) \<rparr>) Op_accept iid s
     (fst (svc_acceptIfOpen env iid solver now ctx s))"
proof (cases "findById (s_repo s) iid")
  case (Some i)
  obtain plan where pl: "transition (now * 1000) iid St_open St_accepted (with_ctx solver None ctx) = Inr plan"
    using accepted_planned by blast
  show ?thesis
  proof (cases "written (snd (acceptIfOpen (s_repo s) iid solver (now + Intents_Service.fill_window i) now None))")
    case None
    then show ?thesis
      by (intro adopted_write) (simp add: svc_acceptIfOpen_def Some pl unfold_call acceptIfOpen_def)
  next
    case w: (Some u)
    show ?thesis
      unfolding svc_acceptIfOpen_def Some option.case pl sum.case unfold_call w option.sel
      by (rule adopted_both) (use w in \<open>simp_all add: acceptIfOpen_def\<close>)
  qed
qed (simp add: svc_acceptIfOpen_def adopted_def)

text \<open>A row of the backend moved to what the chain reports for it.\<close>

definition follows_chain :: "int \<Rightarrow> OnChainIntent \<Rightarrow> intent \<Rightarrow> intent \<Rightarrow> bool" where
  "follows_chain now c i i' \<longleftrightarrow>
     oc_state c = OC_filled \<and> i_state i = St_accepted \<and> i_deadline i > now \<and> i_solver i = Some (coalesce (oc_solver c) [])
       \<and> i_state i' \<in> {St_filled, PENDING_STATE_BY_OP Op_fill}
       \<and> i_fillAmount i' = Some (coalesce (map_option toString (oc_fillAmount c)) ''0'')
   \<or> oc_state c = OC_cancelled \<and> i_state i = St_open \<and> i_state i' \<in> {St_cancelled, PENDING_STATE_BY_OP Op_cancel}
   \<or> i_state i = St_open \<and> truthy (i_solver i) \<and> i_state i' \<in> {St_accepted, PENDING_STATE_BY_OP Op_accept}
       \<and> i_solver i' = oc_solver c"

lemma applyRepair_row:
  assumes row: "findById (s_repo s) iid = Some i" and cls: "classifyDivergence (Some i) c = Some cls"
    and res: "applyRepair env nowMs cls iid c s = (s', r)"
  shows "findById (s_repo s') k = findById (s_repo s) k
    \<or> k = iid \<and> (\<exists>i'. findById (s_repo s') k = Some i' \<and> follows_chain (nowMs div 1000) c i i')"
proof (cases cls)
  case Dv_state_mismatch
  show ?thesis
  proof (cases "oc_state c")
    case OC_filled
    with Dv_state_mismatch res have "s' = fst (svc_fillIfAccepted env iid (coalesce (oc_solver c) []) (repair_patch (nowMs div 1000) c)
        (nowMs div 1000) (repair_ctx ''reconciler: state_mismatch repair''
           [(''onChainState'', MStr (oc_name (oc_state c))), (''onChainSolver'', meta_opt (oc_solver c))]) s)"
      by (auto simp: applyRepair_def won_def Let_def)
    with fill_adopted row OC_filled show ?thesis unfolding adopted_def
      by (fastforce simp: follows_chain_def parked_from_def stamped_def repair_patch_def apply_fill_patch_def)
  next
    case OC_cancelled
    with Dv_state_mismatch res have "s' = fst (svc_cancelIfOpen env nowMs iid
        (repair_ctx ''reconciler: state_mismatch repair'' [(''onChainState'', MStr (oc_name (oc_state c)))]) s)"
      by (auto simp: applyRepair_def won_def Let_def)
    with cancel_adopted row OC_cancelled show ?thesis unfolding adopted_def
      by (fastforce simp: follows_chain_def parked_from_def stamped_def)
  qed (use Dv_state_mismatch res in \<open>auto simp: applyRepair_def Let_def\<close>)
next
  case Dv_solver_mismatch
  have m: "truthy (oc_solver c)" "truthy (i_solver i)"
    using cls Dv_solver_mismatch by (auto simp: classifyDivergence_def split: if_splits)
  then obtain x where x: "oc_solver c = Some x" by (auto simp: truthy_def split: option.splits)
  from Dv_solver_mismatch res have "s' = fst (svc_acceptIfOpen env iid (coalesce (oc_solver c) []) (nowMs div 1000)
      (repair_ctx ''reconciler: solver_mismatch repair'' [(''onChainSolver'', meta_opt (oc_solver c))]) s)"
    by (auto simp: applyRepair_def won_def Let_def)
  with accept_adopted row m x show ?thesis unfolding adopted_def
    by (fastforce simp: follows_chain_def parked_from_def stamped_def)
qed (use res in \<open>auto simp: applyRepair_def Let_def\<close>)

lemma applyRepair_step:
  assumes "e_fillLedger env = fl" and "applyRepair env nowMs cls iid c s = (s', r)"
  shows "(svc_step fl)\<^sup>*\<^sup>* s s'"
proof (cases cls)
  case Dv_state_mismatch
  with assms show ?thesis
    by (cases "oc_state c") (auto simp: applyRepair_def won_def Let_def intro!: r_into_rtranclp ss_fill ss_cancel)
qed (use assms in \<open>auto simp: applyRepair_def won_def Let_def intro!: r_into_rtranclp ss_accept\<close>)

section \<open>A reconciliation cycle\<close>

lemma reconcile_each_run:
  assumes "e_fillLedger env = fl"
  shows "reconcile_each env nowMs dry chain cs acc s = (s', r) \<Longrightarrow> (svc_step fl)\<^sup>*\<^sup>* s s'"
proof (induction cs arbitrary: acc s)
  case (Cons i cs)
  show ?case
  proof (cases "\<exists>c cls. chain (i_intentId i) = Some c \<and> classifyDivergence (Some i) c = Some cls \<and> \<not> dry \<and> cls \<noteq> Dv_amount_mismatch")
    case False
    then show ?thesis using Cons by (auto simp: Let_def split: option.splits if_splits)
  next
    case True
    then obtain c cls where c: "chain (i_intentId i) = Some c" "classifyDivergence (Some i) c = Some cls" "\<not> dry"
      "cls \<noteq> Dv_amount_mismatch" by blast
    obtain s1 r1 where s1: "applyRepair env nowMs cls (i_intentId i) c s = (s1, r1)" by force
    have "(svc_step fl)\<^sup>*\<^sup>* s1 s'"
      using Cons.prems Cons.IH c s1 by (cases r1) (auto simp: Let_def)
    then show ?thesis using applyRepair_step[OF assms s1] by (rule rtranclp_trans[rotated])
  qed
qed simp

definition listed :: "intent list \<Rightarrow> svc \<Rightarrow> bool" where
  "listed cs s \<longleftrightarrow> distinct (map i_intentId cs) \<and> (\<forall>i \<in> set cs. findById (s_repo s) (i_intentId i) = Some i)"

definition cycle_effect :: "int \<Rightarrow> bool \<Rightarrow> (string \<Rightarrow> OnChainIntent option) \<Rightarrow> intent list \<Rightarrow> svc \<Rightarrow> svc \<Rightarrow> bool" where
  "cycle_effect now dry chain cs s s' \<longleftrightarrow> (\<forall>k. findById (s_repo s') k = findById (s_repo s) k
     \<or> (\<exists>i \<in> set cs. i_intentId i = k \<and> findById (s_repo s) k = Some i \<and> \<not> dry
          \<and> (\<exists>c i'. chain k = Some c \<and> findById (s_repo s') k = Some i' \<and> follows_chain now c i i')))"

lemma cycle_effect_cons:
  assumes "cycle_effect now dry chain cs s s'" shows "cycle_effect now dry chain (i # cs) s s'"
  using assms unfolding cycle_effect_def by auto

lemma reconcile_each_effect:
  "listed cs s \<Longrightarrow> reconcile_each env nowMs dry chain cs acc s = (s', r)
   \<Longrightarrow> cycle_effect (nowMs div 1000) dry chain cs s s'"
proof (induction cs arbitrary: acc s)
  case (Cons i cs)
  have l: "listed cs s" "findById (s_repo s) (i_intentId i) = Some i" "i_intentId i \<notin> i_intentId ` set cs"
    using Cons.prems(1) by (auto simp: listed_def)
  have skip: "cycle_effect (nowMs div 1000) dry chain (i # cs) s s'"
    if "reconcile_each env nowMs dry chain cs acc' s = (s', r)" for acc'
    using Cons.IH[OF l(1) that] by (rule cycle_effect_cons)
  show ?case
  proof (cases "\<exists>c cls. chain (i_intentId i) = Some c \<and> classifyDivergence (Some i) c = Some cls \<and> \<not> dry \<and> cls \<noteq> Dv_amount_mismatch")
    case False
    then show ?thesis using Cons.prems(2) skip
      by (auto simp: Let_def split: option.splits if_splits)
  next
    case True
    then obtain c cls where c: "chain (i_intentId i) = Some c" "classifyDivergence (Some i) c = Some cls" "\<not> dry"
      "cls \<noteq> Dv_amount_mismatch" by blast
    obtain s1 r1 where s1: "applyRepair env nowMs cls (i_intentId i) c s = (s1, r1)" by force
    note row = applyRepair_row[OF l(2) c(2) s1]
    have rest: "cycle_effect (nowMs div 1000) dry chain cs s1 s'"
    proof (cases r1)
      case (Inl e)
      then have "s' = s1" using Cons.prems(2) c s1 by (simp add: Let_def)
      then show ?thesis by (simp add: cycle_effect_def)
    next
      case (Inr b)
      have "listed cs s1" unfolding listed_def
      proof (intro conjI ballI)
        show "distinct (map i_intentId cs)" using l(1) by (simp add: listed_def)
        fix x assume x: "x \<in> set cs"
        then have "i_intentId x \<noteq> i_intentId i" using l(3) by (metis imageI)
        then show "findById (s_repo s1) (i_intentId x) = Some x"
          using row[of "i_intentId x"] l(1) x by (auto simp: listed_def)
      qed
      then show ?thesis using Cons.IH Cons.prems(2) c s1 Inr by (auto simp: Let_def)
    qed
    show ?thesis unfolding cycle_effect_def
    proof
      fix k
      show "findById (s_repo s') k = findById (s_repo s) k \<or> (\<exists>x \<in> set (i # cs). i_intentId x = k \<and> findById (s_repo s) k = Some x
          \<and> \<not> dry \<and> (\<exists>c i'. chain k = Some c \<and> findById (s_repo s') k = Some i' \<and> follows_chain (nowMs div 1000) c x i'))"
      proof (cases "k = i_intentId i")
        case True
        then have "\<not> (\<exists>x \<in> set cs. i_intentId x = k)" using l(3) by (metis imageI)
        then have "findById (s_repo s') k = findById (s_repo s1) k"
          using spec[OF rest[unfolded cycle_effect_def], of k] by blast
        then show ?thesis using row[of k] True c l(2) by auto
      next
        case False
        then have "findById (s_repo s1) k = findById (s_repo s) k" using row[of k] by blast
        then show ?thesis using rest False unfolding cycle_effect_def by (metis list.set_intros(2))
      qed
    qed
  qed
qed (simp add: cycle_effect_def)

lemma candidates_listed:
  assumes "repo_ok (s_repo s)"
  shows "listed (candidates rk now s) s"
proof -
  have wf: "wf_map (store (s_repo s))" and idk: "\<And>k i. findById (s_repo s) k = Some i \<Longrightarrow> i_intentId i = k"
    using assms by (auto simp: repo_ok_def)
  have mem: "findById (s_repo s) (i_intentId i) = Some i" if m: "i \<in> set (findAll (s_repo s))" for i
  proof -
    have "i \<in> set (js_values (store (s_repo s)))" using m by (simp add: findAll_def)
    then obtain k where "map_of (store (s_repo s)) k = Some i" using mem_js_values[OF wf] by blast
    then show ?thesis using idk[of k i] by (simp add: findById_def)
  qed
  have "distinct (map i_intentId (js_values (store (s_repo s))))"
  proof -
    have "map i_intentId (js_values (store (s_repo s))) = map fst (store (s_repo s))"
      using idk map_of_is_SomeI[OF wf] by (auto simp: findById_def)
    then show ?thesis using wf by metis
  qed
  then have d: "distinct (map i_intentId (findAll (s_repo s)))" by (simp add: findAll_def)
  have two: "distinct (map i_intentId (findByState (s_repo s) St_open @ findByState (s_repo s) St_accepted))"
  proof -
    have "i_intentId x \<noteq> i_intentId y" if "x \<in> set (findByState (s_repo s) St_open)" "y \<in> set (findByState (s_repo s) St_accepted)" for x y
    proof
      assume eq: "i_intentId x = i_intentId y"
      have "x = y" using mem[of x] mem[of y] that unfolding findByState_def eq by simp
      then show False using that by (simp add: findByState_def)
    qed
    then show ?thesis using distinct_map_filter[OF d] unfolding findByState_def by fastforce
  qed
  show ?thesis unfolding listed_def candidates_def
    using mem distinct_map_filter[OF two] by (auto simp: findByState_def)
qed

text \<open>What a cycle reports when it repairs nothing.\<close>

definition dry_report :: "(string \<Rightarrow> OnChainIntent option) \<Rightarrow> intent \<Rightarrow> DivergenceReport option" where
  "dry_report chain i = (case chain (i_intentId i) of None \<Rightarrow> None
     | Some c \<Rightarrow> map_option (report True i c) (classifyDivergence (Some i) c))"

lemma reconcile_each_dry:
  "reconcile_each env nowMs True chain cs acc s
   = (s, Inr (acc\<lparr> rr_divergences := rr_divergences acc @ List.map_filter (dry_report chain) cs,
                 rr_skippedCount := rr_skippedCount acc + length (filter (\<lambda>i. chain (i_intentId i) = None) cs) \<rparr>))"
  by (induction cs arbitrary: acc)
     (auto simp: dry_report_def map_filter_simps Let_def split: option.splits)

lemma reconcile_unfold:
  assumes "coalesce concurrency 5 > 0" and "rk_configured rk"
  obtains chain acc where "reconcile env rk getIntent dryRun concurrency nowMs s
      = Some (reconcile_each env nowMs (coalesce dryRun (rk_dryRun rk)) chain (candidates rk (nowMs div 1000) s) acc s)"
    and "\<And>i. i \<in> set (candidates rk (nowMs div 1000) s) \<Longrightarrow>
        chain (i_intentId i) = (case getIntent (i_intentId i) of Inl e \<Rightarrow> None | Inr c \<Rightarrow> Some c)"
    and "acc = \<lparr> rr_checkedCount = length (candidates rk (nowMs div 1000) s), rr_divergences = [], rr_repairedCount = 0,
        rr_skippedCount = 0, rr_dryRun = coalesce dryRun (rk_dryRun rk) \<rparr>"
proof -
  let ?cs = "candidates rk (nowMs div 1000) s"
  obtain m where m: "getManyIntents getIntent (map i_intentId ?cs) (coalesce concurrency 5) = Some m"
    "\<forall>k. map_of m k = (if k \<in> set (map i_intentId ?cs) then Some (getIntent k) else None)"
    using getManyIntents_reads[OF assms(1)] by blast
  show ?thesis
  proof (rule that[of "chain_reads m" "\<lparr> rr_checkedCount = length ?cs, rr_divergences = [], rr_repairedCount = 0,
        rr_skippedCount = 0, rr_dryRun = coalesce dryRun (rk_dryRun rk) \<rparr>"])
    show "reconcile env rk getIntent dryRun concurrency nowMs s = Some (reconcile_each env nowMs (coalesce dryRun (rk_dryRun rk))
        (chain_reads m) ?cs \<lparr> rr_checkedCount = length ?cs, rr_divergences = [], rr_repairedCount = 0,
          rr_skippedCount = 0, rr_dryRun = coalesce dryRun (rk_dryRun rk) \<rparr> s)"
      using assms(2) m(1) by (cases "?cs = []") (simp_all add: reconcile_def Let_def)
    show "chain_reads m (i_intentId i) = (case getIntent (i_intentId i) of Inl e \<Rightarrow> None | Inr c \<Rightarrow> Some c)" if "i \<in> set ?cs" for i
      using m(2) that by (simp add: chain_reads_def split: sum.split)
  qed simp
qed

section \<open>Properties of reconciliation\<close>


definition sample_chain :: OnChainIntent where
  "sample_chain = \<lparr> oc_intentId = ''i1'', oc_user = ''U'', oc_solver = Some ''GS'', oc_state = OC_filled, oc_srcAmount = 100,
     oc_minDstAmount = 90, oc_fillAmount = Some 95, oc_deadline = 620 \<rparr>"

definition sample_reconciler :: reconciler where
  "sample_reconciler = \<lparr> rk_configured = True, rk_staleSeconds = staleSeconds None, rk_dryRun = True, rk_lastIntentUpdateById = [] \<rparr>"


text \<open>That cycle does repair the row: the backend's accepted intent becomes the fill on the chain.\<close>

lemma stale_fill_adopted:
  "map_option (\<lambda>(s, r). map_option (\<lambda>i. (i_state i, i_fillAmount i)) (findById (s_repo s) ''i1''))
     (reconcile sample_env sample_reconciler (\<lambda>_. Inr sample_chain) (Some False) None 400000 accepted_svc)
   = Some (Some (St_filled, Some ''95''))"
  by code_simp

text \<open>
  Once the fill window has passed in the backend, the same report repairs nothing, because the repair
  is the ordinary conditional fill, which refuses a late one. The intent stays accepted, and it is now
  the sweeper's to slash, although the chain has the fill.
\<close>

lemma late_fill_not_adopted:
  "map_option (\<lambda>(s, r). (map_option i_state (findById (s_repo s) ''i1''),
       case r of Inr x \<Rightarrow> map (\<lambda>d. (dr_class d, dr_repairedAt d)) (rr_divergences x) | Inl _ \<Rightarrow> []))
     (reconcile sample_env sample_reconciler (\<lambda>_. Inr sample_chain) (Some False) None 620000 accepted_svc)
   = Some (Some St_accepted, [(Dv_state_mismatch, None)])"
  by code_simp

text \<open>The dry run reports exactly the divergences: one report for every stale open or accepted
  intent the contract answers for and whose record differs, in the order of the scan, with nothing
  repaired and the unanswered intents counted as skipped. The stored state is returned unchanged.
\<close>

theorem dry_run_exact:
  assumes "rk_configured rk" and "coalesce concurrency 5 > 0"
  shows "reconcile env rk getIntent (Some True) concurrency nowMs s =
    (let cs = candidates rk (nowMs div 1000) s; chain = (\<lambda>k. case getIntent k of Inl e \<Rightarrow> None | Inr c \<Rightarrow> Some c)
     in Some (s, Inr \<lparr> rr_checkedCount = length cs, rr_divergences = List.map_filter (dry_report chain) cs, rr_repairedCount = 0,
          rr_skippedCount = length (filter (\<lambda>i. chain (i_intentId i) = None) cs), rr_dryRun = True \<rparr>))"
proof -
  let ?cs = "candidates rk (nowMs div 1000) s" let ?ch = "\<lambda>k. case getIntent k of Inl e \<Rightarrow> None | Inr c \<Rightarrow> Some c"
  obtain chain acc where ch: "reconcile env rk getIntent (Some True) concurrency nowMs s
      = Some (reconcile_each env nowMs True chain ?cs acc s)"
    "\<And>i. i \<in> set ?cs \<Longrightarrow> chain (i_intentId i) = ?ch (i_intentId i)"
    "acc = \<lparr> rr_checkedCount = length ?cs, rr_divergences = [], rr_repairedCount = 0, rr_skippedCount = 0, rr_dryRun = True \<rparr>"
    by (rule reconcile_unfold[OF assms(2,1), of env getIntent "Some True" nowMs s]) (auto simp: coalesce_def)
  have "dry_report chain i = dry_report ?ch i" if "i \<in> set ?cs" for i using ch(2)[OF that] by (simp add: dry_report_def)
  then have "List.map_filter (dry_report chain) ?cs = List.map_filter (dry_report ?ch) ?cs"
    by (simp add: map_filter_def cong: map_cong filter_cong)
  moreover have "filter (\<lambda>i. chain (i_intentId i) = None) ?cs = filter (\<lambda>i. ?ch (i_intentId i) = None) ?cs"
    by (rule filter_cong) (auto simp: ch(2))
  ultimately show ?thesis by (simp add: ch(1,3) reconcile_each_dry Let_def)
qed

theorem dry_run_exact_witness:
  "map_option fst (reconcile sample_env sample_reconciler (\<lambda>_. Inr sample_chain) (Some True) None 400000 accepted_svc) = Some accepted_svc"
  using dry_run_exact[of sample_reconciler None sample_env "\<lambda>_. Inr sample_chain" 400000 accepted_svc]
  by (simp add: sample_reconciler_def coalesce_def Let_def)

section \<open>Redelivered events\<close>

lemma processEvent_frames [simp]:
  "in_seenKeys (processEvent nowMs e g) = in_seenKeys g" "in_processedCount (processEvent nowMs e g) = in_processedCount g"
  by (simp_all add: processEvent_def Let_def)

lemma markSeen_frames [simp]: "in_processedCount (markSeen k g) = in_processedCount g"
  by (simp add: markSeen_def Let_def)

lemma ingest_dup: "buildDedupeKey e \<in> set (in_seenKeys g)
    \<Longrightarrow> ingest nowMs e g = (g\<lparr> in_duplicateCount := in_duplicateCount g + 1 \<rparr>, False)"
  by (simp add: ingest_def Let_def)

lemma ingest_new:
  assumes "buildDedupeKey e \<notin> set (in_seenKeys g)"
  shows "in_processedCount (fst (ingest nowMs e g)) = in_processedCount g + 1"
    "in_seenKeys (fst (ingest nowMs e g)) =
       (let ks = in_seenKeys g @ [buildDedupeKey e] in if length ks > MAX_TRACKED_KEYS then tl ks else ks)"
  using assms by (simp_all add: ingest_def Let_def markSeen_def)

lemma ingest_mono: "in_processedCount g \<le> in_processedCount (fst (ingest nowMs e g))"
  by (cases "buildDedupeKey e \<in> set (in_seenKeys g)") (simp_all add: ingest_dup ingest_new)

lemma ingest_all_mono: "in_processedCount g \<le> in_processedCount (ingest_all nowMs es g)"
proof (induction es arbitrary: g)
  case (Cons e es)
  then show ?case using ingest_mono[of g nowMs e] order_trans by (fastforce simp: ingest_all_def)
qed (simp add: ingest_all_def)

text \<open>How many keys were added after \<open>k\<close>: at most \<open>n\<close>.\<close>

definition recent :: "int \<times> rat \<Rightarrow> nat \<Rightarrow> ingestion \<Rightarrow> bool" where
  "recent k n g \<longleftrightarrow> (\<exists>ys zs. in_seenKeys g = ys @ k # zs \<and> length zs \<le> n)"

lemma recent_step:
  assumes "recent k n g" and "n + 1 < MAX_TRACKED_KEYS \<or> in_processedCount (fst (ingest nowMs e g)) = in_processedCount g"
  shows "recent k (n + (in_processedCount (fst (ingest nowMs e g)) - in_processedCount g)) (fst (ingest nowMs e g))"
proof (cases "buildDedupeKey e \<in> set (in_seenKeys g)")
  case True
  then show ?thesis using assms(1) by (simp add: ingest_dup recent_def)
next
  case False
  obtain ys zs where ks: "in_seenKeys g = ys @ k # zs" "length zs \<le> n" using assms(1) by (auto simp: recent_def)
  have n: "n + 1 < MAX_TRACKED_KEYS" using assms(2) ingest_new(1)[OF False, of nowMs] by simp
  have "in_seenKeys (fst (ingest nowMs e g)) = (if length ys + length zs + 2 > MAX_TRACKED_KEYS then tl ys else ys) @ k # zs @ [buildDedupeKey e]"
    using ks n by (cases ys) (auto simp: ingest_new(2)[OF False] Let_def)
  then show ?thesis unfolding recent_def using ks ingest_new(1)[OF False, of nowMs]
    by (intro exI[of _ "if length ys + length zs + 2 > MAX_TRACKED_KEYS then tl ys else ys"] exI[of _ "zs @ [buildDedupeKey e]"]) simp
qed

lemma recent_run:
  "recent k n g \<Longrightarrow> n + (in_processedCount (ingest_all nowMs es g) - in_processedCount g) < MAX_TRACKED_KEYS
   \<Longrightarrow> k \<in> set (in_seenKeys (ingest_all nowMs es g))"
proof (induction es arbitrary: n g)
  case (Cons e es)
  let ?g = "fst (ingest nowMs e g)" let ?d = "in_processedCount ?g - in_processedCount g"
  have m: "in_processedCount g \<le> in_processedCount ?g" "in_processedCount ?g \<le> in_processedCount (ingest_all nowMs es ?g)"
    using ingest_mono ingest_all_mono by auto
  have a: "ingest_all nowMs (e # es) g = ingest_all nowMs es ?g" by (simp add: ingest_all_def)
  have "n + 1 < MAX_TRACKED_KEYS \<or> in_processedCount ?g = in_processedCount g"
    using Cons.prems(2) m unfolding a
    by (cases "buildDedupeKey e \<in> set (in_seenKeys g)") (auto simp: ingest_dup ingest_new(1))
  from Cons.IH[OF recent_step[OF Cons.prems(1) this]] show ?case using Cons.prems(2) m unfolding a by simp
qed (auto simp: recent_def ingest_all_def)

text \<open>C35. A redelivered event is skipped. Once an event has been processed, delivering it again (by a
  cursor that rewinds after a restart of the node, or by overlapping polls) does nothing but count
  a duplicate, whatever was delivered in between, as long as fewer than ten thousand other events
  were processed since. In particular no penalty is confirmed twice and no timestamp moves.
\<close>

theorem redelivery_skipped:
  assumes "snd (ingest t1 e g)" and "g1 = fst (ingest t1 e g)" and "g2 = ingest_all t2 es g1"
    and "in_processedCount g2 < in_processedCount g1 + MAX_TRACKED_KEYS"
  shows "ingest t3 e g2 = (g2\<lparr> in_duplicateCount := in_duplicateCount g2 + 1 \<rparr>, False)"
proof -
  have new: "buildDedupeKey e \<notin> set (in_seenKeys g)" using assms(1) by (auto simp: ingest_def Let_def split: if_splits)
  have "recent (buildDedupeKey e) 0 g1"
    unfolding recent_def assms(2) ingest_new(2)[OF new] Let_def
    by (cases "in_seenKeys g") (auto simp: MAX_TRACKED_KEYS_def)
  then have "buildDedupeKey e \<in> set (in_seenKeys g2)"
    using recent_run[of "buildDedupeKey e" 0 g1 t2 es] assms(3,4) ingest_all_mono[of g1 t2 es] by simp
  then show ?thesis by (rule ingest_dup)
qed

definition no_events :: ingestion where
  "no_events = \<lparr> in_seenKeys = [], in_lastIntentUpdateById = [], in_nextStartLedger = None, in_processedCount = 0,
     in_duplicateCount = 0, in_newestIngestedLedger = None, in_solvers = emptySolvers \<rparr>"

definition sample_event :: chain_event where
  "sample_event = \<lparr> ev_ledger = 7, ev_id = ''7-1'',
     ev_topic = [TV_string ''solver_slashed'', TV_string ''GS'', TV_string ''i1'', TV_bigint 30] \<rparr>"

theorem redelivery_skipped_witness:
  "ingest 3000 sample_event (fst (ingest 1000 sample_event no_events))
   = ((fst (ingest 1000 sample_event no_events))\<lparr> in_duplicateCount := 1 \<rparr>, False)"
proof -
  have "snd (ingest 1000 sample_event no_events)" by (simp add: ingest_def no_events_def Let_def)
  moreover have "in_duplicateCount (fst (ingest 1000 sample_event no_events)) = 0"
    by (simp add: ingest_def no_events_def Let_def processEvent_def markSeen_def)
  ultimately show ?thesis
    using redelivery_skipped[of 1000 sample_event no_events "fst (ingest 1000 sample_event no_events)"
        "fst (ingest 1000 sample_event no_events)" 2000 "[]" 3000]
    by (simp add: ingest_all_def MAX_TRACKED_KEYS_def)
qed

text \<open>
  The bookkeeping of the last update per intent takes the second topic of every event for an intent
  id; in a \<open>solver_slashed\<close> event that topic is the solver's address.
\<close>

lemma slashed_event_stamps_solver:
  "in_lastIntentUpdateById (fst (ingest 9000 sample_event no_events)) = [(''GS'', 9)]"
  by (simp add: ingest_def no_events_def Let_def processEvent_def markSeen_def sample_event_def topic_string_def truthy_def)

end
