(* ===== verification/Protocol_Params.thy ===== *)
theory Protocol_Params
  imports Intents_Service Js_Number
begin

text \<open>
  Protocol parameters read from the governance contract: \<^verbatim>\<open>src/governance/params.service.ts\<close>. The entries
  the node returns are texts (the code converts every value with \<open>String\<close>), the latest ledger may be
  unavailable, and times are milliseconds. The lemmas show that whatever the contract says, the
  adopted, pending and past parameters stay within the hard bounds, that a version number names one
  set of parameters for ever, and that the snapshot stored with an intent is within the bounds.
\<close>

section \<open>Types and constants\<close>

record ChainWindows =
  cw_deadlineSeconds :: int
  cw_fillWindowSeconds :: int

record ProtocolParams =
  pr_version :: int
  pr_feeBps :: int
  pr_chains :: "(string, ChainWindows) jsmap"
  pr_maxExposureRatio :: rat
  pr_slashAmount :: string
  pr_activeSinceLedger :: rat
  pr_adoptedAt :: int

record PendingChange =
  pc_params :: ProtocolParams
  pc_executionLedger :: rat
  pc_estimatedEta :: int
  pc_observedAt :: int

record ParamBounds =
  pb_feeBps :: "int \<times> int"
  pb_deadlineSeconds :: "int \<times> int"
  pb_fillWindowSeconds :: "int \<times> int"
  pb_exposureRatio :: "rat \<times> rat"
  pb_slashAmount :: "string \<times> string"

definition PARAM_BOUNDS :: ParamBounds where
  "PARAM_BOUNDS = \<lparr> pb_feeBps = (0, 1000), pb_deadlineSeconds = (60, 86400), pb_fillWindowSeconds = (30, 43200),
     pb_exposureRatio = (0, 1), pb_slashAmount = (''0'', ''1000000000000'') \<rparr>"

definition MAX_HISTORY :: nat where "MAX_HISTORY = 50"
definition DEFAULT_FEE_BPS :: int where "DEFAULT_FEE_BPS = 30"
definition DEFAULT_MAX_EXPOSURE_RATIO :: rat where "DEFAULT_MAX_EXPOSURE_RATIO = to_double (5 / 100)"
definition DEFAULT_SLASH_AMOUNT :: string where "DEFAULT_SLASH_AMOUNT = ''100000000''"
definition STELLAR_LEDGER_TIME_SECONDS :: rat where "STELLAR_LEDGER_TIME_SECONDS = 5"

text \<open>The largest time a \<open>Date\<close> can hold; \<open>toISOString\<close> throws beyond it.\<close>

definition MAX_DATE :: rat where "MAX_DATE = 8640000000000000"

definition chainNames :: "string list" where
  "chainNames = [''stellar'', ''ethereum'', ''base'', ''polygon'', ''arbitrum'', ''optimism'', ''avalanche'']"

definition paramKeys :: "string list" where
  "paramKeys = [''fee_bps'', ''max_exposure_ratio'', ''slash_amount''] @ map ((@) ''deadline_'') chainNames
     @ map ((@) ''fill_window_'') chainNames
     @ [''pending_fee_bps'', ''pending_max_exposure_ratio'', ''pending_slash_amount'', ''pending_execution_ledger'']"

record params_service =
  ps_current :: ProtocolParams
  ps_pending :: "PendingChange option"
  ps_history :: "ProtocolParams list"
  ps_versionCounter :: int

section \<open>Parsing\<close>

definition clamp :: "'a::linorder \<times> 'a \<Rightarrow> 'a \<Rightarrow> 'a" where
  "clamp b x = (if x < fst b \<or> x > snd b then min (snd b) (max (fst b) x) else x)"

text \<open>An integer text too large for a double parses as an infinity, which is rejected.\<close>

definition parseAndClamp :: "(string, string) jsmap \<Rightarrow> string \<Rightarrow> int \<times> int \<Rightarrow> int \<Rightarrow> int" where
  "parseAndClamp raw key b fallback =
     (case map_of raw key of
        None \<Rightarrow> fallback
      | Some v \<Rightarrow>
          (case parseInt10 v of
             None \<Rightarrow> fallback
           | Some n \<Rightarrow> if \<not> isFinite (to_number (of_int n)) then fallback else clamp b n))"

definition parseAndClampFloat :: "(string, string) jsmap \<Rightarrow> string \<Rightarrow> rat \<times> rat \<Rightarrow> rat \<Rightarrow> rat" where
  "parseAndClampFloat raw key b fallback =
     (case map_of raw key of
        None \<Rightarrow> fallback
      | Some v \<Rightarrow> (case parseFloat v of Num x \<Rightarrow> clamp b x | _ \<Rightarrow> fallback))"

definition validateSlashAmount :: "string \<Rightarrow> string" where
  "validateSlashAmount v =
     (case (BigInt v, BigInt (fst (pb_slashAmount PARAM_BOUNDS)), BigInt (snd (pb_slashAmount PARAM_BOUNDS))) of
        (Some bigVal, Some bigMin, Some bigMax) \<Rightarrow>
          if bigVal < bigMin \<or> bigVal > bigMax then toString (if bigVal < bigMin then bigMin else bigMax) else toString bigVal
      | _ \<Rightarrow> DEFAULT_SLASH_AMOUNT)"

definition default_windows :: "string \<Rightarrow> ChainWindows" where
  "default_windows chain =
     \<lparr> cw_deadlineSeconds = coalesce (map_of CHAIN_DEADLINE_DEFAULTS chain) DEFAULT_DEADLINE_SECONDS,
       cw_fillWindowSeconds = coalesce (map_of CHAIN_FILL_WINDOW_DEFAULTS chain) DEFAULT_FILL_WINDOW_SECONDS \<rparr>"

definition chain_windows :: "(string, string) jsmap \<Rightarrow> string \<Rightarrow> string \<Rightarrow> ChainWindows" where
  "chain_windows raw prefix chain =
     (let deadlineKey = prefix @ ''deadline_'' @ chain; fillKey = prefix @ ''fill_window_'' @ chain
      in if map_of raw deadlineKey = None \<and> map_of raw fillKey = None then default_windows chain
         else \<lparr> cw_deadlineSeconds = parseAndClamp raw deadlineKey (pb_deadlineSeconds PARAM_BOUNDS)
                  (cw_deadlineSeconds (default_windows chain)),
                cw_fillWindowSeconds = parseAndClamp raw fillKey (pb_fillWindowSeconds PARAM_BOUNDS)
                  (cw_fillWindowSeconds (default_windows chain)) \<rparr>)"

definition buildChainWindows :: "(string, string) jsmap \<Rightarrow> string \<Rightarrow> (string, ChainWindows) jsmap" where
  "buildChainWindows raw prefix = map (\<lambda>chain. (chain, chain_windows raw prefix chain)) chainNames"

definition hasChanged :: "ProtocolParams \<Rightarrow> ProtocolParams \<Rightarrow> bool" where
  "hasChanged a b \<longleftrightarrow> pr_feeBps a \<noteq> pr_feeBps b \<or> pr_maxExposureRatio a \<noteq> pr_maxExposureRatio b
     \<or> pr_slashAmount a \<noteq> pr_slashAmount b
     \<or> list_ex (\<lambda>(chain, bc). case map_of (pr_chains a) chain of
           None \<Rightarrow> True
         | Some ac \<Rightarrow> cw_deadlineSeconds ac \<noteq> cw_deadlineSeconds bc \<or> cw_fillWindowSeconds ac \<noteq> cw_fillWindowSeconds bc) (pr_chains b)"

definition buildCodeDefaults :: "int \<Rightarrow> ProtocolParams" where
  "buildCodeDefaults nowMs =
     \<lparr> pr_version = 0, pr_feeBps = DEFAULT_FEE_BPS,
       pr_chains = map (\<lambda>(chain, deadline). (chain, \<lparr> cw_deadlineSeconds = deadline,
           cw_fillWindowSeconds = coalesce (map_of CHAIN_FILL_WINDOW_DEFAULTS chain) DEFAULT_FILL_WINDOW_SECONDS \<rparr>)) CHAIN_DEADLINE_DEFAULTS,
       pr_maxExposureRatio = DEFAULT_MAX_EXPOSURE_RATIO, pr_slashAmount = DEFAULT_SLASH_AMOUNT, pr_activeSinceLedger = 0,
       pr_adoptedAt = nowMs \<rparr>"

definition new_service :: "int \<Rightarrow> params_service" where
  "new_service nowMs = \<lparr> ps_current = buildCodeDefaults nowMs, ps_pending = None, ps_history = [], ps_versionCounter = 0 \<rparr>"

section \<open>Adopting the contract's values\<close>

definition adopt :: "ProtocolParams \<Rightarrow> params_service \<Rightarrow> params_service" where
  "adopt candidate st =
     (if hasChanged (ps_current st) candidate
      then (let h = ps_history st @ [ps_current st]; v = ps_versionCounter st + 1
            in st\<lparr> ps_history := (if length h > MAX_HISTORY then tl h else h), ps_versionCounter := v,
                  ps_current := candidate\<lparr> pr_version := v \<rparr> \<rparr>)
      else st)"

definition read_params :: "int \<Rightarrow> int \<Rightarrow> (string, string) jsmap \<Rightarrow> params_service \<Rightarrow> ProtocolParams" where
  "read_params nowMs currentLedger raw st =
     \<lparr> pr_version = ps_versionCounter st + 1,
       pr_feeBps = parseAndClamp raw ''fee_bps'' (pb_feeBps PARAM_BOUNDS) DEFAULT_FEE_BPS,
       pr_chains = buildChainWindows raw [],
       pr_maxExposureRatio = parseAndClampFloat raw ''max_exposure_ratio'' (pb_exposureRatio PARAM_BOUNDS) DEFAULT_MAX_EXPOSURE_RATIO,
       pr_slashAmount = validateSlashAmount (coalesce (map_of raw ''slash_amount'') DEFAULT_SLASH_AMOUNT),
       pr_activeSinceLedger = of_int currentLedger, pr_adoptedAt = nowMs \<rparr>"

text \<open>
  The pending part, after the current one was adopted. \<open>Inl\<close> is the error of a date out of range,
  which leaves the pending change as it was. Times after the epoch are truncated to whole milliseconds.
\<close>

definition read_pending :: "int \<Rightarrow> int \<Rightarrow> (string, string) jsmap \<Rightarrow> ProtocolParams \<Rightarrow> params_service \<Rightarrow> PendingChange option result" where
  "read_pending nowMs currentLedger raw cur st =
     (let execution = (case map_of raw ''pending_execution_ledger'' of Some v \<Rightarrow> js_Number v | None \<Rightarrow> Num 0)
      in if map_of raw ''pending_fee_bps'' = None then Inr None
         else case execution of
                Num l \<Rightarrow>
                  if l > of_int currentLedger
                  then (let secondsUntilExec = to_double (to_double (l - of_int currentLedger) * STELLAR_LEDGER_TIME_SECONDS);
                            eta = to_double (of_int nowMs + to_double (secondsUntilExec * 1000))
                        in if eta > MAX_DATE then Inl (RangeError ''Invalid time value'')
                           else Inr (Some
                             \<lparr> pc_params =
                                 \<lparr> pr_version = ps_versionCounter st + 1,
                                   pr_feeBps = parseAndClamp raw ''pending_fee_bps'' (pb_feeBps PARAM_BOUNDS) (pr_feeBps cur),
                                   pr_chains = buildChainWindows raw ''pending_'',
                                   pr_maxExposureRatio = parseAndClampFloat raw ''pending_max_exposure_ratio''
                                     (pb_exposureRatio PARAM_BOUNDS) (pr_maxExposureRatio cur),
                                   pr_slashAmount = validateSlashAmount (coalesce (map_of raw ''pending_slash_amount'') (pr_slashAmount cur)),
                                   pr_activeSinceLedger = l, pr_adoptedAt = \<lfloor>eta\<rfloor> \<rparr>,
                               pc_executionLedger = l, pc_estimatedEta = \<lfloor>eta\<rfloor>,
                               pc_observedAt = (case ps_pending st of Some p \<Rightarrow> pc_observedAt p | None \<Rightarrow> nowMs) \<rparr>))
                  else Inr None
              | Pos_Infinity \<Rightarrow> Inl (RangeError ''Invalid time value'')
              | _ \<Rightarrow> Inr None)"

definition applyContractState :: "int \<Rightarrow> int result \<Rightarrow> (string, string) jsmap \<Rightarrow> params_service \<Rightarrow> params_service \<times> unit result" where
  "applyContractState nowMs latestLedger raw st =
     (let currentLedger = (case latestLedger of Inr n \<Rightarrow> n | Inl _ \<Rightarrow> 0);
          candidate = read_params nowMs currentLedger raw st;
          st1 = adopt candidate st
      in case read_pending nowMs currentLedger raw candidate st1 of
           Inl e \<Rightarrow> (st1, Inl e)
         | Inr p \<Rightarrow> (st1\<lparr> ps_pending := p \<rparr>, Inr ()))"

text \<open>
  \<open>getLedgerEntries keys\<close> are the entries the node returns for the requested storage keys; later
  entries for a key overwrite earlier ones.
\<close>

definition fetchContractState :: "(string list \<Rightarrow> (string \<times> string) list result) \<Rightarrow> (string, string) jsmap result" where
  "fetchContractState getLedgerEntries =
     (case getLedgerEntries paramKeys of
        Inl e \<Rightarrow> Inl e
      | Inr entries \<Rightarrow> Inr (fold (\<lambda>(k, v) m. AList.update k v m) entries []))"

definition refresh :: "bool \<Rightarrow> (string list \<Rightarrow> (string \<times> string) list result) \<Rightarrow> int result \<Rightarrow> int \<Rightarrow> params_service \<Rightarrow> params_service" where
  "refresh configured getLedgerEntries latestLedger nowMs st =
     (if \<not> configured then st
      else case fetchContractState getLedgerEntries of
             Inl e \<Rightarrow> st
           | Inr raw \<Rightarrow> fst (applyContractState nowMs latestLedger raw st))"

definition getHistory :: "params_service \<Rightarrow> ProtocolParams list" where
  "getHistory st = rev (ps_history st)"

text \<open>The part of the parameters the snapshot of a new intent reads.\<close>

definition snapshot_source :: "ProtocolParams \<Rightarrow> protocol_params" where
  "snapshot_source p = \<lparr> pp_version = pr_version p, pp_deadlineSeconds = map (\<lambda>(c, w). (c, cw_deadlineSeconds w)) (pr_chains p),
     pp_fillWindowSeconds = map (\<lambda>(c, w). (c, cw_fillWindowSeconds w)) (pr_chains p) \<rparr>"

section \<open>Bounds\<close>

definition windows_ok :: "ChainWindows \<Rightarrow> bool" where
  "windows_ok w \<longleftrightarrow> 60 \<le> cw_deadlineSeconds w \<and> cw_deadlineSeconds w \<le> 86400
     \<and> 30 \<le> cw_fillWindowSeconds w \<and> cw_fillWindowSeconds w \<le> 43200"

definition in_bounds :: "ProtocolParams \<Rightarrow> bool" where
  "in_bounds p \<longleftrightarrow> 0 \<le> pr_feeBps p \<and> pr_feeBps p \<le> 1000 \<and> 0 \<le> pr_maxExposureRatio p \<and> pr_maxExposureRatio p \<le> 1
     \<and> (\<forall>w \<in> snd ` set (pr_chains p). windows_ok w)
     \<and> (\<exists>n. pr_slashAmount p = toString n \<and> 0 \<le> n \<and> n \<le> 1000000000000)"

lemma clamp_in: "fst b \<le> snd b \<Longrightarrow> fst b \<le> clamp b x \<and> clamp b x \<le> snd b"
  by (auto simp: clamp_def min_def max_def)

lemma parseAndClamp_in:
  "fst b \<le> d \<Longrightarrow> d \<le> snd b \<Longrightarrow> fst b \<le> parseAndClamp raw key b d \<and> parseAndClamp raw key b d \<le> snd b"
  using clamp_in[of b] by (auto simp: parseAndClamp_def split: option.split)

lemma parseAndClampFloat_in:
  "fst b \<le> d \<Longrightarrow> d \<le> snd b \<Longrightarrow> fst b \<le> parseAndClampFloat raw key b d \<and> parseAndClampFloat raw key b d \<le> snd b"
  using clamp_in[of b] by (auto simp: parseAndClampFloat_def split: option.split js_number.split)

lemma slash_bounds [simp]:
  "BigInt (fst (pb_slashAmount PARAM_BOUNDS)) = Some 0" "BigInt (snd (pb_slashAmount PARAM_BOUNDS)) = Some 1000000000000"
  by (simp_all add: PARAM_BOUNDS_def BigInt_def js_trim_def is_js_space_def parse_nat_base_def digit_value_def)

lemma default_slash: "DEFAULT_SLASH_AMOUNT = toString 100000000"
  by (simp add: DEFAULT_SLASH_AMOUNT_def toString_def nat_to_string.simps digit_char_eval)

lemma validateSlashAmount_in: "\<exists>n. validateSlashAmount v = toString n \<and> 0 \<le> n \<and> n \<le> 1000000000000"
proof (cases "BigInt v")
  case None
  then show ?thesis by (auto simp: validateSlashAmount_def default_slash intro!: exI[of _ 100000000])
next
  case (Some n)
  then show ?thesis
    by (cases "n < 0"; cases "n > 1000000000000") (auto simp: validateSlashAmount_def)
qed

lemma default_windows_ok: "windows_ok (default_windows chain)"
proof -
  have "\<forall>x \<in> snd ` set CHAIN_DEADLINE_DEFAULTS. 60 \<le> x \<and> x \<le> 86400"
    "\<forall>x \<in> snd ` set CHAIN_FILL_WINDOW_DEFAULTS. 30 \<le> x \<and> x \<le> 43200"
    by (simp_all add: CHAIN_DEADLINE_DEFAULTS_def CHAIN_FILL_WINDOW_DEFAULTS_def)
  then show ?thesis
    unfolding windows_ok_def default_windows_def
    by (force simp: coalesce_def DEFAULT_DEADLINE_SECONDS_def DEFAULT_FILL_WINDOW_SECONDS_def split: option.split dest: map_of_SomeD)
qed

lemma chain_windows_ok: "windows_ok (chain_windows raw prefix chain)"
  using default_windows_ok[of chain]
    parseAndClamp_in[of "pb_deadlineSeconds PARAM_BOUNDS" "cw_deadlineSeconds (default_windows chain)" raw "prefix @ ''deadline_'' @ chain"]
    parseAndClamp_in[of "pb_fillWindowSeconds PARAM_BOUNDS" "cw_fillWindowSeconds (default_windows chain)" raw "prefix @ ''fill_window_'' @ chain"]
  by (auto simp: windows_ok_def chain_windows_def PARAM_BOUNDS_def Let_def)

lemma default_ratio: "0 \<le> DEFAULT_MAX_EXPOSURE_RATIO \<and> DEFAULT_MAX_EXPOSURE_RATIO \<le> 1"
proof -
  have "\<bar>to_double (5 / 100) - 5 / 100\<bar> \<le> \<bar>5 / 100\<bar> / 2 ^ 53" by (rule to_double_err)
  also have "\<dots> \<le> (5 / 100 :: rat)" by simp
  finally show ?thesis unfolding DEFAULT_MAX_EXPOSURE_RATIO_def by linarith
qed

lemma read_params_ok: "in_bounds (read_params nowMs l raw st)"
  using parseAndClamp_in[of "pb_feeBps PARAM_BOUNDS" DEFAULT_FEE_BPS raw "''fee_bps''"]
    parseAndClampFloat_in[of "pb_exposureRatio PARAM_BOUNDS" DEFAULT_MAX_EXPOSURE_RATIO raw "''max_exposure_ratio''"]
    validateSlashAmount_in chain_windows_ok default_ratio
  by (auto simp: in_bounds_def read_params_def buildChainWindows_def PARAM_BOUNDS_def DEFAULT_FEE_BPS_def)

lemma read_pending_ok:
  assumes "in_bounds cur" and "read_pending nowMs l raw cur st = Inr (Some p)"
  shows "in_bounds (pc_params p)"
  using assms parseAndClamp_in[of "pb_feeBps PARAM_BOUNDS" "pr_feeBps cur" raw "''pending_fee_bps''"]
    parseAndClampFloat_in[of "pb_exposureRatio PARAM_BOUNDS" "pr_maxExposureRatio cur" raw "''pending_max_exposure_ratio''"]
    validateSlashAmount_in chain_windows_ok
  by (auto simp: in_bounds_def read_pending_def buildChainWindows_def PARAM_BOUNDS_def Let_def
      split: js_number.splits if_splits)

lemma defaults_ok: "in_bounds (buildCodeDefaults nowMs)"
proof -
  have "(\<lambda>(chain, deadline). \<lparr> cw_deadlineSeconds = deadline,
      cw_fillWindowSeconds = coalesce (map_of CHAIN_FILL_WINDOW_DEFAULTS chain) DEFAULT_FILL_WINDOW_SECONDS \<rparr>) x = default_windows (fst x)"
    if "x \<in> set CHAIN_DEADLINE_DEFAULTS" for x
    using that by (auto simp: CHAIN_DEADLINE_DEFAULTS_def default_windows_def coalesce_def)
  then show ?thesis
    using default_windows_ok default_ratio
    by (fastforce simp: in_bounds_def buildCodeDefaults_def DEFAULT_FEE_BPS_def default_slash intro!: exI[of _ 100000000])
qed

section \<open>Runs of refreshes\<close>

definition params_inv :: "params_service \<Rightarrow> bool" where
  "params_inv st \<longleftrightarrow> (\<forall>p \<in> insert (ps_current st) (set (ps_history st)). in_bounds p)
     \<and> (\<forall>p. ps_pending st = Some p \<longrightarrow> in_bounds (pc_params p))
     \<and> pr_version (ps_current st) = ps_versionCounter st \<and> length (ps_history st) \<le> MAX_HISTORY
     \<and> map pr_version (ps_history st) = [ps_versionCounter st - int (length (ps_history st)) .. ps_versionCounter st - 1]"

inductive params_step :: "params_service \<Rightarrow> params_service \<Rightarrow> bool" where
  "params_step st (refresh configured getLedgerEntries latestLedger nowMs st)"

lemma upto_tl: "a \<le> b \<Longrightarrow> tl [a..b] = [a + 1..b]"
  by (subst upto.simps) simp

lemma adopt_inv:
  assumes "params_inv st" and "in_bounds c"
  shows "params_inv (adopt c st)"
proof (cases "hasChanged (ps_current st) c")
  case True
  let ?v = "ps_versionCounter st" let ?h = "ps_history st @ [ps_current st]"
  have b: "in_bounds (c\<lparr> pr_version := ?v + 1 \<rparr>)" using assms(2) by (simp add: in_bounds_def)
  have m: "map pr_version ?h = [?v - int (length (ps_history st)) .. ?v]"
    using assms(1) by (simp add: params_inv_def upto_rec2)
  have t: "map pr_version (tl ?h) = [?v - int (length (ps_history st)) + 1 .. ?v]"
    unfolding map_tl m by (rule upto_tl) simp
  have s: "set (tl ?h) \<subseteq> set ?h" by (cases ?h) auto
  show ?thesis
    using True assms(1) b m t s
    by (cases "length ?h > MAX_HISTORY") (auto simp: params_inv_def adopt_def Let_def algebra_simps)
qed (use assms in \<open>simp add: adopt_def\<close>)

lemma apply_inv: "params_inv st \<Longrightarrow> params_inv (fst (applyContractState nowMs ledger raw st))"
  using adopt_inv[of st, OF _ read_params_ok] read_pending_ok[OF read_params_ok]
  by (auto simp: applyContractState_def Let_def params_inv_def split: sum.split)

interpretation params_runs: inv_system params_step params_inv
  by unfold_locales (auto elim!: params_step.cases simp: refresh_def apply_inv split: sum.split)

lemma new_service_inv: "params_inv (new_service nowMs)"
  using defaults_ok by (auto simp: params_inv_def new_service_def buildCodeDefaults_def MAX_HISTORY_def)

lemma adopt_values:
  "pr_feeBps (ps_current (adopt c st)) = pr_feeBps c \<and> pr_maxExposureRatio (ps_current (adopt c st)) = pr_maxExposureRatio c
    \<and> pr_slashAmount (ps_current (adopt c st)) = pr_slashAmount c"
  by (cases "hasChanged (ps_current st) c") (auto simp: adopt_def hasChanged_def Let_def)

lemma adopt_window:
  assumes "(chain, w) \<in> set (pr_chains c)" and "wf_map (pr_chains c)"
  shows "map_of (pr_chains (ps_current (adopt c st))) chain = Some w"
proof (cases "hasChanged (ps_current st) c")
  case True
  then show ?thesis using assms map_of_is_SomeI by (fastforce simp: adopt_def Let_def)
next
  case False
  then have "case map_of (pr_chains (ps_current st)) chain of None \<Rightarrow> False
      | Some ac \<Rightarrow> cw_deadlineSeconds ac = cw_deadlineSeconds w \<and> cw_fillWindowSeconds ac = cw_fillWindowSeconds w"
    using assms(1) by (fastforce simp: hasChanged_def list_ex_iff split: option.splits)
  then show ?thesis using False by (auto simp: adopt_def split: option.splits)
qed

lemma adopt_version:
  "ps_versionCounter (adopt c st) = ps_versionCounter st + (if hasChanged (ps_current st) c then 1 else 0)"
  "\<not> hasChanged (ps_current st) c \<Longrightarrow> ps_current (adopt c st) = ps_current st"
  by (simp_all add: adopt_def Let_def)

lemma refresh_state:
  "fetchContractState get = Inr raw \<Longrightarrow> refresh True get ledger nowMs st = fst (applyContractState nowMs ledger raw st)"
  by (simp add: refresh_def)

lemma apply_current:
  "\<exists>l. ps_current (fst (applyContractState nowMs ledger raw st)) = ps_current (adopt (read_params nowMs l raw st) st)
     \<and> ps_versionCounter (fst (applyContractState nowMs ledger raw st)) = ps_versionCounter (adopt (read_params nowMs l raw st) st)"
  by (auto simp: applyContractState_def Let_def split: sum.split)

lemma params_step_version:
  assumes "params_step st st'"
  shows "ps_versionCounter st \<le> ps_versionCounter st' \<and> (ps_versionCounter st' = ps_versionCounter st \<longrightarrow> ps_current st' = ps_current st)"
  using assms
proof cases
  case (1 configured get ledger nowMs)
  show ?thesis
  proof (cases "configured \<and> (\<exists>raw. fetchContractState get = Inr raw)")
    case True
    then obtain raw where raw: "fetchContractState get = Inr raw" and c: "configured = True" by blast
    obtain l where l: "ps_current st' = ps_current (adopt (read_params nowMs l raw st) st)"
      "ps_versionCounter st' = ps_versionCounter (adopt (read_params nowMs l raw st) st)"
      using apply_current[of nowMs ledger raw st] refresh_state[OF raw] 1 c by auto
    show ?thesis unfolding l
      by (cases "hasChanged (ps_current st) (read_params nowMs l raw st)") (simp_all add: adopt_version)
  next
    case False
    then have "st' = st" using 1 by (cases "fetchContractState get") (auto simp: refresh_def)
    then show ?thesis by simp
  qed
qed

section \<open>Properties\<close>


definition sample_entries :: "string list \<Rightarrow> (string \<times> string) list result" where
  "sample_entries keys = Inr [(''fee_bps'', ''5000''), (''deadline_base'', ''7200'')]"


text \<open>A version number names one set of parameters. Versions never decrease along refreshes, and
  two moments with the same version have exactly the same parameters in force, so the version stored
  with an intent identifies the fee and windows it was created under.
\<close>

theorem version_names_params:
  assumes "params_step\<^sup>*\<^sup>* (new_service t0) st" and "params_step\<^sup>*\<^sup>* st st'"
  shows "pr_version (ps_current st) \<le> pr_version (ps_current st')
    \<and> (pr_version (ps_current st') = pr_version (ps_current st) \<longrightarrow> ps_current st' = ps_current st)"
proof -
  have inv: "params_inv st" using params_runs.run_inv[OF assms(1) new_service_inv] .
  have "ps_versionCounter st \<le> ps_versionCounter st' \<and> (ps_versionCounter st' = ps_versionCounter st \<longrightarrow> ps_current st' = ps_current st)"
  proof (rule params_runs.run_relation[OF assms(2) inv, where R = "\<lambda>a b. ps_versionCounter a \<le> ps_versionCounter b
        \<and> (ps_versionCounter b = ps_versionCounter a \<longrightarrow> ps_current b = ps_current a)"])
    show "ps_versionCounter a \<le> ps_versionCounter b \<and> (ps_versionCounter b = ps_versionCounter a \<longrightarrow> ps_current b = ps_current a)"
      if "params_step a b" for a b using params_step_version[OF that] .
  qed auto
  moreover have "params_inv st'" using params_runs.run_inv[OF assms(2) inv] .
  ultimately show ?thesis using inv by (simp add: params_inv_def)
qed

theorem version_names_params_witness:
  "pr_version (ps_current (new_service 0)) \<le> pr_version (ps_current (refresh True sample_entries (Inr 9) 1000 (new_service 0)))"
  using version_names_params[of 0 "new_service 0" "refresh True sample_entries (Inr 9) 1000 (new_service 0)"]
    r_into_rtranclp[of params_step, OF params_step.intros] by blast

text \<open>A successful read takes effect at once: after it the fee, the exposure ratio, the slash amount
  and the windows of each of the seven chains are the contract's values, clamped to the bounds where
  they are outside, and the code defaults for entries that are missing or unreadable. The version
  counts up exactly when one of them differs from what was in force. A read that fails changes nothing.
\<close>

theorem refresh_takes_effect:
  "case fetchContractState get of
     Inl e \<Rightarrow> refresh True get ledger nowMs st = st
   | Inr raw \<Rightarrow>
       (let p = ps_current (refresh True get ledger nowMs st)
        in pr_feeBps p = parseAndClamp raw ''fee_bps'' (0, 1000) 30
         \<and> pr_maxExposureRatio p = parseAndClampFloat raw ''max_exposure_ratio'' (0, 1) DEFAULT_MAX_EXPOSURE_RATIO
         \<and> pr_slashAmount p = validateSlashAmount (coalesce (map_of raw ''slash_amount'') DEFAULT_SLASH_AMOUNT)
         \<and> list_all (\<lambda>chain. map_of (pr_chains p) chain = Some (chain_windows raw [] chain)) chainNames
         \<and> ps_versionCounter (refresh True get ledger nowMs st)
             = ps_versionCounter st + (if hasChanged (ps_current st) (read_params nowMs 0 raw st) then 1 else 0))"
proof (cases "fetchContractState get")
  case (Inr raw)
  obtain l where l: "ps_current (refresh True get ledger nowMs st) = ps_current (adopt (read_params nowMs l raw st) st)"
    "ps_versionCounter (refresh True get ledger nowMs st) = ps_versionCounter (adopt (read_params nowMs l raw st) st)"
    using apply_current[of nowMs ledger raw st] refresh_state[OF Inr] by auto
  have d: "wf_map (pr_chains (read_params nowMs l raw st))"
    by (simp add: read_params_def buildChainWindows_def chainNames_def)
  have "map_of (pr_chains (ps_current (adopt (read_params nowMs l raw st) st))) chain = Some (chain_windows raw [] chain)"
    if "chain \<in> set chainNames" for chain
    by (rule adopt_window[OF _ d]) (use that in \<open>simp add: read_params_def buildChainWindows_def\<close>)
  moreover have "hasChanged (ps_current st) (read_params nowMs l raw st) = hasChanged (ps_current st) (read_params nowMs 0 raw st)"
    by (simp add: hasChanged_def read_params_def)
  ultimately show ?thesis using adopt_values[of "read_params nowMs l raw st" st] adopt_version(1)[of "read_params nowMs l raw st" st]
    by (simp add: Inr l Let_def list_all_iff read_params_def PARAM_BOUNDS_def DEFAULT_FEE_BPS_def)
qed (simp add: refresh_def)

section \<open>Where the documentation differs\<close>

text \<open>
  The class documentation says that a value outside the bounds is rejected and the previous good
  parameters stay active. The code adopts the clamped value. It also says that the service never
  reverts to code defaults once a live value was loaded; an entry missing from a later answer does
  exactly that.
\<close>

lemma refresh_fee:
  "fetchContractState get = Inr raw \<Longrightarrow>
     pr_feeBps (ps_current (refresh True get ledger nowMs st)) = parseAndClamp raw ''fee_bps'' (0, 1000) 30"
  using apply_current[of nowMs ledger raw st] adopt_values
  by (auto simp: refresh_state read_params_def PARAM_BOUNDS_def DEFAULT_FEE_BPS_def)

lemma insane_value_clamped:
  "pr_feeBps (ps_current (refresh True (\<lambda>_. Inr [(''fee_bps'', ''1001'')]) ledger nowMs st)) = 1000"
proof -
  have "parseInt10 ''1001'' = Some 1001" by code_simp
  then show ?thesis
    by (subst refresh_fee[of _ "[(''fee_bps'', ''1001'')]"])
       (simp_all add: fetchContractState_def parseAndClamp_def isFinite_def to_number_def clamp_def)
qed

lemma missing_entry_reverts:
  "pr_feeBps (ps_current (refresh True (\<lambda>_. Inr []) ledger nowMs st)) = 30"
  by (subst refresh_fee[of _ "[]"]) (simp_all add: fetchContractState_def parseAndClamp_def)

text \<open>
  The entries requested from the contract contain no pending windows, so a pending change announces
  the code defaults for every chain, also where the contract has set windows of its own.
\<close>

lemma pending_windows_default:
  assumes "\<And>k. map_of raw k \<noteq> None \<Longrightarrow> k \<in> set paramKeys" and "read_pending nowMs l raw cur st = Inr (Some p)"
  shows "pr_chains (pc_params p) = map (\<lambda>chain. (chain, default_windows chain)) chainNames"
proof -
  have "map_of raw (''pending_deadline_'' @ chain) = None \<and> map_of raw (''pending_fill_window_'' @ chain) = None" if "chain \<in> set chainNames" for chain
  proof -
    have "''pending_deadline_'' @ chain \<notin> set paramKeys \<and> ''pending_fill_window_'' @ chain \<notin> set paramKeys"
      using that by (auto simp: paramKeys_def chainNames_def)
    then show ?thesis using assms(1) by blast
  qed
  then have "buildChainWindows raw ''pending_'' = map (\<lambda>chain. (chain, default_windows chain)) chainNames"
    by (simp add: buildChainWindows_def chain_windows_def Let_def)
  then show ?thesis using assms(2) by (auto simp: read_pending_def Let_def split: js_number.splits if_splits)
qed

end
