(* ===== verification/Job_Queue.thy ===== *)
theory Job_Queue
  imports Js_Text
begin

text \<open>
  The in-process job queue: \<^verbatim>\<open>src/jobs/memory-job-queue.driver.ts\<close> with the types of
  \<^verbatim>\<open>src/jobs/jobs.types.ts\<close>. Payloads and results are texts, handlers are code of the callers: what a
  running handler does in the end is a step of the environment. A timer is its due time, the
  microtask that drains a queue is a flag and a step of its own, and times are milliseconds. The
  overloads of \<open>enqueue\<close> and \<open>schedule\<close> are resolved to a definition, a payload and options. The
  lemmas say which job runs next; the invariants of whole runs are in \<^verbatim>\<open>Job_Queue_Props\<close>.
\<close>

section \<open>Types\<close>

record JobDefinition =
  jd_name :: string
  jd_queue :: string
  jd_attempts :: nat
  jd_backoffMs :: int

record QueueSettings =
  qs_concurrency :: nat
  qs_rateLimit :: "(nat \<times> int) option"

record EnqueueOptions =
  eo_idempotencyKey :: "string option"
  eo_delayMs :: "int option"
  eo_priority :: "rat option"

record ChainStep =
  cs_def :: JobDefinition
  cs_data :: string
  cs_opts :: EnqueueOptions

text \<open>\<open>mj_next\<close> are the steps of the chain that \<open>onComplete\<close> still has to enqueue.\<close>

record MemJob =
  mj_id :: string
  mj_def :: JobDefinition
  mj_data :: string
  mj_attempt :: nat
  mj_idempotencyKey :: "string option"
  mj_priority :: "rat option"
  mj_next :: "ChainStep list"

record DeadLetter =
  dl_jobId :: string
  dl_name :: string
  dl_data :: string
  dl_error :: string
  dl_attempts :: nat
  dl_failedAt :: int

record MemDeadLetter = DeadLetter +
  dl_def :: JobDefinition

datatype job_status = JS_pending | JS_active | JS_completed string | JS_failed string

record MemQueue =
  mq_settings :: QueueSettings
  mq_waiting :: "MemJob list"
  mq_delayed :: "(int \<times> MemJob) list"
  mq_delayedCount :: int
  mq_active :: "(string, MemJob) jsmap"
  mq_inFlight :: "MemJob list"
  mq_handlers :: "string list"
  mq_dlq :: "MemDeadLetter list"
  mq_rateWindow :: "int list"
  mq_rateTimer :: "int option"
  mq_pumpScheduled :: bool

record driver =
  dv_queueMap :: "(string, MemQueue) jsmap"
  dv_idempotency :: "(string, string) jsmap"
  dv_schedules :: "(string, JobDefinition \<times> string \<times> int) jsmap"
  dv_results :: "(string, job_status \<times> int) jsmap"
  dv_seq :: nat
  dv_closing :: bool

definition COMPLETED_RETENTION_SECONDS :: int where "COMPLETED_RETENTION_SECONDS = 86400"

definition defineJob :: "string \<Rightarrow> string \<Rightarrow> nat option \<Rightarrow> int option \<Rightarrow> JobDefinition" where
  "defineJob queue name attempts backoffMs =
     \<lparr> jd_name = name, jd_queue = queue, jd_attempts = coalesce attempts 5, jd_backoffMs = coalesce backoffMs 1000 \<rparr>"

definition new_queue :: "QueueSettings \<Rightarrow> MemQueue" where
  "new_queue settings = \<lparr> mq_settings = settings, mq_waiting = [], mq_delayed = [], mq_delayedCount = 0, mq_active = [],
     mq_inFlight = [], mq_handlers = [], mq_dlq = [], mq_rateWindow = [], mq_rateTimer = None, mq_pumpScheduled = False \<rparr>"

definition new_driver :: driver where
  "new_driver = \<lparr> dv_queueMap = [], dv_idempotency = [], dv_schedules = [], dv_results = [], dv_seq = 0, dv_closing = False \<rparr>"

section \<open>Results\<close>

definition evictExpiredResults :: "int \<Rightarrow> driver \<Rightarrow> driver" where
  "evictExpiredResults now d = d\<lparr> dv_results := filter (\<lambda>(k, st, expiresAt). \<not> expiresAt \<le> now) (dv_results d) \<rparr>"

definition setResult :: "int \<Rightarrow> string \<Rightarrow> job_status \<Rightarrow> driver \<Rightarrow> driver" where
  "setResult now jobId st d =
     (let d1 = evictExpiredResults now d
      in d1\<lparr> dv_results := AList.update jobId (st, now + COMPLETED_RETENTION_SECONDS * 1000) (dv_results d1) \<rparr>)"

definition getResult :: "int \<Rightarrow> string \<Rightarrow> driver \<Rightarrow> driver \<times> job_status" where
  "getResult now jobId d =
     (case map_of (dv_results d) jobId of
        None \<Rightarrow> (d, JS_pending)
      | Some (st, expiresAt) \<Rightarrow>
          if expiresAt \<le> now then (d\<lparr> dv_results := AList.delete jobId (dv_results d) \<rparr>, JS_pending) else (d, st))"

section \<open>Queues\<close>

definition unknown_queue :: "string \<Rightarrow> exn" where
  "unknown_queue name = PlainError (''Unknown job queue '' @ [CHR 0x22] @ name @ [CHR 0x22] @ '' - call defineQueue() first'')"

definition put_queue :: "string \<Rightarrow> MemQueue \<Rightarrow> driver \<Rightarrow> driver" where
  "put_queue name q d = d\<lparr> dv_queueMap := AList.update name q (dv_queueMap d) \<rparr>"

definition defineQueue :: "string \<Rightarrow> QueueSettings \<Rightarrow> driver \<Rightarrow> driver" where
  "defineQueue name settings d =
     (case map_of (dv_queueMap d) name of
        Some q \<Rightarrow> put_queue name (q\<lparr> mq_settings := settings \<rparr>) d
      | None \<Rightarrow> put_queue name (new_queue settings) d)"

definition pump :: "MemQueue \<Rightarrow> MemQueue" where
  "pump q = q\<lparr> mq_pumpScheduled := True \<rparr>"

text \<open>\<open>setTimeout\<close>: a delay below one millisecond or beyond 31 bits is one millisecond.\<close>

definition js_timeout :: "int \<Rightarrow> int" where
  "js_timeout ms = (if 1 \<le> ms \<and> ms \<le> 2147483647 then ms else 1)"

definition delay :: "int \<Rightarrow> MemJob \<Rightarrow> int \<Rightarrow> MemQueue \<Rightarrow> MemQueue" where
  "delay now job ms q =
     q\<lparr> mq_delayedCount := mq_delayedCount q + 1, mq_delayed := mq_delayed q @ [(now + js_timeout ms, job)] \<rparr>"

section \<open>Producers\<close>

definition new_job :: "string \<Rightarrow> JobDefinition \<Rightarrow> string \<Rightarrow> EnqueueOptions \<Rightarrow> ChainStep list \<Rightarrow> MemJob" where
  "new_job jid def data opts rest =
     \<lparr> mj_id = jid, mj_def = def, mj_data = data, mj_attempt = 1, mj_idempotencyKey = eo_idempotencyKey opts,
       mj_priority = eo_priority opts, mj_next = rest \<rparr>"

definition dedupe_key :: "JobDefinition \<Rightarrow> EnqueueOptions \<Rightarrow> string option" where
  "dedupe_key def opts =
     (case eo_idempotencyKey opts of
        Some k \<Rightarrow> if k \<noteq> [] then Some (jd_queue def @ '':'' @ k) else None
      | None \<Rightarrow> None)"

text \<open>\<open>idempotencyKey ?? name:seq\<close>, and the job an enqueue with the same key has made before.\<close>

definition job_id :: "JobDefinition \<Rightarrow> EnqueueOptions \<Rightarrow> driver \<Rightarrow> string" where
  "job_id def opts d =
     (case eo_idempotencyKey opts of Some k \<Rightarrow> k | None \<Rightarrow> jd_name def @ '':'' @ nat_to_string (dv_seq d + 1))"

definition existing :: "JobDefinition \<Rightarrow> EnqueueOptions \<Rightarrow> driver \<Rightarrow> string option" where
  "existing def opts d =
     (case dedupe_key def opts of
        None \<Rightarrow> None
      | Some k \<Rightarrow> (case map_of (dv_idempotency d) k of Some jid \<Rightarrow> if jid = [] then None else Some jid | None \<Rightarrow> None))"

definition enqueueInternal :: "int \<Rightarrow> JobDefinition \<Rightarrow> string \<Rightarrow> EnqueueOptions \<Rightarrow> ChainStep list \<Rightarrow> driver \<Rightarrow> driver \<times> string result" where
  "enqueueInternal now def data opts rest d =
     (case map_of (dv_queueMap d) (jd_queue def) of
        None \<Rightarrow> (d, Inl (unknown_queue (jd_queue def)))
      | Some q \<Rightarrow>
          (case existing def opts d of
             Some jid \<Rightarrow> (d, Inr jid)
           | None \<Rightarrow>
               (let jid = job_id def opts d;
                    d1 = d\<lparr> dv_seq := (if eo_idempotencyKey opts = None then dv_seq d + 1 else dv_seq d),
                            dv_idempotency := (case dedupe_key def opts of
                              Some k \<Rightarrow> AList.update k jid (dv_idempotency d) | None \<Rightarrow> dv_idempotency d) \<rparr>;
                    job = new_job jid def data opts rest;
                    q1 = (if eo_delayMs opts \<noteq> None \<and> eo_delayMs opts \<noteq> Some 0 then delay now job (the (eo_delayMs opts)) q
                          else pump (q\<lparr> mq_waiting := mq_waiting q @ [job] \<rparr>))
                in (put_queue (jd_queue def) q1 (setResult now jid JS_pending d1), Inr jid))))"

definition enqueue :: "int \<Rightarrow> JobDefinition \<Rightarrow> string \<Rightarrow> EnqueueOptions \<Rightarrow> driver \<Rightarrow> driver \<times> string result" where
  "enqueue now def data opts d = enqueueInternal now def data opts [] d"

definition enqueueStep :: "int \<Rightarrow> ChainStep list \<Rightarrow> driver \<Rightarrow> driver \<times> string result" where
  "enqueueStep now steps d =
     (case steps of
        [] \<Rightarrow> (d, Inl (PlainError ''Cannot read properties of undefined''))
      | s # rest \<Rightarrow> enqueueInternal now (cs_def s) (cs_data s) (cs_opts s) rest d)"

definition enqueueChain :: "int \<Rightarrow> ChainStep list \<Rightarrow> driver \<Rightarrow> driver \<times> string result" where
  "enqueueChain now steps d =
     (if steps = [] then (d, Inl (PlainError ''enqueueChain() requires at least one step'')) else enqueueStep now steps d)"

definition schedule_key :: "string \<Rightarrow> string \<Rightarrow> string" where
  "schedule_key queue name = queue @ '':'' @ name"

definition schedule :: "JobDefinition \<Rightarrow> int \<Rightarrow> string \<Rightarrow> driver \<Rightarrow> driver" where
  "schedule def everyMs data d =
     (let key = schedule_key (jd_queue def) (jd_name def)
      in if map_of (dv_schedules d) key \<noteq> None then d
         else d\<lparr> dv_schedules := AList.update key (def, data, everyMs) (dv_schedules d) \<rparr>)"

definition no_options :: EnqueueOptions where
  "no_options = \<lparr> eo_idempotencyKey = None, eo_delayMs = None, eo_priority = None \<rparr>"

text \<open>One tick of the interval of a schedule; with no handler, or while closing, it enqueues nothing.\<close>

definition scheduleTick :: "int \<Rightarrow> string \<Rightarrow> driver \<Rightarrow> driver \<times> string option result" where
  "scheduleTick now key d =
     (case map_of (dv_schedules d) key of
        None \<Rightarrow> (d, Inr None)
      | Some (def, data, everyMs) \<Rightarrow>
          (case map_of (dv_queueMap d) (jd_queue def) of
             None \<Rightarrow> (d, Inl (unknown_queue (jd_queue def)))
           | Some q \<Rightarrow>
               if jd_name def \<notin> set (mq_handlers q) \<or> dv_closing d then (d, Inr None)
               else (case enqueue now def data no_options d of
                       (d', Inl e) \<Rightarrow> (d', Inl e)
                     | (d', Inr jid) \<Rightarrow> (d', Inr (Some jid)))))"

definition listSchedules :: "string \<Rightarrow> driver \<Rightarrow> (string \<times> int) list" where
  "listSchedules queue d =
     (let prefix = queue @ '':''
      in map (\<lambda>(key, _, _, everyMs). (drop (length prefix) key, everyMs)) (filter (\<lambda>(key, _). startsWith prefix key) (dv_schedules d)))"

definition unschedule :: "string \<Rightarrow> string \<Rightarrow> driver \<Rightarrow> driver \<times> bool" where
  "unschedule queue name d =
     (let key = schedule_key queue name
      in if map_of (dv_schedules d) key = None then (d, False)
         else (d\<lparr> dv_schedules := AList.delete key (dv_schedules d) \<rparr>, True))"

text \<open>Registering the handler of a job name.\<close>

definition process :: "JobDefinition \<Rightarrow> driver \<Rightarrow> driver result" where
  "process def d =
     (case map_of (dv_queueMap d) (jd_queue def) of
        None \<Rightarrow> Inl (unknown_queue (jd_queue def))
      | Some q \<Rightarrow> Inr (put_queue (jd_queue def) (pump (q\<lparr> mq_handlers := List.insert (jd_name def) (mq_handlers q) \<rparr>)) d))"

definition register :: "string \<Rightarrow> JobDefinition \<Rightarrow> driver \<Rightarrow> driver result" where
  "register queue def d = process def (defineQueue queue \<lparr> qs_concurrency = 1, qs_rateLimit = None \<rparr> d)"

definition start :: "string \<Rightarrow> QueueSettings \<Rightarrow> driver \<Rightarrow> driver" where
  "start queue settings d =
     (let d1 = defineQueue queue settings d
      in case map_of (dv_queueMap d1) queue of None \<Rightarrow> d1 | Some q \<Rightarrow> put_queue queue (pump q) d1)"

section \<open>Administration\<close>

record QueueStats =
  st_waiting :: nat
  st_active :: nat
  st_delayed :: int
  st_deadLetter :: nat

definition stats :: "string \<Rightarrow> driver \<Rightarrow> QueueStats result" where
  "stats queue d =
     (case map_of (dv_queueMap d) queue of
        None \<Rightarrow> Inl (unknown_queue queue)
      | Some q \<Rightarrow> Inr \<lparr> st_waiting = length (mq_waiting q), st_active = length (mq_active q), st_delayed = mq_delayedCount q,
                       st_deadLetter = length (mq_dlq q) \<rparr>)"

text \<open>\<open>slice(-limit)\<close> with the limit zero is the whole list.\<close>

definition deadLetters :: "string \<Rightarrow> nat \<Rightarrow> driver \<Rightarrow> DeadLetter list result" where
  "deadLetters queue limit d =
     (case map_of (dv_queueMap d) queue of
        None \<Rightarrow> Inl (unknown_queue queue)
      | Some q \<Rightarrow> Inr (map DeadLetter.truncate (rev (if limit = 0 then mq_dlq q else drop (length (mq_dlq q) - limit) (mq_dlq q)))))"

definition queues :: "driver \<Rightarrow> string list" where
  "queues d = map fst (dv_queueMap d)"

fun remove_first :: "('a \<Rightarrow> bool) \<Rightarrow> 'a list \<Rightarrow> 'a list" where
  "remove_first p [] = []"
| "remove_first p (x # xs) = (if p x then xs else x # remove_first p xs)"

definition cancel :: "string \<Rightarrow> string \<Rightarrow> driver \<Rightarrow> driver \<times> bool result" where
  "cancel queue jobId d =
     (case map_of (dv_queueMap d) queue of
        None \<Rightarrow> (d, Inl (unknown_queue queue))
      | Some q \<Rightarrow>
          if list_ex (\<lambda>j. mj_id j = jobId) (mq_waiting q)
          then (put_queue queue (q\<lparr> mq_waiting := remove_first (\<lambda>j. mj_id j = jobId) (mq_waiting q) \<rparr>) d, Inr True)
          else if list_ex (\<lambda>(_, j). mj_id j = jobId) (mq_delayed q)
          then (put_queue queue (q\<lparr> mq_delayed := remove_first (\<lambda>(_, j). mj_id j = jobId) (mq_delayed q),
                  mq_delayedCount := mq_delayedCount q - 1 \<rparr>) d, Inr True)
          else (d, Inr False))"

definition retryDeadLetter :: "int \<Rightarrow> string \<Rightarrow> string \<Rightarrow> driver \<Rightarrow> driver \<times> bool" where
  "retryDeadLetter now queue jobId d =
     (case map_of (dv_queueMap d) queue of
        None \<Rightarrow> (d, False)
      | Some q \<Rightarrow>
          (case find (\<lambda>l. dl_jobId l = jobId) (mq_dlq q) of
             None \<Rightarrow> (d, False)
           | Some entry \<Rightarrow>
               (let job = \<lparr> mj_id = dl_jobId entry, mj_def = dl_def entry, mj_data = dl_data entry, mj_attempt = 1,
                            mj_idempotencyKey = None, mj_priority = None, mj_next = [] \<rparr>;
                    q1 = q\<lparr> mq_dlq := remove_first (\<lambda>l. dl_jobId l = jobId) (mq_dlq q), mq_waiting := mq_waiting q @ [job] \<rparr>
                in (put_queue queue (pump q1) (setResult now (mj_id job) JS_pending d), True))))"

section \<open>Running\<close>

text \<open>An unset priority compares as infinity.\<close>

fun priority_less :: "rat option \<Rightarrow> rat option \<Rightarrow> bool" where
  "priority_less (Some a) (Some b) = (a < b)"
| "priority_less (Some a) None = True"
| "priority_less None b = False"

fun next_scan :: "string list \<Rightarrow> nat \<Rightarrow> MemJob list \<Rightarrow> (nat \<times> rat option) option \<Rightarrow> (nat \<times> rat option) option" where
  "next_scan handlers i [] best = best"
| "next_scan handlers i (job # jobs) best =
     (if jd_name (mj_def job) \<notin> set handlers then next_scan handlers (i + 1) jobs best
      else next_scan handlers (i + 1) jobs
             (case best of
                None \<Rightarrow> Some (i, mj_priority job)
              | Some (b, p) \<Rightarrow> if priority_less (mj_priority job) p then Some (i, mj_priority job) else best))"

definition nextIndex :: "MemQueue \<Rightarrow> nat option" where
  "nextIndex q = map_option fst (next_scan (mq_handlers q) 0 (mq_waiting q) None)"

definition takeRateSlot :: "int \<Rightarrow> MemQueue \<Rightarrow> MemQueue \<times> bool" where
  "takeRateSlot now q =
     (case qs_rateLimit (mq_settings q) of
        None \<Rightarrow> (q, True)
      | Some (mx, durationMs) \<Rightarrow>
          (let window = filter (\<lambda>t. now - t < durationMs) (mq_rateWindow q)
           in if length window < mx then (q\<lparr> mq_rateWindow := window @ [now] \<rparr>, True)
              else (q\<lparr> mq_rateWindow := window, mq_rateTimer :=
                      (case mq_rateTimer q of Some t \<Rightarrow> Some t
                       | None \<Rightarrow> Some (now + (if window = [] then 1 else js_timeout (durationMs - (now - hd window))))) \<rparr>, False)))"

definition begin_run :: "MemJob \<Rightarrow> MemQueue \<Rightarrow> MemQueue" where
  "begin_run job q = q\<lparr> mq_active := AList.update (mj_id job) job (mq_active q), mq_inFlight := mq_inFlight q @ [job] \<rparr>"

lemma next_scan_bound:
  "next_scan hs i jobs best = Some (b, p) \<Longrightarrow> best = Some (b, p) \<or> i \<le> b \<and> b < i + length jobs"
  by (induction hs i jobs best rule: next_scan.induct) (fastforce split: option.splits if_splits)+

lemma nextIndex_bound: "nextIndex q = Some i \<Longrightarrow> i < length (mq_waiting q)"
  using next_scan_bound[of "mq_handlers q" 0 "mq_waiting q" None] by (auto simp: nextIndex_def)

lemma takeRateSlot_waiting [simp]: "mq_waiting (fst (takeRateSlot now q)) = mq_waiting q"
  by (simp add: takeRateSlot_def Let_def split: option.split)

lemma takeRateSlot_keeps: "(q1, b) = takeRateSlot now q \<Longrightarrow> mq_waiting q1 = mq_waiting q"
  by (metis fst_conv takeRateSlot_waiting)

text \<open>The loop of \<open>drain\<close>: the queue afterwards and the jobs started, in order.\<close>

function drain_loop :: "bool \<Rightarrow> int \<Rightarrow> MemQueue \<Rightarrow> MemQueue \<times> MemJob list" where
  "drain_loop closing now q =
     (if closing \<or> \<not> length (mq_active q) < qs_concurrency (mq_settings q) then (q, [])
      else case nextIndex q of
             None \<Rightarrow> (q, [])
           | Some i \<Rightarrow>
               (let (q1, slot) = takeRateSlot now q
                in if \<not> slot then (q1, [])
                   else (let job = mq_waiting q1 ! i;
                             q2 = begin_run job (q1\<lparr> mq_waiting := take i (mq_waiting q1) @ drop (i + 1) (mq_waiting q1) \<rparr>);
                             (q3, started) = drain_loop closing now q2
                         in (q3, job # started))))"
  by auto
termination
  by (relation "measure (\<lambda>(closing, now, q). length (mq_waiting q))")
     (auto simp: begin_run_def dest!: nextIndex_bound takeRateSlot_keeps)

declare drain_loop.simps [simp del]

text \<open>The microtask: the jobs taken start running and are marked active.\<close>

definition drainTask :: "int \<Rightarrow> string \<Rightarrow> driver \<Rightarrow> driver" where
  "drainTask now queue d =
     (case map_of (dv_queueMap d) queue of
        None \<Rightarrow> d
      | Some q \<Rightarrow>
          (let (q1, started) = drain_loop (dv_closing d) now (q\<lparr> mq_pumpScheduled := False \<rparr>)
           in fold (\<lambda>job. setResult now (mj_id job) JS_active) started (put_queue queue q1 d)))"

text \<open>What \<open>finally\<close> does once a run is over.\<close>

definition settle_run :: "string \<Rightarrow> MemJob \<Rightarrow> driver \<Rightarrow> driver" where
  "settle_run queue job d =
     (case map_of (dv_queueMap d) queue of
        None \<Rightarrow> d
      | Some q \<Rightarrow> put_queue queue (pump (q\<lparr> mq_inFlight := remove_first ((=) job) (mq_inFlight q) \<rparr>)) d)"

definition drop_active :: "string \<Rightarrow> MemQueue \<Rightarrow> MemQueue" where
  "drop_active jid q = q\<lparr> mq_active := AList.delete jid (mq_active q) \<rparr>"

text \<open>
  The end of \<open>run\<close> when the handler resolves. An exception of the chained enqueue is caught by
  \<open>run\<close> itself, which then finds the job no longer active and returns.
\<close>

definition run_resolved :: "int \<Rightarrow> string \<Rightarrow> MemJob \<Rightarrow> string \<Rightarrow> driver \<Rightarrow> driver" where
  "run_resolved now queue job res d =
     (case map_of (dv_queueMap d) queue of
        None \<Rightarrow> d
      | Some q \<Rightarrow>
          if map_of (mq_active q) (mj_id job) = None then settle_run queue job d
          else (let d1 = setResult now (mj_id job) (JS_completed res) (put_queue queue (drop_active (mj_id job) q) d);
                    d2 = (if mj_next job = [] then d1 else fst (enqueueStep now (mj_next job) d1))
                in settle_run queue job d2))"

definition dead_letter :: "int \<Rightarrow> string \<Rightarrow> MemJob \<Rightarrow> MemDeadLetter" where
  "dead_letter now error job =
     \<lparr> dl_jobId = mj_id job, dl_name = jd_name (mj_def job), dl_data = mj_data job, dl_error = error,
       dl_attempts = mj_attempt job, dl_failedAt = now, dl_def = mj_def job \<rparr>"

text \<open>The end of \<open>run\<close> when the handler rejects.\<close>

definition run_rejected :: "int \<Rightarrow> string \<Rightarrow> MemJob \<Rightarrow> string \<Rightarrow> driver \<Rightarrow> driver" where
  "run_rejected now queue job error d =
     (case map_of (dv_queueMap d) queue of
        None \<Rightarrow> d
      | Some q \<Rightarrow>
          if map_of (mq_active q) (mj_id job) = None then settle_run queue job d
          else (let q1 = drop_active (mj_id job) q
                in if mj_attempt job < jd_attempts (mj_def job)
                   then (let backoff = jd_backoffMs (mj_def job) * 2 ^ (mj_attempt job - 1);
                             q2 = delay now (job\<lparr> mj_attempt := mj_attempt job + 1 \<rparr>) backoff q1
                         in settle_run queue job (put_queue queue q2 (setResult now (mj_id job) JS_pending d)))
                   else (let q2 = q1\<lparr> mq_dlq := mq_dlq q1 @ [dead_letter now error job] \<rparr>
                         in settle_run queue job (put_queue queue q2 (setResult now (mj_id job) (JS_failed error) d)))))"

section \<open>Timers and shutdown\<close>

text \<open>The timer of the delayed job at position \<open>i\<close> fires.\<close>

definition fireDelayed :: "string \<Rightarrow> nat \<Rightarrow> driver \<Rightarrow> driver" where
  "fireDelayed queue i d =
     (case map_of (dv_queueMap d) queue of
        None \<Rightarrow> d
      | Some q \<Rightarrow>
          put_queue queue (pump (q\<lparr> mq_delayed := take i (mq_delayed q) @ drop (i + 1) (mq_delayed q),
            mq_delayedCount := mq_delayedCount q - 1, mq_waiting := mq_waiting q @ [snd (mq_delayed q ! i)] \<rparr>)) d)"

definition fireRateTimer :: "string \<Rightarrow> driver \<Rightarrow> driver" where
  "fireRateTimer queue d =
     (case map_of (dv_queueMap d) queue of
        None \<Rightarrow> d
      | Some q \<Rightarrow> put_queue queue (pump (q\<lparr> mq_rateTimer := None \<rparr>)) d)"

text \<open>
  \<open>close\<close> before and after its wait for the running handlers. A cleared timer never fires, so it is
  gone from the model; the counter of delayed jobs keeps its value.
\<close>

definition beginClose :: "driver \<Rightarrow> driver" where
  "beginClose d = d\<lparr> dv_closing := True \<rparr>"

definition close_queue :: "MemQueue \<Rightarrow> MemQueue" where
  "close_queue q =
     q\<lparr> mq_delayed := [], mq_rateTimer := None, mq_waiting := js_values (mq_active q) @ mq_waiting q, mq_active := [] \<rparr>"

definition finishClose :: "driver \<Rightarrow> driver" where
  "finishClose d = d\<lparr> dv_queueMap := map (\<lambda>(name, q). (name, close_queue q)) (dv_queueMap d) \<rparr>"

section \<open>The next job\<close>

lemma priority_less_trans: "priority_less a b \<Longrightarrow> priority_less b c \<Longrightarrow> priority_less a c"
  by (cases a; cases b; cases c) auto

lemma priority_less_total: "\<not> priority_less a b \<Longrightarrow> priority_less a c \<Longrightarrow> priority_less b c"
  by (cases a; cases b; cases c) auto

definition runnable :: "MemQueue \<Rightarrow> MemJob \<Rightarrow> bool" where
  "runnable q j \<longleftrightarrow> jd_name (mj_def j) \<in> set (mq_handlers q)"

lemma next_scan_None: "next_scan hs i jobs best = None \<longleftrightarrow> best = None \<and> (\<forall>j \<in> set jobs. jd_name (mj_def j) \<notin> set hs)"
  by (induction hs i jobs best rule: next_scan.induct) (auto split: option.splits)

lemma nextIndex_None: "nextIndex q = None \<longleftrightarrow> (\<forall>j \<in> set (mq_waiting q). \<not> runnable q j)"
  by (simp add: nextIndex_def next_scan_None runnable_def)

text \<open>
  The scan over a prefix already seen: \<open>best\<close> is the position of its first runnable job of minimal
  priority value.
\<close>

definition first_best :: "string list \<Rightarrow> MemJob list \<Rightarrow> nat \<Rightarrow> bool" where
  "first_best hs js b \<longleftrightarrow> b < length js \<and> jd_name (mj_def (js ! b)) \<in> set hs
     \<and> (\<forall>k < length js. jd_name (mj_def (js ! k)) \<in> set hs \<longrightarrow>
          \<not> priority_less (mj_priority (js ! k)) (mj_priority (js ! b)) \<and> (k < b \<longrightarrow> priority_less (mj_priority (js ! b)) (mj_priority (js ! k))))"

definition scanned :: "string list \<Rightarrow> MemJob list \<Rightarrow> (nat \<times> rat option) option \<Rightarrow> bool" where
  "scanned hs js best = (case best of
      None \<Rightarrow> \<forall>j \<in> set js. jd_name (mj_def j) \<notin> set hs
    | Some (b, p) \<Rightarrow> first_best hs js b \<and> p = mj_priority (js ! b))"

lemma priority_irrefl [simp]: "\<not> priority_less a a"
  by (cases a) auto

lemma first_best_skip: "first_best hs js b \<Longrightarrow> jd_name (mj_def j) \<notin> set hs \<Longrightarrow> first_best hs (js @ [j]) b"
  by (auto simp: first_best_def nth_append less_Suc_eq)

lemma first_best_keep: "first_best hs js b \<Longrightarrow> \<not> priority_less (mj_priority j) (mj_priority (js ! b)) \<Longrightarrow> first_best hs (js @ [j]) b"
  by (auto simp: first_best_def nth_append less_Suc_eq)

lemma first_best_new:
  assumes "first_best hs js b" "priority_less (mj_priority j) (mj_priority (js ! b))" "jd_name (mj_def j) \<in> set hs"
  shows "first_best hs (js @ [j]) (length js)"
proof -
  have "priority_less (mj_priority j) (mj_priority (js ! k))" if "k < length js" "jd_name (mj_def (js ! k)) \<in> set hs" for k
  proof (rule ccontr)
    assume n: "\<not> priority_less (mj_priority j) (mj_priority (js ! k))"
    have "\<not> priority_less (mj_priority (js ! k)) (mj_priority (js ! b))" using assms(1) that by (auto simp: first_best_def)
    then show False using priority_less_total[OF n assms(2)] by simp
  qed
  moreover have "\<not> priority_less a b" if "priority_less b a" for a b
    using that priority_less_trans priority_irrefl by blast
  ultimately show ?thesis using assms(3) by (auto simp: first_best_def nth_append less_Suc_eq)
qed

lemma first_best_first:
  "\<forall>j \<in> set js. jd_name (mj_def j) \<notin> set hs \<Longrightarrow> jd_name (mj_def j) \<in> set hs \<Longrightarrow> first_best hs (js @ [j]) (length js)"
  by (auto simp: first_best_def nth_append less_Suc_eq)

lemma next_scan_scanned:
  "scanned hs pre best \<Longrightarrow> i = length pre \<Longrightarrow> scanned hs (pre @ js) (next_scan hs i js best)"
proof (induction js arbitrary: pre i best)
  case (Cons j js)
  let ?best = "if jd_name (mj_def j) \<notin> set hs then best else (case best of None \<Rightarrow> Some (i, mj_priority j)
     | Some (b, p) \<Rightarrow> if priority_less (mj_priority j) p then Some (i, mj_priority j) else best)"
  have b: "b < length pre" if "first_best hs pre b" for b using that by (simp add: first_best_def)
  have "scanned hs (pre @ [j]) ?best"
    using Cons.prems b unfolding scanned_def
    by (auto split: option.splits if_splits simp: nth_append
        intro: first_best_skip first_best_keep first_best_new first_best_first)
  from Cons.IH[OF this] Cons.prems(2) show ?case by (auto split: option.splits)
qed simp

text \<open>
  The job taken next is the first of the runnable jobs with the smallest priority value, an unset
  priority being the largest.
\<close>

theorem next_job_exact:
  "nextIndex q = Some i \<longleftrightarrow> first_best (mq_handlers q) (mq_waiting q) i"
proof -
  have s: "scanned (mq_handlers q) (mq_waiting q) (next_scan (mq_handlers q) 0 (mq_waiting q) None)"
    using next_scan_scanned[of "mq_handlers q" "[]" None 0 "mq_waiting q"] by (simp add: scanned_def)
  have u: "b = b'" if f: "first_best hs js b" "first_best hs js b'" for hs js b b'
  proof (rule linorder_cases[of b b'])
    show "b < b' \<Longrightarrow> b = b'" using f unfolding first_best_def by blast
    show "b' < b \<Longrightarrow> b = b'" using f unfolding first_best_def by blast
  qed
  show ?thesis
  proof (cases "next_scan (mq_handlers q) 0 (mq_waiting q) None")
    case None
    then show ?thesis using s by (auto simp: nextIndex_def scanned_def first_best_def)
  next
    case (Some bp)
    obtain b p where bp: "bp = (b, p)" by (cases bp)
    then have "first_best (mq_handlers q) (mq_waiting q) b" using s Some by (simp add: scanned_def)
    then show ?thesis using u Some bp by (auto simp: nextIndex_def)
  qed
qed

end
