(* ===== verification/Job_Queue_Props.thy ===== *)
theory Job_Queue_Props
  imports Job_Queue
begin

text \<open>
  Runs of a process that uses the in-process job queue, under any interleaving of producers, drains,
  timers, ending handlers and shutdown: jobs are neither lost nor duplicated, the concurrency, rate
  and attempt limits hold, and a queue with work to do never stalls.
\<close>

section \<open>Runs of the driver\<close>

text \<open>What an observer of a queue records: jobs accepted, started (with the time) and ended.\<close>

datatype outcome = Completed | Cancelled | Dropped

datatype job_event = Accepted string string | Started string int string | Ended string string outcome

definition accepted :: "string \<Rightarrow> job_event list \<Rightarrow> string list" where
  "accepted n es = concat (map (\<lambda>e. case e of Accepted m i \<Rightarrow> if m = n then [i] else [] | _ \<Rightarrow> []) es)"

definition started :: "string \<Rightarrow> job_event list \<Rightarrow> int list" where
  "started n es = concat (map (\<lambda>e. case e of Started m t i \<Rightarrow> if m = n then [t] else [] | _ \<Rightarrow> []) es)"

definition ended :: "string \<Rightarrow> job_event list \<Rightarrow> string list" where
  "ended n es = concat (map (\<lambda>e. case e of Ended m i out \<Rightarrow> if m = n then [i] else [] | _ \<Rightarrow> []) es)"

lemma observed_append [simp]:
  "accepted n (es @ fs) = accepted n es @ accepted n fs"
  "started n (es @ fs) = started n es @ started n fs"
  "ended n (es @ fs) = ended n es @ ended n fs"
  by (simp_all add: accepted_def started_def ended_def)

lemma observed_one [simp]:
  "accepted n [] = []" "started n [] = []" "ended n [] = []"
  "accepted n [Accepted m i] = (if m = n then [i] else [])" "accepted n [Started m t i] = []" "accepted n [Ended m i out] = []"
  "started n [Accepted m i] = []" "started n [Started m t i] = (if m = n then [t] else [])" "started n [Ended m i out] = []"
  "ended n [Accepted m i] = []" "ended n [Started m t i] = []" "ended n [Ended m i out] = (if m = n then [i] else [])"
  by (simp_all add: accepted_def started_def ended_def)

text \<open>
  The names of the jobs a program defines are a set \<open>N\<close>. An idempotency key is acceptable when it is
  not empty and cannot be mistaken for a generated identifier.
\<close>

definition key_ok :: "string set \<Rightarrow> string \<Rightarrow> bool" where
  "key_ok N k \<longleftrightarrow> k \<noteq> [] \<and> (\<forall>nm \<in> N. \<not> (startsWith (nm @ '':'') k \<and> all_digits (drop (length nm + 1) k)))"

definition step_ok :: "string set \<Rightarrow> JobDefinition \<Rightarrow> EnqueueOptions \<Rightarrow> bool" where
  "step_ok N def opts \<longleftrightarrow> jd_name def \<in> N \<and> (case eo_idempotencyKey opts of None \<Rightarrow> True | Some k \<Rightarrow> key_ok N k)"

definition chain_ok :: "string set \<Rightarrow> ChainStep list \<Rightarrow> bool" where
  "chain_ok N steps \<longleftrightarrow> (\<forall>s \<in> set steps. step_ok N (cs_def s) (cs_opts s))"

text \<open>The events of the operations.\<close>

definition enqueue_events :: "JobDefinition \<Rightarrow> EnqueueOptions \<Rightarrow> driver \<Rightarrow> job_event list" where
  "enqueue_events def opts d =
     (if map_of (dv_queueMap d) (jd_queue def) \<noteq> None \<and> existing def opts d = None
      then [Accepted (jd_queue def) (job_id def opts d)] else [])"

definition resolved_events :: "string \<Rightarrow> MemJob \<Rightarrow> driver \<Rightarrow> job_event list" where
  "resolved_events queue job d =
     (case map_of (dv_queueMap d) queue of
        None \<Rightarrow> []
      | Some q \<Rightarrow> if map_of (mq_active q) (mj_id job) = None then []
                  else Ended queue (mj_id job) Completed
                       # (case mj_next job of [] \<Rightarrow> [] | s # rest \<Rightarrow> enqueue_events (cs_def s) (cs_opts s) d))"

definition drain_events :: "int \<Rightarrow> string \<Rightarrow> driver \<Rightarrow> job_event list" where
  "drain_events now queue d =
     (case map_of (dv_queueMap d) queue of
        None \<Rightarrow> []
      | Some q \<Rightarrow> map (\<lambda>j. Started queue now (mj_id j)) (snd (drain_loop (dv_closing d) now (q\<lparr> mq_pumpScheduled := False \<rparr>))))"

definition close_events :: "driver \<Rightarrow> job_event list" where
  "close_events d = concat (map (\<lambda>(n, q). map (\<lambda>(due, j). Ended n (mj_id j) Dropped) (mq_delayed q)) (dv_queueMap d))"

text \<open>
  One step of a process that uses the driver: the time may pass before it. Every queue is defined
  with the settings \<open>cfg\<close> gives it. Handlers end as they like, in any order.
\<close>

inductive job_step :: "string set \<Rightarrow> (string \<Rightarrow> QueueSettings) \<Rightarrow> int \<times> driver \<times> job_event list \<Rightarrow> int \<times> driver \<times> job_event list \<Rightarrow> bool"
  for N :: "string set" and cfg :: "string \<Rightarrow> QueueSettings" where
  js_define: "c \<le> t \<Longrightarrow> job_step N cfg (c, d, es) (t, defineQueue n (cfg n) d, es)"
| js_start: "c \<le> t \<Longrightarrow> job_step N cfg (c, d, es) (t, start n (cfg n) d, es)"
| js_process: "c \<le> t \<Longrightarrow> process def d = Inr d' \<Longrightarrow> job_step N cfg (c, d, es) (t, d', es)"
| js_register: "c \<le> t \<Longrightarrow> cfg n = \<lparr> qs_concurrency = 1, qs_rateLimit = None \<rparr> \<Longrightarrow> register n def d = Inr d'
    \<Longrightarrow> job_step N cfg (c, d, es) (t, d', es)"
| js_enqueue: "c \<le> t \<Longrightarrow> step_ok N def opts \<Longrightarrow> enqueue t def data opts d = (d', r)
    \<Longrightarrow> job_step N cfg (c, d, es) (t, d', es @ enqueue_events def opts d)"
| js_chain: "c \<le> t \<Longrightarrow> chain_ok N (s # rest) \<Longrightarrow> enqueueChain t (s # rest) d = (d', r)
    \<Longrightarrow> job_step N cfg (c, d, es) (t, d', es @ enqueue_events (cs_def s) (cs_opts s) d)"
| js_schedule: "c \<le> t \<Longrightarrow> job_step N cfg (c, d, es) (t, schedule def everyMs data d, es)"
| js_unschedule: "c \<le> t \<Longrightarrow> unschedule n nm d = (d', b) \<Longrightarrow> job_step N cfg (c, d, es) (t, d', es)"
| js_tick: "c \<le> t \<Longrightarrow> map_of (dv_schedules d) key = Some (def, data, everyMs) \<Longrightarrow> jd_name def \<in> N
    \<Longrightarrow> scheduleTick t key d = (d', Inr (Some jid)) \<Longrightarrow> job_step N cfg (c, d, es) (t, d', es @ enqueue_events def no_options d)"
| js_cancel: "c \<le> t \<Longrightarrow> cancel n jid d = (d', Inr b)
    \<Longrightarrow> job_step N cfg (c, d, es) (t, d', es @ (if b then [Ended n jid Cancelled] else []))"
| js_retry: "c \<le> t \<Longrightarrow> retryDeadLetter t n jid d = (d', b) \<Longrightarrow> job_step N cfg (c, d, es) (t, d', es)"
| js_result: "c \<le> t \<Longrightarrow> getResult t jid d = (d', st) \<Longrightarrow> job_step N cfg (c, d, es) (t, d', es)"
| js_drain: "c \<le> t \<Longrightarrow> map_of (dv_queueMap d) n = Some q \<Longrightarrow> mq_pumpScheduled q
    \<Longrightarrow> job_step N cfg (c, d, es) (t, drainTask t n d, es @ drain_events t n d)"
| js_resolved: "c \<le> t \<Longrightarrow> map_of (dv_queueMap d) n = Some q \<Longrightarrow> job \<in> set (mq_inFlight q)
    \<Longrightarrow> job_step N cfg (c, d, es) (t, run_resolved t n job res d, es @ resolved_events n job d)"
| js_rejected: "c \<le> t \<Longrightarrow> map_of (dv_queueMap d) n = Some q \<Longrightarrow> job \<in> set (mq_inFlight q)
    \<Longrightarrow> job_step N cfg (c, d, es) (t, run_rejected t n job error d, es)"
| js_fire: "c \<le> t \<Longrightarrow> map_of (dv_queueMap d) n = Some q \<Longrightarrow> i < length (mq_delayed q) \<Longrightarrow> fst (mq_delayed q ! i) \<le> t
    \<Longrightarrow> job_step N cfg (c, d, es) (t, fireDelayed n i d, es)"
| js_rate: "c \<le> t \<Longrightarrow> map_of (dv_queueMap d) n = Some q \<Longrightarrow> mq_rateTimer q = Some u \<Longrightarrow> u \<le> t
    \<Longrightarrow> job_step N cfg (c, d, es) (t, fireRateTimer n d, es)"
| js_closing: "c \<le> t \<Longrightarrow> job_step N cfg (c, d, es) (t, beginClose d, es)"
| js_closed: "c \<le> t \<Longrightarrow> dv_closing d \<Longrightarrow> job_step N cfg (c, d, es) (t, finishClose d, es @ close_events d)"

section \<open>The invariant of a queue\<close>

definition held :: "MemQueue \<Rightarrow> string list" where
  "held q = map mj_id (mq_waiting q) @ map (mj_id \<circ> snd) (mq_delayed q) @ map fst (mq_active q) @ map dl_jobId (mq_dlq q)"

definition jobs_of :: "MemQueue \<Rightarrow> MemJob set" where
  "jobs_of q = set (mq_waiting q) \<union> snd ` set (mq_delayed q) \<union> set (js_values (mq_active q)) \<union> set (mq_inFlight q)"

definition census :: "string \<Rightarrow> MemQueue \<Rightarrow> job_event list \<Rightarrow> bool" where
  "census n q es \<longleftrightarrow> mset (held q) + mset (ended n es) = mset (accepted n es)"

definition job_ok :: "string set \<Rightarrow> MemJob \<Rightarrow> bool" where
  "job_ok N j \<longleftrightarrow> 1 \<le> mj_attempt j \<and> mj_attempt j \<le> max 1 (jd_attempts (mj_def j)) \<and> chain_ok N (mj_next j)"

definition spent :: "MemDeadLetter \<Rightarrow> bool" where
  "spent l \<longleftrightarrow> dl_attempts l = max 1 (jd_attempts (dl_def l))"

text \<open>\<open>X\<close> are the jobs whose handler has ended while their run is still to be taken off.\<close>

definition runs_ok :: "string set \<Rightarrow> bool \<Rightarrow> MemJob multiset \<Rightarrow> MemQueue \<Rightarrow> bool" where
  "runs_ok N closing X q \<longleftrightarrow> wf_map (mq_active q) \<and> (\<forall>(k, j) \<in> set (mq_active q). mj_id j = k)
     \<and> (mset (mq_inFlight q) = mset (js_values (mq_active q)) + X \<or> closing \<and> mq_active q = [])
     \<and> (\<forall>j \<in> jobs_of q. job_ok N j) \<and> (\<forall>l \<in> set (mq_dlq q). spent l)
     \<and> length (mq_active q) \<le> qs_concurrency (mq_settings q)"

definition spaced :: "nat \<Rightarrow> int \<Rightarrow> int list \<Rightarrow> bool" where
  "spaced m dur ts \<longleftrightarrow> (\<forall>i. i + m < length ts \<longrightarrow> dur \<le> ts ! (i + m) - ts ! i)"

definition rate_ok :: "int \<Rightarrow> MemQueue \<Rightarrow> int list \<Rightarrow> bool" where
  "rate_ok c q ts \<longleftrightarrow> sorted ts \<and> (\<forall>t \<in> set ts. t \<le> c)
     \<and> (case qs_rateLimit (mq_settings q) of
          None \<Rightarrow> True
        | Some (m, dur) \<Rightarrow> spaced m dur ts \<and> (\<exists>pre. ts = pre @ mq_rateWindow q \<and> (\<forall>t \<in> set pre. dur \<le> c - t)))"

definition awake :: "bool \<Rightarrow> MemQueue \<Rightarrow> bool" where
  "awake closing q \<longleftrightarrow> closing \<or> qs_concurrency (mq_settings q) = 0 \<or> nextIndex q = None
     \<or> mq_pumpScheduled q \<or> mq_rateTimer q \<noteq> None \<or> mq_inFlight q \<noteq> []"

definition queue_ok :: "string set \<Rightarrow> (string \<Rightarrow> QueueSettings) \<Rightarrow> int \<Rightarrow> bool \<Rightarrow> string \<Rightarrow> MemJob multiset \<Rightarrow> MemQueue \<Rightarrow> job_event list \<Rightarrow> bool" where
  "queue_ok N cfg c closing n X q es \<longleftrightarrow> mq_settings q = cfg n \<and> census n q es \<and> runs_ok N closing X q
     \<and> rate_ok c q (started n es)"

lemmas queue_defs = queue_ok_def census_def held_def runs_ok_def jobs_of_def rate_ok_def

lemma rate_ok_later: "rate_ok c q ts \<Longrightarrow> c \<le> t \<Longrightarrow> rate_ok t q ts"
  by (fastforce simp: rate_ok_def split: option.splits prod.splits)

lemma queue_ok_frame:
  assumes "queue_ok N cfg c cl n X q es" and "c \<le> t" and "cl \<longrightarrow> cl'"
    and "accepted n fs = []" "started n fs = []" "ended n fs = []"
  shows "queue_ok N cfg t cl' n X q (es @ fs)"
  using assms rate_ok_later[OF _ assms(2)] by (auto simp: queue_ok_def census_def runs_ok_def)

lemma rate_ok_same:
  "mq_settings q' = mq_settings q \<Longrightarrow> mq_rateWindow q' = mq_rateWindow q \<Longrightarrow> rate_ok c q' ts = rate_ok c q ts"
  unfolding rate_ok_def by presburger

lemma new_queue_ok:
  "accepted n es = [] \<Longrightarrow> started n es = [] \<Longrightarrow> ended n es = [] \<Longrightarrow> queue_ok N cfg c cl n {#} (new_queue (cfg n)) es"
  by (auto simp: queue_defs new_queue_def spaced_def split: option.split)

lemma remove_first_mset: "find p xs = Some x \<Longrightarrow> mset xs = add_mset x (mset (remove_first p xs))"
  by (induction xs) (auto split: if_splits)

lemma remove_first_set: "set (remove_first p xs) \<subseteq> set xs"
  by (induction xs) auto

lemma find_ex: "list_ex p xs \<Longrightarrow> \<exists>x. find p xs = Some x \<and> p x \<and> x \<in> set xs"
  by (induction xs) auto

lemma mset_remove_nth: "i < length xs \<Longrightarrow> mset xs = add_mset (xs ! i) (mset (take i xs @ drop (i + 1) xs))"
  by (metis id_take_nth_drop Suc_eq_plus1 mset.simps(2) mset_append union_mset_add_mset_right)

lemma delete_mset:
  assumes "wf_map m" "map_of m k = Some v"
  shows "mset m = add_mset (k, v) (mset (AList.delete k m))"
  using assms
proof (induction m)
  case (Cons a m)
  then show ?case
  proof (cases "fst a = k")
    case True
    then have "k \<notin> fst ` set m" using Cons.prems(1) by auto
    then have "AList.delete k m = m" by (simp add: AList.delete_eq image_iff) (metis (mono_tags, lifting) filter_True fst_conv split_def imageI)
    then show ?thesis using True Cons.prems by (cases a) (simp add: AList.delete_eq)
  qed (auto simp: AList.delete_eq split: if_splits)
qed simp

section \<open>What one queue goes through\<close>

lemma queue_ok_change:
  assumes "queue_ok N cfg c cl n X q es" and "mq_settings q' = mq_settings q" and "mq_rateWindow q' = mq_rateWindow q"
    and "census n q es \<Longrightarrow> census n q' (es @ fs)" and "runs_ok N cl X q \<Longrightarrow> runs_ok N cl X' q'" and "started n fs = []"
  shows "queue_ok N cfg c cl n X' q' (es @ fs)"
  using assms rate_ok_same[OF assms(2,3)] by (simp add: queue_ok_def)

lemma queue_ok_silent:
  assumes "queue_ok N cfg c cl n X q es" and "mq_settings q' = mq_settings q" and "mq_rateWindow q' = mq_rateWindow q"
    and "census n q es \<Longrightarrow> census n q' es" and "runs_ok N cl X q \<Longrightarrow> runs_ok N cl X' q'"
  shows "queue_ok N cfg c cl n X' q' es"
  using queue_ok_change[OF assms(1-3), of "[]" X'] assms(4,5) by simp

lemma push_ok:
  assumes "queue_ok N cfg c cl n X q es" and "job_ok N job"
  shows "queue_ok N cfg c cl n X (pump (q\<lparr> mq_waiting := mq_waiting q @ [job] \<rparr>)) (es @ [Accepted n (mj_id job)])"
  using assms by (elim queue_ok_change) (auto simp: census_def held_def runs_ok_def jobs_of_def pump_def)

lemma delay_ok:
  assumes "queue_ok N cfg c cl n X q es" and "job_ok N job"
  shows "queue_ok N cfg c cl n X (delay t job ms q) (es @ [Accepted n (mj_id job)])"
  using assms by (elim queue_ok_change) (auto simp: census_def held_def runs_ok_def jobs_of_def delay_def)

lemma handler_ok:
  assumes "queue_ok N cfg c cl n X q es"
  shows "queue_ok N cfg c cl n X (pump (q\<lparr> mq_handlers := hs \<rparr>)) es" and "queue_ok N cfg c cl n X (pump q) es"
    and "queue_ok N cfg c cl n X (pump (q\<lparr> mq_rateTimer := None \<rparr>)) es"
    and "queue_ok N cfg c cl n X (q\<lparr> mq_pumpScheduled := b \<rparr>) es"
  using assms by (auto elim!: queue_ok_silent simp: census_def held_def runs_ok_def jobs_of_def pump_def)

lemma cancel_waiting_ok:
  assumes "queue_ok N cfg c cl n X q es" and "list_ex (\<lambda>j. mj_id j = jid) (mq_waiting q)"
  shows "queue_ok N cfg c cl n X (q\<lparr> mq_waiting := remove_first (\<lambda>j. mj_id j = jid) (mq_waiting q) \<rparr>) (es @ [Ended n jid Cancelled])"
proof -
  obtain x where x: "find (\<lambda>j. mj_id j = jid) (mq_waiting q) = Some x" "mj_id x = jid" using find_ex[OF assms(2)] by auto
  have "image_mset mj_id (mset (mq_waiting q)) = add_mset jid (image_mset mj_id (mset (remove_first (\<lambda>j. mj_id j = jid) (mq_waiting q))))"
    using remove_first_mset[OF x(1)] x(2) by simp
  then show ?thesis using assms(1) remove_first_set[of "\<lambda>j. mj_id j = jid" "mq_waiting q"]
    by (elim queue_ok_change) (auto simp: census_def held_def runs_ok_def jobs_of_def)
qed

lemma cancel_delayed_ok:
  assumes "queue_ok N cfg c cl n X q es" and "list_ex (\<lambda>(u, j). mj_id j = jid) (mq_delayed q)"
  shows "queue_ok N cfg c cl n X (q\<lparr> mq_delayed := remove_first (\<lambda>(u, j). mj_id j = jid) (mq_delayed q),
      mq_delayedCount := mq_delayedCount q - 1 \<rparr>) (es @ [Ended n jid Cancelled])"
proof -
  obtain x where x: "find (\<lambda>(u, j). mj_id j = jid) (mq_delayed q) = Some x" "mj_id (snd x) = jid" using find_ex[OF assms(2)] by auto
  have "image_mset (mj_id \<circ> snd) (mset (mq_delayed q))
      = add_mset jid (image_mset (mj_id \<circ> snd) (mset (remove_first (\<lambda>(u, j). mj_id j = jid) (mq_delayed q))))"
    using remove_first_mset[OF x(1)] x(2) by simp
  then show ?thesis using assms(1) remove_first_set[of "\<lambda>(u, j). mj_id j = jid" "mq_delayed q"]
    by (elim queue_ok_change) (auto simp: census_def held_def runs_ok_def jobs_of_def)
qed

definition retried_job :: "MemDeadLetter \<Rightarrow> MemJob" where
  "retried_job l = \<lparr> mj_id = dl_jobId l, mj_def = dl_def l, mj_data = dl_data l, mj_attempt = 1,
     mj_idempotencyKey = None, mj_priority = None, mj_next = [] \<rparr>"

lemma retry_ok:
  assumes "queue_ok N cfg c cl n X q es" and "find (\<lambda>l. dl_jobId l = jid) (mq_dlq q) = Some l"
  shows "queue_ok N cfg c cl n X (pump (q\<lparr> mq_dlq := remove_first (\<lambda>l. dl_jobId l = jid) (mq_dlq q),
      mq_waiting := mq_waiting q @ [retried_job l] \<rparr>)) es"
proof -
  have m: "image_mset dl_jobId (mset (mq_dlq q)) = add_mset (dl_jobId l) (image_mset dl_jobId (mset (remove_first (\<lambda>l. dl_jobId l = jid) (mq_dlq q))))"
    using remove_first_mset[OF assms(2)] by simp
  have j: "job_ok N (retried_job l)" by (simp add: job_ok_def retried_job_def chain_ok_def)
  have i: "mj_id (retried_job l) = dl_jobId l" by (simp add: retried_job_def)
  show ?thesis using assms(1) m i j remove_first_set[of "\<lambda>l. dl_jobId l = jid" "mq_dlq q"]
    by (elim queue_ok_silent) (auto simp: census_def held_def runs_ok_def jobs_of_def pump_def)
qed

lemma fire_ok:
  assumes "queue_ok N cfg c cl n X q es" and "i < length (mq_delayed q)"
  shows "queue_ok N cfg c cl n X (pump (q\<lparr> mq_delayed := take i (mq_delayed q) @ drop (i + 1) (mq_delayed q),
      mq_delayedCount := k, mq_waiting := mq_waiting q @ [snd (mq_delayed q ! i)] \<rparr>)) es"
proof -
  have m: "image_mset (mj_id \<circ> snd) (mset (mq_delayed q))
      = add_mset (mj_id (snd (mq_delayed q ! i))) (image_mset (mj_id \<circ> snd) (mset (take i (mq_delayed q) @ drop (i + 1) (mq_delayed q))))"
    using mset_remove_nth[OF assms(2)] by simp
  have s: "set (take i (mq_delayed q)) \<union> set (drop (i + 1) (mq_delayed q)) \<subseteq> set (mq_delayed q)"
    by (meson le_sup_iff set_drop_subset set_take_subset)
  have j: "snd (mq_delayed q ! i) \<in> snd ` set (mq_delayed q)" using assms(2) by auto
  let ?q = "pump (q\<lparr> mq_delayed := take i (mq_delayed q) @ drop (i + 1) (mq_delayed q),
      mq_delayedCount := k, mq_waiting := mq_waiting q @ [snd (mq_delayed q ! i)] \<rparr>)"
  have sub: "jobs_of ?q \<subseteq> jobs_of q" using s j by (auto simp: jobs_of_def pump_def)
  have same: "mq_active ?q = mq_active q" "mq_inFlight ?q = mq_inFlight q" "mq_dlq ?q = mq_dlq q" "mq_settings ?q = mq_settings q"
    "mq_rateWindow ?q = mq_rateWindow q" by (simp_all add: pump_def)
  show ?thesis using assms(1) same(4,5)
  proof (rule queue_ok_silent)
    show "census n q es \<Longrightarrow> census n ?q es" using m by (simp add: census_def held_def pump_def ac_simps)
    show "runs_ok N cl X q \<Longrightarrow> runs_ok N cl X ?q" using sub unfolding runs_ok_def same by blast
  qed
qed

lemma active_job:
  assumes "runs_ok N cl {#} q" and "job \<in> set (mq_inFlight q)" and "map_of (mq_active q) (mj_id job) \<noteq> None"
  shows "map_of (mq_active q) (mj_id job) = Some job" and "job_ok N job" and "mset (mq_inFlight q) = mset (js_values (mq_active q))"
proof -
  show m: "mset (mq_inFlight q) = mset (js_values (mq_active q))" using assms(1,3) by (auto simp: runs_ok_def)
  then have "job \<in> set (js_values (mq_active q))" using assms(2) mset_eq_setD by blast
  then obtain k where k: "(k, job) \<in> set (mq_active q)" by auto
  then have "mj_id job = k" using assms(1) by (auto simp: runs_ok_def)
  moreover have "wf_map (mq_active q)" using assms(1) by (simp add: runs_ok_def)
  ultimately show "map_of (mq_active q) (mj_id job) = Some job" using map_of_is_SomeI[OF _ k] by simp
  show "job_ok N job" using assms(1,2) by (auto simp: runs_ok_def jobs_of_def)
qed

lemma drop_active_simps [simp]:
  "mq_active (drop_active k q) = AList.delete k (mq_active q)" "mq_inFlight (drop_active k q) = mq_inFlight q"
  "mq_dlq (drop_active k q) = mq_dlq q" "mq_settings (drop_active k q) = mq_settings q" "mq_waiting (drop_active k q) = mq_waiting q"
  "mq_delayed (drop_active k q) = mq_delayed q" "mq_rateWindow (drop_active k q) = mq_rateWindow q"
  by (simp_all add: drop_active_def)

lemma drop_active_runs:
  assumes "runs_ok N cl {#} q" and "job \<in> set (mq_inFlight q)" and "map_of (mq_active q) (mj_id job) \<noteq> None"
  shows "runs_ok N cl {#job#} (drop_active (mj_id job) q)"
    and "image_mset fst (mset (mq_active q)) = add_mset (mj_id job) (image_mset fst (mset (mq_active (drop_active (mj_id job) q))))"
proof -
  note a = active_job[OF assms]
  have wf: "wf_map (mq_active q)" using assms(1) by (simp add: runs_ok_def)
  note d = delete_mset[OF wf a(1)]
  show "image_mset fst (mset (mq_active q)) = add_mset (mj_id job) (image_mset fst (mset (mq_active (drop_active (mj_id job) q))))"
    using d by simp
  have "mset (mq_inFlight q) = mset (js_values (AList.delete (mj_id job) (mq_active q))) + {#job#}"
    using a(3) d by simp
  moreover have sub: "set (AList.delete (mj_id job) (mq_active q)) \<subseteq> set (mq_active q)" by (simp add: AList.delete_eq)
  moreover have "length (AList.delete (mj_id job) (mq_active q)) \<le> length (mq_active q)" by (simp add: AList.delete_eq)
  moreover have "jobs_of (drop_active (mj_id job) q) \<subseteq> jobs_of q" using image_mono[OF sub, of snd] by (auto simp: jobs_of_def)
  ultimately show "runs_ok N cl {#job#} (drop_active (mj_id job) q)"
    using assms(1) wf unfolding runs_ok_def drop_active_simps by (meson le_trans subset_iff wf_map_delete)
qed

lemma finished_ok:
  assumes "queue_ok N cfg c cl n {#} q es" and "job \<in> set (mq_inFlight q)" and "map_of (mq_active q) (mj_id job) \<noteq> None"
  shows "queue_ok N cfg c cl n {#job#} (drop_active (mj_id job) q) (es @ [Ended n (mj_id job) Completed])"
proof (rule queue_ok_change[OF assms(1)])
  have r: "runs_ok N cl {#} q" using assms(1) by (simp add: queue_ok_def)
  show "census n q es \<Longrightarrow> census n (drop_active (mj_id job) q) (es @ [Ended n (mj_id job) Completed])"
    using drop_active_runs(2)[OF r assms(2,3)] by (simp add: census_def held_def ac_simps)
  show "runs_ok N cl {#job#} (drop_active (mj_id job) q)" using drop_active_runs(1)[OF r assms(2,3)] .
qed simp_all

lemma retried_ok:
  assumes "queue_ok N cfg c cl n {#} q es" and "job \<in> set (mq_inFlight q)" and "map_of (mq_active q) (mj_id job) \<noteq> None"
    and "mj_attempt job < jd_attempts (mj_def job)"
  shows "queue_ok N cfg c cl n {#job#} (delay t (job\<lparr> mj_attempt := mj_attempt job + 1 \<rparr>) ms (drop_active (mj_id job) q)) es"
proof (rule queue_ok_silent[OF assms(1)])
  have r: "runs_ok N cl {#} q" using assms(1) by (simp add: queue_ok_def)
  note d = drop_active_runs[OF r assms(2,3)]
  have j: "job_ok N (job\<lparr> mj_attempt := mj_attempt job + 1 \<rparr>)"
    using active_job(2)[OF r assms(2,3)] assms(4) by (simp add: job_ok_def)
  show "census n q es \<Longrightarrow> census n (delay t (job\<lparr> mj_attempt := mj_attempt job + 1 \<rparr>) ms (drop_active (mj_id job) q)) es"
    using d(2) by (simp add: census_def held_def delay_def ac_simps)
  show "runs_ok N cl {#job#} (delay t (job\<lparr> mj_attempt := mj_attempt job + 1 \<rparr>) ms (drop_active (mj_id job) q))"
    using d(1) j by (auto simp: runs_ok_def jobs_of_def delay_def)
qed (simp_all add: delay_def)

lemma dead_ok:
  assumes "queue_ok N cfg c cl n {#} q es" and "job \<in> set (mq_inFlight q)" and "map_of (mq_active q) (mj_id job) \<noteq> None"
    and "\<not> mj_attempt job < jd_attempts (mj_def job)"
  shows "queue_ok N cfg c cl n {#job#} ((drop_active (mj_id job) q)\<lparr> mq_dlq := mq_dlq q @ [dead_letter t error job] \<rparr>) es"
proof (rule queue_ok_silent[OF assms(1)])
  have r: "runs_ok N cl {#} q" using assms(1) by (simp add: queue_ok_def)
  note d = drop_active_runs[OF r assms(2,3)]
  have j: "spent (dead_letter t error job)"
    using active_job(2)[OF r assms(2,3)] assms(4) by (auto simp: job_ok_def spent_def dead_letter_def)
  have i: "dl_jobId (dead_letter t error job) = mj_id job" by (simp add: dead_letter_def)
  show "census n q es \<Longrightarrow> census n ((drop_active (mj_id job) q)\<lparr> mq_dlq := mq_dlq q @ [dead_letter t error job] \<rparr>) es"
    using d(2) i by (simp add: census_def held_def ac_simps)
  show "runs_ok N cl {#job#} ((drop_active (mj_id job) q)\<lparr> mq_dlq := mq_dlq q @ [dead_letter t error job] \<rparr>)"
    using d(1) j by (auto simp: runs_ok_def jobs_of_def)
qed simp_all

lemma remove_job_mset: "job \<in> set js \<Longrightarrow> mset js = add_mset job (mset (remove_first ((=) job) js))"
  by (induction js) auto

lemma settle_ok:
  assumes "queue_ok N cfg c cl n X q es" and "X = {#job#} \<and> job \<in> set (mq_inFlight q) \<or> X = {#} \<and> mq_active q = [] \<and> cl"
  shows "queue_ok N cfg c cl n {#} (pump (q\<lparr> mq_inFlight := remove_first ((=) job) (mq_inFlight q) \<rparr>)) es"
proof (rule queue_ok_silent[OF assms(1)])
  show "census n q es \<Longrightarrow> census n (pump (q\<lparr> mq_inFlight := remove_first ((=) job) (mq_inFlight q) \<rparr>)) es"
    by (simp add: census_def held_def pump_def)
  show "runs_ok N cl X q \<Longrightarrow> runs_ok N cl {#} (pump (q\<lparr> mq_inFlight := remove_first ((=) job) (mq_inFlight q) \<rparr>))"
    using assms(2) remove_job_mset[of job "mq_inFlight q"] remove_first_set[of "(=) job" "mq_inFlight q"]
    by (auto simp: runs_ok_def jobs_of_def pump_def)
qed (simp_all add: pump_def)

lemma close_ok:
  assumes "queue_ok N cfg c True n {#} q es"
    and "ended n fs = map (\<lambda>(u, j). mj_id j) (mq_delayed q)" "accepted n fs = []" "started n fs = []"
  shows "queue_ok N cfg c True n {#} (close_queue q) (es @ fs)"
proof (rule queue_ok_change[OF assms(1)])
  have "map fst (mq_active q) = map mj_id (js_values (mq_active q))"
    using assms(1) by (force simp: queue_ok_def runs_ok_def)
  then have "image_mset fst (mset (mq_active q)) = image_mset (mj_id \<circ> snd) (mset (mq_active q))"
    by (metis mset_map map_map)
  moreover have "mset (ended n fs) = image_mset (mj_id \<circ> snd) (mset (mq_delayed q))"
    unfolding assms(2) mset_map by (simp add: case_prod_unfold comp_def)
  ultimately show "census n q es \<Longrightarrow> census n (close_queue q) (es @ fs)"
    using assms(3) by (simp add: census_def held_def close_queue_def ac_simps)
  show "runs_ok N True {#} q \<Longrightarrow> runs_ok N True {#} (close_queue q)"
    by (auto simp: runs_ok_def jobs_of_def close_queue_def)
qed (simp_all add: close_queue_def assms(4))

subsection \<open>Starting jobs\<close>

lemma filter_recent: "sorted ts \<Longrightarrow> filter (\<lambda>u. t - u < dur) ts = dropWhile (\<lambda>u. dur \<le> t - (u :: int)) ts"
proof (induction ts)
  case (Cons a ts)
  show ?case
  proof (cases "dur \<le> t - a")
    case False
    then have "\<forall>u \<in> set ts. t - u < dur" using Cons.prems by auto
    then show ?thesis using False by (simp add: filter_id_conv)
  qed (use Cons in simp)
qed simp

lemma spaced_snoc:
  assumes "spaced m dur ts" and "ts = pre @ w" and "\<forall>u \<in> set pre. dur \<le> t - u" and "length w < m"
  shows "spaced m dur (ts @ [t])"
  unfolding spaced_def
proof (intro allI impI)
  fix i assume i: "i + m < length (ts @ [t])"
  show "dur \<le> (ts @ [t]) ! (i + m) - (ts @ [t]) ! i"
  proof (cases "i + m < length ts")
    case True
    then show ?thesis using assms(1) by (simp add: spaced_def nth_append)
  next
    case False
    then have "i + m = length ts" "i < length pre" using i assms(2,4) by auto
    then have "(ts @ [t]) ! (i + m) = t" "(ts @ [t]) ! i \<in> set pre" using assms(2) by (auto simp: nth_append)
    then show ?thesis using assms(3) by auto
  qed
qed

lemma window_split:
  assumes "rate_ok c q ts" and "c \<le> t" and "qs_rateLimit (mq_settings q) = Some (m, dur)"
  shows "\<exists>pre. ts = pre @ filter (\<lambda>u. t - u < dur) (mq_rateWindow q) \<and> (\<forall>u \<in> set pre. dur \<le> t - u)"
proof -
  obtain pre where p: "ts = pre @ mq_rateWindow q" "\<forall>u \<in> set pre. dur \<le> c - u" using assms(1,3) by (auto simp: rate_ok_def)
  let ?p = "\<lambda>u. dur \<le> t - u"
  have "sorted (mq_rateWindow q)" using assms(1) p(1) by (simp add: rate_ok_def sorted_append)
  then have "ts = (pre @ takeWhile ?p (mq_rateWindow q)) @ filter (\<lambda>u. t - u < dur) (mq_rateWindow q)"
    using p(1) by (simp add: filter_recent)
  moreover have "\<forall>u \<in> set (pre @ takeWhile ?p (mq_rateWindow q)). dur \<le> t - u"
    using p(2) assms(2) by (auto dest: set_takeWhileD)
  ultimately show ?thesis by blast
qed

lemma slot_taken:
  assumes "rate_ok c q ts" and "c \<le> t" and "takeRateSlot t q = (q1, True)"
  shows "rate_ok t q1 (ts @ [t])"
proof -
  have s: "sorted (ts @ [t])" "\<forall>u \<in> set (ts @ [t]). u \<le> t" using assms(1,2) by (auto simp: rate_ok_def sorted_append)
  show ?thesis
  proof (cases "qs_rateLimit (mq_settings q)")
    case None
    then show ?thesis using s assms(3) by (auto simp: takeRateSlot_def rate_ok_def)
  next
    case (Some md)
    obtain m dur where md: "md = (m, dur)" by (cases md)
    let ?w = "filter (\<lambda>u. t - u < dur) (mq_rateWindow q)"
    obtain pre where p: "ts = pre @ ?w" "\<forall>u \<in> set pre. dur \<le> t - u"
      using window_split[OF assms(1,2), of m dur] Some md by auto
    have w: "length ?w < m" "q1 = q\<lparr> mq_rateWindow := ?w @ [t] \<rparr>"
      using assms(3) Some md by (auto simp: takeRateSlot_def Let_def split: if_splits)
    have "spaced m dur ts" using assms(1) Some md by (simp add: rate_ok_def)
    then have "spaced m dur (ts @ [t])" using spaced_snoc[OF _ p w(1)] by blast
    moreover have "ts @ [t] = pre @ ?w @ [t]" by (subst p(1)) simp
    ultimately show ?thesis unfolding rate_ok_def using s Some md w(2) p(2) by auto
  qed
qed

lemma slot_refused:
  assumes "rate_ok c q ts" and "c \<le> t" and "takeRateSlot t q = (q1, False)"
  shows "rate_ok t q1 ts" and "mq_rateTimer q1 \<noteq> None"
proof -
  obtain m dur where md: "qs_rateLimit (mq_settings q) = Some (m, dur)"
    using assms(3) by (auto simp: takeRateSlot_def split: option.splits)
  have q1: "mq_settings q1 = mq_settings q" "mq_rateWindow q1 = filter (\<lambda>u. t - u < dur) (mq_rateWindow q)" "mq_rateTimer q1 \<noteq> None"
    using assms(3) md by (auto simp: takeRateSlot_def Let_def split: if_splits option.splits)
  show "mq_rateTimer q1 \<noteq> None" by (rule q1(3))
  show "rate_ok t q1 ts" 
    using rate_ok_later[OF assms(1,2)] window_split[OF assms(1,2) md] unfolding rate_ok_def q1(1,2) md by simp
qed

lemma takeRateSlot_frame:
  assumes "takeRateSlot t q = (q1, b)"
  shows "mq_settings q1 = mq_settings q" "mq_waiting q1 = mq_waiting q" "mq_delayed q1 = mq_delayed q" "mq_active q1 = mq_active q"
    "mq_inFlight q1 = mq_inFlight q" "mq_handlers q1 = mq_handlers q" "mq_dlq q1 = mq_dlq q"
  using assms by (auto simp: takeRateSlot_def Let_def split: option.splits if_splits)

lemma update_new: "k \<notin> fst ` set m \<Longrightarrow> AList.update k v m = m @ [(k, v)]"
  by (induction m) auto

lemma held_distinct: "census n q es \<Longrightarrow> distinct (accepted n es) \<Longrightarrow> distinct (held q)"
  unfolding census_def by (metis distinct_append mset_append mset_eq_imp_distinct_iff)

lemma start_ok:
  assumes "queue_ok N cfg t False n X q es" and "distinct (accepted n es)" and "i < length (mq_waiting q)"
    and "length (mq_active q) < qs_concurrency (mq_settings q)" and "takeRateSlot t q = (q1, True)" and "job = mq_waiting q ! i"
  shows "queue_ok N cfg t False n X (begin_run job (q1\<lparr> mq_waiting := take i (mq_waiting q1) @ drop (i + 1) (mq_waiting q1) \<rparr>))
     (es @ [Started n t (mj_id job)])"
proof -
  note f = takeRateSlot_frame[OF assms(5)]
  let ?q = "begin_run job (q1\<lparr> mq_waiting := take i (mq_waiting q1) @ drop (i + 1) (mq_waiting q1) \<rparr>)"
  have c: "census n q es" "runs_ok N False X q" "rate_ok t q (started n es)" "mq_settings q = cfg n" using assms(1) by (auto simp: queue_ok_def)
  have jin: "job \<in> set (mq_waiting q)" using assms(3,6) by auto
  have "distinct (held q)" using held_distinct[OF c(1) assms(2)] .
  then have "set (map mj_id (mq_waiting q)) \<inter> set (map fst (mq_active q)) = {}"
    unfolding held_def distinct_append set_append by blast
  then have "mj_id job \<notin> fst ` set (mq_active q)" using jin by auto
  then have act: "mq_active ?q = mq_active q @ [(mj_id job, job)]" by (simp add: begin_run_def f update_new)
  have m: "image_mset mj_id (mset (mq_waiting q)) = add_mset (mj_id job) (image_mset mj_id (mset (take i (mq_waiting q) @ drop (i + 1) (mq_waiting q))))"
    using mset_remove_nth[OF assms(3)] assms(6) by simp
  have oth: "mq_waiting ?q = take i (mq_waiting q) @ drop (i + 1) (mq_waiting q)" "mq_delayed ?q = mq_delayed q" "mq_dlq ?q = mq_dlq q"
    "mq_inFlight ?q = mq_inFlight q @ [job]" "mq_settings ?q = mq_settings q" "mq_rateWindow ?q = mq_rateWindow q1" "mq_settings ?q = mq_settings q1"
    by (simp_all add: begin_run_def f)
  have "census n ?q (es @ [Started n t (mj_id job)])"
    using c(1) m unfolding census_def held_def oth(1-3) act by (simp add: ac_simps)
  moreover have "set (take i (mq_waiting q)) \<union> set (drop (i + 1) (mq_waiting q)) \<subseteq> set (mq_waiting q)"
    by (meson le_sup_iff set_drop_subset set_take_subset)
  then have "jobs_of ?q \<subseteq> jobs_of q" using jin unfolding jobs_of_def oth(1,2,4) act by auto
  then have "runs_ok N False X ?q" using c(2) assms(4) \<open>mj_id job \<notin> fst ` set (mq_active q)\<close>
    unfolding runs_ok_def oth(3-5) act by auto
  moreover have "rate_ok t ?q (started n es @ [t])"
    using slot_taken[OF c(3) _ assms(5)] rate_ok_same[OF oth(7,6)] by simp
  ultimately show ?thesis using c(4) oth(5) by (simp add: queue_ok_def)
qed

lemma drain_stop: "cl \<or> \<not> length (mq_active q) < qs_concurrency (mq_settings q) \<or> nextIndex q = None \<Longrightarrow> drain_loop cl t q = (q, [])"
  by (subst drain_loop.simps) auto

lemma drain_refused:
  assumes "\<not> cl" "length (mq_active q) < qs_concurrency (mq_settings q)" "nextIndex q = Some i" "takeRateSlot t q = (q1, False)"
  shows "drain_loop cl t q = (q1, [])"
  by (subst drain_loop.simps) (simp add: assms)

lemma drain_more:
  assumes "\<not> cl" "length (mq_active q) < qs_concurrency (mq_settings q)" "nextIndex q = Some i" "takeRateSlot t q = (q1, True)"
    and "drain_loop cl t (begin_run (mq_waiting q1 ! i) (q1\<lparr> mq_waiting := take i (mq_waiting q1) @ drop (i + 1) (mq_waiting q1) \<rparr>)) = (q3, js)"
  shows "drain_loop cl t q = (q3, mq_waiting q1 ! i # js)"
  by (subst drain_loop.simps) (use assms in \<open>simp add: Let_def\<close>)

lemma drain_loop_ok:
  "drain_loop cl t q = (q', js) \<Longrightarrow> \<not> cl \<Longrightarrow> queue_ok N cfg t False n X q es \<Longrightarrow> distinct (accepted n es)
    \<Longrightarrow> queue_ok N cfg t False n X q' (es @ map (\<lambda>j. Started n t (mj_id j)) js)"
proof (induction cl t q arbitrary: q' js es rule: drain_loop.induct)
  case (1 cl t q)
  show ?case
  proof (cases "length (mq_active q) < qs_concurrency (mq_settings q) \<and> nextIndex q \<noteq> None")
    case False
    then have "q' = q" "js = []" using "1.prems"(1) drain_stop[of cl q t] by auto
    then show ?thesis using "1.prems"(3) by simp
  next
    case True
    then obtain i where i: "nextIndex q = Some i" by auto
    obtain q1 slot where s: "takeRateSlot t q = (q1, slot)" by fastforce
    have rt: "rate_ok t q (started n es)" using "1.prems"(3) by (simp add: queue_ok_def)
    show ?thesis
    proof (cases slot)
      case False
      then have q': "q' = q1" "js = []" using "1.prems"(1,2) True drain_refused[OF _ _ i, of cl t q1] s by auto
      have "rate_ok t q1 (started n es)" using slot_refused(1)[OF rt] s False by simp
      then show ?thesis using "1.prems"(3) takeRateSlot_frame[OF s] q'
        by (auto simp: queue_ok_def census_def held_def runs_ok_def jobs_of_def)
    next
      case slot: True
      let ?job = "mq_waiting q1 ! i"
      let ?q2 = "begin_run ?job (q1\<lparr> mq_waiting := take i (mq_waiting q1) @ drop (i + 1) (mq_waiting q1) \<rparr>)"
      obtain q3 js' where d: "drain_loop cl t ?q2 = (q3, js')" by fastforce
      have r: "q' = q3" "js = ?job # js'" using "1.prems"(1,2) True drain_more[OF _ _ i _ d] s slot by auto
      have "?job = mq_waiting q ! i" using takeRateSlot_frame(2)[OF s] by simp
      then have ok: "queue_ok N cfg t False n X ?q2 (es @ [Started n t (mj_id ?job)])"
        using start_ok[OF "1.prems"(3,4) nextIndex_bound[OF i], of q1 ?job] True s slot by simp
      have "\<not> (cl \<or> \<not> length (mq_active q) < qs_concurrency (mq_settings q))" using True "1.prems"(2) by simp
      from "1.IH"[OF this i s[symmetric] _ _ refl refl d "1.prems"(2) ok] show ?thesis
        using slot r "1.prems"(4) by simp
    qed
  qed
qed

lemma drain_loop_stops:
  "drain_loop cl t q = (q', js) \<Longrightarrow>
     cl \<or> \<not> length (mq_active q') < qs_concurrency (mq_settings q') \<or> nextIndex q' = None \<or> mq_rateTimer q' \<noteq> None"
proof (induction cl t q arbitrary: q' js rule: drain_loop.induct)
  case (1 cl t q)
  show ?case
  proof (cases "cl \<or> \<not> length (mq_active q) < qs_concurrency (mq_settings q) \<or> nextIndex q = None")
    case True
    then have "q' = q" using "1.prems" drain_stop[of cl q t] by auto
    then show ?thesis using True by auto
  next
    case False
    then obtain i where i: "nextIndex q = Some i" by auto
    obtain q1 slot where s: "takeRateSlot t q = (q1, slot)" by fastforce
    show ?thesis
    proof (cases slot)
      case False': False
      then have "q' = q1" using "1.prems" False drain_refused[OF _ _ i, of cl t q1] s False' by auto
      moreover have "mq_rateTimer q1 \<noteq> None"
        using s False' by (auto simp: takeRateSlot_def Let_def split: option.splits if_splits)
      ultimately show ?thesis by simp
    next
      case slot: True
      let ?q2 = "begin_run (mq_waiting q1 ! i) (q1\<lparr> mq_waiting := take i (mq_waiting q1) @ drop (i + 1) (mq_waiting q1) \<rparr>)"
      obtain q3 js' where d: "drain_loop cl t ?q2 = (q3, js')" by fastforce
      have "q' = q3" using "1.prems" False drain_more[OF _ _ i _ d] s slot by auto
      moreover have "\<not> (cl \<or> \<not> length (mq_active q) < qs_concurrency (mq_settings q))" using False by simp
      ultimately show ?thesis using "1.IH"[OF _ i s[symmetric] _ _ refl refl d] slot by simp
    qed
  qed
qed

section \<open>The invariant of the driver\<close>

definition queues_ok :: "string set \<Rightarrow> (string \<Rightarrow> QueueSettings) \<Rightarrow> int \<Rightarrow> (string \<Rightarrow> MemJob multiset) \<Rightarrow> driver \<Rightarrow> job_event list \<Rightarrow> bool" where
  "queues_ok N cfg c X d es \<longleftrightarrow> wf_map (dv_queueMap d) \<and> (\<forall>n. case map_of (dv_queueMap d) n of
      None \<Rightarrow> accepted n es = [] \<and> started n es = [] \<and> ended n es = []
    | Some q \<Rightarrow> queue_ok N cfg c (dv_closing d) n (X n) q es)"

definition known_id :: "string set \<Rightarrow> driver \<Rightarrow> string \<Rightarrow> string \<Rightarrow> bool" where
  "known_id N d n i \<longleftrightarrow> (\<exists>nm \<in> N. \<exists>s \<le> dv_seq d. i = nm @ '':'' @ nat_to_string s)
     \<or> key_ok N i \<and> map_of (dv_idempotency d) (n @ '':'' @ i) \<noteq> None"

definition ids_ok :: "string set \<Rightarrow> driver \<Rightarrow> job_event list \<Rightarrow> bool" where
  "ids_ok N d es \<longleftrightarrow> (\<forall>n. distinct (accepted n es) \<and> (\<forall>i \<in> set (accepted n es). known_id N d n i))
     \<and> (\<forall>k. map_of (dv_idempotency d) k \<noteq> Some [])"

definition awake_ok :: "driver \<Rightarrow> bool" where
  "awake_ok d \<longleftrightarrow> (\<forall>n q. map_of (dv_queueMap d) n = Some q \<longrightarrow> awake (dv_closing d) q)"

definition job_inv :: "string set \<Rightarrow> (string \<Rightarrow> QueueSettings) \<Rightarrow> int \<times> driver \<times> job_event list \<Rightarrow> bool" where
  "job_inv N cfg st = (case st of (c, d, es) \<Rightarrow> queues_ok N cfg c (\<lambda>_. {#}) d es \<and> ids_ok N d es \<and> awake_ok d)"

lemma frame_simps [simp]:
  "dv_queueMap (setResult t k st d) = dv_queueMap d" "dv_closing (setResult t k st d) = dv_closing d"
  "dv_idempotency (setResult t k st d) = dv_idempotency d" "dv_seq (setResult t k st d) = dv_seq d"
  "dv_schedules (setResult t k st d) = dv_schedules d"
  "dv_queueMap (put_queue n q d) = AList.update n q (dv_queueMap d)" "dv_closing (put_queue n q d) = dv_closing d"
  "dv_idempotency (put_queue n q d) = dv_idempotency d" "dv_seq (put_queue n q d) = dv_seq d"
  by (simp_all add: setResult_def evictExpiredResults_def put_queue_def Let_def)

lemma fold_results [simp]:
  "dv_queueMap (fold (\<lambda>job. setResult t (mj_id job) JS_active) js d) = dv_queueMap d"
  "dv_closing (fold (\<lambda>job. setResult t (mj_id job) JS_active) js d) = dv_closing d"
  "dv_idempotency (fold (\<lambda>job. setResult t (mj_id job) JS_active) js d) = dv_idempotency d"
  "dv_seq (fold (\<lambda>job. setResult t (mj_id job) JS_active) js d) = dv_seq d"
  by (induction js arbitrary: d) auto

lemma queues_ok_same:
  assumes "queues_ok N cfg c X d es" and "dv_queueMap d' = dv_queueMap d" and "dv_closing d' = dv_closing d" and "c \<le> t"
  shows "queues_ok N cfg t X d' es"
  unfolding queues_ok_def assms(2,3)
proof (intro conjI allI)
  show "wf_map (dv_queueMap d)" using assms(1) by (simp add: queues_ok_def)
  fix n
  have "case map_of (dv_queueMap d) n of None \<Rightarrow> accepted n es = [] \<and> started n es = [] \<and> ended n es = []
      | Some q \<Rightarrow> queue_ok N cfg c (dv_closing d) n (X n) q es" using assms(1) by (simp add: queues_ok_def)
  then show "case map_of (dv_queueMap d) n of None \<Rightarrow> accepted n es = [] \<and> started n es = [] \<and> ended n es = []
      | Some q \<Rightarrow> queue_ok N cfg t (dv_closing d) n (X n) q es"
    using queue_ok_frame[OF _ assms(4), of N cfg "dv_closing d" n "X n" _ es "dv_closing d" "[]"] by (cases "map_of (dv_queueMap d) n") simp_all
qed

lemma queues_ok_put:
  assumes "queues_ok N cfg c X d es" and "c \<le> t" and "dv_queueMap d' = AList.update n q' (dv_queueMap d)" and "dv_closing d' = dv_closing d"
    and "queue_ok N cfg t (dv_closing d) n (X' n) q' (es @ fs)"
    and "\<And>m. m \<noteq> n \<Longrightarrow> accepted m fs = [] \<and> started m fs = [] \<and> ended m fs = [] \<and> X' m = X m"
  shows "queues_ok N cfg t X' d' (es @ fs)"
  unfolding queues_ok_def
proof (intro conjI allI)
  show "wf_map (dv_queueMap d')" using assms(1,3) by (simp add: queues_ok_def)
  fix m
  show "case map_of (dv_queueMap d') m of
      None \<Rightarrow> accepted m (es @ fs) = [] \<and> started m (es @ fs) = [] \<and> ended m (es @ fs) = []
    | Some q \<Rightarrow> queue_ok N cfg t (dv_closing d') m (X' m) q (es @ fs)"
  proof (cases "m = n")
    case True
    then show ?thesis using assms(3,4,5) by simp
  next
    case False
    have c: "case map_of (dv_queueMap d) m of None \<Rightarrow> accepted m es = [] \<and> started m es = [] \<and> ended m es = []
      | Some q \<Rightarrow> queue_ok N cfg c (dv_closing d) m (X m) q es" using assms(1) by (simp add: queues_ok_def)
    have m: "map_of (dv_queueMap d') m = map_of (dv_queueMap d) m" using assms(3) False by simp
    show ?thesis unfolding m using c assms(2,4) assms(6)[OF False] queue_ok_frame[of N cfg c "dv_closing d" m "X m" _ es t "dv_closing d" fs]
      by (cases "map_of (dv_queueMap d) m") simp_all
  qed
qed

lemma queue_of:
  "queues_ok N cfg c X d es \<Longrightarrow> map_of (dv_queueMap d) n = Some q \<Longrightarrow> c \<le> t \<Longrightarrow> queue_ok N cfg t (dv_closing d) n (X n) q es"
  using queue_ok_frame[of N cfg c "dv_closing d" n "X n" q es t "dv_closing d" "[]"] unfolding queues_ok_def
  by (elim conjE allE[of _ n]) simp

lemma ids_ok_same:
  assumes "ids_ok N d es" and "dv_idempotency d' = dv_idempotency d" and "dv_seq d' = dv_seq d" and "\<And>n. accepted n fs = []"
  shows "ids_ok N d' (es @ fs)"
  using assms by (simp add: ids_ok_def known_id_def)

lemma awake_put:
  assumes "awake_ok d" and "dv_queueMap d' = AList.update n q' (dv_queueMap d)" and "dv_closing d' = dv_closing d" and "awake (dv_closing d) q'"
  shows "awake_ok d'"
  using assms by (auto simp: awake_ok_def)

lemma awake_pump [simp]: "awake cl (pump q)"
  by (simp add: awake_def pump_def)

subsection \<open>Enqueueing\<close>

lemma digits_no_colon: "CHR '':'' \<notin> set (nat_to_string s)"
  using nat_to_string_digits[of s] by (auto simp: list_all_iff is_digit_def)

lemma generated_inj:
  assumes "nm @ '':'' @ nat_to_string s = nm' @ '':'' @ nat_to_string s'"
  shows "s = s'"
proof -
  have "after_last (CHR '':'') (nm @ '':'' @ nat_to_string k) = nat_to_string k" for nm k
  proof -
    have "\<forall>x \<in> set (rev (nat_to_string k)). x \<noteq> CHR '':''" using digits_no_colon[of k] by auto
    then have "takeWhile (\<lambda>x. x \<noteq> CHR '':'') (rev (nat_to_string k) @ CHR '':'' # rev nm) = rev (nat_to_string k)"
      by (subst takeWhile_append2) auto
    then show ?thesis by (simp add: after_last_def)
  qed
  then have "nat_to_string s = nat_to_string s'" using assms by metis
  then show ?thesis by (metis parse_digits_nat_to_string option.inject)
qed

lemma key_not_generated: "key_ok N k \<Longrightarrow> nm \<in> N \<Longrightarrow> k \<noteq> nm @ '':'' @ nat_to_string s"
  by (auto simp: key_ok_def startsWith_def)

lemma new_id_fresh:
  assumes "ids_ok N d es" and "step_ok N def opts" and "existing def opts d = None"
  shows "job_id def opts d \<notin> set (accepted (jd_queue def) es)"
proof
  assume "job_id def opts d \<in> set (accepted (jd_queue def) es)"
  then have k: "known_id N d (jd_queue def) (job_id def opts d)" using assms(1) by (auto simp: ids_ok_def)
  show False
  proof (cases "eo_idempotencyKey opts")
    case None
    then have j: "job_id def opts d = jd_name def @ '':'' @ nat_to_string (dv_seq d + 1)" by (simp add: job_id_def)
    have "\<not> key_ok N (job_id def opts d)" using key_not_generated[of N _ "jd_name def"] assms(2) j by (metis step_ok_def)
    then obtain nm s where "nm \<in> N" "s \<le> dv_seq d" "job_id def opts d = nm @ '':'' @ nat_to_string s"
      using k by (auto simp: known_id_def)
    then show False using generated_inj[of "jd_name def" "dv_seq d + 1" nm s] j by simp
  next
    case (Some key)
    then have j: "job_id def opts d = key" and ok: "key_ok N key" using assms(2) by (simp_all add: job_id_def step_ok_def)
    then have "map_of (dv_idempotency d) (jd_queue def @ '':'' @ key) \<noteq> None"
      using k key_not_generated[OF ok] by (auto simp: known_id_def)
    moreover have "dedupe_key def opts = Some (jd_queue def @ '':'' @ key)" using Some ok by (simp add: dedupe_key_def key_ok_def)
    ultimately show False using assms(1,3) by (auto simp: existing_def ids_ok_def split: option.splits if_splits)
  qed
qed

lemma enqueueInternal_cases:
  assumes "enqueueInternal t def data opts rest d = (d', r)"
  obtains (kept) "d' = d" "enqueue_events def opts d = []"
  | (new) q q1 where "map_of (dv_queueMap d) (jd_queue def) = Some q" "existing def opts d = None"
      "enqueue_events def opts d = [Accepted (jd_queue def) (job_id def opts d)]"
      "dv_queueMap d' = AList.update (jd_queue def) q1 (dv_queueMap d)" "dv_closing d' = dv_closing d"
      "dv_seq d' = (if eo_idempotencyKey opts = None then dv_seq d + 1 else dv_seq d)"
      "dv_idempotency d' = (case dedupe_key def opts of
          Some k \<Rightarrow> AList.update k (job_id def opts d) (dv_idempotency d) | None \<Rightarrow> dv_idempotency d)"
      "q1 = delay t (new_job (job_id def opts d) def data opts rest) (the (eo_delayMs opts)) q
        \<or> q1 = pump (q\<lparr> mq_waiting := mq_waiting q @ [new_job (job_id def opts d) def data opts rest] \<rparr>)"
proof (cases "map_of (dv_queueMap d) (jd_queue def)")
  case None
  then show ?thesis using assms kept by (simp add: enqueueInternal_def enqueue_events_def)
next
  case (Some q)
  show ?thesis
  proof (cases "existing def opts d")
    case (Some jid)
    then show ?thesis using assms kept \<open>map_of (dv_queueMap d) (jd_queue def) = Some q\<close> by (simp add: enqueueInternal_def enqueue_events_def)
  next
    case None
    let ?job = "new_job (job_id def opts d) def data opts rest"
    let ?q1 = "if eo_delayMs opts \<noteq> None \<and> eo_delayMs opts \<noteq> Some 0 then delay t ?job (the (eo_delayMs opts)) q
       else pump (q\<lparr> mq_waiting := mq_waiting q @ [?job] \<rparr>)"
    have d': "d' = put_queue (jd_queue def) ?q1 (setResult t (job_id def opts d) JS_pending
        (d\<lparr> dv_seq := (if eo_idempotencyKey opts = None then dv_seq d + 1 else dv_seq d),
           dv_idempotency := (case dedupe_key def opts of Some k \<Rightarrow> AList.update k (job_id def opts d) (dv_idempotency d)
             | None \<Rightarrow> dv_idempotency d) \<rparr>))"
      using assms Some None unfolding enqueueInternal_def Let_def option.case by simp
    show ?thesis using new[of q ?q1] Some None unfolding d' by (simp add: enqueue_events_def)
  qed
qed

lemma new_job_ok: "chain_ok N rest \<Longrightarrow> job_ok N (new_job i def data opts rest)" "mj_id (new_job i def data opts rest) = i"
  by (simp_all add: job_ok_def new_job_def)

lemma enqueue_queues:
  assumes "queues_ok N cfg c X d es" and "c \<le> t" and "chain_ok N rest" and e: "enqueueInternal t def data opts rest d = (d', r)"
  shows "queues_ok N cfg t X d' (es @ enqueue_events def opts d)"
  using e
proof (cases rule: enqueueInternal_cases)
  case kept
  then show ?thesis using queues_ok_same[OF assms(1) _ _ assms(2), of d] by simp
next
  case (new q q1)
  let ?job = "new_job (job_id def opts d) def data opts rest"
  have q: "queue_ok N cfg t (dv_closing d) (jd_queue def) (X (jd_queue def)) q es" by (rule queue_of[OF assms(1) new(1) assms(2)])
  have "queue_ok N cfg t (dv_closing d) (jd_queue def) (X (jd_queue def)) q1 (es @ [Accepted (jd_queue def) (job_id def opts d)])"
    using new(8) push_ok[OF q, of ?job] delay_ok[OF q, of ?job] new_job_ok(1)[OF assms(3)] new_job_ok(2) by auto
  then show ?thesis unfolding new(3) by (intro queues_ok_put[OF assms(1,2) new(4,5)]) auto
qed

lemma enqueue_ids:
  assumes "ids_ok N d es" and "step_ok N def opts" and e: "enqueueInternal t def data opts rest d = (d', r)"
  shows "ids_ok N d' (es @ enqueue_events def opts d)"
  using e
proof (cases rule: enqueueInternal_cases)
  case kept
  then show ?thesis using assms(1) by simp
next
  case (new q q1)
  note fr = new_id_fresh[OF assms(1,2) new(2)]
  have old: "known_id N d' n i" if "known_id N d n i" for n i
    using that unfolding known_id_def new(6,7) by (auto split: option.splits if_splits intro: le_SucI)
  have now: "known_id N d' (jd_queue def) (job_id def opts d)"
  proof (cases "eo_idempotencyKey opts")
    case None
    then show ?thesis using assms(2) new(6) by (auto simp: known_id_def step_ok_def job_id_def)
  next
    case (Some k)
    then show ?thesis using assms(2) new(7) by (auto simp: known_id_def step_ok_def job_id_def dedupe_key_def key_ok_def)
  qed
  have ne: "job_id def opts d \<noteq> []" using assms(2) by (auto simp: job_id_def step_ok_def key_ok_def split: option.splits)
  have "map_of (dv_idempotency d') k \<noteq> Some []" for k
    using assms(1) ne unfolding new(7) ids_ok_def by (auto split: option.splits)
  moreover have "distinct (accepted n (es @ enqueue_events def opts d)) \<and> (\<forall>i \<in> set (accepted n (es @ enqueue_events def opts d)). known_id N d' n i)" for n
    using assms(1) fr old now unfolding new(3) ids_ok_def by auto
  ultimately show ?thesis by (simp add: ids_ok_def)
qed

lemma delay_awake: "awake cl q \<Longrightarrow> awake cl (delay t job ms q)"
  by (simp add: awake_def delay_def nextIndex_def)

lemma enqueue_awake:
  assumes "awake_ok d" and e: "enqueueInternal t def data opts rest d = (d', r)"
  shows "awake_ok d'"
  using e
proof (cases rule: enqueueInternal_cases)
  case (new q q1)
  have "awake (dv_closing d) q" using assms(1) new(1) by (simp add: awake_ok_def)
  then have "awake (dv_closing d) q1" using new(8) delay_awake by auto
  then show ?thesis by (rule awake_put[OF assms(1) new(4,5)])
qed (use assms in simp)

subsection \<open>Every step keeps the invariant\<close>

lemma inv_put:
  assumes "job_inv N cfg (c, d, es)" and "c \<le> t" and "map_of (dv_queueMap d) n = Some q"
    and "queue_ok N cfg t (dv_closing d) n {#} q es \<Longrightarrow> queue_ok N cfg t (dv_closing d) n {#} q' (es @ fs)"
    and "awake (dv_closing d) q \<Longrightarrow> awake (dv_closing d) q'"
    and "dv_queueMap d' = AList.update n q' (dv_queueMap d)" "dv_closing d' = dv_closing d"
    and "dv_idempotency d' = dv_idempotency d" "dv_seq d' = dv_seq d"
    and "\<And>m. accepted m fs = []" "\<And>m. m \<noteq> n \<Longrightarrow> started m fs = [] \<and> ended m fs = []"
  shows "job_inv N cfg (t, d', es @ fs)"
proof -
  have i: "queues_ok N cfg c (\<lambda>_. {#}) d es" "ids_ok N d es" "awake_ok d" using assms(1) by (auto simp: job_inv_def)
  have "queue_ok N cfg t (dv_closing d) n {#} q' (es @ fs)" using assms(4) queue_of[OF i(1) assms(3,2)] by simp
  then have "queues_ok N cfg t (\<lambda>_. {#}) d' (es @ fs)"
    using assms(10,11) by (intro queues_ok_put[OF i(1) assms(2,6,7)]) auto
  moreover have "ids_ok N d' (es @ fs)" by (rule ids_ok_same[OF i(2) assms(8,9,10)])
  moreover have "awake_ok d'" using awake_put[OF i(3) assms(6,7)] assms(3,5) i(3) by (simp add: awake_ok_def)
  ultimately show ?thesis by (simp add: job_inv_def)
qed

lemmas inv_put_silent = inv_put[where fs = "[]", simplified]

lemma inv_same:
  assumes "job_inv N cfg (c, d, es)" and "c \<le> t" and "dv_queueMap d' = dv_queueMap d" "dv_closing d' = dv_closing d"
    "dv_idempotency d' = dv_idempotency d" "dv_seq d' = dv_seq d"
  shows "job_inv N cfg (t, d', es)"
  using assms queues_ok_same[OF _ assms(3,4,2), of N cfg "\<lambda>_. {#}" es] ids_ok_same[OF _ assms(5,6), of N es "[]"]
  by (simp add: job_inv_def awake_ok_def)

lemma define_inv:
  assumes "job_inv N cfg (c, d, es)" and "c \<le> t"
  shows "job_inv N cfg (t, defineQueue n (cfg n) d, es)"
proof (cases "map_of (dv_queueMap d) n")
  case None
  have i: "queues_ok N cfg c (\<lambda>_. {#}) d es" "ids_ok N d es" "awake_ok d" using assms(1) by (auto simp: job_inv_def)
  have d': "defineQueue n (cfg n) d = put_queue n (new_queue (cfg n)) d" using None by (simp add: defineQueue_def)
  have "accepted n es = [] \<and> started n es = [] \<and> ended n es = []" using i(1) None unfolding queues_ok_def by (elim conjE allE[of _ n]) simp
  then have "queue_ok N cfg t (dv_closing d) n {#} (new_queue (cfg n)) es" using new_queue_ok by blast
  then have "queues_ok N cfg t (\<lambda>_. {#}) (defineQueue n (cfg n) d) es"
    using queues_ok_put[OF i(1) assms(2), of "defineQueue n (cfg n) d" n "new_queue (cfg n)" "\<lambda>_. {#}" "[]"] by (simp add: d')
  moreover have "awake_ok (defineQueue n (cfg n) d)"
    using i(3) unfolding d' by (intro awake_put[OF i(3)]) (auto simp: awake_def nextIndex_None new_queue_def)
  ultimately show ?thesis using ids_ok_same[OF i(2), of "defineQueue n (cfg n) d" "[]"] by (simp add: job_inv_def d')
next
  case (Some q)
  have "mq_settings q = cfg n" using assms(1) queue_of[OF _ Some order_refl] by (auto simp: job_inv_def queue_ok_def)
  then have "q\<lparr> mq_settings := cfg n \<rparr> = q" by simp
  then have "defineQueue n (cfg n) d = put_queue n q d" using Some by (simp add: defineQueue_def)
  then show ?thesis by (simp add: inv_put_silent[OF assms Some])
qed

lemma process_inv:
  assumes "job_inv N cfg (c, d, es)" and "c \<le> t" and "process def d = Inr d'"
  shows "job_inv N cfg (t, d', es)"
proof (cases "map_of (dv_queueMap d) (jd_queue def)")
  case (Some q)
  let ?q = "pump (q\<lparr> mq_handlers := List.insert (jd_name def) (mq_handlers q) \<rparr>)"
  have "d' = put_queue (jd_queue def) ?q d" using assms(3) Some by (simp add: process_def)
  then show ?thesis using handler_ok(1) by (intro inv_put_silent[OF assms(1,2) Some, of ?q]) simp_all
qed (use assms(3) in \<open>simp add: process_def\<close>)

lemma start_inv:
  assumes "job_inv N cfg (c, d, es)" and "c \<le> t"
  shows "job_inv N cfg (t, start n (cfg n) d, es)"
proof -
  note i = define_inv[OF assms, of n]
  show ?thesis
  proof (cases "map_of (dv_queueMap (defineQueue n (cfg n) d)) n")
    case (Some q)
    then show ?thesis using handler_ok(2) by (intro inv_put_silent[OF i order_refl Some, of "pump q"]) (simp_all add: start_def)
  qed (use i in \<open>simp add: start_def\<close>)
qed

lemma enqueue_inv:
  assumes "job_inv N cfg (c, d, es)" and "c \<le> t" and "step_ok N def opts" and "chain_ok N rest"
    and "enqueueInternal t def data opts rest d = (d', r)"
  shows "job_inv N cfg (t, d', es @ enqueue_events def opts d)"
  using assms enqueue_queues[OF _ assms(2,4,5)] enqueue_ids[OF _ assms(3,5)] enqueue_awake[OF _ assms(5)] by (simp add: job_inv_def)

lemma awake_fewer:
  assumes "awake cl q" and "mq_settings q' = mq_settings q" "mq_handlers q' = mq_handlers q" "mq_pumpScheduled q' = mq_pumpScheduled q"
    "mq_rateTimer q' = mq_rateTimer q" "mq_inFlight q' = mq_inFlight q" and "set (mq_waiting q') \<subseteq> set (mq_waiting q)"
  shows "awake cl q'"
  using assms by (auto simp: awake_def nextIndex_None runnable_def)

lemma cancel_inv:
  assumes "job_inv N cfg (c, d, es)" and "c \<le> t" and "cancel n jid d = (d', Inr b)"
  shows "job_inv N cfg (t, d', es @ (if b then [Ended n jid Cancelled] else []))"
proof (cases "map_of (dv_queueMap d) n")
  case (Some q)
  consider (waiting) "list_ex (\<lambda>j. mj_id j = jid) (mq_waiting q)"
    | (delayed) "\<not> list_ex (\<lambda>j. mj_id j = jid) (mq_waiting q)" "list_ex (\<lambda>(u, j). mj_id j = jid) (mq_delayed q)"
    | (none) "\<not> list_ex (\<lambda>j. mj_id j = jid) (mq_waiting q)" "\<not> list_ex (\<lambda>(u, j). mj_id j = jid) (mq_delayed q)" by blast
  then show ?thesis
  proof cases
    case waiting
    let ?q = "q\<lparr> mq_waiting := remove_first (\<lambda>j. mj_id j = jid) (mq_waiting q) \<rparr>"
    have d': "d' = put_queue n ?q d" "b" using assms(3) Some waiting by (simp_all add: cancel_def)
    show ?thesis unfolding d'(1)
      using d'(2) cancel_waiting_ok[OF _ waiting] remove_first_set[of "\<lambda>j. mj_id j = jid" "mq_waiting q"]
        awake_fewer[of "dv_closing d" q ?q]
      by (intro inv_put[OF assms(1,2) Some, of ?q]) auto
  next
    case delayed
    let ?q = "q\<lparr> mq_delayed := remove_first (\<lambda>(u, j). mj_id j = jid) (mq_delayed q), mq_delayedCount := mq_delayedCount q - 1 \<rparr>"
    have d': "d' = put_queue n ?q d" "b" using assms(3) Some delayed by (simp_all add: cancel_def)
    show ?thesis unfolding d'(1) using d'(2) cancel_delayed_ok[OF _ delayed(2)] awake_fewer[of "dv_closing d" q ?q]
      by (intro inv_put[OF assms(1,2) Some, of ?q]) auto
  next
    case none
    then have "d' = d" "\<not> b" using assms(3) Some by (simp_all add: cancel_def)
    then show ?thesis using inv_same[OF assms(1,2)] by simp
  qed
qed (use assms(3) in \<open>simp add: cancel_def\<close>)

lemma retry_inv:
  assumes "job_inv N cfg (c, d, es)" and "c \<le> t" and "retryDeadLetter t n jid d = (d', b)"
  shows "job_inv N cfg (t, d', es)"
proof (cases "map_of (dv_queueMap d) n")
  case None
  then show ?thesis using assms(3) inv_same[OF assms(1,2), of d'] by (simp add: retryDeadLetter_def)
next
  case (Some q)
  show ?thesis
  proof (cases "find (\<lambda>l. dl_jobId l = jid) (mq_dlq q)")
    case None
    then show ?thesis using assms(3) Some inv_same[OF assms(1,2), of d'] by (simp add: retryDeadLetter_def)
  next
    case l: (Some l)
    let ?q = "pump (q\<lparr> mq_dlq := remove_first (\<lambda>l. dl_jobId l = jid) (mq_dlq q), mq_waiting := mq_waiting q @ [retried_job l] \<rparr>)"
    have "d' = put_queue n ?q (setResult t (dl_jobId l) JS_pending d)"
      using assms(3) Some l by (simp add: retryDeadLetter_def Let_def retried_job_def)
    then show ?thesis using retry_ok[OF _ l] by (intro inv_put_silent[OF assms(1,2) Some, of ?q]) simp_all
  qed
qed

lemma observed_starts [simp]:
  "accepted m (map (\<lambda>j. Started n t (mj_id j)) js) = []" "ended m (map (\<lambda>j. Started n t (mj_id j)) js) = []"
  "m \<noteq> n \<Longrightarrow> started m (map (\<lambda>j. Started n t (mj_id j)) js) = []"
  by (induction js) (simp_all add: accepted_def ended_def started_def)

lemma drain_inv:
  assumes "job_inv N cfg (c, d, es)" and "c \<le> t" and "map_of (dv_queueMap d) n = Some q"
  shows "job_inv N cfg (t, drainTask t n d, es @ drain_events t n d)"
proof -
  let ?q0 = "q\<lparr> mq_pumpScheduled := False \<rparr>"
  obtain q1 js where dr: "drain_loop (dv_closing d) t ?q0 = (q1, js)" by fastforce
  have i: "queues_ok N cfg c (\<lambda>_. {#}) d es" "ids_ok N d es" "awake_ok d" using assms(1) by (auto simp: job_inv_def)
  have q: "queue_ok N cfg t (dv_closing d) n {#} ?q0 es" by (rule handler_ok(4)[OF queue_of[OF i(1) assms(3,2)]])
  have ok: "queue_ok N cfg t (dv_closing d) n {#} q1 (es @ map (\<lambda>j. Started n t (mj_id j)) js)"
  proof (cases "dv_closing d")
    case True
    then show ?thesis using drain_stop[of True ?q0 t] dr q by simp
  next
    case False
    then show ?thesis using drain_loop_ok[OF dr False, of N cfg n "{#}" es] q i(2) by (simp add: ids_ok_def)
  qed
  have "mq_active q1 = [] \<or> mq_inFlight q1 \<noteq> []" using ok by (auto simp: queue_ok_def runs_ok_def)
  then have aw: "awake (dv_closing d) q1" using drain_loop_stops[OF dr] by (auto simp: awake_def)
  have d': "drainTask t n d = fold (\<lambda>job. setResult t (mj_id job) JS_active) js (put_queue n q1 d)"
    "drain_events t n d = map (\<lambda>j. Started n t (mj_id j)) js" using assms(3) dr by (simp_all add: drainTask_def drain_events_def)
  show ?thesis unfolding d' using ok aw by (intro inv_put[OF assms(1-3), of q1]) simp_all
qed

lemma settle_queues:
  assumes "queues_ok N cfg t ((\<lambda>_. {#})(n := {#job#})) d es" and "map_of (dv_queueMap d) n = Some q" and "job \<in> set (mq_inFlight q)"
  shows "queues_ok N cfg t (\<lambda>_. {#}) (settle_run n job d) es"
proof -
  let ?q = "pump (q\<lparr> mq_inFlight := remove_first ((=) job) (mq_inFlight q) \<rparr>)"
  have d': "settle_run n job d = put_queue n ?q d" using assms(2) by (simp add: settle_run_def)
  have "queue_ok N cfg t (dv_closing d) n {#} ?q es"
    using settle_ok[OF queue_of[OF assms(1,2) order_refl], of job] assms(3) by simp
  then show ?thesis unfolding d' using queues_ok_put[OF assms(1) order_refl, of "put_queue n ?q d" n ?q "\<lambda>_. {#}" "[]"] by simp
qed

lemma settle_awake: "awake_ok d \<Longrightarrow> awake_ok (settle_run n job d)"
  by (auto simp: settle_run_def awake_ok_def split: option.splits)

lemma settle_ids: "ids_ok N d es \<Longrightarrow> ids_ok N (settle_run n job d) es"
  using ids_ok_same[of N d es "settle_run n job d" "[]"] by (simp add: settle_run_def split: option.splits)

lemma returned_inv:
  assumes "job_inv N cfg (c, d, es)" and "c \<le> t" and "map_of (dv_queueMap d) n = Some q" and "job \<in> set (mq_inFlight q)"
    and "map_of (mq_active q) (mj_id job) = None"
  shows "job_inv N cfg (t, settle_run n job d, es)"
proof -
  have q: "queue_ok N cfg t (dv_closing d) n {#} q es" using assms(1) queue_of[OF _ assms(3,2)] by (auto simp: job_inv_def)
  have "mq_active q = [] \<and> dv_closing d"
  proof (rule ccontr)
    assume n: "\<not> (mq_active q = [] \<and> dv_closing d)"
    have r: "runs_ok N (dv_closing d) {#} q" using q by (simp add: queue_ok_def)
    then have "mset (mq_inFlight q) = mset (js_values (mq_active q))" using n unfolding runs_ok_def by auto
    then have "job \<in> set (js_values (mq_active q))" using assms(4) mset_eq_setD by blast
    then obtain k where k: "(k, job) \<in> set (mq_active q)" by auto
    then have "mj_id job = k" using r by (auto simp: runs_ok_def)
    then show False using assms(5) k by (force simp: map_of_eq_None_iff)
  qed
  then show ?thesis using settle_ok[of N cfg t "dv_closing d" n "{#}" q es job]
    by (intro inv_put_silent[OF assms(1-3), of "pump (q\<lparr> mq_inFlight := remove_first ((=) job) (mq_inFlight q) \<rparr>)"])
       (simp_all add: settle_run_def assms(3))
qed

lemma dropped_inv:
  assumes "job_inv N cfg (c, d, es)" and "c \<le> t" and "map_of (dv_queueMap d) n = Some q" and "job \<in> set (mq_inFlight q)"
    and "map_of (mq_active q) (mj_id job) \<noteq> None" and "d1 = setResult t k st (put_queue n (drop_active (mj_id job) q) d)"
  shows "queues_ok N cfg t ((\<lambda>_. {#})(n := {#job#})) d1 (es @ [Ended n (mj_id job) Completed])"
    and "ids_ok N d1 (es @ [Ended n (mj_id job) Completed])" and "awake_ok d1"
proof -
  have i: "queues_ok N cfg c (\<lambda>_. {#}) d es" "ids_ok N d es" "awake_ok d" using assms(1) by (auto simp: job_inv_def)
  have q: "queue_ok N cfg t (dv_closing d) n {#} q es" by (rule queue_of[OF i(1) assms(3,2)])
  show "queues_ok N cfg t ((\<lambda>_. {#})(n := {#job#})) d1 (es @ [Ended n (mj_id job) Completed])"
    using finished_ok[OF q assms(4,5)] by (intro queues_ok_put[OF i(1) assms(2), of d1 n]) (auto simp: assms(6))
  show "ids_ok N d1 (es @ [Ended n (mj_id job) Completed])" using ids_ok_same[OF i(2)] by (simp add: assms(6))
  have "awake (dv_closing d) q" using i(3) assms(3) by (simp add: awake_ok_def)
  then have "awake (dv_closing d) (drop_active (mj_id job) q)" by (rule awake_fewer) (simp_all add: drop_active_def)
  then show "awake_ok d1" by (intro awake_put[OF i(3), of d1 n]) (simp_all add: assms(6))
qed

lemma enqueue_keeps_runs:
  assumes "enqueueInternal t def data opts rest d = (d', r)" and "map_of (dv_queueMap d) n = Some q"
  shows "\<exists>q'. map_of (dv_queueMap d') n = Some q' \<and> mq_inFlight q' = mq_inFlight q"
  using assms(1)
proof (cases rule: enqueueInternal_cases)
  case (new q0 q1)
  then show ?thesis using assms(2) by (cases "n = jd_queue def") (auto simp: delay_def pump_def)
qed (use assms(2) in simp)

lemma existing_same: "dv_idempotency d' = dv_idempotency d \<Longrightarrow> existing def opts d' = existing def opts d"
  unfolding existing_def by presburger

lemma job_id_same: "dv_seq d' = dv_seq d \<Longrightarrow> job_id def opts d' = job_id def opts d"
  unfolding job_id_def by presburger

lemma resolved_inv:
  assumes "job_inv N cfg (c, d, es)" and "c \<le> t" and "map_of (dv_queueMap d) n = Some q" and "job \<in> set (mq_inFlight q)"
  shows "job_inv N cfg (t, run_resolved t n job res d, es @ resolved_events n job d)"
proof (cases "map_of (mq_active q) (mj_id job) = None")
  case True
  then show ?thesis using returned_inv[OF assms] assms(3) by (simp add: run_resolved_def resolved_events_def)
next
  case False
  let ?d1 = "setResult t (mj_id job) (JS_completed res) (put_queue n (drop_active (mj_id job) q) d)"
  let ?es = "es @ [Ended n (mj_id job) Completed]"
  note d1 = dropped_inv[OF assms False refl, of "mj_id job" "JS_completed res"]
  have m1: "map_of (dv_queueMap ?d1) n = Some (drop_active (mj_id job) q)" by simp
  have qi: "runs_ok N (dv_closing d) {#} q" using assms(1) queue_of[OF _ assms(3,2)] by (auto simp: job_inv_def queue_ok_def)
  show ?thesis
  proof (cases "mj_next job")
    case Nil
    have "run_resolved t n job res d = settle_run n job ?d1" "resolved_events n job d = [Ended n (mj_id job) Completed]"
      using assms(3) False Nil by (auto simp: run_resolved_def resolved_events_def Let_def)
    then show ?thesis using settle_queues[OF d1(1) m1] assms(4) settle_ids[OF d1(2)] settle_awake[OF d1(3)] by (simp add: job_inv_def)
  next
    case (Cons s rest)
    obtain d2 r where e: "enqueueInternal t (cs_def s) (cs_data s) (cs_opts s) rest ?d1 = (d2, r)" by fastforce
    have "chain_ok N (s # rest)" using active_job(2)[OF qi assms(4) False] Cons by (simp add: job_ok_def)
    then have ok: "step_ok N (cs_def s) (cs_opts s)" "chain_ok N rest" by (auto simp: chain_ok_def)
    have ev: "enqueue_events (cs_def s) (cs_opts s) ?d1 = enqueue_events (cs_def s) (cs_opts s) d"
      using assms(3) existing_same[of ?d1 d] job_id_same[of ?d1 d] by (auto simp: enqueue_events_def)
    have "run_resolved t n job res d = settle_run n job d2"
      "resolved_events n job d = Ended n (mj_id job) Completed # enqueue_events (cs_def s) (cs_opts s) d"
      using assms(3) False Cons e by (auto simp: run_resolved_def resolved_events_def Let_def enqueueStep_def)
    moreover obtain q2 where "map_of (dv_queueMap d2) n = Some q2" "mq_inFlight q2 = mq_inFlight q"
      using enqueue_keeps_runs[OF e m1] by auto
    then have "queues_ok N cfg t (\<lambda>_. {#}) (settle_run n job d2) (?es @ enqueue_events (cs_def s) (cs_opts s) d)"
      using settle_queues[OF enqueue_queues[OF d1(1) order_refl ok(2) e]] assms(4) ev by simp
    moreover have "ids_ok N (settle_run n job d2) (?es @ enqueue_events (cs_def s) (cs_opts s) d)"
      using settle_ids[OF enqueue_ids[OF d1(2) ok(1) e]] ev by simp
    ultimately show ?thesis using settle_awake[OF enqueue_awake[OF d1(3) e]] by (simp add: job_inv_def)
  qed
qed

lemma rejected_inv:
  assumes "job_inv N cfg (c, d, es)" and "c \<le> t" and "map_of (dv_queueMap d) n = Some q" and "job \<in> set (mq_inFlight q)"
  shows "job_inv N cfg (t, run_rejected t n job error d, es)"
proof (cases "map_of (mq_active q) (mj_id job) = None")
  case True
  then show ?thesis using returned_inv[OF assms] assms(3) by (simp add: run_rejected_def)
next
  case False
  have i: "queues_ok N cfg c (\<lambda>_. {#}) d es" "ids_ok N d es" "awake_ok d" using assms(1) by (auto simp: job_inv_def)
  have q: "queue_ok N cfg t (dv_closing d) n {#} q es" by (rule queue_of[OF i(1) assms(3,2)])
  let ?more = "mj_attempt job < jd_attempts (mj_def job)"
  define q2 where "q2 = (if ?more
     then delay t (job\<lparr> mj_attempt := mj_attempt job + 1 \<rparr>) (jd_backoffMs (mj_def job) * 2 ^ (mj_attempt job - 1)) (drop_active (mj_id job) q)
     else (drop_active (mj_id job) q)\<lparr> mq_dlq := mq_dlq q @ [dead_letter t error job] \<rparr>)"
  define d2 where "d2 = put_queue n q2 (setResult t (mj_id job) (if ?more then JS_pending else JS_failed error) d)"
  have run: "run_rejected t n job error d = settle_run n job d2"
    using assms(3) False by (auto simp: run_rejected_def d2_def q2_def Let_def)
  have ok: "queue_ok N cfg t (dv_closing d) n {#job#} q2 es"
    using retried_ok[OF q assms(4) False] dead_ok[OF q assms(4) False] by (simp add: q2_def)
  have qs: "queues_ok N cfg t ((\<lambda>_. {#})(n := {#job#})) d2 es"
    using queues_ok_put[OF i(1) assms(2), of d2 n q2 "(\<lambda>_. {#})(n := {#job#})" "[]"] ok by (simp add: d2_def)
  have fl: "job \<in> set (mq_inFlight q2)" using assms(4) by (simp add: q2_def delay_def)
  have "awake (dv_closing d) q2" using fl by (auto simp: awake_def)
  then have "awake_ok d2" by (intro awake_put[OF i(3), of d2 n q2]) (simp_all add: d2_def)
  moreover have "ids_ok N d2 es" using ids_ok_same[OF i(2), of d2 "[]"] by (simp add: d2_def)
  ultimately show ?thesis unfolding run
    using settle_queues[OF qs, of q2] fl settle_ids settle_awake by (simp add: job_inv_def d2_def)
qed

lemma fire_inv:
  assumes "job_inv N cfg (c, d, es)" and "c \<le> t" and "map_of (dv_queueMap d) n = Some q" and "i < length (mq_delayed q)"
  shows "job_inv N cfg (t, fireDelayed n i d, es)"
  using fire_ok[OF _ assms(4)] assms(3)
  by (intro inv_put_silent[OF assms(1-3), of "pump (q\<lparr> mq_delayed := take i (mq_delayed q) @ drop (i + 1) (mq_delayed q),
        mq_delayedCount := mq_delayedCount q - 1, mq_waiting := mq_waiting q @ [snd (mq_delayed q ! i)] \<rparr>)"])
     (simp_all add: fireDelayed_def)

lemma closing_inv:
  assumes "job_inv N cfg (c, d, es)" and "c \<le> t"
  shows "job_inv N cfg (t, beginClose d, es)"
proof -
  have i: "queues_ok N cfg c (\<lambda>_. {#}) d es" "ids_ok N d es" using assms(1) by (auto simp: job_inv_def)
  have "queues_ok N cfg t (\<lambda>_. {#}) (beginClose d) es" unfolding queues_ok_def
  proof (intro conjI allI)
    show "wf_map (dv_queueMap (beginClose d))" using i(1) by (simp add: queues_ok_def beginClose_def)
    fix n
    have "case map_of (dv_queueMap d) n of None \<Rightarrow> accepted n es = [] \<and> started n es = [] \<and> ended n es = []
      | Some q \<Rightarrow> queue_ok N cfg c (dv_closing d) n {#} q es" using i(1) by (simp add: queues_ok_def)
    then show "case map_of (dv_queueMap (beginClose d)) n of None \<Rightarrow> accepted n es = [] \<and> started n es = [] \<and> ended n es = []
      | Some q \<Rightarrow> queue_ok N cfg t (dv_closing (beginClose d)) n {#} q es"
      using queue_ok_frame[OF _ assms(2), of N cfg "dv_closing d" n "{#}" _ es True "[]"]
      by (cases "map_of (dv_queueMap d) n") (simp_all add: beginClose_def)
  qed
  moreover have "ids_ok N (beginClose d) es" using ids_ok_same[OF i(2), of "beginClose d" "[]"] by (simp add: beginClose_def)
  moreover have "awake_ok (beginClose d)" by (simp add: awake_ok_def awake_def beginClose_def)
  ultimately show ?thesis by (simp add: job_inv_def)
qed

lemma observed_close:
  fixes al :: "(string, MemQueue) jsmap"
  defines "evs \<equiv> concat (map (\<lambda>(m, q). map (\<lambda>(u, j). Ended m (mj_id j) Dropped) (mq_delayed q)) al)"
  shows "accepted n evs = []" "started n evs = []"
    "wf_map al \<Longrightarrow> ended n evs = (case map_of al n of None \<Rightarrow> [] | Some q \<Rightarrow> map (\<lambda>(u, j). mj_id j) (mq_delayed q))"
proof -
  have one: "accepted n (map (\<lambda>(u, j). Ended m (mj_id j) Dropped) xs) = []" "started n (map (\<lambda>(u, j). Ended m (mj_id j) Dropped) xs) = []"
    "ended n (map (\<lambda>(u, j). Ended m (mj_id j) Dropped) xs) = (if m = n then map (\<lambda>(u, j). mj_id j) xs else [])" for m and xs :: "(int \<times> MemJob) list"
    by (induction xs) (auto simp: accepted_def started_def ended_def)
  show "accepted n evs = []" "started n evs = []" unfolding evs_def by (induction al) (auto simp: one)
  have "n \<notin> fst ` set xs \<Longrightarrow> ended n (concat (map (\<lambda>(m, q). map (\<lambda>(u, j). Ended m (mj_id j) Dropped) (mq_delayed q)) xs)) = []"
    for xs :: "(string, MemQueue) jsmap" by (induction xs) (auto simp: one)
  then show "wf_map al \<Longrightarrow> ended n evs = (case map_of al n of None \<Rightarrow> [] | Some q \<Rightarrow> map (\<lambda>(u, j). mj_id j) (mq_delayed q))"
    unfolding evs_def by (induction al) (auto simp: one)
qed

lemma closed_inv:
  assumes "job_inv N cfg (c, d, es)" and "c \<le> t" and "dv_closing d"
  shows "job_inv N cfg (t, finishClose d, es @ close_events d)"
proof -
  have i: "queues_ok N cfg c (\<lambda>_. {#}) d es" "ids_ok N d es" using assms(1) by (auto simp: job_inv_def)
  have wf: "wf_map (dv_queueMap d)" using i(1) by (simp add: queues_ok_def)
  note obs = observed_close[where al = "dv_queueMap d", folded close_events_def]
  have m: "map_of (dv_queueMap (finishClose d)) n = map_option close_queue (map_of (dv_queueMap d) n)" for n
    by (simp add: finishClose_def map_of_map)
  have "queues_ok N cfg t (\<lambda>_. {#}) (finishClose d) (es @ close_events d)" unfolding queues_ok_def
  proof (intro conjI allI)
    show "wf_map (dv_queueMap (finishClose d))" using wf by (simp add: finishClose_def case_prod_unfold comp_def)
    fix n
    show "case map_of (dv_queueMap (finishClose d)) n of
        None \<Rightarrow> accepted n (es @ close_events d) = [] \<and> started n (es @ close_events d) = [] \<and> ended n (es @ close_events d) = []
      | Some q \<Rightarrow> queue_ok N cfg t (dv_closing (finishClose d)) n {#} q (es @ close_events d)"
    proof (cases "map_of (dv_queueMap d) n")
      case None
      then have "accepted n es = [] \<and> started n es = [] \<and> ended n es = []" using i(1) unfolding queues_ok_def by (elim conjE allE[of _ n]) simp
      then show ?thesis using None obs wf by (simp add: m)
    next
      case (Some q)
      have "queue_ok N cfg t True n {#} q es" using queue_of[OF i(1) Some assms(2)] assms(3) by simp
      then have "queue_ok N cfg t True n {#} (close_queue q) (es @ close_events d)"
        using close_ok obs(1,2) obs(3)[OF wf, of n] Some by simp
      then show ?thesis using Some assms(3) by (simp add: m) (simp add: finishClose_def)
    qed
  qed
  moreover have "ids_ok N (finishClose d) (es @ close_events d)" using ids_ok_same[OF i(2)] obs(1) by (simp add: finishClose_def)
  moreover have "awake_ok (finishClose d)" using assms(3) by (simp add: awake_ok_def awake_def finishClose_def)
  ultimately show ?thesis by (simp add: job_inv_def)
qed

lemma job_step_inv: "job_step N cfg s s' \<Longrightarrow> job_inv N cfg s \<Longrightarrow> job_inv N cfg s'"
proof (induction rule: job_step.induct)
  case (js_define c t d es n)
  then show ?case using define_inv by blast
next
  case (js_start c t d es n)
  then show ?case using start_inv by blast
next
  case (js_process c t def d d' es)
  then show ?case using process_inv by blast
next
  case (js_register c t n def d d' es)
  then show ?case using process_inv[OF define_inv[of N cfg c d es t n] order_refl, of def d'] by (simp add: register_def)
next
  case (js_enqueue c t def opts data d d' r es)
  then show ?case using enqueue_inv[of N cfg c d es t def opts "[]"] by (simp add: enqueue_def chain_ok_def)
next
  case (js_chain c t s rest d d' r es)
  then show ?case using enqueue_inv[of N cfg c d es t "cs_def s" "cs_opts s" rest "cs_data s" d' r]
    by (simp add: enqueueChain_def enqueueStep_def chain_ok_def)
next
  case (js_schedule c t d es def everyMs data)
  then show ?case using inv_same[of N cfg c d es t "schedule def everyMs data d"] by (simp add: schedule_def Let_def)
next
  case (js_unschedule c t n nm d d' b es)
  then show ?case using inv_same[of N cfg c d es t d'] by (auto simp: unschedule_def Let_def split: if_splits)
next
  case (js_tick c t d key def data everyMs d' jid es)
  then have e: "enqueueInternal t def data no_options [] d = (d', Inr jid)"
    by (auto simp: scheduleTick_def enqueue_def split: option.splits if_splits prod.splits sum.splits)
  have "step_ok N def no_options" using js_tick by (simp add: step_ok_def no_options_def)
  then show ?case using enqueue_inv[OF js_tick.prems js_tick.hyps(1) _ _ e] by (simp add: chain_ok_def)
next
  case (js_cancel c t n jid d d' b es)
  then show ?case using cancel_inv by blast
next
  case (js_retry c t n jid d d' b es)
  then show ?case using retry_inv by blast
next
  case (js_result c t jid d d' st es)
  then show ?case using inv_same[of N cfg c d es t d'] by (auto simp: getResult_def split: option.splits if_splits)
next
  case (js_drain c t d n q es)
  then show ?case using drain_inv by blast
next
  case (js_resolved c t d n q job es res)
  then show ?case using resolved_inv by blast
next
  case (js_rejected c t d n q job es error)
  then show ?case using rejected_inv by blast
next
  case (js_fire c t d n q i es)
  then show ?case using fire_inv by blast
next
  case (js_rate c t d n q u es)
  then show ?case using inv_put_silent[of N cfg c d es t n q "pump (q\<lparr> mq_rateTimer := None \<rparr>)"] handler_ok(3) by (simp add: fireRateTimer_def)
next
  case (js_closing c t d es)
  then show ?case using closing_inv by blast
next
  case (js_closed c t d es)
  then show ?case using closed_inv by blast
qed

interpretation job_runs: inv_system "job_step N cfg" "job_inv N cfg" for N cfg
  by unfold_locales (rule job_step_inv)

lemma new_driver_inv: "job_inv N cfg (c, new_driver, [])"
  by (simp add: job_inv_def queues_ok_def ids_ok_def awake_ok_def new_driver_def)

section \<open>Properties\<close>

lemma reached_queue:
  assumes "(job_step N cfg)\<^sup>*\<^sup>* (c0, new_driver, []) (c, d, es)" and "map_of (dv_queueMap d) n = Some q"
  shows "queue_ok N cfg c (dv_closing d) n {#} q es" and "ids_ok N d es" and "awake (dv_closing d) q"
proof -
  have i: "job_inv N cfg (c, d, es)" using job_runs.run_inv[OF assms(1) new_driver_inv] .
  then show "queue_ok N cfg c (dv_closing d) n {#} q es" using queue_of[OF _ assms(2) order_refl] by (auto simp: job_inv_def)
  show "ids_ok N d es" "awake (dv_closing d) q" using i assms(2) by (auto simp: job_inv_def awake_ok_def)
qed

text \<open>C11. No job is lost, duplicated or run twice at once. Whatever is enqueued, chained, scheduled,
  cancelled, retried, drained, completed, failed or shut down, in any order: the identifiers a
  queue has accepted are distinct, and at every moment each of them is in exactly one place,
  waiting, delayed, active, on the dead-letter list, or reported once as ended (completed,
  cancelled, or dropped with its timer at shutdown).\<close>

theorem jobs_conserved:
  assumes "(job_step N cfg)\<^sup>*\<^sup>* (c0, new_driver, []) (c, d, es)" and "map_of (dv_queueMap d) n = Some q"
  shows "distinct (accepted n es)
    \<and> mset (map mj_id (mq_waiting q)) + mset (map (mj_id \<circ> snd) (mq_delayed q)) + mset (map fst (mq_active q))
        + mset (map dl_jobId (mq_dlq q)) + mset (ended n es) = mset (accepted n es)"
proof -
  have "census n q es" using reached_queue(1)[OF assms] by (simp add: queue_ok_def)
  moreover have "distinct (accepted n es)" using reached_queue(2)[OF assms] by (simp add: ids_ok_def)
  ultimately show ?thesis by (simp add: census_def held_def ac_simps)
qed

definition sample_cfg :: "string \<Rightarrow> QueueSettings" where
  "sample_cfg n = \<lparr> qs_concurrency = 1, qs_rateLimit = Some (1, 1000) \<rparr>"

definition sample_def :: JobDefinition where "sample_def = defineJob ''q'' ''j'' (Some 2) None"

definition sample_keyed :: EnqueueOptions where
  "sample_keyed = \<lparr> eo_idempotencyKey = Some ''k'', eo_delayMs = None, eo_priority = None \<rparr>"

definition sample_ready :: driver where
  "sample_ready = (case process sample_def (defineQueue ''q'' (sample_cfg ''q'') new_driver) of Inr d \<Rightarrow> d | Inl e \<Rightarrow> new_driver)"

definition sample_one :: driver where "sample_one = fst (enqueue 1 sample_def ''a'' sample_keyed sample_ready)"
definition sample_two :: driver where "sample_two = fst (enqueue 2 sample_def ''b'' no_options sample_one)"
definition sample_drained :: driver where "sample_drained = drainTask 3 ''q'' sample_two"

definition sample_events :: "job_event list" where
  "sample_events = ([] @ enqueue_events sample_def sample_keyed sample_ready) @ enqueue_events sample_def no_options sample_one"

lemma sample_events_eval:
  "sample_events = [Accepted ''q'' ''k'', Accepted ''q'' ''j:1'']" "drain_events 3 ''q'' sample_two = [Started ''q'' 3 ''k'']"
  by code_simp+

lemma sample_queues_eval:
  "map_option (\<lambda>q. (map mj_id (mq_waiting q), map fst (mq_active q), mq_pumpScheduled q)) (map_of (dv_queueMap sample_two) ''q'')
     = Some ([''k'', ''j:1''], [], True)"
  "map_option (\<lambda>q. (map mj_id (mq_waiting q), map fst (mq_active q), mq_pumpScheduled q)) (map_of (dv_queueMap sample_drained) ''q'')
     = Some ([''j:1''], [''k''], False)"
  by code_simp+

lemma sample_step_ok: "step_ok {''j''} sample_def sample_keyed" "step_ok {''j''} sample_def no_options"
  by code_simp+

lemma sample_two_run: "(job_step {''j''} sample_cfg)\<^sup>*\<^sup>* (0, new_driver, []) (2, sample_two, sample_events)"
proof -
  let ?d = "defineQueue ''q'' (sample_cfg ''q'') new_driver"
  have p: "process sample_def ?d = Inr sample_ready"
    by (simp add: sample_ready_def process_def defineQueue_def sample_def_def defineJob_def new_driver_def)
  have 1: "job_step {''j''} sample_cfg (0, new_driver, []) (0, ?d, [])" by (rule js_define) simp
  have 2: "job_step {''j''} sample_cfg (0, ?d, []) (0, sample_ready, [])" by (rule js_process[OF _ p]) simp
  have 3: "job_step {''j''} sample_cfg (0, sample_ready, []) (1, sample_one, [] @ enqueue_events sample_def sample_keyed sample_ready)"
    by (rule js_enqueue[OF _ sample_step_ok(1), where data = "''a''" and r = "snd (enqueue 1 sample_def ''a'' sample_keyed sample_ready)"])
       (simp_all add: sample_one_def)
  have 4: "job_step {''j''} sample_cfg (1, sample_one, [] @ enqueue_events sample_def sample_keyed sample_ready) (2, sample_two, sample_events)"
    unfolding sample_events_def
    by (rule js_enqueue[OF _ sample_step_ok(2), where data = "''b''" and r = "snd (enqueue 2 sample_def ''b'' no_options sample_one)"])
       (simp_all add: sample_two_def)
  show ?thesis using 1 2 3 4 by (meson rtranclp.rtrancl_into_rtrancl rtranclp.rtrancl_refl)
qed

lemma sample_drained_run:
  "(job_step {''j''} sample_cfg)\<^sup>*\<^sup>* (0, new_driver, []) (3, sample_drained, [Accepted ''q'' ''k'', Accepted ''q'' ''j:1'', Started ''q'' 3 ''k''])"
proof -
  obtain q where q: "map_of (dv_queueMap sample_two) ''q'' = Some q" "mq_pumpScheduled q" using sample_queues_eval(1) by auto
  have "job_step {''j''} sample_cfg (2, sample_two, sample_events) (3, sample_drained, sample_events @ drain_events 3 ''q'' sample_two)"
    unfolding sample_drained_def by (rule js_drain[OF _ q]) simp
  then show ?thesis using sample_two_run unfolding sample_events_eval by (simp add: rtranclp.rtrancl_into_rtrancl)
qed

theorem jobs_conserved_witness:
  "\<exists>q. map_of (dv_queueMap sample_drained) ''q'' = Some q \<and> map mj_id (mq_waiting q) = [''j:1''] \<and> map fst (mq_active q) = [''k'']
     \<and> mset (map mj_id (mq_waiting q)) + mset (map (mj_id \<circ> snd) (mq_delayed q)) + mset (map fst (mq_active q))
         + mset (map dl_jobId (mq_dlq q)) = {# ''k'', ''j:1'' #}"
proof -
  obtain q where q: "map_of (dv_queueMap sample_drained) ''q'' = Some q" "map mj_id (mq_waiting q) = [''j:1'']" "map fst (mq_active q) = [''k'']"
    using sample_queues_eval(2) by auto
  then show ?thesis using jobs_conserved[OF sample_drained_run q(1)] by (auto simp: accepted_def ended_def simp del: mset_map)
qed

text \<open>C21. The limits of a queue hold in every run. Never more jobs are active than its concurrency. With
  a rate limit of \<open>m\<close> starts per duration, any \<open>m + 1\<close> consecutive starts take at least that
  duration, however the drains, timers and handlers interleave. No job is tried more often than
  its attempts allow, and exactly the jobs whose attempts are used up are on the dead-letter list.\<close>

theorem queue_limits_hold:
  assumes "(job_step N cfg)\<^sup>*\<^sup>* (c0, new_driver, []) (c, d, es)" and "map_of (dv_queueMap d) n = Some q"
  shows "length (mq_active q) \<le> qs_concurrency (cfg n)
    \<and> (\<forall>m dur i. qs_rateLimit (cfg n) = Some (m, dur) \<and> i + m < length (started n es)
          \<longrightarrow> dur \<le> started n es ! (i + m) - started n es ! i)
    \<and> (\<forall>j \<in> set (mq_waiting q) \<union> snd ` set (mq_delayed q) \<union> set (js_values (mq_active q)).
          1 \<le> mj_attempt j \<and> mj_attempt j \<le> max 1 (jd_attempts (mj_def j)))
    \<and> (\<forall>l \<in> set (mq_dlq q). dl_attempts l = max 1 (jd_attempts (dl_def l)))"
proof -
  have k: "mq_settings q = cfg n" "runs_ok N (dv_closing d) {#} q" "rate_ok c q (started n es)"
    using reached_queue(1)[OF assms] by (auto simp: queue_ok_def)
  have "length (mq_active q) \<le> qs_concurrency (cfg n)" using k(1,2) by (simp add: runs_ok_def)
  moreover have "dur \<le> started n es ! (i + m) - started n es ! i"
    if "qs_rateLimit (cfg n) = Some (m, dur)" "i + m < length (started n es)" for m dur i
    using k(1,3) that by (simp add: rate_ok_def spaced_def)
  ultimately show ?thesis using k(2) unfolding runs_ok_def jobs_of_def job_ok_def spent_def by blast
qed

theorem queue_limits_hold_witness:
  "\<exists>q. map_of (dv_queueMap sample_drained) ''q'' = Some q \<and> mq_waiting q \<noteq> [] \<and> length (mq_active q) \<le> 1
     \<and> (\<forall>j \<in> set (mq_waiting q). mj_attempt j \<le> max 1 (jd_attempts (mj_def j)))"
proof -
  obtain q where q: "map_of (dv_queueMap sample_drained) ''q'' = Some q" "map mj_id (mq_waiting q) = [''j:1'']"
    using sample_queues_eval(2) by auto
  then show ?thesis using queue_limits_hold[OF sample_drained_run q(1)] by (auto simp: sample_cfg_def)
qed

text \<open>C38. A queue never stalls. While the driver is open and a queue with positive concurrency has a
  waiting job with a handler, something will look at it again: a drain is scheduled, the rate
  timer is armed, or a running job will schedule a drain when it ends. And a drain leaves a
  waiting job with a handler behind only when the concurrency is used up or the rate timer is
  armed.\<close>

theorem queue_never_stalls:
  assumes "(job_step N cfg)\<^sup>*\<^sup>* (c0, new_driver, []) (c, d, es)" and "map_of (dv_queueMap d) n = Some q"
    and "\<not> dv_closing d" and "0 < qs_concurrency (cfg n)"
  shows "((\<exists>j \<in> set (mq_waiting q). runnable q j) \<longrightarrow> mq_pumpScheduled q \<or> mq_rateTimer q \<noteq> None \<or> mq_inFlight q \<noteq> [])
    \<and> (\<exists>q'. map_of (dv_queueMap (drainTask t n d)) n = Some q'
      \<and> ((\<exists>j \<in> set (mq_waiting q'). runnable q' j) \<longrightarrow> qs_concurrency (mq_settings q') \<le> length (mq_active q') \<or> mq_rateTimer q' \<noteq> None))"
proof
  have "awake False q" "mq_settings q = cfg n" using reached_queue[OF assms(1,2)] assms(3) by (auto simp: queue_ok_def)
  then show "(\<exists>j \<in> set (mq_waiting q). runnable q j) \<longrightarrow> mq_pumpScheduled q \<or> mq_rateTimer q \<noteq> None \<or> mq_inFlight q \<noteq> []"
    using assms(4) by (auto simp: awake_def nextIndex_None)
  obtain q' js where dr: "drain_loop (dv_closing d) t (q\<lparr> mq_pumpScheduled := False \<rparr>) = (q', js)" by fastforce
  have "map_of (dv_queueMap (drainTask t n d)) n = Some q'" using assms(2) dr by (simp add: drainTask_def)
  then show "\<exists>q'. map_of (dv_queueMap (drainTask t n d)) n = Some q'
      \<and> ((\<exists>j \<in> set (mq_waiting q'). runnable q' j) \<longrightarrow> qs_concurrency (mq_settings q') \<le> length (mq_active q') \<or> mq_rateTimer q' \<noteq> None)"
    using drain_loop_stops[OF dr] assms(3) by (auto simp: nextIndex_None not_less)
qed

lemma sample_open: "\<not> dv_closing sample_two" "map_option (\<lambda>q. list_ex (runnable q) (mq_waiting q)) (map_of (dv_queueMap sample_two) ''q'') = Some True"
  by code_simp+

theorem queue_never_stalls_witness:
  "\<exists>q. map_of (dv_queueMap sample_two) ''q'' = Some q \<and> (\<exists>j \<in> set (mq_waiting q). runnable q j)
     \<and> (mq_pumpScheduled q \<or> mq_rateTimer q \<noteq> None \<or> mq_inFlight q \<noteq> [])"
proof -
  obtain q where q: "map_of (dv_queueMap sample_two) ''q'' = Some q" "\<exists>j \<in> set (mq_waiting q). runnable q j"
    using sample_open(2) by (auto simp: list_ex_iff)
  then show ?thesis using queue_never_stalls[OF sample_two_run q(1) sample_open(1)] by (auto simp: sample_cfg_def)
qed

section \<open>Divergences from the comments\<close>

text \<open>A key whose job was cancelled stays taken: a later enqueue reports the old identifier and runs nothing.\<close>

lemma cancelled_key_stays_taken:
  "let d = fst (cancel ''q'' ''k'' sample_one); r = enqueue 5 sample_def ''c'' sample_keyed d
   in snd r = Inr ''k'' \<and> map_option (\<lambda>q. length (mq_waiting q) + length (mq_delayed q) + length (mq_active q)) (map_of (dv_queueMap (fst r)) ''q'') = Some 0"
  by code_simp

text \<open>A job without a priority is never taken while one with a priority and a handler is waiting.\<close>

lemma unprioritised_waits:
  assumes "j \<in> set (mq_waiting q)" and "runnable q j" and "mj_priority j \<noteq> None" and "mj_priority (mq_waiting q ! i) = None"
  shows "nextIndex q \<noteq> Some i"
proof
  assume "nextIndex q = Some i"
  then have f: "first_best (mq_handlers q) (mq_waiting q) i" using next_job_exact[of q i] by simp
  obtain k p where "k < length (mq_waiting q)" "mq_waiting q ! k = j" "mj_priority j = Some p" using assms(1,3) by (auto simp: in_set_conv_nth)
  then show False using f assms(2,4) by (force simp: first_best_def runnable_def)
qed

end
