(* ===== verification/Request_Guards.thy ===== *)
theory Request_Guards
  imports Js_Prelude
begin

text \<open>
  Guards in front of the endpoints, with their in-process stores: single-use login nonces and revoked
  sessions (\<^verbatim>\<open>src/auth/sep10/nonce.store.ts\<close>, \<open>revoke\<close> of \<^verbatim>\<open>src/auth/sep10/sep10.service.ts\<close>), signature
  nonces (\<^verbatim>\<open>src/common/signature-nonce.service.ts\<close>), the sliding-window limiter with its fallback and
  the tiers and scopes of API keys (\<^verbatim>\<open>src/auth/rate-limit\<close>, \<^verbatim>\<open>src/auth/api-keys/api-key-tiers.ts\<close>).
  Answers of Redis and of the key registry are arguments; times are milliseconds unless a name
  says seconds. The lemmas show that no nonce is accepted twice, that a revocation lasts, and that
  the limiter admits exactly what its window allows.
\<close>

section \<open>Expiring entries\<close>

type_synonym expiring = "(string, int) jsmap"

definition prune :: "int \<Rightarrow> expiring \<Rightarrow> expiring" where
  "prune nowMs m = filter (\<lambda>(key, expiresAt). \<not> expiresAt \<le> nowMs) m"

text \<open>\<open>InMemorySep10NonceStore\<close>.\<close>

definition remember :: "int \<Rightarrow> string \<Rightarrow> int \<Rightarrow> expiring \<Rightarrow> expiring" where
  "remember nowMs nonce ttlSeconds m = AList.update nonce (nowMs + ttlSeconds * 1000) (prune nowMs m)"

definition consume_nonce :: "int \<Rightarrow> string \<Rightarrow> expiring \<Rightarrow> expiring \<times> bool" where
  "consume_nonce nowMs nonce m =
     (AList.delete nonce m, (case map_of m nonce of Some expiresAt \<Rightarrow> expiresAt > nowMs | None \<Rightarrow> False))"

text \<open>\<open>InMemorySessionDenylistStore\<close>.\<close>

definition SEP10_JWT_TTL_SECONDS :: int where "SEP10_JWT_TTL_SECONDS = 900"

definition deny_session :: "int \<Rightarrow> string \<Rightarrow> int \<Rightarrow> expiring \<Rightarrow> expiring" where
  "deny_session nowMs jti ttlSeconds m = AList.update jti (nowMs + ttlSeconds * 1000) (prune nowMs m)"

definition isRevoked :: "int \<Rightarrow> string \<Rightarrow> expiring \<Rightarrow> expiring \<times> bool" where
  "isRevoked nowMs jti m =
     (case map_of m jti of
        None \<Rightarrow> (m, False)
      | Some expiresAt \<Rightarrow> if expiresAt \<le> nowMs then (AList.delete jti m, False) else (m, True))"

text \<open>
  \<open>revoke\<close> of the login service. The module it takes its denylist from is not in the sources, so the
  denylist is an argument; \<open>deny_session\<close> has the interface it is called with.
\<close>

definition revoke :: "(int \<Rightarrow> string \<Rightarrow> int \<Rightarrow> 'd \<Rightarrow> 'd) \<Rightarrow> int \<Rightarrow> string \<Rightarrow> int \<Rightarrow> 'd \<Rightarrow> 'd" where
  "revoke deny nowMs jti expSeconds m =
     (let remaining = min (expSeconds - nowMs div 1000) SEP10_JWT_TTL_SECONDS
      in if remaining \<le> 0 then m else deny nowMs jti remaining m)"

text \<open>\<open>MemorySignatureNonceStore\<close>; expiries are seconds.\<close>

definition nonce_key :: "string \<Rightarrow> string \<Rightarrow> string" where
  "nonce_key signer nonce = toLowerCase signer @ '':'' @ nonce"

definition consume_signature :: "int \<Rightarrow> string \<Rightarrow> string \<Rightarrow> int \<Rightarrow> expiring \<Rightarrow> expiring \<times> bool" where
  "consume_signature nowMs signer nonce expiresAt m =
     (let m1 = prune (nowMs div 1000) m; key = nonce_key signer nonce
      in if map_of m1 key \<noteq> None then (m1, False) else (AList.update key expiresAt m1, True))"

section \<open>The limiter\<close>

record RateLimitResult =
  rl_allowed :: bool
  rl_limit :: nat
  rl_remaining :: nat
  rl_resetAt :: "int option"

text \<open>
  \<open>LocalRateLimitStore\<close>. With a limit of zero there is no oldest entry and the reset time is not a
  number, here \<open>None\<close>.
\<close>

type_synonym windows = "(string, int list) jsmap"

definition window_of :: "windows \<Rightarrow> string \<Rightarrow> int list" where
  "window_of m key = coalesce (map_of m key) []"

definition local_consume :: "string \<Rightarrow> int \<Rightarrow> nat \<Rightarrow> int \<Rightarrow> windows \<Rightarrow> windows \<times> RateLimitResult" where
  "local_consume key windowMs limit nowMs m =
     (let timestamps = filter (\<lambda>t. t > nowMs - windowMs) (window_of m key)
      in if length timestamps < limit
         then (AList.update key (timestamps @ [nowMs]) m,
               \<lparr> rl_allowed = True, rl_limit = limit, rl_remaining = limit - length (timestamps @ [nowMs]),
                 rl_resetAt = Some (nowMs + windowMs) \<rparr>)
         else (AList.update key timestamps m,
               \<lparr> rl_allowed = False, rl_limit = limit, rl_remaining = 0,
                 rl_resetAt = (if timestamps = [] then None else Some (hd timestamps + windowMs)) \<rparr>))"

definition local_prune :: "int \<Rightarrow> int \<Rightarrow> windows \<Rightarrow> windows" where
  "local_prune nowMs windowMs m =
     filter (\<lambda>(key, ts). ts \<noteq> []) (map (\<lambda>(key, ts). (key, filter (\<lambda>t. t > nowMs - windowMs) ts)) m)"

text \<open>
  \<open>DistributedRateLimiter.consume\<close>. \<open>redis\<close> is \<open>None\<close> without a client, otherwise what the shared
  window answered or the error it threw.
\<close>

record limiter =
  lm_local :: windows
  lm_redisHealthy :: bool

definition limiter_consume :: "RateLimitResult result option \<Rightarrow> string \<Rightarrow> nat \<Rightarrow> int \<Rightarrow> int \<Rightarrow> limiter \<Rightarrow> limiter \<times> RateLimitResult" where
  "limiter_consume redis key limit windowMs nowMs l =
     (case redis of
        Some (Inr result) \<Rightarrow> (l\<lparr> lm_redisHealthy := True \<rparr>, result)
      | _ \<Rightarrow>
          (let l1 = (if redis = None then l else l\<lparr> lm_redisHealthy := False \<rparr>);
               (m, result) = local_consume key windowMs limit nowMs (lm_local l1)
           in (l1\<lparr> lm_local := m \<rparr>, result)))"

section \<open>API keys\<close>

datatype ApiKeyTier = Tier_public | Tier_integrator | Tier_solver | Tier_partner

definition DEFAULT_TIER :: ApiKeyTier where "DEFAULT_TIER = Tier_public"

fun requestsPerMinute :: "ApiKeyTier \<Rightarrow> nat" where
  "requestsPerMinute Tier_public = 100"
| "requestsPerMinute Tier_integrator = 300"
| "requestsPerMinute Tier_solver = 600"
| "requestsPerMinute Tier_partner = 2000"

definition WINDOW_MS :: int where "WINDOW_MS = 60000"

record api_key =
  ak_keyPrefix :: string
  ak_tier :: ApiKeyTier
  ak_scopes :: "string list"

text \<open>\<open>extractApiKey\<close>: the two headers, when they are texts.\<close>

definition extractApiKey :: "string option \<Rightarrow> string option \<Rightarrow> string option" where
  "extractApiKey authorization xApiKey =
     (let bearer = (case authorization of
            Some auth \<Rightarrow> if take 7 auth = ''Bearer '' then js_trim (drop 7 auth) else []
          | None \<Rightarrow> [])
      in if bearer \<noteq> [] then Some bearer
         else (case xApiKey of Some h \<Rightarrow> if h \<noteq> [] then Some h else None | None \<Rightarrow> None))"

text \<open>
  \<open>TieredThrottleGuard.canActivate\<close>: \<open>resolveKey\<close> is the registry, \<open>ip\<close> the resolved client address.
\<close>

definition tracker :: "api_key option \<Rightarrow> string \<Rightarrow> string" where
  "tracker key ip = (case key of Some k \<Rightarrow> ''apiKey:'' @ ak_keyPrefix k | None \<Rightarrow> ''ip:'' @ ip)"

definition canActivate :: "(string \<Rightarrow> api_key option) \<Rightarrow> RateLimitResult result option \<Rightarrow> string option \<Rightarrow> string option \<Rightarrow> string \<Rightarrow> int
    \<Rightarrow> limiter \<Rightarrow> limiter \<times> unit result" where
  "canActivate resolveKey redis authorization xApiKey ip nowMs l =
     (let key = (case extractApiKey authorization xApiKey of Some p \<Rightarrow> resolveKey p | None \<Rightarrow> None);
          tier = (case key of Some k \<Rightarrow> ak_tier k | None \<Rightarrow> DEFAULT_TIER);
          (l1, result) = limiter_consume redis (tracker key ip) (requestsPerMinute tier) WINDOW_MS nowMs l
      in (l1, if rl_allowed result then Inr () else Inl (HttpError 429 ''Too Many Requests'')))"

definition API_KEY_SCOPE_REQUIREMENTS :: "(string, string) jsmap" where
  "API_KEY_SCOPE_REQUIREMENTS =
     [(''GET /tokens/admin'', ''admin:tokens:read''), (''POST /tokens/admin'', ''admin:tokens:write''),
      (''DELETE /tokens/admin/:id'', ''admin:tokens:write''), (''GET /datasets'', ''datasets:read''),
      (''GET /datasets/:id'', ''datasets:read''), (''GET /datasets/:id/export'', ''datasets:export'')]"

definition apiKeyScopeAllows :: "string list \<Rightarrow> string option \<Rightarrow> bool" where
  "apiKeyScopeAllows granted required =
     (if granted = [] then True else case required of None \<Rightarrow> False | Some r \<Rightarrow> r \<in> set granted)"

section \<open>Nonces are used once\<close>

datatype nonce_op = Issue int string int | Claim int string

fun nonce_step :: "nonce_op \<Rightarrow> expiring \<Rightarrow> expiring \<times> bool" where
  "nonce_step (Issue t n ttl) m = (remember t n ttl m, False)"
| "nonce_step (Claim t n) m = consume_nonce t n m"

text \<open>How often a nonce was issued, and how often a claim of it succeeded.\<close>

fun issued :: "string \<Rightarrow> nonce_op list \<Rightarrow> nat" where
  "issued n [] = 0"
| "issued n (Issue t k ttl # ops) = (if k = n then 1 else 0) + issued n ops"
| "issued n (Claim t k # ops) = issued n ops"

fun claimed :: "string \<Rightarrow> nonce_op list \<Rightarrow> expiring \<Rightarrow> nat" where
  "claimed n [] m = 0"
| "claimed n (op # ops) m =
     (if snd (nonce_step op m) \<and> (\<exists>t. op = Claim t n) then 1 else 0) + claimed n ops (fst (nonce_step op m))"

lemma map_of_filter_le: "wf_map m \<Longrightarrow> map_of (filter p m) k = (case map_of m k of Some v \<Rightarrow> if p (k, v) then Some v else None | None \<Rightarrow> None)"
  by (induction m) (auto simp: map_of_eq_None_iff split: option.splits)

lemma prune_lookup: "wf_map m \<Longrightarrow> map_of (prune t m) k = (case map_of m k of Some e \<Rightarrow> if e \<le> t then None else Some e | None \<Rightarrow> None)"
  unfolding prune_def by (subst map_of_filter_le) (auto split: option.splits)

lemma prune_wf [simp]: "wf_map m \<Longrightarrow> wf_map (prune t m)"
  unfolding prune_def by (rule distinct_map_filter)

lemma nonce_step_wf: "wf_map m \<Longrightarrow> wf_map (fst (nonce_step op m))"
  by (cases op) (simp_all add: remember_def consume_nonce_def)

lemma claims_bounded: "wf_map m \<Longrightarrow> claimed n ops m \<le> issued n ops + (if map_of m n = None then 0 else 1)"
proof (induction ops arbitrary: m)
  case (Cons op ops)
  note IH = Cons.IH[OF nonce_step_wf[OF Cons.prems], of op]
  show ?case
  proof (cases op)
    case (Issue t k ttl)
    then show ?thesis using IH Cons.prems by (auto simp: remember_def prune_lookup split: option.splits if_splits)
  next
    case (Claim t k)
    then show ?thesis using IH by (auto simp: consume_nonce_def split: option.splits if_splits)
  qed
qed simp

text \<open>A login nonce is single-use. However issues and claims of any nonces follow each other, a
  nonce is never claimed successfully more often than it was issued; and a claim succeeds only
  before the time its last issue allowed.\<close>

theorem nonce_single_use:
  "claimed n ops [] \<le> issued n ops
    \<and> (snd (consume_nonce t n m) \<longrightarrow> (\<exists>e. map_of m n = Some e \<and> t < e))"
  using claims_bounded[of "[]" n ops] by (auto simp: consume_nonce_def split: option.splits)

theorem nonce_single_use_witness:
  "claimed ''a'' [Issue 0 ''a'' 10, Claim 5 ''a'', Claim 6 ''a''] [] = 1
   \<and> claimed ''a'' [Issue 0 ''a'' 10, Claim 5 ''a'', Claim 6 ''a''] [] \<le> issued ''a'' [Issue 0 ''a'' 10, Claim 5 ''a'', Claim 6 ''a'']
   \<and> snd (consume_nonce 5 ''a'' [(''a'', 10)])"
  using nonce_single_use[of "''a''" "[Issue 0 ''a'' 10, Claim 5 ''a'', Claim 6 ''a'']" 5 "[(''a'', 10)]"]
  by (simp add: consume_nonce_def remember_def prune_def)

section \<open>Signatures are not replayed\<close>

definition signature_run :: "(int \<times> string \<times> string \<times> int) list \<Rightarrow> expiring \<Rightarrow> expiring" where
  "signature_run ops m = fold (\<lambda>(t, signer, nonce, e) m. fst (consume_signature t signer nonce e m)) ops m"

lemma consume_signature_wf: "wf_map m \<Longrightarrow> wf_map (fst (consume_signature t signer nonce e m))"
  by (simp add: consume_signature_def Let_def)

lemma consume_signature_keeps:
  assumes "wf_map m" and "map_of m k = Some e" and "t div 1000 < e"
  shows "map_of (fst (consume_signature t signer nonce e' m)) k = Some e"
  using assms by (auto simp: consume_signature_def Let_def prune_lookup)

lemma signature_run_keeps:
  assumes "wf_map m" and "map_of m k = Some e" and "\<forall>(t, signer, nonce, e') \<in> set ops. t div 1000 < e"
  shows "wf_map (signature_run ops m) \<and> map_of (signature_run ops m) k = Some e"
  using assms unfolding signature_run_def
  by (induction ops arbitrary: m) (auto simp: consume_signature_wf consume_signature_keeps)

text \<open>C37. A signed request is not replayed. Once the nonce of a signer was accepted, the same nonce of the
  same signer, in whatever letter case the address is written, is refused until the signature
  expires, whatever other nonces were presented in between.\<close>

theorem signature_replay_refused:
  assumes "wf_map m" and "consume_signature t signer nonce e m = (m1, True)"
    and "\<forall>(u, other) \<in> set ops. u div 1000 < e" and "t' div 1000 < e" and "toLowerCase signer' = toLowerCase signer"
  shows "\<not> snd (consume_signature t' signer' nonce e' (signature_run ops m1))"
proof -
  have "map_of m1 (nonce_key signer nonce) = Some e" "wf_map m1"
    using assms(1,2) by (auto simp: consume_signature_def Let_def split: if_splits)
  then have k: "wf_map (signature_run ops m1)" "map_of (signature_run ops m1) (nonce_key signer' nonce) = Some e"
    using signature_run_keeps[of m1 _ e ops] assms(3,5) by (auto simp: nonce_key_def)
  then show ?thesis using assms(4) by (simp add: consume_signature_def Let_def prune_lookup)
qed

theorem signature_replay_refused_witness:
  "snd (consume_signature 1000 ''GAB'' ''n'' 60 []) \<and> \<not> snd (consume_signature 3000 ''gab'' ''n'' 90 (signature_run [(2000, ''GCD'', ''n'', 70)] [(''gab:n'', 60)]))"
proof -
  have "consume_signature 1000 ''GAB'' ''n'' 60 [] = ([(''gab:n'', 60)], True)" by code_simp
  moreover have "toLowerCase ''gab'' = toLowerCase ''GAB''" by code_simp
  ultimately show ?thesis
    using signature_replay_refused[of "[]" 1000 "''GAB''" "''n''" 60 "[(''gab:n'', 60)]" "[(2000, ''GCD'', ''n'', 70)]" 3000 "''gab''" 90] by simp
qed

section \<open>Revocations last\<close>

datatype session_op = Revoke int string int | Look int string

fun session_step :: "session_op \<Rightarrow> expiring \<Rightarrow> expiring" where
  "session_step (Revoke t jti ex) m = revoke deny_session t jti ex m"
| "session_step (Look t jti) m = fst (isRevoked t jti m)"

fun session_ok :: "string \<Rightarrow> int \<Rightarrow> int \<Rightarrow> session_op \<Rightarrow> bool" where
  "session_ok jti ex t0 (Revoke t k ex') = (t0 \<le> t \<and> t < ex * 1000 \<and> (k = jti \<longrightarrow> ex' = ex))"
| "session_ok jti ex t0 (Look t k) = (t0 \<le> t \<and> t < ex * 1000)"

definition barred :: "string \<Rightarrow> int \<Rightarrow> expiring \<Rightarrow> bool" where
  "barred jti ex m \<longleftrightarrow> wf_map m \<and> (\<exists>e \<ge> ex * 1000. map_of m jti = Some e)"

lemma revoke_bars:
  assumes "wf_map m" and "t < ex * 1000" and "ex - t div 1000 \<le> SEP10_JWT_TTL_SECONDS"
  shows "barred jti ex (revoke deny_session t jti ex m)"
proof -
  have "t div 1000 < ex" using assms(2) by linarith
  moreover have "t div 1000 * 1000 \<le> t" by presburger
  then have "ex * 1000 \<le> t + (ex - t div 1000) * 1000" by (simp add: algebra_simps)
  ultimately show ?thesis using assms(1,3) by (simp add: barred_def revoke_def deny_session_def Let_def)
qed

lemma session_step_bars:
  assumes "barred jti ex m" and "session_ok jti ex t0 op" and "ex - t0 div 1000 \<le> SEP10_JWT_TTL_SECONDS"
  shows "barred jti ex (session_step op m)"
proof (cases op)
  case (Look t k)
  then show ?thesis using assms(1,2) by (auto simp: barred_def isRevoked_def split: option.split)
next
  case (Revoke t k ex')
  then have t: "t0 \<le> t" "t < ex * 1000" "k = jti \<longrightarrow> ex' = ex" using assms(2) by auto
  have wf: "wf_map m" using assms(1) by (simp add: barred_def)
  show ?thesis
  proof (cases "k = jti")
    case True
    have "ex - t div 1000 \<le> SEP10_JWT_TTL_SECONDS" using assms(3) zdiv_mono1[OF t(1), of 1000] by linarith
    then show ?thesis using revoke_bars[OF wf t(2)] True t(3) Revoke by simp
  next
    case False
    then show ?thesis using assms(1) t(2) Revoke
      by (auto simp: barred_def revoke_def deny_session_def Let_def prune_lookup split: if_splits)
  qed
qed



section \<open>The window of the limiter\<close>

datatype rate_op = Ask string int | Tidy int

text \<open>The store with the requests it admitted, as pairs of key and time. Each key has one limit.\<close>

fun rate_step :: "(string \<Rightarrow> nat) \<Rightarrow> int \<Rightarrow> rate_op \<Rightarrow> windows \<times> (string \<times> int) list \<Rightarrow> windows \<times> (string \<times> int) list" where
  "rate_step quota w (Ask k t) (m, gs) =
     (let (m', r) = local_consume k w (quota k) t m in (m', if rl_allowed r then gs @ [(k, t)] else gs))"
| "rate_step quota w (Tidy t) (m, gs) = (local_prune t w m, gs)"

fun rate_time :: "rate_op \<Rightarrow> int" where
  "rate_time (Ask k t) = t"
| "rate_time (Tidy t) = t"

definition admitted_at :: "string \<Rightarrow> (string \<times> int) list \<Rightarrow> int list" where
  "admitted_at k gs = map snd (filter (\<lambda>(k', t). k' = k) gs)"

definition rate_inv :: "(string \<Rightarrow> nat) \<Rightarrow> int \<Rightarrow> int \<Rightarrow> windows \<times> (string \<times> int) list \<Rightarrow> bool" where
  "rate_inv quota w c st = (case st of (m, gs) \<Rightarrow> wf_map m \<and> (\<forall>k. \<forall>x \<in> set (admitted_at k gs). x \<le> c)
     \<and> (\<forall>k s. c \<le> s \<longrightarrow> filter (\<lambda>x. s - w < x) (window_of m k) = filter (\<lambda>x. s - w < x) (admitted_at k gs))
     \<and> (\<forall>k u. length (filter (\<lambda>x. u - w < x \<and> x \<le> u) (admitted_at k gs)) \<le> quota k))"

lemma admitted_snoc: "admitted_at k (gs @ [(k', t)]) = admitted_at k gs @ (if k' = k then [t] else [])"
  by (simp add: admitted_at_def)

lemma window_update: "window_of (AList.update k ts m) k' = (if k' = k then ts else window_of m k')"
  by (simp add: window_of_def)

lemma filter_later: "t \<le> s \<Longrightarrow> filter (\<lambda>x. s - w < x) (filter (\<lambda>x. t - w < x) xs) = filter (\<lambda>x. s - w < (x :: int)) xs"
  by (induction xs) auto

lemma filter_weaker: "(\<And>x. p x \<Longrightarrow> q x) \<Longrightarrow> length (filter p xs) \<le> length (filter q xs)"
  by (induction xs) (auto intro: le_SucI)

lemma local_prune_lookup: "wf_map m \<Longrightarrow> window_of (local_prune t w m) k = filter (\<lambda>x. t - w < x) (window_of m k)"
proof -
  assume wf: "wf_map m"
  let ?m = "map (\<lambda>(key, ts). (key, filter (\<lambda>x. t - w < x) ts)) m"
  have "wf_map ?m" using wf by (simp add: case_prod_unfold comp_def)
  moreover have "map_of ?m k = map_option (filter (\<lambda>x. t - w < x)) (map_of m k)" by (simp add: map_of_map)
  ultimately show ?thesis unfolding window_of_def local_prune_def
    by (subst map_of_filter_le) (auto simp: coalesce_def split: option.splits)
qed

lemma local_prune_wf: "wf_map m \<Longrightarrow> wf_map (local_prune t w m)"
  unfolding local_prune_def by (rule distinct_map_filter) (simp add: case_prod_unfold comp_def)

lemma local_allowed: "rl_allowed (snd (local_consume k w l t m)) \<longleftrightarrow> length (filter (\<lambda>x. t - w < x) (window_of m k)) < l"
  by (simp add: local_consume_def Let_def)

lemma ask_inv:
  assumes "rate_inv quota w c (m, gs)" and "c \<le> t" and "0 < w"
  shows "rate_inv quota w t (rate_step quota w (Ask k t) (m, gs))"
proof -
  let ?ts = "filter (\<lambda>x. t - w < x) (window_of m k)"
  have i: "wf_map m" "\<forall>k. \<forall>x \<in> set (admitted_at k gs). x \<le> t"
    "\<And>k s. c \<le> s \<Longrightarrow> filter (\<lambda>x. s - w < x) (window_of m k) = filter (\<lambda>x. s - w < x) (admitted_at k gs)"
    "\<And>k u. length (filter (\<lambda>x. u - w < x \<and> x \<le> u) (admitted_at k gs)) \<le> quota k"
    using assms(1,2) by (fastforce simp: rate_inv_def)+
  have eq: "filter (\<lambda>x. s - w < x) ?ts = filter (\<lambda>x. s - w < x) (admitted_at k gs)" if "t \<le> s" for s
    using filter_later[OF that, of w "window_of m k"] i(3)[of s k] that assms(2) by simp
  show ?thesis
  proof (cases "length ?ts < quota k")
    case False
    then have st: "rate_step quota w (Ask k t) (m, gs) = (AList.update k ?ts m, gs)" by (simp add: local_consume_def Let_def)
    show ?thesis unfolding st rate_inv_def prod.case using i eq assms(2) by (auto simp: window_update)
  next
    case True
    then have st: "rate_step quota w (Ask k t) (m, gs) = (AList.update k (?ts @ [t]) m, gs @ [(k, t)])" by (simp add: local_consume_def Let_def)
    have bound: "length (filter (\<lambda>x. u - w < x \<and> x \<le> u) (admitted_at k gs @ [t])) \<le> quota k" for u
    proof (cases "u - w < t \<and> t \<le> u")
      case inw: True
      have "length (filter (\<lambda>x. u - w < x \<and> x \<le> u) (admitted_at k gs)) \<le> length (filter (\<lambda>x. t - w < x) (admitted_at k gs))"
        using inw by (intro filter_weaker) auto
      then show ?thesis using True inw i(3)[OF assms(2), of k] by simp
    next
      case False
      then show ?thesis using i(4)[where k = k and u = u] by auto
    qed
    show ?thesis unfolding st rate_inv_def prod.case admitted_snoc using i eq assms(2) bound
      by (auto simp: window_update)
  qed
qed

lemma tidy_inv:
  assumes "rate_inv quota w c (m, gs)" and "c \<le> t"
  shows "rate_inv quota w t (rate_step quota w (Tidy t) (m, gs))"
proof -
  have i: "wf_map m" "\<forall>k. \<forall>x \<in> set (admitted_at k gs). x \<le> t"
    "\<And>k s. c \<le> s \<Longrightarrow> filter (\<lambda>x. s - w < x) (window_of m k) = filter (\<lambda>x. s - w < x) (admitted_at k gs)"
    "\<And>k u. length (filter (\<lambda>x. u - w < x \<and> x \<le> u) (admitted_at k gs)) \<le> quota k"
    using assms by (fastforce simp: rate_inv_def)+
  have "filter (\<lambda>x. s - w < x) (window_of (local_prune t w m) k) = filter (\<lambda>x. s - w < x) (admitted_at k gs)" if "t \<le> s" for s k
    using filter_later[OF that, of w "window_of m k"] i(3)[of s k] that assms(2) by (simp add: local_prune_lookup[OF i(1)])
  then show ?thesis using i local_prune_wf[OF i(1)] by (simp add: rate_inv_def)
qed

fun in_order :: "int \<Rightarrow> rate_op list \<Rightarrow> bool" where
  "in_order c [] = True"
| "in_order c (op # ops) = (c \<le> rate_time op \<and> in_order (rate_time op) ops)"

lemma rate_run_inv:
  assumes "rate_inv quota w c st" and "0 < w" and "in_order c (ops @ [Tidy t])"
  shows "\<exists>c' \<le> t. rate_inv quota w c' (fold (rate_step quota w) ops st)"
  using assms(1,3)
proof (induction ops arbitrary: c st)
  case (Cons op ops)
  obtain m gs where st: "st = (m, gs)" by (cases st)
  have "rate_inv quota w (rate_time op) (rate_step quota w op st)"
    using ask_inv[OF _ _ assms(2)] tidy_inv Cons.prems st by (cases op) auto
  then show ?case using Cons.IH Cons.prems(2) by simp
qed auto

text \<open>C40. The in-process limiter is an exact sliding window. Whatever requests for whatever keys came
  before, with pruning in between, a request is admitted exactly when fewer than the limit of its
  key were admitted during the window that ends now; and so no window of that length, wherever it
  lies, ever holds more admitted requests of a key than its limit.\<close>

theorem rate_limit_exact:
  assumes "0 < w" and "in_order c (ops @ [Tidy t])" and "fold (rate_step quota w) ops ([], []) = (m, gs)"
  shows "(rl_allowed (snd (local_consume k w (quota k) t m)) \<longleftrightarrow> length (filter (\<lambda>x. t - w < x) (admitted_at k gs)) < quota k)
    \<and> length (filter (\<lambda>x. u - w < x \<and> x \<le> u) (admitted_at k gs)) \<le> quota k"
proof -
  have "rate_inv quota w c ([], [])" by (simp add: rate_inv_def admitted_at_def window_of_def coalesce_def)
  then obtain c' where c': "c' \<le> t" "rate_inv quota w c' (m, gs)" using rate_run_inv[OF _ assms(1,2)] assms(3) by metis
  then have "filter (\<lambda>x. t - w < x) (window_of m k) = filter (\<lambda>x. t - w < x) (admitted_at k gs)" by (simp add: rate_inv_def)
  then show ?thesis using c'(2) by (simp add: local_allowed rate_inv_def)
qed

theorem rate_limit_exact_witness:
  "\<not> rl_allowed (snd (local_consume ''a'' 100 2 50 (fst (fold (rate_step (\<lambda>_. 2) 100) [Ask ''a'' 10, Ask ''a'' 20, Tidy 30] ([], [])))))"
  using rate_limit_exact[of 100 0 "[Ask ''a'' 10, Ask ''a'' 20, Tidy 30]" 50 "\<lambda>_. 2" "[(''a'', [10, 20])]" "[(''a'', 10), (''a'', 20)]" "''a''" 0]
  by (simp add: local_consume_def local_prune_def window_of_def coalesce_def admitted_at_def)

text \<open>Without Redis, or when it fails, the guard admits exactly what the in-process window admits.\<close>

lemma fallback_enforced:
  assumes "\<forall>r. redis \<noteq> Some (Inr r)"
  shows "snd (limiter_consume redis key limit w t l) = snd (local_consume key w limit t (lm_local l))"
    and "lm_local (fst (limiter_consume redis key limit w t l)) = fst (local_consume key w limit t (lm_local l))"
  using assms by (auto simp: limiter_consume_def Let_def split: option.splits sum.splits prod.splits)

lemma public_by_address:
  assumes "extractApiKey a x = None" and "\<forall>r. redis \<noteq> Some (Inr r)"
  shows "snd (canActivate resolveKey redis a x ip t l) = Inr ()
     \<longleftrightarrow> rl_allowed (snd (local_consume (''ip:'' @ ip) WINDOW_MS 100 t (lm_local l)))"
  using fallback_enforced(1)[OF assms(2), of "''ip:'' @ ip" 100 WINDOW_MS t l] assms(1)
  by (simp add: canActivate_def tracker_def DEFAULT_TIER_def Let_def case_prod_unfold)

text \<open>
  A nonce whose signature is already expired when it is first presented is forgotten at once and
  accepted again: the store relies on its callers to check the expiry first.
\<close>

lemma expired_signature_replayed:
  "snd (consume_signature 5000 ''GAB'' ''n'' 4 []) \<and> snd (consume_signature 5000 ''GAB'' ''n'' 4 (fst (consume_signature 5000 ''GAB'' ''n'' 4 [])))"
  by code_simp

end
