(* ===== verification/Disputes.thy ===== *)
theory Disputes
  imports Solvers Solver_Fills
begin

text \<open>
  Appeals against a slash: \<^verbatim>\<open>src/disputes/disputes.service.ts\<close> over the in-memory repository of
  \<^verbatim>\<open>src/disputes/disputes.repository.ts\<close> with the types of \<^verbatim>\<open>src/disputes/disputes.types.ts\<close> and the
  evidence check of \<^verbatim>\<open>src/disputes/fill-verifier.service.ts\<close>, using the solver records and the intents
  store. Generated identifiers are arguments. The lemmas show that decisions are final and that
  refunds are requested exactly for overturned disputes, and exhibit what two interleaved
  requests, a second appeal and a confirmed penalty lead to.
\<close>

section \<open>Types\<close>

datatype DisputeStatus = DP_open | DP_under_review | DP_upheld | DP_overturned

fun dispute_name :: "DisputeStatus \<Rightarrow> string" where
  "dispute_name DP_open = ''open''"
| "dispute_name DP_under_review = ''under_review''"
| "dispute_name DP_upheld = ''upheld''"
| "dispute_name DP_overturned = ''overturned''"

record DisputeEvidence =
  ev_txHashes :: "string list"
  ev_logs :: "string list"
  ev_note :: "string option"

record EvidenceVerification =
  vf_verified :: bool
  vf_reason :: string

record Dispute =
  di_disputeId :: string
  di_slashId :: string
  di_solver :: string
  di_intentId :: string
  di_reason :: string
  di_evidence :: DisputeEvidence
  di_status :: DisputeStatus
  di_submittedAt :: int
  di_deadline :: int
  di_autoVerification :: EvidenceVerification
  di_decidedAt :: "int option"
  di_decidedBy :: "string option"
  di_decisionReason :: "string option"

record TreasuryRefundRequest =
  rf_refundId :: string
  rf_disputeId :: string
  rf_solver :: string
  rf_slashId :: string
  rf_amount :: "string option"
  rf_processed :: bool
  rf_createdAt :: int

definition DISPUTE_WINDOW_SECONDS :: int where "DISPUTE_WINDOW_SECONDS = 7 * 86400"
definition DISPUTE_SLA_SECONDS :: int where "DISPUTE_SLA_SECONDS = 7 * 86400"

section \<open>Repository\<close>

record disputes_repo =
  dr_disputes :: "(string, Dispute) jsmap"
  dr_refunds :: "TreasuryRefundRequest list"

definition save_dispute :: "Dispute \<Rightarrow> disputes_repo \<Rightarrow> disputes_repo" where
  "save_dispute d r = r\<lparr> dr_disputes := AList.update (di_disputeId d) d (dr_disputes r) \<rparr>"

definition find_dispute :: "disputes_repo \<Rightarrow> string \<Rightarrow> Dispute option" where
  "find_dispute r did = map_of (dr_disputes r) did"

definition is_active :: "Dispute \<Rightarrow> bool" where
  "is_active d \<longleftrightarrow> di_status d = DP_open \<or> di_status d = DP_under_review"

definition findActiveBySlashId :: "disputes_repo \<Rightarrow> string \<Rightarrow> Dispute option" where
  "findActiveBySlashId r sid = List.find (\<lambda>d. di_slashId d = sid \<and> is_active d) (js_values (dr_disputes r))"

definition findAll_disputes :: "disputes_repo \<Rightarrow> Dispute list" where
  "findAll_disputes r = js_values (dr_disputes r)"

definition saveRefund :: "TreasuryRefundRequest \<Rightarrow> disputes_repo \<Rightarrow> disputes_repo" where
  "saveRefund f r = r\<lparr> dr_refunds := dr_refunds r @ [f] \<rparr>"

definition findRefundsBySolver :: "disputes_repo \<Rightarrow> string \<Rightarrow> TreasuryRefundRequest list" where
  "findRefundsBySolver r solver = filter (\<lambda>f. rf_solver f = solver) (dr_refunds r)"

section \<open>Service\<close>

definition verify :: "intents_repo \<Rightarrow> string \<Rightarrow> string list \<Rightarrow> EvidenceVerification" where
  "verify intents iid txHashes =
     (if txHashes = [] then \<lparr> vf_verified = False, vf_reason = ''no transaction hashes supplied'' \<rparr>
      else case findById intents iid of
             None \<Rightarrow> \<lparr> vf_verified = False, vf_reason = ''intent not found'' \<rparr>
           | Some i \<Rightarrow>
               if i_state i = St_filled
               then (if \<exists>h \<in> set txHashes. h \<noteq> [] \<and> i_txHash i = Some h
                     then \<lparr> vf_verified = True, vf_reason = ''evidence tx hash matches the recorded on-chain fill'' \<rparr>
                     else \<lparr> vf_verified = False, vf_reason = ''fill recorded but no evidence tx hash matches it'' \<rparr>)
               else \<lparr> vf_verified = False, vf_reason = ''intent is not filled (state='' @ state_name (i_state i) @ '')'' \<rparr>)"

record dispute_svc =
  ds_repo :: disputes_repo
  ds_solvers :: solvers
  ds_intents :: intents_repo

text \<open>
  \<open>submit\<close> up to the dispute it will save, and saving it. Between the two the code awaits the
  evidence check, so another request may come in between.
\<close>

definition submit_check :: "int \<Rightarrow> string \<Rightarrow> string \<Rightarrow> string \<Rightarrow> string \<Rightarrow> DisputeEvidence \<Rightarrow> dispute_svc \<Rightarrow> Dispute result" where
  "submit_check nowMs uuid solver slashId reason evidence s =
     (case getSlash slashId (ds_solvers s) of
        None \<Rightarrow> Inl (NotFound ''Slash not found'')
      | Some slash \<Rightarrow>
          if sl_solver slash \<noteq> solver then Inl (Forbidden ''A dispute may only be filed by the slashed solver'')
          else (let now = nowMs div 1000
                in if now - sl_timestamp slash > DISPUTE_WINDOW_SECONDS
                   then Inl (BadRequest ''The dispute window has closed for this slash'')
                   else if findActiveBySlashId (ds_repo s) slashId \<noteq> None
                   then Inl (Conflict ''An active dispute already exists for this slash'')
                   else Inr \<lparr> di_disputeId = uuid, di_slashId = slashId, di_solver = solver, di_intentId = sl_intentId slash,
                              di_reason = reason, di_evidence = evidence, di_status = DP_open, di_submittedAt = now,
                              di_deadline = now + DISPUTE_SLA_SECONDS,
                              di_autoVerification = verify (ds_intents s) (sl_intentId slash) (ev_txHashes evidence),
                              di_decidedAt = None, di_decidedBy = None, di_decisionReason = None \<rparr>))"

definition put_dispute :: "Dispute \<Rightarrow> dispute_svc \<Rightarrow> dispute_svc" where
  "put_dispute d s = s\<lparr> ds_repo := save_dispute d (ds_repo s) \<rparr>"

definition submit :: "int \<Rightarrow> string \<Rightarrow> string \<Rightarrow> string \<Rightarrow> string \<Rightarrow> DisputeEvidence \<Rightarrow> dispute_svc \<Rightarrow> dispute_svc \<times> Dispute result" where
  "submit nowMs uuid solver slashId reason evidence s =
     (case submit_check nowMs uuid solver slashId reason evidence s of
        Inl e \<Rightarrow> (s, Inl e)
      | Inr d \<Rightarrow> (put_dispute d s, Inr d))"

definition requireDispute :: "disputes_repo \<Rightarrow> string \<Rightarrow> Dispute result" where
  "requireDispute r did = (case find_dispute r did of None \<Rightarrow> Inl (NotFound ''Dispute not found'') | Some d \<Rightarrow> Inr d)"

definition review :: "string \<Rightarrow> dispute_svc \<Rightarrow> dispute_svc \<times> Dispute result" where
  "review did s =
     (case requireDispute (ds_repo s) did of
        Inl e \<Rightarrow> (s, Inl e)
      | Inr d \<Rightarrow>
          if di_status d \<noteq> DP_open
          then (s, Inl (Conflict (''Cannot review a dispute in state '' @ [CHR 0x22] @ dispute_name (di_status d) @ [CHR 0x22])))
          else (let d' = d\<lparr> di_status := DP_under_review \<rparr> in (put_dispute d' s, Inr d')))"

text \<open>\<open>overturned\<close> is the resolution; the other one is \<open>upheld\<close>.\<close>

definition refund_request :: "string \<Rightarrow> int \<Rightarrow> Dispute \<Rightarrow> TreasuryRefundRequest" where
  "refund_request uuid now d =
     \<lparr> rf_refundId = uuid, rf_disputeId = di_disputeId d, rf_solver = di_solver d, rf_slashId = di_slashId d,
       rf_amount = None, rf_processed = False, rf_createdAt = now \<rparr>"

definition decide :: "int \<Rightarrow> string \<Rightarrow> string \<Rightarrow> bool \<Rightarrow> string \<Rightarrow> string \<Rightarrow> dispute_svc \<Rightarrow> dispute_svc \<times> Dispute result" where
  "decide nowMs uuid did overturned reviewer reason s =
     (case requireDispute (ds_repo s) did of
        Inl e \<Rightarrow> (s, Inl e)
      | Inr d \<Rightarrow>
          if di_status d \<noteq> DP_under_review
          then (s, Inl (Conflict (''Cannot decide a dispute in state '' @ [CHR 0x22] @ dispute_name (di_status d) @ [CHR 0x22])))
          else if js_trim reason = [] then (s, Inl (BadRequest ''A decision reason is required''))
          else (let now = nowMs div 1000;
                    s1 = (if overturned
                          then s\<lparr> ds_solvers := fst (rollbackPenalty (di_intentId d) None (ds_solvers s)),
                                  ds_repo := saveRefund (refund_request uuid now d) (ds_repo s) \<rparr>
                          else s);
                    d' = d\<lparr> di_status := (if overturned then DP_overturned else DP_upheld), di_decidedAt := Some now,
                            di_decidedBy := Some reviewer, di_decisionReason := Some reason \<rparr>
                in (put_dispute d' s1, Inr d')))"

record DisputeStatistics =
  dt_total :: nat
  dt_open :: nat
  dt_underReview :: nat
  dt_upheld :: nat
  dt_overturned :: nat
  dt_overturnRate :: rat
  dt_avgResolutionSeconds :: int
  dt_withinSla :: nat

definition statistics :: "disputes_repo \<Rightarrow> DisputeStatistics" where
  "statistics r =
     (let everything = findAll_disputes r;
          decided = filter (\<lambda>d. di_decidedAt d \<noteq> None) everything;
          overturned = filter (\<lambda>d. di_status d = DP_overturned) decided;
          totalResolution = sum_list (map (\<lambda>d. the (di_decidedAt d) - di_submittedAt d) decided);
          n = length decided
      in \<lparr> dt_total = length everything,
           dt_open = length (filter (\<lambda>d. di_status d = DP_open) everything),
           dt_underReview = length (filter (\<lambda>d. di_status d = DP_under_review) everything),
           dt_upheld = length (filter (\<lambda>d. di_status d = DP_upheld) decided),
           dt_overturned = length overturned,
           dt_overturnRate = (if n \<noteq> 0 then of_nat (length overturned) / of_nat n else 0),
           dt_avgResolutionSeconds = (if n \<noteq> 0 then js_round (of_int totalResolution / of_nat n) else 0),
           dt_withinSla = length (filter (\<lambda>d. the (di_decidedAt d) \<le> di_deadline d) decided) \<rparr>)"

section \<open>Runs of requests handled one after the other\<close>

text \<open>Identifiers of new disputes are fresh; solvers and intents change as they like in between.\<close>

inductive dispute_step :: "dispute_svc \<Rightarrow> dispute_svc \<Rightarrow> bool" where
  dp_submit: "find_dispute (ds_repo s) uuid = None \<Longrightarrow> dispute_step s (fst (submit nowMs uuid solver slashId reason evidence s))"
| dp_review: "dispute_step s (fst (review did s))"
| dp_decide: "dispute_step s (fst (decide nowMs uuid did overturned reviewer reason s))"
| dp_world: "dispute_step s (s\<lparr> ds_solvers := v, ds_intents := r \<rparr>)"

definition decided_ok :: "Dispute \<Rightarrow> bool" where
  "decided_ok d \<longleftrightarrow> (di_decidedAt d \<noteq> None \<longleftrightarrow> \<not> is_active d)"

text \<open>What holds of the stored disputes \<open>f\<close> and the disputes \<open>R\<close> a refund was requested for, in order.\<close>

definition dispute_view :: "(string \<Rightarrow> Dispute option) \<Rightarrow> string list \<Rightarrow> bool" where
  "dispute_view f R \<longleftrightarrow> (\<forall>k d. f k = Some d \<longrightarrow> di_disputeId d = k \<and> decided_ok d)
     \<and> (\<forall>k k' d d'. f k = Some d \<and> f k' = Some d' \<and> di_slashId d = di_slashId d' \<and> is_active d \<and> is_active d' \<longrightarrow> k = k')
     \<and> distinct R \<and> (\<forall>k. k \<in> set R \<longleftrightarrow> (\<exists>d. f k = Some d \<and> di_status d = DP_overturned))"

definition refunded :: "dispute_svc \<Rightarrow> string list" where
  "refunded s = map rf_disputeId (dr_refunds (ds_repo s))"

definition dispute_inv :: "dispute_svc \<Rightarrow> bool" where
  "dispute_inv s \<longleftrightarrow> wf_map (dr_disputes (ds_repo s)) \<and> dispute_view (find_dispute (ds_repo s)) (refunded s)"

lemma view_put:
  assumes v: "dispute_view f R" and k: "di_disputeId d = k" and ok: "decided_ok d"
    and act: "\<And>k' d'. is_active d \<Longrightarrow> f k' = Some d' \<Longrightarrow> k' \<noteq> k \<Longrightarrow> di_slashId d' = di_slashId d \<Longrightarrow> \<not> is_active d'"
    and old: "\<And>d0. f k = Some d0 \<Longrightarrow> di_status d0 \<noteq> DP_overturned"
  shows "dispute_view (f(k \<mapsto> d)) (if di_status d = DP_overturned then R @ [k] else R)"
proof -
  have R: "k \<notin> set R" "distinct R" "\<And>j. j \<in> set R \<longleftrightarrow> (\<exists>d. f j = Some d \<and> di_status d = DP_overturned)"
    using v old unfolding dispute_view_def by blast+
  have 1: "\<forall>j e. (f(k \<mapsto> d)) j = Some e \<longrightarrow> di_disputeId e = j \<and> decided_ok e"
    using v k ok unfolding dispute_view_def by auto
  have 2: "j = j'" if "(f(k \<mapsto> d)) j = Some e" "(f(k \<mapsto> d)) j' = Some e'" "di_slashId e = di_slashId e'" "is_active e" "is_active e'" for j j' e e'
  proof (rule ccontr)
    assume ne: "j \<noteq> j'"
    have u: "\<forall>k k' d d'. f k = Some d \<and> f k' = Some d' \<and> di_slashId d = di_slashId d' \<and> is_active d \<and> is_active d' \<longrightarrow> k = k'"
      using v unfolding dispute_view_def by blast
    consider "j = k" | "j' = k" | "j \<noteq> k" "j' \<noteq> k" by blast
    then show False
    proof cases
      case 1
      then show False using act[of j' e'] that ne by simp
    next
      case 2
      then show False using act[of j e] that ne by simp
    next
      case 3
      then have "f j = Some e" "f j' = Some e'" using that(1,2) by simp_all
      then show False using u that(3-5) ne by blast
    qed
  qed
  have 3: "j \<in> set (if di_status d = DP_overturned then R @ [k] else R) \<longleftrightarrow> (\<exists>e. (f(k \<mapsto> d)) j = Some e \<and> di_status e = DP_overturned)" for j
    using R(1,3) by auto
  show ?thesis unfolding dispute_view_def
  proof (intro conjI)
    show "distinct (if di_status d = DP_overturned then R @ [k] else R)" using R(1,2) by simp
  qed (use 1 2 3 in blast)+
qed

lemma find_put: "find_dispute (ds_repo (put_dispute d s)) = (find_dispute (ds_repo s))(di_disputeId d \<mapsto> d)"
  by (auto simp: find_dispute_def put_dispute_def save_dispute_def)

lemma put_simps [simp]:
  "refunded (put_dispute d s) = refunded s" "ds_solvers (put_dispute d s) = ds_solvers s"
  "wf_map (dr_disputes (ds_repo s)) \<Longrightarrow> wf_map (dr_disputes (ds_repo (put_dispute d s)))"
  by (simp_all add: put_dispute_def save_dispute_def refunded_def)

lemma findActive_None:
  assumes "findActiveBySlashId r sid = None" and "wf_map (dr_disputes r)" and "find_dispute r did = Some d" and "di_slashId d = sid"
  shows "\<not> is_active d"
proof -
  have "d \<in> set (js_values (dr_disputes r))" using assms(2,3) mem_js_values[of "dr_disputes r" d] by (auto simp: find_dispute_def)
  then show ?thesis using assms(1,4) by (auto simp: findActiveBySlashId_def find_None_iff)
qed

lemma submit_inv:
  assumes "dispute_inv s" and "find_dispute (ds_repo s) uuid = None"
  shows "dispute_inv (fst (submit nowMs uuid solver slashId reason evidence s))"
proof (cases "submit_check nowMs uuid solver slashId reason evidence s")
  case (Inr d)
  then have d: "di_disputeId d = uuid" "di_slashId d = slashId" "di_status d = DP_open" "di_decidedAt d = None"
    "findActiveBySlashId (ds_repo s) slashId = None"
    by (auto simp: submit_check_def Let_def split: option.splits if_splits)
  have i: "wf_map (dr_disputes (ds_repo s))" "dispute_view (find_dispute (ds_repo s)) (refunded s)" using assms(1) by (auto simp: dispute_inv_def)
  have "dispute_view ((find_dispute (ds_repo s))(uuid \<mapsto> d)) (refunded s)"
    using view_put[OF i(2) d(1)] findActive_None[OF d(5) i(1)] assms(2) d(2-4) by (simp add: decided_ok_def is_active_def)
  then show ?thesis using Inr i(1) d(1) by (simp add: submit_def dispute_inv_def find_put)
qed (use assms in \<open>simp add: submit_def\<close>)

lemma review_inv:
  assumes "dispute_inv s"
  shows "dispute_inv (fst (review did s))"
proof (cases "find_dispute (ds_repo s) did")
  case (Some d)
  show ?thesis
  proof (cases "di_status d = DP_open")
    case True
    let ?d = "d\<lparr> di_status := DP_under_review \<rparr>"
    have i: "wf_map (dr_disputes (ds_repo s))" "dispute_view (find_dispute (ds_repo s)) (refunded s)" using assms by (auto simp: dispute_inv_def)
    then have d: "di_disputeId d = did" "decided_ok d" using Some by (auto simp: dispute_view_def)
    have "\<not> is_active d'" if "find_dispute (ds_repo s) k' = Some d'" "k' \<noteq> did" "di_slashId d' = di_slashId d" for k' d'
    proof
      assume "is_active d'"
      moreover have "is_active d" using True by (simp add: is_active_def)
      ultimately show False using i(2) that Some unfolding dispute_view_def by blast
    qed
    then have "dispute_view ((find_dispute (ds_repo s))(did \<mapsto> ?d)) (refunded s)"
      using view_put[OF i(2), of ?d did] d Some True by (simp add: decided_ok_def is_active_def)
    then show ?thesis using Some True i(1) d(1) by (simp add: review_def requireDispute_def Let_def dispute_inv_def find_put)
  qed (use assms Some in \<open>simp add: review_def requireDispute_def\<close>)
qed (use assms in \<open>simp add: review_def requireDispute_def\<close>)

lemma decide_inv:
  assumes "dispute_inv s"
  shows "dispute_inv (fst (decide nowMs uuid did overturned reviewer reason s))"
proof (cases "\<exists>d. find_dispute (ds_repo s) did = Some d \<and> di_status d = DP_under_review \<and> js_trim reason \<noteq> []")
  case True
  then obtain d where d: "find_dispute (ds_repo s) did = Some d" "di_status d = DP_under_review" "js_trim reason \<noteq> []" by blast
  have i: "wf_map (dr_disputes (ds_repo s))" "dispute_view (find_dispute (ds_repo s)) (refunded s)" using assms by (auto simp: dispute_inv_def)
  then have k: "di_disputeId d = did" using d by (auto simp: dispute_view_def)
  define s1 where "s1 = (if overturned
      then s\<lparr> ds_solvers := fst (rollbackPenalty (di_intentId d) None (ds_solvers s)),
              ds_repo := saveRefund (refund_request uuid (nowMs div 1000) d) (ds_repo s) \<rparr> else s)"
  define d' where "d' = d\<lparr> di_status := (if overturned then DP_overturned else DP_upheld), di_decidedAt := Some (nowMs div 1000),
      di_decidedBy := Some reviewer, di_decisionReason := Some reason \<rparr>"
  have run: "fst (decide nowMs uuid did overturned reviewer reason s) = put_dispute d' s1"
    using d by (simp add: decide_def requireDispute_def s1_def d'_def Let_def)
  have s1: "find_dispute (ds_repo s1) = find_dispute (ds_repo s)" "wf_map (dr_disputes (ds_repo s1))"
    "refunded s1 = (if di_status d' = DP_overturned then refunded s @ [did] else refunded s)"
    using i(1) k by (auto simp: s1_def d'_def saveRefund_def find_dispute_def refunded_def refund_request_def)
  have "dispute_view ((find_dispute (ds_repo s))(did \<mapsto> d')) (refunded s1)"
    using view_put[OF i(2), of d' did] k d unfolding s1(3) by (simp add: d'_def decided_ok_def is_active_def)
  then show ?thesis unfolding run using s1 k by (simp add: dispute_inv_def find_put d'_def)
next
  case False
  then have "fst (decide nowMs uuid did overturned reviewer reason s) = s"
    by (auto simp: decide_def requireDispute_def split: option.split)
  then show ?thesis using assms by simp
qed

interpretation dispute_runs: inv_system dispute_step dispute_inv
proof unfold_locales
  fix s s' assume "dispute_step s s'" "dispute_inv s"
  then show "dispute_inv s'"
    by (induction rule: dispute_step.induct) (simp_all add: submit_inv review_inv decide_inv, simp add: dispute_inv_def refunded_def)
qed

definition no_disputes :: dispute_svc where
  "no_disputes = \<lparr> ds_repo = \<lparr> dr_disputes = [], dr_refunds = [] \<rparr>, ds_solvers = emptySolvers, ds_intents = emptyRepo \<rparr>"

lemma no_disputes_inv: "dispute_inv no_disputes"
  by (simp add: dispute_inv_def dispute_view_def no_disputes_def find_dispute_def refunded_def)

text \<open>A decided dispute and the refunds so far are kept by every step.\<close>

lemma inv_id: "dispute_inv s \<Longrightarrow> find_dispute (ds_repo s) did = Some d \<Longrightarrow> di_disputeId d = did"
  by (simp add: dispute_inv_def dispute_view_def)

lemma find_refund [simp]: "find_dispute (saveRefund f r) = find_dispute r"
  by (simp add: find_dispute_def saveRefund_def fun_eq_iff)

lemma decided_kept:
  assumes "dispute_step s s'" and "dispute_inv s" and "find_dispute (ds_repo s) did = Some d" and "\<not> is_active d"
  shows "find_dispute (ds_repo s') did = Some d"
  using assms
proof (induction rule: dispute_step.induct)
  case (dp_submit s uuid nowMs solver slashId reason evidence)
  have "di_disputeId e = uuid" if "submit_check nowMs uuid solver slashId reason evidence s = Inr e" for e
    using that by (auto simp: submit_check_def Let_def split: option.splits if_splits)
  then show ?case using dp_submit by (auto simp: submit_def find_put split: sum.split)
next
  case (dp_review s k)
  then show ?case using inv_id[OF dp_review(1)]
    by (cases "find_dispute (ds_repo s) k") (auto simp: review_def requireDispute_def find_put Let_def is_active_def)
next
  case (dp_decide s nowMs uuid k overturned reviewer reason)
  then show ?case using inv_id[OF dp_decide(1)]
    by (cases "find_dispute (ds_repo s) k") (auto simp: decide_def requireDispute_def find_put Let_def is_active_def)
qed simp

section \<open>Properties\<close>

lemma submit_accepts_iff:
  "(\<exists>d. snd (submit nowMs uuid solver slashId reason evidence s) = Inr d)
    \<longleftrightarrow> (\<exists>slash. getSlash slashId (ds_solvers s) = Some slash \<and> sl_solver slash = solver
          \<and> nowMs div 1000 - sl_timestamp slash \<le> DISPUTE_WINDOW_SECONDS) \<and> findActiveBySlashId (ds_repo s) slashId = None"
  by (auto simp: submit_def submit_check_def Let_def split: option.splits if_splits)

lemma reached_disputes: "dispute_step\<^sup>*\<^sup>* no_disputes s \<Longrightarrow> dispute_inv s"
  using dispute_runs.run_inv no_disputes_inv by blast


definition sample_evidence :: DisputeEvidence where
  "sample_evidence = \<lparr> ev_txHashes = [''h''], ev_logs = [], ev_note = None \<rparr>"

definition slashed_world :: dispute_svc where
  "slashed_world = no_disputes\<lparr> ds_solvers := fst (recordSlash ''GA'' ''i1'' ''late'' 100 two_solvers), ds_intents := emptyRepo \<rparr>"

text \<open>One appeal from its submission to the overturned decision.\<close>

definition appeal :: "string \<Rightarrow> dispute_svc \<Rightarrow> dispute_svc" where
  "appeal did s = fst (decide 300000 ''refund'' did True ''bob'' ''fill landed'' (fst (review did
     (fst (submit 200000 did ''GA'' ''slash-1'' ''rpc lag'' sample_evidence s)))))"

lemma appeal_run: "find_dispute (ds_repo s) did = None \<Longrightarrow> dispute_step\<^sup>*\<^sup>* s (appeal did s)"
  unfolding appeal_def by (meson dp_submit dp_review dp_decide rtranclp.rtrancl_into_rtrancl rtranclp.rtrancl_refl)

lemma slashed_world_run: "dispute_step\<^sup>*\<^sup>* no_disputes slashed_world"
  unfolding slashed_world_def by (rule r_into_rtranclp) (rule dp_world)

lemma appeal_eval:
  "find_dispute (ds_repo slashed_world) ''d1'' = None"
  "map_option di_status (find_dispute (ds_repo (appeal ''d1'' slashed_world)) ''d1'') = Some DP_overturned"
  by code_simp+


text \<open>The published counts add up to the number of disputes.\<close>

lemma statistics_add_up:
  assumes "dispute_step\<^sup>*\<^sup>* no_disputes s"
  shows "dt_total (statistics (ds_repo s)) = dt_open (statistics (ds_repo s)) + dt_underReview (statistics (ds_repo s))
    + dt_upheld (statistics (ds_repo s)) + dt_overturned (statistics (ds_repo s))"
proof -
  have wf: "wf_map (dr_disputes (ds_repo s))" using reached_disputes[OF assms] by (simp add: dispute_inv_def)
  have ok: "decided_ok d" if "d \<in> set (js_values (dr_disputes (ds_repo s)))" for d
    using reached_disputes[OF assms] that unfolding mem_js_values[OF wf] dispute_inv_def dispute_view_def find_dispute_def by blast
  have cnt: "length ds = length (filter (\<lambda>d. di_status d = DP_open) ds) + length (filter (\<lambda>d. di_status d = DP_under_review) ds)
      + length (filter (\<lambda>d. di_status d = DP_upheld) (filter (\<lambda>d. di_decidedAt d \<noteq> None) ds))
      + length (filter (\<lambda>d. di_status d = DP_overturned) (filter (\<lambda>d. di_decidedAt d \<noteq> None) ds))"
    if "\<forall>d \<in> set ds. decided_ok d" for ds
    using that
  proof (induction ds)
    case (Cons d ds)
    then show ?case by (cases "di_status d") (simp_all add: decided_ok_def is_active_def)
  qed simp
  show ?thesis unfolding statistics_def Let_def findAll_disputes_def DisputeStatistics.select_convs by (rule cnt) (use ok in blast)
qed

section \<open>Divergences from the comments\<close>

text \<open>
  Two submissions for one slash whose evidence checks overlap both pass, and both disputes become
  active.
\<close>

lemma interleaved_submits:
  assumes "submit_check t1 u1 solver sid r1 e1 s = Inr d1" and "submit_check t2 u2 solver sid r2 e2 s = Inr d2" and "u1 \<noteq> u2"
  shows "find_dispute (ds_repo (put_dispute d2 (put_dispute d1 s))) u1 = Some d1 \<and> find_dispute (ds_repo (put_dispute d2 (put_dispute d1 s))) u2 = Some d2
    \<and> di_slashId d1 = di_slashId d2 \<and> is_active d1 \<and> is_active d2"
proof -
  have "di_disputeId d = u \<and> di_slashId d = sid \<and> is_active d" if "submit_check t u solver sid r e s = Inr d" for t u r e d
    using that by (auto simp: submit_check_def Let_def is_active_def split: option.splits if_splits)
  then show ?thesis using assms by (simp add: find_put)
qed

text \<open>
  Once a dispute of a slash is decided another one may be filed, so one slash can be overturned, and
  its refund requested, twice.
\<close>

lemma second_appeal_refunds_again:
  "map rf_slashId (dr_refunds (ds_repo (appeal ''d2'' (appeal ''d1'' slashed_world)))) = [''slash-1'', ''slash-1'']"
  by code_simp

text \<open>
  Overturning a slash whose penalty was already confirmed on chain changes no solver record: the
  failed fill stays counted.
\<close>

lemma overturn_keeps_confirmed_penalty:
  assumes "find_dispute (ds_repo s) did = Some d" and "map_of (v_pendingPenalties (ds_solvers s)) (di_intentId d) = Some p"
    and "pn_state p \<noteq> PN_pending"
  shows "ds_solvers (fst (decide nowMs uuid did True reviewer reason s)) = ds_solvers s"
  using assms by (auto simp: decide_def requireDispute_def rollbackPenalty_def Let_def)

end
