(* ===== verification/Spec2Isabelle.thy ===== *)
theory Spec2Isabelle
  imports Intents_Creation Solver_Griefing Solvers Fees Sweeper
    Lifecycle_Spec Http_Egress Tx_Confirmation Chain_Sync Protocol_Params Job_Queue_Props
    Request_Guards Disputes
begin

text \<open>
  \<^bold>\<open>Verification of the backend of an intent-based cross-chain swap protocol.\<close>

  A user posts an intent: so much of one token on a source chain for at least so much of another
  on Stellar, before a deadline. A solver accepts it, delivers, and is paid; a solver that accepts
  and does not deliver is slashed. The backend stores the intents, drives each one along the
  lifecycle, writes the chain through an outbox, watches the chain for what happened there, and
  keeps the books of solvers and fees. The theories below follow the files under
  \<^verbatim>\<open>src/src\<close>; definitions keep the names of the functions they translate.

  \<^bold>\<open>How the parts interact.\<close> \<open>IntentsService\<close> is the only writer of intents. It plans each change with
  the transition table, applies it by a guarded write of the repository, and appends the audit entry,
  the fill-ledger row and the outbox row in the same unit. The outbox relay and the confirmation
  worker carry the chain writes and report back. The sweeper expires and slashes on deadlines, the
  partial-fill service splits one intent among several solvers, the slashing pipeline adds a
  challenge window before a solver loses bond, the reconciler and the event ingestion bring back
  what the chain says. The kill switch and the parameters read from governance gate and
  parametrise all of it; jobs, egress and address checks are the infrastructure underneath.

  \<^bold>\<open>Theories and sources.\<close>
  \<^item> \<^verbatim>\<open>Js_Prelude\<close>, \<^verbatim>\<open>Js_Text\<close>, \<^verbatim>\<open>Js_Number\<close>: the part of the TypeScript runtime the code relies on.
    Exceptions are values of \<open>exn + 'a\<close>, a \<open>Map\<close> is an association list in insertion order, \<open>BigInt\<close> and
    the number parsers are functions on texts. The prelude also holds the contracts shared by the
    components as locales: conditional writes to keyed rows, systems with an invariant, and rows
    whose status moves along declared edges. Every one is interpreted on the model of the code.
  \<^item> \<^verbatim>\<open>Intent_Types\<close>, \<^verbatim>\<open>State_Machine\<close>, \<^verbatim>\<open>Intents_Repository\<close>: \<^verbatim>\<open>intents/intents.types.ts\<close>,
    \<^verbatim>\<open>intents/state-machine.ts\<close>, \<^verbatim>\<open>intents/intents.repository.ts\<close>. The planner accepts exactly the table,
    guarded writes follow it, stale versions never win, a fill and a slash exclude each other,
    settled intents stay settled, search pages are exact.
  \<^item> \<^verbatim>\<open>Solver_Fills\<close>, \<^verbatim>\<open>Intents_Service\<close>, \<^verbatim>\<open>Intents_Service_Props\<close>, \<^verbatim>\<open>Intents_Creation\<close>:
    \<^verbatim>\<open>intents/intents.service.ts\<close> and the fill ledger. The audit trail is the history of the stored
    state, the ledger never credits and blames one solver for one intent, parking and confirming
    round-trip, creation replays idempotency keys and respects the cap, eviction is exact.
  \<^item> \<^verbatim>\<open>Outbox\<close>: \<^verbatim>\<open>soroban/outbox.repository.ts\<close> and the relay. Rows of one intent are worked on in
    order, one at a time, and a worker whose lease was taken over changes nothing.
  \<^item> \<^verbatim>\<open>Partial_Fills\<close>, \<^verbatim>\<open>Partial_Fill_Service\<close>: \<^verbatim>\<open>intents/partial-fills\<close>. Reserved, filled and remaining
    amounts add up, a settled intent delivered its minimum, reservations are all or nothing, and the
    service refines the abstract tranche protocol.
  \<^item> \<^verbatim>\<open>Solvers\<close>, \<^verbatim>\<open>Solver_Griefing\<close>, \<^verbatim>\<open>Slashing_Pipeline\<close>, \<^verbatim>\<open>Sweeper\<close>: \<^verbatim>\<open>solvers\<close>,
    \<^verbatim>\<open>intents/slashing-pipeline.service.ts\<close>, \<^verbatim>\<open>intents/intents-sweeper.service.ts\<close>. A penalty settles once, a
    slash saga settles once and never early or blindly, a stuck slash is given up, a scan expires
    and slashes exactly what is due.
  \<^item> \<^verbatim>\<open>Amounts\<close>, \<^verbatim>\<open>Fees\<close>: \<^verbatim>\<open>common/amount.ts\<close>, \<^verbatim>\<open>auctions/dutch.ts\<close>, \<^verbatim>\<open>fees\<close>. Amounts round-trip through
    doubles where the code says so, quotes are within their bounds, the ledger balances.
  \<^item> \<^verbatim>\<open>Kill_Switch\<close>: \<^verbatim>\<open>killswitch\<close>. Evaluation is exact and fail-closed, a pause lasts until two operators
    have approved its end.
  \<^item> \<^verbatim>\<open>Lifecycle_Spec\<close>: the published \<^verbatim>\<open>formal/IntentLifecycle.tla\<close>, for all values of its constants. Its
    states are well typed, its actions are the lifecycle rows of the table, and every run of the
    guarded writes with the sweeper is a run of it.
  \<^item> \<^verbatim>\<open>Tx_Confirmation\<close>: \<^verbatim>\<open>soroban/tx-confirmation.service.ts\<close> and \<^verbatim>\<open>soroban/fee-escalation-policy.ts\<close>. A poll
    batch does what the network says, tracking ends, fee bumps are bounded, the blocking wait returns.
  \<^item> \<^verbatim>\<open>Chain_Sync\<close>: \<^verbatim>\<open>soroban/reconciler.service.ts\<close>, \<^verbatim>\<open>soroban/event-ingestion.service.ts\<close>, the batched reads of
    \<^verbatim>\<open>soroban/contracts/settlement.client.ts\<close>. Repairs only move towards the chain, a dry run reports
    exactly the divergences, redelivered events are skipped.
  \<^item> \<^verbatim>\<open>Protocol_Params\<close>: \<^verbatim>\<open>governance/params.service.ts\<close>. Parameters stay within the hard bounds and a
    version names one set of them.
  \<^item> \<^verbatim>\<open>Job_Queue\<close>, \<^verbatim>\<open>Job_Queue_Props\<close>: \<^verbatim>\<open>jobs/memory-job-queue.driver.ts\<close>. Jobs are conserved, limits hold,
    a queue with work never stalls, the next job is the first of the best priority.
  \<^item> \<^verbatim>\<open>Ip_Allowlist\<close>, \<^verbatim>\<open>Circuit_Breaker\<close>, \<^verbatim>\<open>Http_Egress\<close>: \<^verbatim>\<open>auth/solver-credentials/ip-allowlist.ts\<close> and
    \<^verbatim>\<open>common/http-egress\<close>. Allowlists and the private-address filter are exact, breakers fail fast, every
    hop of a request was resolved and validated.
  \<^item> \<^verbatim>\<open>Request_Guards\<close>: the in-process stores of \<^verbatim>\<open>auth/sep10\<close>, \<^verbatim>\<open>auth/rate-limit\<close> and
    \<^verbatim>\<open>common/signature-nonce.service.ts\<close>. Nonces are used once, signatures are not replayed, revocations
    last, the rate limit is exact.
  \<^item> \<^verbatim>\<open>Disputes\<close>: \<^verbatim>\<open>disputes/*.ts\<close>. A dispute is decided once and refunded exactly when overturned.

  \<^bold>\<open>How state and effects are modelled.\<close> Each store is a \<open>record\<close> passed and returned; a handler is one
  step, since the process runs it without interruption between the awaits that matter, and where an
  await matters (the relay, the saga, the job queue) it is split into the steps before and after. Time
  is an argument. What the code asks of others, that is contract and RPC answers, DNS, URL parsing,
  JSON and XDR codecs and job handlers, is an argument or a record of functions. Amounts are decimal
  texts parsed to integers as in the code; 32-bit arithmetic is on \<open>32 word\<close>. Fractional numbers are
  rationals, rounded to doubles by \<open>to_double\<close> where the rounding decides the result. Timestamps are
  integers. Characters are eight bits wide. Logging, metrics and tracing are left out.

  \<^bold>\<open>Loops and bounds.\<close> There is no fuel. Loops over lists are structural recursions; the drain of a
  queue and the redirects of a request are \<open>function\<close>s with a measure (waiting jobs, redirects left).
  The two loops that end only by their arguments, the blocking wait for a confirmation and the batched
  contract reads, are \<open>partial_function\<close>s into \<open>option\<close>, and that they return is proved: with a positive
  poll interval, and with a positive batch size.

  \<^bold>\<open>Helper definitions.\<close> Where a function is split, its pieces stand next to it and translate part of
  the lines of that function.

  \<^bold>\<open>Findings.\<close> Where the code does not do what its comments or documents say, a lemma near the end of
  the theory exhibits it, for instance \<^verbatim>\<open>Chain_Sync.late_fill_not_adopted\<close>,
  \<^verbatim>\<open>Tx_Confirmation.bump_loses_original\<close>, \<^verbatim>\<open>Http_Egress.redirect_leaves_allowlist\<close>,
  \<^verbatim>\<open>Kill_Switch.wildcard_pause_lost\<close>, \<^verbatim>\<open>Job_Queue_Props.cancelled_key_stays_taken\<close>.

  \<^bold>\<open>Not modelled.\<close> HTTP controllers, guards, WebSocket gateways and module wiring, which are framework
  declarations around the services above. The Prisma adapters and everything that is SQL, since the
  database is not in the sources; the in-memory adapters of the same interfaces are modelled. The
  Stellar SDK, its envelopes and signatures, EVM log readers, Redis (backplane, caches, leader election,
  BullMQ driver) and third-party cryptography. Analytics, archival, datasets, statistics, reputation
  scores, health probes and metrics, which report and decide nothing. The scheduled windows of the kill
  switch, whose type is declared nowhere. Solver SDK, simulator, canary and maintenance scripts, which
  run outside the backend.
\<close>

end
